(* ===== verification/Prelude.thy ===== *)
theory Prelude
  imports Main "HOL-Library.Word" "HOL-Library.Monad_Syntax"
begin

text \<open>
  Shared vocabulary of the Fabric OS development: the machine integer types of the
  Rust sources, little-endian encoding, cyclic distances on index rings, and the
  list lemmas that the components have in common.

  Conventions. The kernel is built with \<^verbatim>\<open>cargo build --release\<close> (\<^verbatim>\<open>Makefile\<close>), with
  \<^verbatim>\<open>panic = "abort"\<close> and without overflow checks, so \<open>u8\<close> to \<open>u64\<close> are words whose
  \<open>+\<close>, \<open>-\<close> and \<open>*\<close> wrap around and \<open>debug_assert!\<close> is not modelled. A \<open>usize\<close> that
  only ever indexes or counts a bounded container is a natural number. An operation
  that may panic (an index out of range, an \<open>expect\<close>) or may loop for ever has a
  result of type \<open>'a run\<close>: \<open>None\<close> is a call that never returns.
\<close>

unbundle bit_operations_syntax

type_synonym u8 = "8 word"
type_synonym u16 = "16 word"
type_synonym u32 = "32 word"
type_synonym u64 = "64 word"
type_synonym 'a run = "'a option"

named_theorems ring_simps \<open>cyclic distances on an index ring, as linear arithmetic\<close>
named_theorems fm_laws \<open>what the operations of the hash map do to its contents\<close>

section \<open>Rust integer operations\<close>

definition saturating_sub :: "'a::len word \<Rightarrow> 'a word \<Rightarrow> 'a word" where
  "saturating_sub a b = (if b \<le> a then a - b else 0)"

definition saturating_add :: "'a::len word \<Rightarrow> 'a word \<Rightarrow> 'a word" where
  "saturating_add a b = (if a \<le> a + b then a + b else - 1)"

definition saturating_mul :: "'a::len word \<Rightarrow> 'a word \<Rightarrow> 'a word" where
  "saturating_mul a b = (if unat a * unat b < 2 ^ LENGTH('a) then a * b else - 1)"

definition clamp :: "'a::linorder \<Rightarrow> 'a \<Rightarrow> 'a \<Rightarrow> 'a" where
  "clamp x lo hi = (if x < lo then lo else if hi < x then hi else x)"

lemma clamp_bounds: "lo \<le> hi \<Longrightarrow> lo \<le> clamp x lo hi \<and> clamp x lo hi \<le> hi"
  by (auto simp: clamp_def)

lemma saturating_sub_le: "saturating_sub a b \<le> a"
  by (simp add: saturating_sub_def word_sub_le)

lemma unat_bound: "unat (w :: 'a::len word) < 2 ^ LENGTH('a)"
  by (rule unsigned_less)

lemma unat_saturating_sub: "unat (saturating_sub a b) = unat a - unat b"
  by (auto simp: saturating_sub_def unat_sub word_le_nat_alt)

lemma unat_Suc_word: "unat w < n \<Longrightarrow> n < 2 ^ LENGTH('a) \<Longrightarrow> unat ((w :: 'a::len word) + 1) = Suc (unat w)"
  by (subst unat_add_lem [THEN iffD1]) (auto simp: unat_1)

section \<open>Little-endian bytes\<close>

text \<open>\<open>to_le_bytes\<close>: byte \<open>i\<close> holds bits \<open>8 * i\<close> to \<open>8 * i + 7\<close>.\<close>

definition le_bytes :: "nat \<Rightarrow> 'a::len word \<Rightarrow> u8 list" where
  "le_bytes n w = map (\<lambda>i. ucast (drop_bit (8 * i) w)) [0..<n]"

lemma length_le_bytes [simp]: "length (le_bytes n w) = n"
  by (simp add: le_bytes_def)

lemma le_bytes_inj:
  fixes v w :: "'a::len word"
  assumes eq: "le_bytes n v = le_bytes n w" and len: "LENGTH('a) \<le> 8 * n"
  shows "v = w"
proof (rule bit_word_eqI)
  fix j assume j: "j < LENGTH('a)"
  have i: "j div 8 < n" using j len by (simp add: less_mult_imp_div_less)
  with eq have "(ucast (drop_bit (8 * (j div 8)) v) :: u8) = ucast (drop_bit (8 * (j div 8)) w)"
    by (simp add: le_bytes_def)
  then have "bit (ucast (drop_bit (8 * (j div 8)) v) :: u8) (j mod 8)
      = bit (ucast (drop_bit (8 * (j div 8)) w) :: u8) (j mod 8)"
    by simp
  then show "bit v j = bit w j"
    by (simp add: bit_ucast_iff bit_drop_bit_eq)
qed

lemma le_bytes_eq_iff [simp]:
  "LENGTH('a) \<le> 8 * n \<Longrightarrow> le_bytes n (v :: 'a::len word) = le_bytes n w \<longleftrightarrow> v = w"
  using le_bytes_inj by blast

lemma le_bytes_Suc: "le_bytes (Suc n) w = ucast w # le_bytes n (drop_bit 8 w)"
proof -
  have "[0..<Suc n] = 0 # map Suc [0..<n]" by (simp add: map_Suc_upt upt_conv_Cons del: upt_Suc)
  then show ?thesis by (simp add: le_bytes_def o_def add.commute del: upt_Suc)
qed

text \<open>\<open>from_le_bytes\<close> and the network order of \<open>to_be_bytes\<close> and \<open>from_be_bytes\<close>.\<close>

fun from_le :: "u8 list \<Rightarrow> 'a::len word" where
  "from_le [] = 0"
| "from_le (b # bs) = ucast b OR push_bit 8 (from_le bs)"

definition be_bytes :: "nat \<Rightarrow> 'a::len word \<Rightarrow> u8 list" where
  "be_bytes n w = rev (le_bytes n w)"

definition from_be :: "u8 list \<Rightarrow> 'a::len word" where
  "from_be bs = from_le (rev bs)"

lemma length_be_bytes [simp]: "length (be_bytes n w) = n"
  by (simp add: be_bytes_def)

lemma from_le_bytes: "from_le (le_bytes n w) = take_bit (8 * n) (w :: 'a::len word)"
proof (induction n arbitrary: w)
  case 0
  then show ?case by (simp add: le_bytes_def)
next
  case (Suc n)
  have "ucast (ucast w :: u8) OR push_bit 8 (take_bit (8 * n) (drop_bit 8 w)) = take_bit (8 * Suc n) w"
    by (rule bit_word_eqI) (auto simp: bit_or_iff bit_ucast_iff bit_push_bit_iff bit_take_bit_iff bit_drop_bit_eq)
  then show ?case by (simp add: le_bytes_Suc Suc)
qed

lemma from_be_bytes [simp]: "LENGTH('a) \<le> 8 * n \<Longrightarrow> from_be (be_bytes n w) = (w :: 'a::len word)"
  by (simp add: from_be_def be_bytes_def from_le_bytes take_bit_word_eq_self)

lemma from_be_bytes_16 [simp]: "from_be [ucast (drop_bit 8 w), ucast w] = (w :: u16)"
  using from_be_bytes [of 2 w] by (simp add: be_bytes_def numeral_2_eq_2 le_bytes_Suc) (simp add: le_bytes_def)

lemma from_be_2: "from_be [a, b] = push_bit 8 (ucast a) OR (ucast b :: 'a::len word)"
  by (simp add: from_be_def or.commute)

lemma be_bytes_2 [simp]: "be_bytes 2 w = [ucast (drop_bit 8 w), ucast w]"
  by (simp add: be_bytes_def numeral_2_eq_2 le_bytes_Suc) (simp add: le_bytes_def)

lemma be_bytes_4 [simp]:
  "be_bytes 4 w = [ucast (drop_bit 24 w), ucast (drop_bit 16 w), ucast (drop_bit 8 w), ucast w]"
proof -
  have "le_bytes (Suc (Suc (Suc (Suc 0)))) w = [ucast w, ucast (drop_bit 8 w), ucast (drop_bit 16 w), ucast (drop_bit 24 w)]"
    by (simp only: le_bytes_Suc drop_bit_drop_bit) (simp add: le_bytes_def)
  then show ?thesis by (simp add: be_bytes_def numeral_eq_Suc)
qed

lemma from_be_bytes_32 [simp]:
  "from_be [ucast (drop_bit 24 w), ucast (drop_bit 16 w), ucast (drop_bit 8 w), ucast w] = (w :: u32)"
  using from_be_bytes [of 4 w] by simp

section \<open>Cyclic distance\<close>

text \<open>How many steps forward lead from \<open>a\<close> to \<open>b\<close> on a ring of \<open>n\<close> positions.\<close>

definition cdist :: "nat \<Rightarrow> nat \<Rightarrow> nat \<Rightarrow> nat" where
  "cdist n a b = (if a \<le> b then b - a else b + n - a)"

lemma cdist_less [ring_simps]: "a < n \<Longrightarrow> b < n \<Longrightarrow> cdist n a b < n"
  by (auto simp: cdist_def)

lemma cdist_self [simp]: "cdist n a a = 0"
  by (simp add: cdist_def)

lemma cdist_eq_0: "a < n \<Longrightarrow> b < n \<Longrightarrow> cdist n a b = 0 \<longleftrightarrow> a = b"
  by (auto simp: cdist_def)

lemma mod_Suc_ring: "c < n \<Longrightarrow> Suc c mod n = (if Suc c = n then 0 else Suc c)"
  by simp

lemma cdist_add_mod:
  assumes "a < n" "j < n" shows "cdist n a ((a + j) mod n) = j"
proof (cases "a + j < n")
  case True
  then show ?thesis by (simp add: cdist_def)
next
  case False
  then have "(a + j) mod n = a + j - n"
    using assms by (simp add: mod_if)
  then show ?thesis using assms False by (auto simp: cdist_def)
qed

lemma add_cdist_mod:
  assumes "a < n" "b < n" shows "(a + cdist n a b) mod n = b"
  using assms by (auto simp: cdist_def)

lemma cdist_Suc:
  assumes "a < n" "c < n" "Suc (cdist n a c) < n"
  shows "cdist n a (Suc c mod n) = Suc (cdist n a c)"
  using assms by (auto simp: cdist_def mod_Suc_ring)

lemma cdist_from_Suc:
  assumes "c < n" "q < n" "c \<noteq> q"
  shows "Suc (cdist n (Suc c mod n) q) = cdist n c q"
  using assms by (auto simp: cdist_def mod_Suc_ring)

lemma int_cdist:
  "a < n \<Longrightarrow> int (cdist n a b) = (if int a \<le> int b then int b - int a else int b + int n - int a)"
  by (simp add: cdist_def of_nat_diff)

lemma cdist_inj: "a < n \<Longrightarrow> p < n \<Longrightarrow> q < n \<Longrightarrow> cdist n a p = cdist n a q \<longleftrightarrow> p = q"
  by (auto simp: cdist_def split: if_splits)

text \<open>If \<open>g\<close> comes before \<open>p\<close> when walking from \<open>h\<close>, and \<open>c\<close> before \<open>p\<close> when walking
  from \<open>g\<close>, then \<open>c\<close> comes before \<open>p\<close> when walking from \<open>h\<close>.\<close>

lemma int_ring_between:
  "\<lbrakk>(if h \<le> g then g - h else g + n - h) < (if h \<le> p then p - h else p + n - h);
    \<not> (if g \<le> p then p - g else p + n - g) < (if g \<le> c then c - g else c + n - g);
    0 \<le> h; 0 \<le> g; 0 \<le> c; 0 \<le> p; h < n; g < n; c < n; p < n; p \<noteq> c\<rbrakk>
   \<Longrightarrow> (if h \<le> c then c - h else c + n - h) < (if h \<le> p then p - h else p + n - (h :: int))"
  by (auto split: if_splits)

lemma cdist_between:
  assumes "h < n" "g < n" "c < n" "p < n" "p \<noteq> c"
    and "cdist n h g < cdist n h p" "\<not> cdist n g p < cdist n g c"
  shows "cdist n h c < cdist n h p"
proof -
  have "int (cdist n h g) < int (cdist n h p)" "\<not> int (cdist n g p) < int (cdist n g c)"
    using assms by simp_all
  moreover have "0 \<le> int h" "0 \<le> int g" "0 \<le> int c" "0 \<le> int p" "int h < int n" "int g < int n" "int c < int n" "int p < int n" "int p \<noteq> int c"
    using assms by simp_all
  ultimately have "int (cdist n h c) < int (cdist n h p)"
    unfolding int_cdist [OF assms(1)] int_cdist [OF assms(2)] by (rule int_ring_between)
  then show ?thesis by simp
qed

section \<open>Power-of-two masks\<close>

lemma and_pow2_minus_1 [simp]: "(x :: nat) AND (2 ^ k - 1) = x mod 2 ^ k"
  by (metis mask_eq_exp_minus_1 take_bit_eq_mask take_bit_eq_mod)

lemma and_pow2_minus_Suc [simp]: "(x :: nat) AND (2 ^ k - Suc 0) = x mod 2 ^ k"
  using and_pow2_minus_1 [of x k] by simp

section \<open>Lists\<close>

lemma nth_list_update_if:
  "j < length xs \<Longrightarrow> (xs[i := x]) ! j = (if i = j then x else xs ! j)"
  by simp

lemma filter_update_absent:
  assumes "i < length xs" "\<not> P (xs ! i)" "P x"
  shows "length (filter P (xs[i := x])) = Suc (length (filter P xs))"
proof -
  have "xs = take i xs @ xs ! i # drop (Suc i) xs"
    using assms(1) by (rule id_take_nth_drop)
  then have "length (filter P xs) = length (filter P (take i xs)) + length (filter P (drop (Suc i) xs))"
    using assms(2) by (metis filter.simps(2) filter_append length_append)
  then show ?thesis
    using assms by (simp add: upd_conv_take_nth_drop)
qed

lemma filter_update_present:
  assumes "i < length xs" "P (xs ! i)" "\<not> P x"
  shows "Suc (length (filter P (xs[i := x]))) = length (filter P xs)"
  using filter_update_absent [of i "xs[i := x]" P "xs ! i"] assms by simp

lemma filter_update_same:
  assumes "i < length xs" "P (xs ! i) = P x"
  shows "length (filter P (xs[i := x])) = length (filter P xs)"
proof -
  have "xs = take i xs @ xs ! i # drop (Suc i) xs"
    using assms(1) by (rule id_take_nth_drop)
  then have "length (filter P xs) = length (filter P (take i xs)) + length (filter P [xs ! i])
      + length (filter P (drop (Suc i) xs))"
    by (metis append_Cons append_Nil filter_append length_append add.assoc)
  moreover have "length (filter P (xs[i := x])) = length (filter P (take i xs)) + length (filter P [x])
      + length (filter P (drop (Suc i) xs))"
    using assms(1) by (simp add: upd_conv_take_nth_drop)
  ultimately show ?thesis using assms(2) by simp
qed

lemma filter_all_Some: "None \<notin> set xs \<Longrightarrow> filter (\<lambda>x. x \<noteq> None) xs = xs"
  by (induction xs) (simp_all add: eq_commute [of None])

text \<open>A loop over a container that stops at the first element that satisfies a test.\<close>

primrec find_slot :: "('a \<Rightarrow> bool) \<Rightarrow> 'a list \<Rightarrow> nat option" where
  "find_slot p [] = None"
| "find_slot p (x # xs) = (if p x then Some 0 else map_option Suc (find_slot p xs))"

lemma find_slot_None: "find_slot p xs = None \<longleftrightarrow> (\<forall>x \<in> set xs. \<not> p x)"
  by (induction xs) auto

lemma find_slot_Some: "find_slot p xs = Some i \<longleftrightarrow> i < length xs \<and> p (xs ! i) \<and> (\<forall>j < i. \<not> p (xs ! j))"
proof (induction xs arbitrary: i)
  case (Cons x xs)
  show ?case
  proof (cases "p x")
    case True
    then show ?thesis by (cases i) auto
  next
    case False
    then show ?thesis using Cons.IH by (cases i) (auto simp: All_less_Suc2)
  qed
qed simp

lemma find_slot_SomeD: "find_slot p xs = Some i \<Longrightarrow> i < length xs \<and> p (xs ! i)"
  by (simp add: find_slot_Some)

section \<open>Runs that return\<close>

text \<open>\<open>run_ok P r\<close>: the call returns, and what it returns satisfies \<open>P\<close>.\<close>

definition run_ok :: "('a \<Rightarrow> bool) \<Rightarrow> 'a run \<Rightarrow> bool" where
  "run_ok P r \<longleftrightarrow> (\<exists>x. r = Some x \<and> P x)"

lemma run_ok_Some [simp]: "run_ok P (Some x) \<longleftrightarrow> P x"
  by (simp add: run_ok_def)

lemma run_ok_bind: "run_ok P r \<Longrightarrow> (\<And>x. r = Some x \<Longrightarrow> P x \<Longrightarrow> run_ok Q (f x)) \<Longrightarrow> run_ok Q (r \<bind> f)"
  by (auto simp: run_ok_def)

lemma run_ok_mono: "run_ok P r \<Longrightarrow> (\<And>x. P x \<Longrightarrow> Q x) \<Longrightarrow> run_ok Q r"
  by (auto simp: run_ok_def)

lemma run_okE: "run_ok P r \<Longrightarrow> (\<And>x. r = Some x \<Longrightarrow> P x \<Longrightarrow> R) \<Longrightarrow> R"
  by (auto simp: run_ok_def)

lemma run_ok_if: "(c \<Longrightarrow> run_ok P r) \<Longrightarrow> (\<not> c \<Longrightarrow> run_ok P s) \<Longrightarrow> run_ok P (if c then r else s)"
  by simp

end
