(* ===== verification/Fabric_Types.thy ===== *)
theory Fabric_Types
  imports Prelude
begin

text \<open>
  The wire types shared by the kernel and its clients (\<^verbatim>\<open>fabric_types/src\<close>): identifiers,
  permission bits, the capability token, the message header and the audit entry, with
  the byte strings that are signed or hashed. The new-type wrappers of \<^verbatim>\<open>ids.rs\<close> are the
  words they wrap.
\<close>

section \<open>Identifiers (\<^verbatim>\<open>ids.rs\<close>)\<close>

type_synonym capability_id = u64
type_synonym resource_id = u64
type_synonym process_id = u32
type_synonym type_id = u16
type_synonym timestamp = u64
type_synonym bytes = "u8 list"

definition PID_KERNEL :: process_id where "PID_KERNEL = 0"
definition PID_BUTLER :: process_id where "PID_BUTLER = 1"

definition resource_kind :: "resource_id \<Rightarrow> u16" where
  "resource_kind r = ucast (drop_bit 48 r)"

definition resource_specific :: "resource_id \<Rightarrow> u64" where
  "resource_specific r = r AND 0x0000FFFFFFFFFFFF"

section \<open>Permissions and tokens (\<^verbatim>\<open>capability.rs\<close>)\<close>

type_synonym perm = u16

definition PERM_NONE :: perm where "PERM_NONE = 0"
definition PERM_READ :: perm where "PERM_READ = 1"
definition PERM_WRITE :: perm where "PERM_WRITE = 2"
definition PERM_EXECUTE :: perm where "PERM_EXECUTE = 4"
definition PERM_GRANT :: perm where "PERM_GRANT = 8"
definition PERM_REVOKE :: perm where "PERM_REVOKE = 16"

definition perm_contains :: "perm \<Rightarrow> perm \<Rightarrow> bool" where
  "perm_contains p other \<longleftrightarrow> p AND other = other"

definition perm_is_subset_of :: "perm \<Rightarrow> perm \<Rightarrow> bool" where
  "perm_is_subset_of p parent \<longleftrightarrow> p AND NOT parent = 0"

definition perm_union :: "perm \<Rightarrow> perm \<Rightarrow> perm" where
  "perm_union p other = p OR other"

definition perm_intersect :: "perm \<Rightarrow> perm \<Rightarrow> perm" where
  "perm_intersect p other = p AND other"

record budget =
  max_uses :: u32
  interval_ticks :: u64

record capability_token =
  ct_version :: u16
  ct_permissions :: perm
  ct_owner :: process_id
  ct_id :: capability_id
  ct_resource :: resource_id
  ct_delegated_from :: u64
  ct_nonce :: u32
  ct_expires :: u32
  ct_extension_ptr :: u64
  ct_reserved :: bytes

definition TOKEN_VERSION :: u16 where "TOKEN_VERSION = 1"

definition token_zeroed :: capability_token where
  "token_zeroed = \<lparr>ct_version = 0, ct_permissions = PERM_NONE, ct_owner = 0, ct_id = 0, ct_resource = 0,
     ct_delegated_from = 0, ct_nonce = 0, ct_expires = 0, ct_extension_ptr = 0, ct_reserved = replicate 16 0\<rparr>"

definition token_active_bytes :: "capability_token \<Rightarrow> bytes" where
  "token_active_bytes t =
     le_bytes 2 (ct_version t) @ le_bytes 2 (ct_permissions t) @ le_bytes 4 (ct_owner t) @
     le_bytes 8 (ct_id t) @ le_bytes 8 (ct_resource t) @ le_bytes 8 (ct_delegated_from t) @
     le_bytes 4 (ct_nonce t) @ le_bytes 4 (ct_expires t)"

definition token_is_root :: "capability_token \<Rightarrow> bool" where
  "token_is_root t \<longleftrightarrow> ct_delegated_from t = 0"

section \<open>Message header (\<^verbatim>\<open>message.rs\<close>)\<close>

record message_header =
  mh_version :: u16
  mh_msg_type :: type_id
  mh_sender :: process_id
  mh_receiver :: process_id
  mh_payload_len :: u32
  mh_capability_id :: u64
  mh_sequence :: u64
  mh_timestamp :: timestamp
  mh_extension_ptr :: u64
  mh_reserved :: bytes

definition MESSAGE_VERSION :: u16 where "MESSAGE_VERSION = 1"

definition header_zeroed :: message_header where
  "header_zeroed = \<lparr>mh_version = 0, mh_msg_type = 0, mh_sender = 0, mh_receiver = 0, mh_payload_len = 0,
     mh_capability_id = 0, mh_sequence = 0, mh_timestamp = 0, mh_extension_ptr = 0, mh_reserved = replicate 16 0\<rparr>"

definition header_active_bytes :: "message_header \<Rightarrow> bytes" where
  "header_active_bytes h =
     le_bytes 2 (mh_version h) @ le_bytes 2 (mh_msg_type h) @ le_bytes 4 (mh_sender h) @
     le_bytes 4 (mh_receiver h) @ le_bytes 4 (mh_payload_len h) @ le_bytes 8 (mh_capability_id h) @
     le_bytes 8 (mh_sequence h) @ le_bytes 8 (mh_timestamp h)"

definition header_has_payload :: "message_header \<Rightarrow> bool" where
  "header_has_payload h \<longleftrightarrow> mh_payload_len h > 0"

section \<open>Audit entry (\<^verbatim>\<open>audit.rs\<close>)\<close>

datatype audit_action =
    MessageSent | MessageDelivered | MessageRejected | CapValidated | CapDenied
  | SequenceViolation | HmacFailure | QueueFull | MonitorNotify | PolicyViolation

fun action_code :: "audit_action \<Rightarrow> u8" where
  "action_code MessageSent = 1"
| "action_code MessageDelivered = 2"
| "action_code MessageRejected = 3"
| "action_code CapValidated = 4"
| "action_code CapDenied = 5"
| "action_code SequenceViolation = 6"
| "action_code HmacFailure = 7"
| "action_code QueueFull = 8"
| "action_code MonitorNotify = 9"
| "action_code PolicyViolation = 10"

record audit_entry =
  ae_sequence :: u64
  ae_timestamp :: timestamp
  ae_actor :: process_id
  ae_action :: audit_action
  ae_target :: process_id
  ae_msg_type :: type_id
  ae_capability_id :: u64
  ae_msg_sequence :: u64
  ae_prev_hash :: bytes
  ae_hash :: bytes

definition entry_zeroed :: audit_entry where
  "entry_zeroed = \<lparr>ae_sequence = 0, ae_timestamp = 0, ae_actor = 0, ae_action = MessageSent, ae_target = 0,
     ae_msg_type = 0, ae_capability_id = 0, ae_msg_sequence = 0,
     ae_prev_hash = replicate 32 0, ae_hash = replicate 32 0\<rparr>"

definition hashable_bytes :: "audit_entry \<Rightarrow> bytes" where
  "hashable_bytes e =
     le_bytes 8 (ae_sequence e) @ le_bytes 8 (ae_timestamp e) @ le_bytes 4 (ae_actor e) @
     [action_code (ae_action e)] @ [0, 0, 0] @ le_bytes 4 (ae_target e) @ le_bytes 2 (ae_msg_type e) @
     [0, 0] @ ae_prev_hash e"

section \<open>Facts\<close>

lemma perm_subset_contains: "perm_is_subset_of p q \<longleftrightarrow> perm_contains q p"
proof -
  have "p AND NOT q = 0 \<longleftrightarrow> (\<forall>n < 16. bit p n \<longrightarrow> bit q n)"
    by (auto simp: bit_eq_iff [of "p AND NOT q"] bit_simps dest: bit_imp_le_length)
  moreover have "q AND p = p \<longleftrightarrow> (\<forall>n < 16. bit p n \<longrightarrow> bit q n)"
    by (auto simp: bit_eq_iff [of "q AND p"] bit_simps dest: bit_imp_le_length)
  ultimately show ?thesis by (simp add: perm_is_subset_of_def perm_contains_def)
qed

lemma perm_contains_bits: "perm_contains p q \<longleftrightarrow> (\<forall>n. bit q n \<longrightarrow> bit p n)"
proof
  assume "perm_contains p q"
  then show "\<forall>n. bit q n \<longrightarrow> bit p n" by (metis bit_and_iff perm_contains_def)
next
  assume "\<forall>n. bit q n \<longrightarrow> bit p n"
  then have "p AND q = q" by (intro bit_word_eqI) (auto simp: bit_and_iff)
  then show "perm_contains p q" by (simp add: perm_contains_def)
qed

lemma perm_contains_refl [simp]: "perm_contains p p"
  by (simp add: perm_contains_bits)

lemma perm_contains_trans: "perm_contains p q \<Longrightarrow> perm_contains q r \<Longrightarrow> perm_contains p r"
  by (auto simp: perm_contains_bits)

lemma action_code_inj: "action_code a = action_code b \<Longrightarrow> a = b"
  by (cases a; cases b) simp_all

text \<open>The signed bytes determine every active field.\<close>

lemma length_token_active_bytes: "length (token_active_bytes t) = 40"
  by (simp add: token_active_bytes_def)

lemma length_header_active_bytes: "length (header_active_bytes h) = 40"
  by (simp add: header_active_bytes_def)

lemma token_active_bytes_inj:
  assumes "token_active_bytes s = token_active_bytes t"
  shows "ct_version s = ct_version t \<and> ct_permissions s = ct_permissions t \<and> ct_owner s = ct_owner t \<and>
    ct_id s = ct_id t \<and> ct_resource s = ct_resource t \<and> ct_delegated_from s = ct_delegated_from t \<and>
    ct_nonce s = ct_nonce t \<and> ct_expires s = ct_expires t"
  using assms by (simp add: token_active_bytes_def)

lemma header_active_bytes_inj:
  assumes "header_active_bytes g = header_active_bytes h"
  shows "mh_version g = mh_version h \<and> mh_msg_type g = mh_msg_type h \<and> mh_sender g = mh_sender h \<and>
    mh_receiver g = mh_receiver h \<and> mh_payload_len g = mh_payload_len h \<and>
    mh_capability_id g = mh_capability_id h \<and> mh_sequence g = mh_sequence h \<and> mh_timestamp g = mh_timestamp h"
  using assms by (simp add: header_active_bytes_def)

lemma hashable_bytes_inj:
  assumes "hashable_bytes d = hashable_bytes e"
  shows "ae_sequence d = ae_sequence e \<and> ae_timestamp d = ae_timestamp e \<and> ae_actor d = ae_actor e \<and>
    ae_action d = ae_action e \<and> ae_target d = ae_target e \<and> ae_msg_type d = ae_msg_type e \<and>
    ae_prev_hash d = ae_prev_hash e"
  using assms by (simp add: hashable_bytes_def action_code_inj)

lemma resource_split:
  "push_bit 48 (ucast (resource_kind r)) OR resource_specific r = r"
proof -
  have m: "(0x0000FFFFFFFFFFFF :: u64) = mask 48" by (simp add: mask_eq_exp_minus_1)
  have "resource_specific r = take_bit 48 r"
    unfolding resource_specific_def m by (simp add: take_bit_eq_mask)
  then show ?thesis
    by (intro bit_word_eqI) (auto simp: resource_kind_def bit_simps)
qed

end
