(* ===== verification/Fixed_Map.thy ===== *)
theory Fixed_Map
  imports Prelude "HOL-Library.Multiset"
begin

text \<open>
  The hash table of \<^verbatim>\<open>kernel/src/capability/slab.rs\<close>: open addressing with Fibonacci
  hashing, linear probing and backward-shift deletion. The capability store, the budget
  tracker and the nonce tracker keep their entries in it.

  The probe loops of the source have no bound: on a table without an empty slot they
  run for ever. They are \<open>partial_function (option)\<close> here, and the theory proves that
  they return on every well-formed table. The contents of a table are the map
  \<open>fm_abs\<close>; the locale \<open>u64_map\<close> states what a client may rely on, and the
  interpretation at the end shows that the table provides it.
\<close>

section \<open>The table\<close>

record 'v fixed_map =
  fm_slots :: "(u64 \<times> 'v) option list option"
  fm_capacity :: nat
  fm_mask :: nat
  fm_len :: nat

definition DEFAULT_CAPACITY :: nat where
  "DEFAULT_CAPACITY = 16384"

definition fib_hash :: "u64 \<Rightarrow> nat \<Rightarrow> nat" where
  "fib_hash key msk = (let h = key * 0x9E3779B97F4A7C15 in unat (drop_bit 32 h) AND msk)"

definition fm_new :: "'v fixed_map" where
  "fm_new = \<lparr>fm_slots = None, fm_capacity = 0, fm_mask = 0, fm_len = 0\<rparr>"

definition alloc_slots :: "'v fixed_map \<Rightarrow> nat \<Rightarrow> 'v fixed_map" where
  "alloc_slots m capacity =
     m\<lparr>fm_slots := Some (replicate capacity None), fm_capacity := capacity, fm_mask := capacity - 1\<rparr>"

definition ensure_init :: "'v fixed_map \<Rightarrow> 'v fixed_map" where
  "ensure_init m = (if fm_slots m = None then alloc_slots m DEFAULT_CAPACITY else m)"

definition fm_is_empty :: "'v fixed_map \<Rightarrow> bool" where
  "fm_is_empty m \<longleftrightarrow> fm_len m = 0"

text \<open>
  The scan shared by \<open>insert\<close>, \<open>get\<close>, \<open>get_mut\<close> and \<open>remove\<close>: from slot \<open>idx\<close> on, the
  first slot that is empty or holds \<open>key\<close>.
\<close>

partial_function (option) fm_probe ::
  "(u64 \<times> 'v) option list \<Rightarrow> nat \<Rightarrow> u64 \<Rightarrow> nat \<Rightarrow> nat run" where
  "fm_probe slots msk key idx =
     (if idx < length slots then
        (case slots ! idx of
           None \<Rightarrow> Some idx
         | Some kv \<Rightarrow> if fst kv = key then Some idx else fm_probe slots msk key ((idx + 1) AND msk))
      else None)"

definition fm_insert :: "'v fixed_map \<Rightarrow> u64 \<Rightarrow> 'v \<Rightarrow> (bool \<times> 'v fixed_map) run" where
  "fm_insert m0 key value =
     (let m = ensure_init m0; msk = fm_mask m; cap = fm_capacity m; slots = the (fm_slots m) in
      do {
        idx \<leftarrow> fm_probe slots msk key (fib_hash key msk);
        Some (case slots ! idx of
            None \<Rightarrow>
              if fm_len m \<ge> cap * 3 div 4 then (False, m)
              else (True, m\<lparr>fm_slots := Some (slots[idx := Some (key, value)]), fm_len := fm_len m + 1\<rparr>)
          | Some _ \<Rightarrow> (True, m\<lparr>fm_slots := Some (slots[idx := Some (key, value)])\<rparr>))
      })"

definition fm_get :: "'v fixed_map \<Rightarrow> u64 \<Rightarrow> 'v option run" where
  "fm_get m key =
     (case fm_slots m of
        None \<Rightarrow> Some None
      | Some slots \<Rightarrow> do {
          idx \<leftarrow> fm_probe slots (fm_mask m) key (fib_hash key (fm_mask m));
          Some (map_option snd (slots ! idx))
        })"

text \<open>
  \<open>get_mut\<close> hands out a mutable reference; the model takes the update the caller makes
  through it. \<open>None\<close> as the inner result is \<open>get_mut\<close> returning no reference.
\<close>

definition fm_get_mut :: "'v fixed_map \<Rightarrow> u64 \<Rightarrow> ('v \<Rightarrow> 'v) \<Rightarrow> ('v option \<times> 'v fixed_map) run" where
  "fm_get_mut m key f =
     (case fm_slots m of
        None \<Rightarrow> Some (None, m)
      | Some slots \<Rightarrow> do {
          idx \<leftarrow> fm_probe slots (fm_mask m) key (fib_hash key (fm_mask m));
          Some (case slots ! idx of
              None \<Rightarrow> (None, m)
            | Some (k, v) \<Rightarrow> (Some v, m\<lparr>fm_slots := Some (slots[idx := Some (k, f v)])\<rparr>))
        })"

definition fm_contains_key :: "'v fixed_map \<Rightarrow> u64 \<Rightarrow> bool run" where
  "fm_contains_key m key = do { r \<leftarrow> fm_get m key; Some (r \<noteq> None) }"

text \<open>The backward shift of \<open>remove\<close>: \<open>gap\<close> is the hole, \<open>scan\<close> the slot being looked at.\<close>

definition should_move :: "nat \<Rightarrow> nat \<Rightarrow> nat \<Rightarrow> bool" where
  "should_move natural gap scan =
     (if natural \<le> scan then natural \<le> gap \<and> gap < scan else natural \<le> gap \<or> gap < scan)"

partial_function (option) fm_shift ::
  "(u64 \<times> 'v) option list \<Rightarrow> nat \<Rightarrow> nat \<Rightarrow> nat \<Rightarrow> (u64 \<times> 'v) option list run" where
  "fm_shift slots msk gap scan =
     (if scan < length slots then
        (case slots ! scan of
           None \<Rightarrow> Some slots
         | Some kv \<Rightarrow>
             if should_move (fib_hash (fst kv) msk) gap scan
             then fm_shift (slots[gap := slots ! scan, scan := slots ! gap]) msk scan ((scan + 1) AND msk)
             else fm_shift slots msk gap ((scan + 1) AND msk))
      else None)"

definition fm_remove :: "'v fixed_map \<Rightarrow> u64 \<Rightarrow> ('v option \<times> 'v fixed_map) run" where
  "fm_remove m key =
     (case fm_slots m of
        None \<Rightarrow> Some (None, m)
      | Some slots \<Rightarrow> do {
          idx \<leftarrow> fm_probe slots (fm_mask m) key (fib_hash key (fm_mask m));
          (case slots ! idx of
              None \<Rightarrow> Some (None, m)
            | Some (k, v) \<Rightarrow> do {
                slots' \<leftarrow> fm_shift (slots[idx := None]) (fm_mask m) idx ((idx + 1) AND fm_mask m);
                Some (Some v, m\<lparr>fm_slots := Some slots', fm_len := fm_len m - 1\<rparr>)
              })
        })"

text \<open>
  \<open>get_or_insert\<close> with the update its caller makes through the returned reference; the
  \<open>expect\<close> at its end panics when a full table refused the insertion.
\<close>

definition fm_get_or_insert :: "'v fixed_map \<Rightarrow> u64 \<Rightarrow> 'v \<Rightarrow> ('v \<Rightarrow> 'v) \<Rightarrow> ('v \<times> 'v fixed_map) run" where
  "fm_get_or_insert m0 key dflt f = do {
     let m1 = ensure_init m0;
     present \<leftarrow> fm_contains_key m1 key;
     m2 \<leftarrow> (if present then Some m1 else map_option snd (fm_insert m1 key dflt));
     (r, m3) \<leftarrow> fm_get_mut m2 key f;
     (case r of None \<Rightarrow> None | Some v \<Rightarrow> Some (v, m3))
   }"

definition fm_clear :: "'v fixed_map \<Rightarrow> 'v fixed_map" where
  "fm_clear m = m\<lparr>fm_slots := map_option (map (\<lambda>_. None)) (fm_slots m), fm_len := 0\<rparr>"

definition fm_iter :: "'v fixed_map \<Rightarrow> (u64 \<times> 'v) list" where
  "fm_iter m = (case fm_slots m of None \<Rightarrow> [] | Some slots \<Rightarrow> map the (filter (\<lambda>s. s \<noteq> None) slots))"

section \<open>Well-formed tables and their contents\<close>

text \<open>
  \<open>slots_abs\<close> is the finite map a slot array stands for. \<open>reach_ok\<close> is the probing
  invariant: no empty slot lies between the home slot of an entry and its place.
\<close>

definition holds :: "(u64 \<times> 'v) option list \<Rightarrow> u64 \<Rightarrow> nat \<Rightarrow> bool" where
  "holds s k i \<longleftrightarrow> i < length s \<and> (case s ! i of None \<Rightarrow> False | Some kv \<Rightarrow> fst kv = k)"

definition slots_abs :: "(u64 \<times> 'v) option list \<Rightarrow> u64 \<rightharpoonup> 'v" where
  "slots_abs s = map_of (map the (filter (\<lambda>x. x \<noteq> None) s))"

definition unique_keys :: "(u64 \<times> 'v) option list \<Rightarrow> bool" where
  "unique_keys s \<longleftrightarrow> (\<forall>i j k. holds s k i \<longrightarrow> holds s k j \<longrightarrow> i = j)"

definition reach_ok :: "nat \<Rightarrow> (u64 \<times> 'v) option list \<Rightarrow> bool" where
  "reach_ok n s \<longleftrightarrow>
     (\<forall>k p q. holds s k p \<longrightarrow> q < n \<longrightarrow>
        cdist n (fib_hash k (n - 1)) q < cdist n (fib_hash k (n - 1)) p \<longrightarrow> s ! q \<noteq> None)"

definition used_slots :: "(u64 \<times> 'v) option list \<Rightarrow> nat" where
  "used_slots s = length (filter (\<lambda>x. x \<noteq> None) s)"

definition slots_wf :: "nat \<Rightarrow> (u64 \<times> 'v) option list \<Rightarrow> bool" where
  "slots_wf n s \<longleftrightarrow> (\<exists>k. n = 2 ^ k) \<and> length s = n \<and> unique_keys s \<and> reach_ok n s"

definition fm_wf :: "'v fixed_map \<Rightarrow> bool" where
  "fm_wf m \<longleftrightarrow>
     (case fm_slots m of
        None \<Rightarrow> fm_capacity m = 0 \<and> fm_mask m = 0 \<and> fm_len m = 0
      | Some s \<Rightarrow> slots_wf (fm_capacity m) s \<and> fm_mask m = fm_capacity m - 1 \<and>
          fm_len m = used_slots s \<and> fm_len m \<le> fm_capacity m * 3 div 4)"

definition fm_abs :: "'v fixed_map \<Rightarrow> u64 \<rightharpoonup> 'v" where
  "fm_abs m = (case fm_slots m of None \<Rightarrow> Map.empty | Some s \<Rightarrow> slots_abs s)"

text \<open>How many entries the table takes before \<open>insert\<close> refuses a new key.\<close>

definition fm_limit :: "'v fixed_map \<Rightarrow> nat" where
  "fm_limit m = fm_capacity (ensure_init m) * 3 div 4"


subsection \<open>Contents of a slot array\<close>

lemma holds_iff: "holds s k i \<longleftrightarrow> i < length s \<and> (\<exists>v. s ! i = Some (k, v))"
  by (auto simp: holds_def split: option.splits)

lemma entry_mem_iff: "(k, v) \<in> set (map the (filter (\<lambda>x. x \<noteq> None) s)) \<longleftrightarrow> Some (k, v) \<in> set s"
  by force

lemma unique_keysD: "unique_keys s \<Longrightarrow> holds s k i \<Longrightarrow> holds s k j \<Longrightarrow> j = i"
  unfolding unique_keys_def by blast

lemma unique_keys_Cons:
  "unique_keys (x # s) \<longleftrightarrow> unique_keys s \<and> (\<forall>k v. x = Some (k, v) \<longrightarrow> (\<forall>i. \<not> holds s k i))"
  (is "?L \<longleftrightarrow> ?R")
proof
  assume L: ?L
  have "i = j" if "holds s k i" "holds s k j" for i j k
    using L [unfolded unique_keys_def, rule_format, of k "Suc i" "Suc j"] that by (simp add: holds_iff)
  moreover have "\<not> holds s k i" if "x = Some (k, v)" for k v i
    using L [unfolded unique_keys_def, rule_format, of k 0 "Suc i"] that by (auto simp: holds_iff)
  ultimately show ?R by (auto simp: unique_keys_def)
next
  assume R: ?R
  have "i = j" if "holds (x # s) k i" "holds (x # s) k j" for i j k
    using R that by (cases i; cases j) (auto simp: holds_iff unique_keys_def)
  then show ?L by (auto simp: unique_keys_def)
qed

lemma unique_keys_distinct:
  "unique_keys s \<Longrightarrow> distinct (map fst (map the (filter (\<lambda>x. x \<noteq> None) s)))"
proof (induction s)
  case Nil
  then show ?case by simp
next
  case (Cons x s)
  have IH: "distinct (map fst (map the (filter (\<lambda>x. x \<noteq> None) s)))"
    using Cons by (simp add: unique_keys_Cons)
  show ?case
  proof (cases x)
    case None
    then show ?thesis using IH by simp
  next
    case (Some kv)
    obtain k v where kv: "kv = (k, v)" by (cases kv)
    have "\<And>i. \<not> holds s k i" using Cons.prems Some kv by (auto simp: unique_keys_Cons)
    then have "Some (k, w) \<notin> set s" for w
      by (auto simp: in_set_conv_nth holds_iff)
    then have "k \<notin> set (map fst (map the (filter (\<lambda>x. x \<noteq> None) s)))"
      by (force simp: entry_mem_iff [symmetric])
    then show ?thesis using IH Some kv by simp
  qed
qed

lemma slots_abs_Some:
  "unique_keys s \<Longrightarrow> slots_abs s k = Some v \<longleftrightarrow> (\<exists>i < length s. s ! i = Some (k, v))"
  unfolding slots_abs_def map_of_eq_Some_iff [OF unique_keys_distinct] entry_mem_iff
  by (simp add: in_set_conv_nth)

lemma slots_abs_eqI:
  assumes "unique_keys s"
    and "\<And>k v. m k = Some v \<longleftrightarrow> (\<exists>i < length s. s ! i = Some (k, v))"
  shows "slots_abs s = m"
proof
  fix k
  have "slots_abs s k = Some v \<longleftrightarrow> m k = Some v" for v
    by (simp only: assms(2) slots_abs_Some [OF assms(1)])
  then show "slots_abs s k = m k"
    by (metis not_Some_eq)
qed

lemma slots_abs_None: "unique_keys s \<Longrightarrow> slots_abs s k = None \<longleftrightarrow> (\<forall>i. \<not> holds s k i)"
  using slots_abs_Some [of s k] by (metis holds_iff not_Some_eq)

lemma finite_dom_slots_abs: "finite (dom (slots_abs s))"
  by (simp add: slots_abs_def finite_dom_map_of)

lemma card_dom_slots_abs: "unique_keys s \<Longrightarrow> card (dom (slots_abs s)) = used_slots s"
  unfolding slots_abs_def used_slots_def
  by (simp only: dom_map_of_conv_image_fst distinct_card [OF unique_keys_distinct] length_map
        flip: set_map)

subsection \<open>Probing\<close>

lemma fib_hash_less: "n = 2 ^ k \<Longrightarrow> fib_hash key (n - 1) < n"
  by (simp add: fib_hash_def Let_def)

lemma step_mod: "n = 2 ^ k \<Longrightarrow> (i + 1) AND (n - 1) = Suc i mod n"
  by simp

lemma fm_probe_cdist:
  assumes n: "n = 2 ^ b" "length s = n" and p: "p < n"
    and stop: "s ! p = None \<or> holds s key p"
  shows "idx < n \<Longrightarrow> (\<And>q. q < n \<Longrightarrow> cdist n idx q < cdist n idx p \<Longrightarrow> s ! q \<noteq> None \<and> \<not> holds s key q) \<Longrightarrow>
    fm_probe s (n - 1) key idx = Some p"
proof (induction "cdist n idx p" arbitrary: idx)
  case 0
  then have "idx = p" using p by (simp add: cdist_eq_0)
  then show ?case using stop n p by (subst fm_probe.simps) (auto simp: holds_iff split: option.splits)
next
  case (Suc d)
  let ?i = "Suc idx mod n"
  have ne: "idx \<noteq> p" using Suc.hyps(2) by auto
  have here: "s ! idx \<noteq> None" "\<not> holds s key idx"
    using Suc.prems(2) [of idx] Suc.prems(1) Suc.hyps(2) by auto
  have d: "d = cdist n ?i p"
    using cdist_from_Suc [OF Suc.prems(1) p ne] Suc.hyps(2) by simp
  have "fm_probe s (n - 1) key ?i = Some p"
  proof (rule Suc.hyps(1) [OF d])
    show "?i < n" using Suc.prems(1) by simp
    fix q assume q: "q < n" "cdist n ?i q < cdist n ?i p"
    have "cdist n idx q < cdist n idx p"
    proof (cases "q = idx")
      case True
      then show ?thesis using Suc.hyps(2) by simp
    next
      case False
      then show ?thesis
        using cdist_from_Suc [OF Suc.prems(1) q(1)] q(2) d Suc.hyps(2) by fastforce
    qed
    then show "s ! q \<noteq> None \<and> \<not> holds s key q" by (rule Suc.prems(2) [OF q(1)])
  qed
  then show ?case
    using here Suc.prems(1) n step_mod [OF n(1), of idx]
    by (subst fm_probe.simps) (auto simp: holds_iff split: option.splits)
qed

lemma fm_probe_returns:
  assumes n: "n = 2 ^ b" "length s = n" and idx: "idx < n" and e: "e < n" "s ! e = None"
  obtains p where "p < n" "fm_probe s (n - 1) key idx = Some p" "s ! p = None \<or> holds s key p"
    "\<And>q. q < n \<Longrightarrow> cdist n idx q < cdist n idx p \<Longrightarrow> s ! q \<noteq> None \<and> \<not> holds s key q"
proof -
  let ?P = "\<lambda>p. p < n \<and> (s ! p = None \<or> holds s key p)"
  have "?P e" using e by simp
  from ex_has_least_nat [of ?P, OF this, of "cdist n idx"]
  obtain p where p: "?P p" and least: "\<And>q. ?P q \<Longrightarrow> cdist n idx p \<le> cdist n idx q"
    by blast
  have before: "s ! q \<noteq> None \<and> \<not> holds s key q" if "q < n" "cdist n idx q < cdist n idx p" for q
    using least [of q] that by fastforce
  have "fm_probe s (n - 1) key idx = Some p"
    by (rule fm_probe_cdist [OF n _ _ idx before]) (use p in auto)
  with p before that show thesis by blast
qed

text \<open>On a well-formed array with an empty slot the probe finds the key, or the place for it.\<close>

definition found_at :: "nat \<Rightarrow> (u64 \<times> 'v) option list \<Rightarrow> u64 \<Rightarrow> nat \<Rightarrow> bool" where
  "found_at n s key p \<longleftrightarrow> p < n \<and>
     (case slots_abs s key of
        None \<Rightarrow> s ! p = None \<and>
          (\<forall>q < n. cdist n (fib_hash key (n - 1)) q < cdist n (fib_hash key (n - 1)) p \<longrightarrow> s ! q \<noteq> None)
      | Some v \<Rightarrow> s ! p = Some (key, v))"

lemma fm_probe_wf:
  assumes wf: "slots_wf n s" and e: "e < n" "s ! e = None"
  obtains p where "fm_probe s (n - 1) key (fib_hash key (n - 1)) = Some p" "found_at n s key p"
proof -
  obtain b where n: "n = 2 ^ b" "length s = n" and u: "unique_keys s" and r: "reach_ok n s"
    using wf by (auto simp: slots_wf_def)
  let ?h = "fib_hash key (n - 1)"
  have h: "?h < n" by (rule fib_hash_less [OF n(1)])
  obtain p where p: "p < n" "fm_probe s (n - 1) key ?h = Some p" "s ! p = None \<or> holds s key p"
    and before: "\<And>q. q < n \<Longrightarrow> cdist n ?h q < cdist n ?h p \<Longrightarrow> s ! q \<noteq> None \<and> \<not> holds s key q"
    by (rule fm_probe_returns [OF n h e]) blast
  show thesis
  proof (cases "slots_abs s key")
    case None
    then have "\<And>i. \<not> holds s key i" using slots_abs_None [OF u] by blast
    then have "found_at n s key p" using p(1,3) before None by (simp add: found_at_def)
    then show ?thesis by (rule that [OF p(2)])
  next
    case (Some v)
    then obtain i where i: "i < length s" "s ! i = Some (key, v)"
      using slots_abs_Some [OF u] by blast
    then have hi: "holds s key i" by (simp add: holds_iff)
    have "holds s key p"
    proof (rule ccontr)
      assume np: "\<not> holds s key p"
      then have none: "s ! p = None" using p(3) by blast
      have "p \<noteq> i" using np hi by auto
      then have "cdist n ?h p \<noteq> cdist n ?h i" using cdist_inj [OF h p(1), of i] i n by simp
      moreover have "\<not> cdist n ?h i < cdist n ?h p" using before [of i] hi i n by auto
      ultimately have "cdist n ?h p < cdist n ?h i" by simp
      then show False using r hi none p(1) unfolding reach_ok_def by blast
    qed
    then have "p = i" using u hi by (auto simp: unique_keys_def)
    then have "found_at n s key p" using p(1) Some i by (simp add: found_at_def)
    then show ?thesis by (rule that [OF p(2)])
  qed
qed


subsection \<open>Writing a slot\<close>

lemma holds_update:
  "p < length s \<Longrightarrow> holds (s[p := x]) k i \<longleftrightarrow> (if i = p then \<exists>v. x = Some (k, v) else holds s k i)"
  by (auto simp: holds_iff nth_list_update)

lemma slots_wf_fill:
  assumes wf: "slots_wf n s" and p: "p < n" "s ! p = None" and new: "slots_abs s key = None"
    and path: "\<forall>q < n. cdist n (fib_hash key (n - 1)) q < cdist n (fib_hash key (n - 1)) p \<longrightarrow> s ! q \<noteq> None"
  shows "slots_wf n (s[p := Some (key, v)])"
    and "slots_abs (s[p := Some (key, v)]) = (slots_abs s)(key \<mapsto> v)"
    and "used_slots (s[p := Some (key, v)]) = Suc (used_slots s)"
proof -
  let ?s = "s[p := Some (key, v)]"
  have len: "length s = n" and u: "unique_keys s" and r: "reach_ok n s"
    using wf by (auto simp: slots_wf_def)
  have absent: "\<not> holds s key i" for i using new slots_abs_None [OF u] by blast
  have u': "unique_keys ?s"
    using u absent p len by (auto simp: unique_keys_def holds_update)
  have r': "reach_ok n ?s"
    using r path p len by (auto simp: reach_ok_def holds_update nth_list_update)
  show "slots_wf n ?s" using wf u' r' by (auto simp: slots_wf_def)
  show "slots_abs ?s = (slots_abs s)(key \<mapsto> v)"
  proof (rule slots_abs_eqI [OF u'])
    fix k w
    show "((slots_abs s)(key \<mapsto> v)) k = Some w \<longleftrightarrow> (\<exists>i < length ?s. ?s ! i = Some (k, w))"
    proof (cases "k = key")
      case True
      then have "i = p" if "i < n" "?s ! i = Some (k, w)" for i
        using that absent [of i] len p by (auto simp: nth_list_update holds_iff split: if_splits)
      then have "(\<exists>i < n. ?s ! i = Some (k, w)) \<longleftrightarrow> ?s ! p = Some (k, w)"
        using p by blast
      then show ?thesis using True p len by simp
    next
      case False
      then have "?s ! i = Some (k, w) \<longleftrightarrow> s ! i = Some (k, w)" if "i < n" for i
        using that p len by (auto simp: nth_list_update)
      then show ?thesis using False len by (auto simp: slots_abs_Some [OF u])
    qed
  qed
  show "used_slots ?s = Suc (used_slots s)"
    unfolding used_slots_def by (rule filter_update_absent) (use p len in auto)
qed

lemma slots_wf_overwrite:
  assumes wf: "slots_wf n s" and p: "p < n" "s ! p = Some (key, w)"
  shows "slots_wf n (s[p := Some (key, v)])"
    and "slots_abs (s[p := Some (key, v)]) = (slots_abs s)(key \<mapsto> v)"
    and "used_slots (s[p := Some (key, v)]) = used_slots s"
proof -
  let ?s = "s[p := Some (key, v)]"
  have len: "length s = n" and u: "unique_keys s" and r: "reach_ok n s"
    using wf by (auto simp: slots_wf_def)
  have hp: "holds s key p" using p len by (simp add: holds_iff)
  have same: "holds ?s k i = holds s k i" for k i
    using hp p len by (auto simp: holds_iff nth_list_update)
  have u': "unique_keys ?s" using u by (simp add: unique_keys_def same)
  have occ: "?s ! q \<noteq> None" if "s ! q \<noteq> None" for q
    using that by (cases "q = p") (auto simp: nth_list_update p len)
  have r': "reach_ok n ?s" using r occ unfolding reach_ok_def same by blast
  show "slots_wf n ?s" using wf u' r' by (auto simp: slots_wf_def)
  show "slots_abs ?s = (slots_abs s)(key \<mapsto> v)"
  proof (rule slots_abs_eqI [OF u'])
    fix k w'
    have only: "i = p" if "i < n" "s ! i = Some (key, w'')" for i w''
      using unique_keysD [OF u hp, of i] that len by (simp add: holds_iff)
    show "((slots_abs s)(key \<mapsto> v)) k = Some w' \<longleftrightarrow> (\<exists>i < length ?s. ?s ! i = Some (k, w'))"
    proof (cases "k = key")
      case True
      then have "i = p" if "i < n" "?s ! i = Some (k, w')" for i
        using that only [of i w'] len p by (auto simp: nth_list_update split: if_splits)
      then have "(\<exists>i < n. ?s ! i = Some (k, w')) \<longleftrightarrow> ?s ! p = Some (k, w')"
        using p by blast
      then show ?thesis using True p len by simp
    next
      case False
      then have "?s ! i = Some (k, w') \<longleftrightarrow> s ! i = Some (k, w')" if "i < n" for i
        using that p len by (auto simp: nth_list_update)
      then show ?thesis using False len by (auto simp: slots_abs_Some [OF u])
    qed
  qed
  show "used_slots ?s = used_slots s"
    unfolding used_slots_def by (rule filter_update_same) (use p len in auto)
qed

subsection \<open>Backward shift\<close>

text \<open>
  The loop invariant of the shift. Slot \<open>gap\<close> is empty; the slots strictly between
  \<open>gap\<close> and \<open>scan\<close> are occupied; a path from a home slot to an entry may cross an
  empty slot only at \<open>gap\<close>, and the paths to the entries already scanned do not.
\<close>

definition shift_inv :: "nat \<Rightarrow> (u64 \<times> 'v) option list \<Rightarrow> nat \<Rightarrow> nat \<Rightarrow> bool" where
  "shift_inv n s gap scan \<longleftrightarrow>
     length s = n \<and> gap < n \<and> scan < n \<and> gap \<noteq> scan \<and> s ! gap = None \<and> unique_keys s \<and>
     (\<forall>q < n. 0 < cdist n gap q \<longrightarrow> cdist n gap q < cdist n gap scan \<longrightarrow> s ! q \<noteq> None) \<and>
     (\<forall>k p q. holds s k p \<longrightarrow> q < n \<longrightarrow>
        cdist n (fib_hash k (n - 1)) q < cdist n (fib_hash k (n - 1)) p \<longrightarrow> s ! q \<noteq> None \<or> q = gap) \<and>
     (\<forall>k p. holds s k p \<longrightarrow> cdist n gap p < cdist n gap scan \<longrightarrow>
        cdist n (fib_hash k (n - 1)) p \<le> cdist n (fib_hash k (n - 1)) gap)"

lemma should_move_iff:
  assumes "h < n" "gap < n" "scan < n" "gap \<noteq> scan"
  shows "should_move h gap scan \<longleftrightarrow> cdist n h gap < cdist n h scan"
  using assms by (auto simp: should_move_def cdist_def)

lemma shift_inv_done:
  assumes inv: "shift_inv n s gap scan" and n: "n = 2 ^ b" and empty: "s ! scan = None"
  shows "slots_wf n s"
proof -
  have "s ! q \<noteq> None" if hp: "holds s k p" and q: "q < n"
    and path: "cdist n (fib_hash k (n - 1)) q < cdist n (fib_hash k (n - 1)) p" for k p q
  proof (rule ccontr)
    assume none: "\<not> s ! q \<noteq> None"
    let ?h = "fib_hash k (n - 1)"
    have h: "?h < n" by (rule fib_hash_less [OF n])
    have g: "gap < n" "scan < n" "gap \<noteq> scan" using inv by (auto simp: shift_inv_def)
    have p: "p < n" using hp inv by (auto simp: holds_iff shift_inv_def)
    have gap: "q = gap" using inv hp q path none unfolding shift_inv_def by blast
    then have "\<not> cdist n gap p < cdist n gap scan"
      using inv hp path unfolding shift_inv_def by (meson leD)
    moreover have "p \<noteq> scan" using hp empty by (auto simp: holds_iff)
    ultimately have "cdist n ?h scan < cdist n ?h p"
      using cdist_between [OF h g(1,2) p] path gap by blast
    then have "scan = gap" using inv hp g empty unfolding shift_inv_def by blast
    then show False using g by simp
  qed
  then show ?thesis using inv n by (auto simp: slots_wf_def reach_ok_def shift_inv_def)
qed

lemma shift_inv_skip:
  assumes inv: "shift_inv n s gap scan" and n: "n = 2 ^ b" and hs: "holds s k scan"
    and stay: "\<not> should_move (fib_hash k (n - 1)) gap scan" and e: "e < n" "e \<noteq> gap" "s ! e = None"
  shows "shift_inv n s gap (Suc scan mod n)"
proof -
  have g: "gap < n" "scan < n" "gap \<noteq> scan" "length s = n" using inv by (auto simp: shift_inv_def)
  have "e \<noteq> scan" using hs e by (auto simp: holds_iff)
  have "\<not> (0 < cdist n gap e \<and> cdist n gap e < cdist n gap scan)"
    using inv e unfolding shift_inv_def by blast
  then have "cdist n gap scan < cdist n gap e"
    using e g \<open>e \<noteq> scan\<close> by (auto simp: cdist_def split: if_splits)
  moreover have "cdist n gap e < n" using e g by (simp add: cdist_less)
  ultimately have D: "cdist n gap (Suc scan mod n) = Suc (cdist n gap scan)"
    by (intro cdist_Suc) (use g in auto)
  then have ne: "gap \<noteq> Suc scan mod n" by auto
  have at_scan: "q = scan" if "q < n" "cdist n gap q = cdist n gap scan" for q
    using cdist_inj that g by blast
  have stay': "cdist n (fib_hash k (n - 1)) scan \<le> cdist n (fib_hash k (n - 1)) gap"
    using stay should_move_iff [OF fib_hash_less [OF n] g(1,2,3)] by (simp add: not_less)
  have only: "k' = k" if "holds s k' scan" for k'
    using hs that by (auto simp: holds_iff)
  show ?thesis
    unfolding shift_inv_def D less_Suc_eq
  proof (intro conjI allI impI)
    show "cdist n (fib_hash k' (n - 1)) p \<le> cdist n (fib_hash k' (n - 1)) gap"
      if "holds s k' p" "cdist n gap p < cdist n gap scan \<or> cdist n gap p = cdist n gap scan" for k' p
    proof (cases "cdist n gap p = cdist n gap scan")
      case True
      then have "p = scan" using at_scan that(1) g by (auto simp: holds_iff)
      then show ?thesis using stay' only that(1) by blast
    next
      case False
      then show ?thesis using inv that unfolding shift_inv_def by blast
    qed
    show "s ! q \<noteq> None"
      if "q < n" "0 < cdist n gap q" "cdist n gap q < cdist n gap scan \<or> cdist n gap q = cdist n gap scan" for q
      using inv that at_scan [OF that(1)] hs unfolding shift_inv_def
      by (metis holds_iff option.distinct(1))
  qed (use inv ne g in \<open>auto simp: shift_inv_def\<close>)
qed


lemma holds_swap:
  assumes "gap < length s" "scan < length s" "gap \<noteq> scan" "s ! gap = None"
  shows "holds (s[gap := s ! scan, scan := s ! gap]) k p \<longleftrightarrow>
    (if p = gap then holds s k scan else p \<noteq> scan \<and> holds s k p)"
  using assms by (auto simp: holds_iff nth_list_update)

lemma shift_inv_move:
  assumes inv: "shift_inv n s gap scan" and n: "n = 2 ^ b" and hs: "holds s k scan"
    and move: "should_move (fib_hash k (n - 1)) gap scan" and e: "e < n" "e \<noteq> gap" "s ! e = None"
  shows "shift_inv n (s[gap := s ! scan, scan := s ! gap]) scan (Suc scan mod n)"
proof -
  let ?s = "s[gap := s ! scan, scan := s ! gap]"
  let ?h = "\<lambda>k. fib_hash k (n - 1)"
  have g: "gap < n" "scan < n" "gap \<noteq> scan" "length s = n" "s ! gap = None" "unique_keys s"
    and path: "\<And>k p q. holds s k p \<Longrightarrow> q < n \<Longrightarrow> cdist n (?h k) q < cdist n (?h k) p \<Longrightarrow> s ! q \<noteq> None \<or> q = gap"
    and seen: "\<And>k p. holds s k p \<Longrightarrow> cdist n gap p < cdist n gap scan \<Longrightarrow> cdist n (?h k) p \<le> cdist n (?h k) gap"
    using inv unfolding shift_inv_def by blast+
  have h: "?h k < n" for k by (rule fib_hash_less [OF n])
  have nz: "1 < n" using e g by auto
  note swap = holds_swap [OF g(1) [folded g(4)] g(2) [folded g(4)] g(3,5)]
  have u: "unique_keys ?s" using g(6) g(3) by (auto simp: unique_keys_def swap split: if_splits)
  have at: "?s ! q = (if q = scan then None else if q = gap then s ! scan else s ! q)" if "q < n" for q
    using g that by (auto simp: nth_list_update)
  have occ: "s ! scan \<noteq> None" using hs by (auto simp: holds_iff)
  have mv: "cdist n (?h k) gap < cdist n (?h k) scan" using move should_move_iff [OF h g(1,2,3)] by blast
  have one: "cdist n scan (Suc scan mod n) = 1"
    using cdist_Suc [OF g(2) g(2)] nz by simp
  have P: "?s ! q \<noteq> None \<or> q = scan"
    if hp: "holds ?s k' p" and q: "q < n" and lt: "cdist n (?h k') q < cdist n (?h k') p" for k' p q
  proof (cases "p = gap")
    case True
    then have "holds s k' scan" using hp by (simp add: swap)
    then have "k' = k" using hs by (auto simp: holds_iff)
    then have "cdist n (?h k') q < cdist n (?h k') scan" using lt mv True by simp
    then show ?thesis using path [OF \<open>holds s k' scan\<close> q] lt True q occ by (auto simp: at)
  next
    case False
    then have "holds s k' p" using hp by (simp add: swap split: if_splits)
    from path [OF this q lt] show ?thesis using q occ by (auto simp: at)
  qed
  have "cdist n (?h k') p \<le> cdist n (?h k') scan" if "holds ?s k' p" "cdist n scan p < 1" for k' p
  proof -
    have "p < n" using that(1) g by (auto simp: holds_iff)
    then have "p = scan" using that(2) g by (simp add: cdist_eq_0)
    then show ?thesis by simp
  qed
  moreover have "scan \<noteq> Suc scan mod n" using one by auto
  ultimately show ?thesis
    using g u P nz unfolding shift_inv_def one by (auto simp: at)
qed

lemma mset_shift_swap:
  "gap < length s \<Longrightarrow> scan < length s \<Longrightarrow> mset (s[gap := s ! scan, scan := s ! gap]) = mset s"
  by (simp add: mset_swap)

lemma used_slots_mset: "mset s = mset t \<Longrightarrow> used_slots s = used_slots t"
  unfolding used_slots_def by (metis mset_filter size_mset)

lemma slots_abs_mset:
  assumes "mset s = mset t" "unique_keys s" "unique_keys t"
  shows "slots_abs s = slots_abs t"
proof (rule slots_abs_eqI [OF assms(2)])
  fix k v
  have "set s = set t" by (rule mset_eq_setD [OF assms(1)])
  then show "slots_abs t k = Some v \<longleftrightarrow> (\<exists>i < length s. s ! i = Some (k, v))"
    by (simp add: slots_abs_Some [OF assms(3)] flip: in_set_conv_nth)
qed

text \<open>The shift always ends, and ends in a well-formed array with the same entries.\<close>

lemma fm_shift_total:
  assumes n: "n = 2 ^ b" and e: "e < n"
  shows "shift_inv n s gap scan \<Longrightarrow> e \<noteq> gap \<Longrightarrow> s ! e = None \<Longrightarrow>
    \<exists>s'. fm_shift s (n - 1) gap scan = Some s' \<and> slots_wf n s' \<and> mset s' = mset s"
proof (induction "cdist n scan e" arbitrary: s gap scan rule: less_induct)
  case less
  note inv = less.prems(1)
  have g: "gap < n" "scan < n" "length s = n" "s ! gap = None" using inv by (auto simp: shift_inv_def)
  show ?case
  proof (cases "s ! scan")
    case None
    then have "fm_shift s (n - 1) gap scan = Some s"
      using g by (subst fm_shift.simps) simp
    then show ?thesis using shift_inv_done [OF inv n None] by simp
  next
    case (Some kv)
    obtain k v where kv: "kv = (k, v)" by (cases kv)
    have hs: "holds s k scan" using Some kv g by (simp add: holds_iff)
    have ne: "scan \<noteq> e" using Some less.prems(3) by auto
    have closer: "cdist n (Suc scan mod n) e < cdist n scan e"
      using cdist_from_Suc [OF g(2) e ne] by simp
    note next_idx = step_mod [OF n, of scan]
    let ?s = "s[gap := s ! scan, scan := s ! gap]"
    show ?thesis
    proof (cases "should_move (fib_hash k (n - 1)) gap scan")
      case True
      have "?s ! e = None" using ne less.prems g e by (auto simp: nth_list_update)
      from less.hyps [OF closer shift_inv_move [OF inv n hs True e less.prems(2,3)] ne [symmetric] this]
      obtain s' where s': "fm_shift ?s (n - 1) scan (Suc scan mod n) = Some s'" "slots_wf n s'" "mset s' = mset ?s"
        by blast
      have "fm_shift s (n - 1) gap scan = Some s'"
        using Some kv True g s'(1) next_idx by (subst fm_shift.simps) simp
      then show ?thesis using s' mset_shift_swap g by metis
    next
      case False
      from less.hyps [OF closer shift_inv_skip [OF inv n hs False e less.prems(2,3)] less.prems(2,3)]
      obtain s' where s': "fm_shift s (n - 1) gap (Suc scan mod n) = Some s'" "slots_wf n s'" "mset s' = mset s"
        by blast
      have "fm_shift s (n - 1) gap scan = Some s'"
        using Some kv False g s'(1) next_idx by (subst fm_shift.simps) simp
      then show ?thesis using s' by blast
    qed
  qed
qed

lemma slots_abs_erase:
  assumes wf: "slots_wf n s" and p: "p < n" "s ! p = Some (key, v)"
  shows "unique_keys (s[p := None])"
    and "slots_abs (s[p := None]) = (slots_abs s)(key := None)"
    and "Suc (used_slots (s[p := None])) = used_slots s"
proof -
  have len: "length s = n" and u: "unique_keys s" using wf by (auto simp: slots_wf_def)
  have only: "i = p" if "i < n" "s ! i = Some (key, w)" for i w
    using unique_keysD [OF u, of key p i] that p len by (simp add: holds_iff)
  show u': "unique_keys (s[p := None])"
    using u p len by (auto simp: unique_keys_def holds_update)
  show "slots_abs (s[p := None]) = (slots_abs s)(key := None)"
  proof (rule slots_abs_eqI [OF u'])
    fix k w
    show "((slots_abs s)(key := None)) k = Some w \<longleftrightarrow>
        (\<exists>i < length (s[p := None]). s[p := None] ! i = Some (k, w))"
    proof (cases "k = key")
      case True
      then have "s[p := None] ! i \<noteq> Some (k, w)" if "i < n" for i
        using that only [of i w] len p by (auto simp: nth_list_update)
      then show ?thesis using True len by simp
    next
      case False
      then have "s[p := None] ! i = Some (k, w) \<longleftrightarrow> s ! i = Some (k, w)" if "i < n" for i
        using that p len by (auto simp: nth_list_update)
      then show ?thesis using False len by (auto simp: slots_abs_Some [OF u])
    qed
  qed
  show "Suc (used_slots (s[p := None])) = used_slots s"
    unfolding used_slots_def by (rule filter_update_present) (use p len in auto)
qed

text \<open>Taking an entry out of a well-formed array leaves a hole the shift can close.\<close>

lemma shift_inv_start:
  assumes wf: "slots_wf n s" and p: "p < n" "s ! p = Some (key, v)" and n: "1 < n"
  shows "shift_inv n (s[p := None]) p (Suc p mod n)"
proof -
  have len: "length s = n" and u: "unique_keys s" and r: "reach_ok n s"
    using wf by (auto simp: slots_wf_def)
  have one: "cdist n p (Suc p mod n) = 1" using cdist_Suc [OF p(1) p(1)] n by simp
  then have ne: "p \<noteq> Suc p mod n" by auto
  have H: "holds (s[p := None]) k i \<longleftrightarrow> i \<noteq> p \<and> holds s k i" for k i
    using p len by (simp add: holds_update)
  have far: "\<not> cdist n p i < 1" if "holds s k i" "i \<noteq> p" for k i
    using that p len by (auto simp: holds_iff cdist_eq_0)
  have path: "s[p := None] ! q \<noteq> None \<or> q = p"
    if "holds s k i" "q < n" "cdist n (fib_hash k (n - 1)) q < cdist n (fib_hash k (n - 1)) i" for k i q
    using r that unfolding reach_ok_def by (cases "q = p") (auto simp: nth_list_update)
  have "length (s[p := None]) = n" "s[p := None] ! p = None" "Suc p mod n < n"
    using p len by simp_all
  then show ?thesis
    unfolding shift_inv_def one H
  proof (intro conjI allI impI)
    show "s[p := None] ! q \<noteq> None \<or> q = p"
      if "i \<noteq> p \<and> holds s k i" "q < n" "cdist n (fib_hash k (n - 1)) q < cdist n (fib_hash k (n - 1)) i" for k i q
      using path that by blast
    show "cdist n (fib_hash k (n - 1)) i \<le> cdist n (fib_hash k (n - 1)) p"
      if "i \<noteq> p \<and> holds s k i" "cdist n p i < 1" for k i
      using far that by blast
  qed (use p(1) ne slots_abs_erase(1) [OF wf p] in simp_all)
qed



section \<open>The operations of the table\<close>

lemma used_slots_empty:
  assumes "used_slots s < length s" obtains e where "e < length s" "s ! e = None"
proof -
  have "\<not> (\<forall>x \<in> set s. x \<noteq> None)"
  proof
    assume "\<forall>x \<in> set s. x \<noteq> None"
    then have "filter (\<lambda>x. x \<noteq> None) s = s" by (rule filter_True)
    then show False using assms by (simp only: used_slots_def)
  qed
  then obtain e where "e < length s" "s ! e = None" unfolding all_set_conv_all_nth by blast
  then show thesis by (rule that)
qed

lemma DEFAULT_CAPACITY_pow2: "\<exists>k. DEFAULT_CAPACITY = 2 ^ k"
  by (rule exI [of _ 14]) (simp add: DEFAULT_CAPACITY_def)

lemma fm_wf_ensure_init: "fm_wf m \<Longrightarrow> fm_wf (ensure_init m)"
proof (cases "fm_slots m")
  case None
  have "slots_wf DEFAULT_CAPACITY (replicate DEFAULT_CAPACITY None)"
    using DEFAULT_CAPACITY_pow2 by (auto simp: slots_wf_def unique_keys_def reach_ok_def holds_iff)
  moreover assume "fm_wf m"
  ultimately show ?thesis using None
    by (simp add: fm_wf_def ensure_init_def alloc_slots_def used_slots_def)
qed (simp add: ensure_init_def)

lemma ensure_init_slots: "\<exists>s. fm_slots (ensure_init m) = Some s"
  by (auto simp: ensure_init_def alloc_slots_def)

lemma fm_abs_ensure_init [simp]: "fm_abs (ensure_init m) = fm_abs m"
  by (simp add: fm_abs_def ensure_init_def alloc_slots_def slots_abs_def)

lemma fm_len_ensure_init [simp]: "fm_len (ensure_init m) = fm_len m"
  by (simp add: ensure_init_def alloc_slots_def)

lemma ensure_init_idem [simp]: "ensure_init (ensure_init m) = ensure_init m"
  by (simp add: ensure_init_def alloc_slots_def)

lemma fm_wf_slots:
  assumes "fm_wf m" "fm_slots m = Some s"
  obtains e where "slots_wf (fm_capacity m) s" "fm_mask m = fm_capacity m - 1"
    "fm_len m = used_slots s" "fm_len m \<le> fm_capacity m * 3 div 4" "length s = fm_capacity m"
    "e < fm_capacity m" "s ! e = None"
proof -
  have wf: "slots_wf (fm_capacity m) s" "fm_len m = used_slots s" "fm_len m \<le> fm_capacity m * 3 div 4"
    using assms by (simp_all add: fm_wf_def)
  then have "length s = fm_capacity m" "0 < fm_capacity m" by (auto simp: slots_wf_def)
  with wf have "used_slots s < length s" by simp
  then obtain e where "e < length s" "s ! e = None" by (rule used_slots_empty)
  with wf show thesis using that assms \<open>length s = fm_capacity m\<close> by (simp add: fm_wf_def)
qed

lemma fm_card: "fm_wf m \<Longrightarrow> card (dom (fm_abs m)) = fm_len m"
  by (auto simp: fm_wf_def fm_abs_def slots_wf_def card_dom_slots_abs split: option.splits)

lemma fm_finite: "finite (dom (fm_abs m))"
  by (simp add: fm_abs_def finite_dom_slots_abs split: option.splits)

lemma fm_wf_probe:
  assumes "fm_wf m" "fm_slots m = Some s"
  obtains p where "fm_probe s (fm_mask m) key (fib_hash key (fm_mask m)) = Some p"
    "found_at (fm_capacity m) s key p"
proof -
  obtain e where w: "slots_wf (fm_capacity m) s" "fm_mask m = fm_capacity m - 1"
    and e: "e < fm_capacity m" "s ! e = None"
    by (rule fm_wf_slots [OF assms])
  show thesis
    by (rule fm_probe_wf [OF w(1) e, of key]) (use that w(2) in simp)
qed

lemma fm_get_abs: "fm_wf m \<Longrightarrow> fm_get m key = Some (fm_abs m key)"
proof (cases "fm_slots m")
  case None
  then show ?thesis by (simp add: fm_get_def fm_abs_def)
next
  case (Some s)
  assume wf: "fm_wf m"
  obtain p where "fm_probe s (fm_mask m) key (fib_hash key (fm_mask m)) = Some p"
    "found_at (fm_capacity m) s key p"
    by (rule fm_wf_probe [OF wf Some])
  then show ?thesis using Some
    by (auto simp: fm_get_def fm_abs_def found_at_def split: option.splits)
qed

text \<open>Writing \<open>v\<close> where the probe for \<open>key\<close> ended.\<close>

lemma fm_write_new:
  assumes wf: "fm_wf m" "fm_slots m = Some s" and p: "found_at (fm_capacity m) s key p"
    and new: "fm_abs m key = None" and room: "fm_len m < fm_capacity m * 3 div 4"
    and m': "m' = m\<lparr>fm_slots := Some (s[p := Some (key, v)]), fm_len := fm_len m + 1\<rparr>"
  shows "s ! p = None" "fm_wf m'" "fm_abs m' = (fm_abs m)(key \<mapsto> v)"
proof -
  have new': "slots_abs s key = None" using new wf by (simp add: fm_abs_def)
  have w: "slots_wf (fm_capacity m) s" using wf by (simp add: fm_wf_def)
  have at: "p < fm_capacity m" "s ! p = None"
    and path: "\<forall>q < fm_capacity m. cdist (fm_capacity m) (fib_hash key (fm_capacity m - 1)) q
      < cdist (fm_capacity m) (fib_hash key (fm_capacity m - 1)) p \<longrightarrow> s ! q \<noteq> None"
    using p new' by (simp_all add: found_at_def)
  note fill = slots_wf_fill [OF w at new' path, of v]
  show "s ! p = None" by (rule at(2))
  show "fm_wf m'" using fill wf room by (simp add: fm_wf_def m')
  show "fm_abs m' = (fm_abs m)(key \<mapsto> v)" using fill wf by (simp add: fm_abs_def m')
qed

lemma fm_write_old:
  assumes wf: "fm_wf m" "fm_slots m = Some s" and p: "found_at (fm_capacity m) s key p"
    and old: "fm_abs m key = Some w" and m': "m' = m\<lparr>fm_slots := Some (s[p := Some (key, v)])\<rparr>"
  shows "s ! p = Some (key, w)" "fm_wf m'" "fm_abs m' = (fm_abs m)(key \<mapsto> v)"
proof -
  have old': "slots_abs s key = Some w" using old wf by (simp add: fm_abs_def)
  have w: "slots_wf (fm_capacity m) s" using wf by (simp add: fm_wf_def)
  have at: "p < fm_capacity m" "s ! p = Some (key, w)" using p old' by (simp_all add: found_at_def)
  note upd = slots_wf_overwrite [OF w at, of v]
  show "s ! p = Some (key, w)" by (rule at(2))
  show "fm_wf m'" using upd wf by (simp add: fm_wf_def m')
  show "fm_abs m' = (fm_abs m)(key \<mapsto> v)" using upd wf by (simp add: fm_abs_def m')
qed

lemma fm_insert_abs:
  assumes wf: "fm_wf m" and room: "key \<in> dom (fm_abs m) \<or> fm_len m < fm_limit m"
  shows "\<exists>m'. fm_insert m key v = Some (True, m') \<and> fm_wf m' \<and> fm_abs m' = (fm_abs m)(key \<mapsto> v) \<and>
    fm_capacity m' = fm_capacity (ensure_init m)"
proof -
  let ?m = "ensure_init m"
  obtain s where s: "fm_slots ?m = Some s" using ensure_init_slots by blast
  note wf' = fm_wf_ensure_init [OF wf]
  obtain p where probe: "fm_probe s (fm_mask ?m) key (fib_hash key (fm_mask ?m)) = Some p"
    and p: "found_at (fm_capacity ?m) s key p"
    by (rule fm_wf_probe [OF wf' s])
  show ?thesis
  proof (cases "fm_abs ?m key")
    case None
    have lt: "fm_len ?m < fm_capacity ?m * 3 div 4" using room None by (auto simp: fm_limit_def)
    note new = fm_write_new [OF wf' s p None lt refl]
    show ?thesis using new s probe lt by (simp add: fm_insert_def Let_def)
  next
    case (Some w)
    note old = fm_write_old [OF wf' s p Some refl]
    show ?thesis using old s probe by (simp add: fm_insert_def Let_def)
  qed
qed

lemma fm_insert_full:
  assumes wf: "fm_wf m" and new: "fm_abs m key = None" and full: "fm_limit m \<le> fm_len m"
  shows "fm_insert m key v = Some (False, ensure_init m)"
proof -
  let ?m = "ensure_init m"
  obtain s where s: "fm_slots ?m = Some s" using ensure_init_slots by blast
  obtain p where "fm_probe s (fm_mask ?m) key (fib_hash key (fm_mask ?m)) = Some p"
    and p: "found_at (fm_capacity ?m) s key p"
    by (rule fm_wf_probe [OF fm_wf_ensure_init [OF wf] s])
  moreover have "slots_abs s key = None"
    using new s fm_abs_ensure_init [of m] by (simp add: fm_abs_def)
  ultimately show ?thesis using s full
    by (simp add: fm_insert_def Let_def found_at_def fm_limit_def)
qed

lemma fm_get_mut_abs:
  assumes wf: "fm_wf m"
  shows "\<exists>m'. fm_get_mut m key f = Some (fm_abs m key, m') \<and> fm_wf m' \<and>
    fm_abs m' = (fm_abs m)(key := map_option f (fm_abs m key)) \<and>
    fm_capacity m' = fm_capacity m \<and> fm_len m' = fm_len m \<and> (fm_slots m' = None \<longleftrightarrow> fm_slots m = None)"
proof (cases "fm_slots m")
  case None
  then show ?thesis using wf by (simp add: fm_get_mut_def fm_abs_def)
next
  case (Some s)
  obtain p where probe: "fm_probe s (fm_mask m) key (fib_hash key (fm_mask m)) = Some p"
    and p: "found_at (fm_capacity m) s key p"
    by (rule fm_wf_probe [OF wf Some])
  show ?thesis
  proof (cases "fm_abs m key")
    case None
    then have "s ! p = None" using p Some by (simp add: found_at_def fm_abs_def)
    then show ?thesis using None Some probe wf by (simp add: fm_get_mut_def fun_upd_idem)
  next
    case (Some v)
    note old = fm_write_old [OF wf \<open>fm_slots m = Some s\<close> p Some refl]
    show ?thesis using old Some \<open>fm_slots m = Some s\<close> probe by (simp add: fm_get_mut_def)
  qed
qed


lemma fm_remove_abs:
  assumes wf: "fm_wf m"
  shows "\<exists>m'. fm_remove m key = Some (fm_abs m key, m') \<and> fm_wf m' \<and>
    fm_abs m' = (fm_abs m)(key := None) \<and> fm_capacity m' = fm_capacity m \<and>
    (fm_slots m' = None \<longleftrightarrow> fm_slots m = None)"
proof (cases "fm_slots m")
  case None
  then show ?thesis using wf by (simp add: fm_remove_def fm_abs_def fun_eq_iff)
next
  case (Some s)
  let ?n = "fm_capacity m"
  obtain e where w: "slots_wf ?n s" "fm_mask m = ?n - 1" "fm_len m = used_slots s"
    "fm_len m \<le> ?n * 3 div 4" and e: "e < ?n" "s ! e = None" and len: "length s = ?n"
    by (rule fm_wf_slots [OF wf Some])
  obtain b where n: "?n = 2 ^ b" using w(1) by (auto simp: slots_wf_def)
  obtain p where probe: "fm_probe s (fm_mask m) key (fib_hash key (fm_mask m)) = Some p"
    and p: "found_at ?n s key p"
    by (rule fm_wf_probe [OF wf Some])
  show ?thesis
  proof (cases "fm_abs m key")
    case None
    then have "s ! p = None" using p Some by (simp add: found_at_def fm_abs_def)
    then show ?thesis using None Some probe wf by (simp add: fm_remove_def fun_upd_idem)
  next
    case (Some v)
    then have at: "p < ?n" "s ! p = Some (key, v)"
      using p \<open>fm_slots m = Some s\<close> by (simp_all add: found_at_def fm_abs_def)
    have ne: "e \<noteq> p" using e at by auto
    then have "1 < ?n" using e at by linarith
    note start = shift_inv_start [OF w(1) at this]
    have "s[p := None] ! e = None" using e ne by simp
    from fm_shift_total [OF n e(1) start ne this]
    obtain s' where s': "fm_shift (s[p := None]) (?n - 1) p (Suc p mod ?n) = Some s'"
      "slots_wf ?n s'" "mset s' = mset (s[p := None])"
      by blast
    note erase = slots_abs_erase [OF w(1) at]
    have u: "unique_keys s'" using s'(2) by (simp add: slots_wf_def)
    have abs: "slots_abs s' = (slots_abs s)(key := None)"
      using slots_abs_mset [OF s'(3) u erase(1)] erase(2) by simp
    have used: "Suc (used_slots s') = used_slots s"
      using used_slots_mset [OF s'(3)] erase(3) by simp
    let ?m = "m\<lparr>fm_slots := Some s', fm_len := fm_len m - 1\<rparr>"
    have idx: "(p + 1) AND fm_mask m = Suc p mod ?n" using w(2) step_mod [OF n] by simp
    have "fm_remove m key = Some (Some v, ?m)"
      using \<open>fm_slots m = Some s\<close> probe at s'(1) w(2) idx by (simp add: fm_remove_def)
    moreover have "fm_wf ?m" using s'(2) w by (simp add: fm_wf_def flip: used)
    moreover have "fm_abs ?m = (fm_abs m)(key := None)"
      using abs \<open>fm_slots m = Some s\<close> by (simp add: fm_abs_def)
    ultimately show ?thesis using Some \<open>fm_slots m = Some s\<close> by simp
  qed
qed

lemma fm_clear_abs: "fm_wf m \<Longrightarrow> fm_wf (fm_clear m) \<and> fm_abs (fm_clear m) = Map.empty"
proof (cases "fm_slots m")
  case None
  then show "fm_wf m \<Longrightarrow> ?thesis" by (simp add: fm_clear_def fm_wf_def fm_abs_def)
next
  case (Some s)
  assume "fm_wf m"
  then have "slots_wf (fm_capacity m) s" "fm_mask m = fm_capacity m - 1"
    using Some by (simp_all add: fm_wf_def)
  then have "slots_wf (fm_capacity m) (map (\<lambda>_. None) s :: (u64 \<times> 'a) option list)"
    by (auto simp: slots_wf_def unique_keys_def reach_ok_def holds_iff)
  moreover have "used_slots (map (\<lambda>_. None) s :: (u64 \<times> 'a) option list) = 0"
    by (simp add: used_slots_def)
  moreover have "slots_abs (map (\<lambda>_. None) s :: (u64 \<times> 'a) option list) = Map.empty"
    by (simp add: slots_abs_def)
  ultimately show ?thesis using Some \<open>fm_mask m = _\<close> by (simp add: fm_clear_def fm_wf_def fm_abs_def)
qed

lemma fm_wf_new: "fm_wf fm_new" and fm_abs_new: "fm_abs fm_new = Map.empty"
  by (simp_all add: fm_new_def fm_wf_def fm_abs_def)

section \<open>Tables of the default capacity\<close>

text \<open>Every table of the kernel is allocated by \<open>ensure_init\<close> and so has \<open>DEFAULT_CAPACITY\<close> slots.\<close>

definition fm_ok :: "'v fixed_map \<Rightarrow> bool" where
  "fm_ok m \<longleftrightarrow> fm_wf m \<and> (fm_slots m = None \<or> fm_capacity m = DEFAULT_CAPACITY)"

definition FM_LIMIT :: nat where
  "FM_LIMIT = DEFAULT_CAPACITY * 3 div 4"

lemma FM_LIMIT_eq: "FM_LIMIT = 12288"
  by (simp add: FM_LIMIT_def DEFAULT_CAPACITY_def)

lemma fm_ok_limit: "fm_ok m \<Longrightarrow> fm_limit m = FM_LIMIT"
  by (auto simp: fm_ok_def fm_limit_def FM_LIMIT_def ensure_init_def alloc_slots_def)

lemma fm_ok_capacity: "fm_ok m \<Longrightarrow> fm_capacity (ensure_init m) = DEFAULT_CAPACITY"
  by (auto simp: fm_ok_def ensure_init_def alloc_slots_def)

lemma fm_ok_new: "fm_ok fm_new"
  by (simp add: fm_ok_def fm_wf_new) (simp add: fm_new_def)

lemma fm_ok_ensure_init: "fm_ok m \<Longrightarrow> fm_ok (ensure_init m)"
  by (simp add: fm_ok_capacity fm_ok_def fm_wf_ensure_init)

lemma fm_ok_insert:
  assumes "fm_ok m" "key \<in> dom (fm_abs m) \<or> fm_len m < FM_LIMIT"
  shows "\<exists>m'. fm_insert m key v = Some (True, m') \<and> fm_ok m' \<and> fm_abs m' = (fm_abs m)(key \<mapsto> v)"
  using fm_insert_abs [of m key v] assms fm_ok_limit [OF assms(1)] fm_ok_capacity [OF assms(1)]
  by (auto simp: fm_ok_def)

lemma fm_ok_get_mut:
  assumes "fm_ok m"
  shows "\<exists>m'. fm_get_mut m key f = Some (fm_abs m key, m') \<and> fm_ok m' \<and>
    fm_abs m' = (fm_abs m)(key := map_option f (fm_abs m key))"
  using fm_get_mut_abs [of m key f] assms by (auto simp: fm_ok_def)

lemma fm_ok_remove:
  assumes "fm_ok m"
  shows "\<exists>m'. fm_remove m key = Some (fm_abs m key, m') \<and> fm_ok m' \<and> fm_abs m' = (fm_abs m)(key := None)"
  using fm_remove_abs [of m key] assms by (auto simp: fm_ok_def)

lemma fm_ok_get_or_insert:
  assumes ok: "fm_ok m" and room: "key \<in> dom (fm_abs m) \<or> fm_len m < FM_LIMIT"
  shows "\<exists>m'. fm_get_or_insert m key d f = Some (case fm_abs m key of None \<Rightarrow> d | Some v \<Rightarrow> v, m') \<and>
    fm_ok m' \<and> fm_abs m' = (fm_abs m)(key \<mapsto> f (case fm_abs m key of None \<Rightarrow> d | Some v \<Rightarrow> v))"
proof -
  let ?m = "ensure_init m"
  have ok': "fm_ok ?m" by (rule fm_ok_ensure_init [OF ok])
  have has: "fm_contains_key ?m key = Some (fm_abs m key \<noteq> None)"
    using ok' by (simp add: fm_contains_key_def fm_get_abs fm_ok_def)
  show ?thesis
  proof (cases "fm_abs m key")
    case None
    obtain m2 where m2: "fm_insert ?m key d = Some (True, m2)" "fm_ok m2" "fm_abs m2 = (fm_abs m)(key \<mapsto> d)"
      using fm_ok_insert [OF ok', of key d] room by auto
    obtain m3 where "fm_get_mut m2 key f = Some (Some d, m3)" "fm_ok m3"
      "fm_abs m3 = (fm_abs m2)(key \<mapsto> f d)"
      using fm_ok_get_mut [OF m2(2), of key f] m2(3) by auto
    then show ?thesis using None has m2 by (simp add: fm_get_or_insert_def)
  next
    case (Some v)
    obtain m3 where "fm_get_mut ?m key f = Some (Some v, m3)" "fm_ok m3" "fm_abs m3 = (fm_abs m)(key \<mapsto> f v)"
      using fm_ok_get_mut [OF ok', of key f] Some by auto
    then show ?thesis using Some has by (simp add: fm_get_or_insert_def)
  qed
qed


section \<open>The interface\<close>

text \<open>
  What the capability engine relies on in a map from \<open>u64\<close> keys. The operations return
  (no panic, no endless probe) on every valid table; a table takes \<open>limit\<close> keys.
\<close>

locale u64_map =
  fixes ok :: "'m \<Rightarrow> bool"
    and abs :: "'m \<Rightarrow> u64 \<rightharpoonup> 'v"
    and limit :: nat
    and new :: 'm
    and get :: "'m \<Rightarrow> u64 \<Rightarrow> 'v option run"
    and ins :: "'m \<Rightarrow> u64 \<Rightarrow> 'v \<Rightarrow> (bool \<times> 'm) run"
    and modify :: "'m \<Rightarrow> u64 \<Rightarrow> ('v \<Rightarrow> 'v) \<Rightarrow> ('v option \<times> 'm) run"
    and remove :: "'m \<Rightarrow> u64 \<Rightarrow> ('v option \<times> 'm) run"
    and get_or_insert :: "'m \<Rightarrow> u64 \<Rightarrow> 'v \<Rightarrow> ('v \<Rightarrow> 'v) \<Rightarrow> ('v \<times> 'm) run"
    and clear :: "'m \<Rightarrow> 'm"
  assumes new_law: "ok new \<and> abs new = Map.empty"
    and finite_law: "finite (dom (abs m))"
    and get_law: "ok m \<Longrightarrow> get m k = Some (abs m k)"
    and ins_law: "ok m \<Longrightarrow> k \<in> dom (abs m) \<or> card (dom (abs m)) < limit \<Longrightarrow>
      \<exists>m'. ins m k v = Some (True, m') \<and> ok m' \<and> abs m' = (abs m)(k \<mapsto> v)"
    and ins_full: "ok m \<Longrightarrow> k \<notin> dom (abs m) \<Longrightarrow> limit \<le> card (dom (abs m)) \<Longrightarrow>
      \<exists>m'. ins m k v = Some (False, m') \<and> ok m' \<and> abs m' = abs m"
    and modify_law: "ok m \<Longrightarrow>
      \<exists>m'. modify m k f = Some (abs m k, m') \<and> ok m' \<and> abs m' = (abs m)(k := map_option f (abs m k))"
    and remove_law: "ok m \<Longrightarrow>
      \<exists>m'. remove m k = Some (abs m k, m') \<and> ok m' \<and> abs m' = (abs m)(k := None)"
    and get_or_insert_law: "ok m \<Longrightarrow> k \<in> dom (abs m) \<or> card (dom (abs m)) < limit \<Longrightarrow>
      \<exists>m'. get_or_insert m k d f = Some (case abs m k of None \<Rightarrow> d | Some v \<Rightarrow> v, m') \<and> ok m' \<and>
        abs m' = (abs m)(k \<mapsto> f (case abs m k of None \<Rightarrow> d | Some v \<Rightarrow> v))"
    and clear_law: "ok m \<Longrightarrow> ok (clear m) \<and> abs (clear m) = Map.empty"
begin

lemma put_total:
  "ok m \<Longrightarrow> \<exists>b m'. ins m k v = Some (b, m') \<and> ok m' \<and>
     abs m' = (if k \<in> dom (abs m) \<or> card (dom (abs m)) < limit then (abs m)(k \<mapsto> v) else abs m)"
proof (cases "k \<in> dom (abs m) \<or> card (dom (abs m)) < limit")
  case True
  assume "ok m"
  from ins_law [OF this True, of v] show ?thesis unfolding if_P [OF True] by blast
next
  case False
  assume "ok m"
  moreover have "k \<notin> dom (abs m)" "limit \<le> card (dom (abs m))" using False by (blast, linarith)
  ultimately show ?thesis unfolding if_not_P [OF False] using ins_full [of m k v] by blast
qed

text \<open>
  A client that only ever stores keys of a set \<open>K\<close> no larger than \<open>limit\<close> never
  meets a refused insertion: \<open>get_or_insert\<close> does not panic.
\<close>

lemma get_or_insert_within:
  assumes "ok m" "dom (abs m) \<subseteq> K" "finite K" "card K \<le> limit" "k \<in> K"
  shows "\<exists>m'. get_or_insert m k d f = Some (case abs m k of None \<Rightarrow> d | Some v \<Rightarrow> v, m') \<and> ok m' \<and>
    abs m' = (abs m)(k \<mapsto> f (case abs m k of None \<Rightarrow> d | Some v \<Rightarrow> v)) \<and> dom (abs m') \<subseteq> K"
proof -
  have "k \<in> dom (abs m) \<or> card (dom (abs m)) < limit"
  proof (cases "k \<in> dom (abs m)")
    case False
    then have "dom (abs m) \<subset> K" using assms by blast
    then have "card (dom (abs m)) < card K" by (rule psubset_card_mono [OF assms(3)])
    then show ?thesis using assms(4) by linarith
  qed simp
  from get_or_insert_law [OF assms(1) this, of d f] obtain m' where
    "get_or_insert m k d f = Some (case abs m k of None \<Rightarrow> d | Some v \<Rightarrow> v, m')" "ok m'"
    and m': "abs m' = (abs m)(k \<mapsto> f (case abs m k of None \<Rightarrow> d | Some v \<Rightarrow> v))"
    by blast
  moreover have "dom (abs m') \<subseteq> K" unfolding m' using assms(2,5) by simp
  ultimately show ?thesis by blast
qed

lemma ins_within:
  assumes "ok m" "dom (abs m) \<subseteq> K" "finite K" "card K < limit"
  shows "\<exists>m'. ins m k v = Some (True, m') \<and> ok m' \<and> abs m' = (abs m)(k \<mapsto> v)"
  by (rule ins_law [OF assms(1)]) (use card_mono [OF assms(3,2)] assms(4) in simp)

end

interpretation fm: u64_map fm_ok fm_abs FM_LIMIT fm_new fm_get fm_insert fm_get_mut fm_remove
    fm_get_or_insert fm_clear
proof
  fix m :: "'b fixed_map" and k v f d
  show "fm_ok (fm_new :: 'b fixed_map) \<and> fm_abs (fm_new :: 'b fixed_map) = Map.empty"
    by (simp add: fm_ok_new fm_abs_new)
  show "finite (dom (fm_abs m))" by (rule fm_finite)
  assume ok: "fm_ok m"
  then have wf: "fm_wf m" by (simp add: fm_ok_def)
  note card = fm_card [OF wf]
  show "fm_get m k = Some (fm_abs m k)" by (rule fm_get_abs [OF wf])
  show "\<exists>m'. fm_get_mut m k f = Some (fm_abs m k, m') \<and> fm_ok m' \<and>
      fm_abs m' = (fm_abs m)(k := map_option f (fm_abs m k))"
    by (rule fm_ok_get_mut [OF ok])
  show "\<exists>m'. fm_remove m k = Some (fm_abs m k, m') \<and> fm_ok m' \<and> fm_abs m' = (fm_abs m)(k := None)"
    by (rule fm_ok_remove [OF ok])
  show "fm_ok (fm_clear m) \<and> fm_abs (fm_clear m) = Map.empty"
    using fm_clear_abs [OF wf] ok by (auto simp: fm_ok_def fm_clear_def)
  show "\<exists>m'. fm_insert m k v = Some (False, m') \<and> fm_ok m' \<and> fm_abs m' = fm_abs m"
    if "k \<notin> dom (fm_abs m)" "FM_LIMIT \<le> card (dom (fm_abs m))"
    using fm_insert_full [OF wf, of k v] that card fm_ok_limit [OF ok] fm_ok_ensure_init [OF ok] by auto
  show "\<exists>m'. fm_insert m k v = Some (True, m') \<and> fm_ok m' \<and> fm_abs m' = (fm_abs m)(k \<mapsto> v)"
    if "k \<in> dom (fm_abs m) \<or> card (dom (fm_abs m)) < FM_LIMIT"
    using fm_ok_insert [OF ok] that card by simp
  show "\<exists>m'. fm_get_or_insert m k d f = Some (case fm_abs m k of None \<Rightarrow> d | Some v \<Rightarrow> v, m') \<and> fm_ok m' \<and>
      fm_abs m' = (fm_abs m)(k \<mapsto> f (case fm_abs m k of None \<Rightarrow> d | Some v \<Rightarrow> v))"
    if "k \<in> dom (fm_abs m) \<or> card (dom (fm_abs m)) < FM_LIMIT"
    using fm_ok_get_or_insert [OF ok] that card by simp
qed

section \<open>Any history of the table is a history of a finite map\<close>

datatype 'v map_op = Put u64 'v | Del u64 | Clear

fun fm_step :: "'v fixed_map \<Rightarrow> 'v map_op \<Rightarrow> 'v fixed_map run" where
  "fm_step m (Put k v) = map_option snd (fm_insert m k v)"
| "fm_step m (Del k) = map_option snd (fm_remove m k)"
| "fm_step m Clear = Some (fm_clear m)"

fun fm_run :: "'v fixed_map \<Rightarrow> 'v map_op list \<Rightarrow> 'v fixed_map run" where
  "fm_run m [] = Some m"
| "fm_run m (x # xs) = do { m' \<leftarrow> fm_step m x; fm_run m' xs }"

text \<open>The same history on a finite map that takes at most \<open>lim\<close> keys.\<close>

fun spec_step :: "nat \<Rightarrow> (u64 \<rightharpoonup> 'v) \<Rightarrow> 'v map_op \<Rightarrow> u64 \<rightharpoonup> 'v" where
  "spec_step lim M (Put k v) = (if k \<in> dom M \<or> card (dom M) < lim then M(k \<mapsto> v) else M)"
| "spec_step lim M (Del k) = M(k := None)"
| "spec_step lim M Clear = Map.empty"

lemma fm_step_refines:
  assumes "fm_ok m"
  shows "\<exists>m'. fm_step m x = Some m' \<and> fm_ok m' \<and> fm_abs m' = spec_step FM_LIMIT (fm_abs m) x"
proof (cases x)
  case (Put k v)
  obtain b m' where "fm_insert m k v = Some (b, m')" "fm_ok m'"
    "fm_abs m' = spec_step FM_LIMIT (fm_abs m) x"
    unfolding Put spec_step.simps using fm.put_total [OF assms, of k v] by blast
  then show ?thesis unfolding Put by simp
next
  case (Del k)
  then show ?thesis using fm.remove_law [OF assms, of k] by auto
next
  case Clear
  then show ?thesis using fm.clear_law [OF assms] by auto
qed

lemma fm_run_refines:
  "fm_ok m \<Longrightarrow> \<exists>m'. fm_run m xs = Some m' \<and> fm_ok m' \<and> fm_abs m' = foldl (spec_step FM_LIMIT) (fm_abs m) xs"
proof (induction xs arbitrary: m)
  case Nil
  then show ?case by simp
next
  case (Cons x xs)
  obtain m1 where m1: "fm_step m x = Some m1" "fm_ok m1" "fm_abs m1 = spec_step FM_LIMIT (fm_abs m) x"
    using fm_step_refines [OF Cons.prems] by blast
  then show ?case using Cons.IH [OF m1(2)] by simp
qed

text \<open>
  C1. Whatever sequence of insertions, removals and clears a fresh hash table goes
  through, every operation returns, and afterwards a lookup of any key gives exactly what
  the same history of a finite map of at most 12288 keys gives; \<open>len\<close> counts its keys.
\<close>

theorem fixed_map_refines_map:
  "\<exists>m. fm_run fm_new xs = Some m \<and>
     (\<forall>k. fm_get m k = Some (foldl (spec_step 12288) Map.empty xs k)) \<and>
     fm_len m = card (dom (foldl (spec_step 12288) Map.empty xs))"
proof -
  obtain m where m: "fm_run fm_new xs = Some m" "fm_ok m"
    "fm_abs m = foldl (spec_step 12288) Map.empty xs"
    using fm_run_refines [OF fm_ok_new, of xs] unfolding fm_abs_new FM_LIMIT_eq by blast
  have "\<forall>k. fm_get m k = Some (fm_abs m k)" by (simp only: fm.get_law [OF m(2)]) simp
  moreover have "fm_len m = card (dom (fm_abs m))"
    using m(2) by (simp only: fm_ok_def fm_card)
  ultimately show ?thesis using m(1) unfolding m(3) by blast
qed

end
