(* ===== verification/Capability.thy ===== *)
theory Capability
  imports Fabric_Types Fixed_Map
begin

text \<open>
  The capability engine (\<^verbatim>\<open>kernel/src/capability\<close>): nonce tracking, budgets, and the store of
  live tokens with its delegation tree. A token points at its first child and its next
  sibling, so that revocation can walk the tree below a token.

  HMAC-SHA3-256 comes from the crates \<open>hmac\<close> and \<open>sha3\<close> and is the parameter \<open>mac\<close>: the
  message authentication code of a byte string under the kernel's key. The operations
  are modelled as the state changes they make while \<open>STORE\<close> is locked.
\<close>

type_synonym mac = "bytes \<Rightarrow> bytes"

section \<open>HMAC engine (\<^verbatim>\<open>hmac_engine.rs\<close>)\<close>

text \<open>The boot key: the seed \<^verbatim>\<open>FabricOS_CapKey_Phase1_v1.0!!!!_\<close> with the time stamp counter folded in.\<close>

definition hmac_key_init :: "u64 \<Rightarrow> bytes" where
  "hmac_key_init tsc =
     (let seed = map (of_nat \<circ> of_char) ''FabricOS_CapKey_Phase1_v1.0!!!!_''; tsc_bytes = le_bytes 8 tsc
      in map (\<lambda>i. seed ! i XOR tsc_bytes ! (i mod 8)) [0..<32])"

definition hmac_sign :: "mac \<Rightarrow> bytes \<Rightarrow> bytes" where
  "hmac_sign mac data = mac data"

definition hmac_verify :: "mac \<Rightarrow> bytes \<Rightarrow> bytes \<Rightarrow> bool" where
  "hmac_verify mac data expected \<longleftrightarrow> mac data = expected"

section \<open>Nonce tracker (\<^verbatim>\<open>nonce.rs\<close>)\<close>

type_synonym nonce_tracker = "u32 fixed_map"

definition nonce_check_and_advance :: "nonce_tracker \<Rightarrow> u64 \<Rightarrow> u32 \<Rightarrow> (bool \<times> nonce_tracker) run" where
  "nonce_check_and_advance nt cap_id nonce = do {
     (entry, nt') \<leftarrow> fm_get_or_insert nt cap_id 0 (\<lambda>e. if nonce > e then nonce else e);
     Some (nonce > entry, nt')
   }"

definition nonce_next_expected :: "nonce_tracker \<Rightarrow> u64 \<Rightarrow> u32 run" where
  "nonce_next_expected nt cap_id = do {
     r \<leftarrow> fm_get nt cap_id;
     Some (case r of None \<Rightarrow> 1 | Some n \<Rightarrow> n + 1)
   }"

definition nonce_remove :: "nonce_tracker \<Rightarrow> u64 \<Rightarrow> nonce_tracker run" where
  "nonce_remove nt cap_id = map_option snd (fm_remove nt cap_id)"

section \<open>Budget tracker (\<^verbatim>\<open>budget.rs\<close>)\<close>

text \<open>An entry is (uses in this interval, tick the interval started).\<close>

type_synonym budget_tracker = "(u32 \<times> u64) fixed_map"

definition budget_roll :: "budget \<Rightarrow> u64 \<Rightarrow> u32 \<times> u64 \<Rightarrow> u32 \<times> u64" where
  "budget_roll b current_tick e =
     (if saturating_sub current_tick (snd e) \<ge> interval_ticks b then (0, current_tick) else e)"

definition budget_check_and_consume ::
  "budget_tracker \<Rightarrow> u64 \<Rightarrow> budget \<Rightarrow> u64 \<Rightarrow> (bool \<times> budget_tracker) run" where
  "budget_check_and_consume bt cap_id b current_tick = do {
     (entry, bt') \<leftarrow> fm_get_or_insert bt cap_id (0, current_tick)
        (\<lambda>e. let e' = budget_roll b current_tick e in
             if fst e' < max_uses b then (fst e' + 1, snd e') else e');
     Some (fst (budget_roll b current_tick entry) < max_uses b, bt')
   }"

definition budget_remaining :: "budget_tracker \<Rightarrow> u64 \<Rightarrow> budget \<Rightarrow> u64 \<Rightarrow> u32 run" where
  "budget_remaining bt cap_id b current_tick = do {
     r \<leftarrow> fm_get bt cap_id;
     Some (case r of
         None \<Rightarrow> max_uses b
       | Some (used, start) \<Rightarrow>
           if saturating_sub current_tick start \<ge> interval_ticks b then max_uses b
           else saturating_sub (max_uses b) used)
   }"

definition budget_remove :: "budget_tracker \<Rightarrow> u64 \<Rightarrow> budget_tracker run" where
  "budget_remove bt cap_id = map_option snd (fm_remove bt cap_id)"

section \<open>The store (\<^verbatim>\<open>store.rs\<close>)\<close>

definition MAX_TOKENS :: nat where "MAX_TOKENS = 12288"

record stored_token =
  st_token :: capability_token
  st_hmac :: bytes
  st_budget :: "budget option"
  st_created_at :: u64
  st_first_child :: u64
  st_next_sibling :: u64

datatype capability_error =
    NotFound | InvalidHmac | Expired | InsufficientPermission | BudgetExhausted
  | NonceReplay | DelegationDenied | PermissionEscalation | StoreFull

record cap_store =
  cs_tokens :: "stored_token fixed_map"
  cs_next_id :: u64
  cs_budget_tracker :: budget_tracker
  cs_nonce_tracker :: nonce_tracker
  cs_current_tick :: u64

type_synonym 'a cap_result = "(capability_error + 'a) \<times> cap_store"

definition store_new :: cap_store where
  "store_new = \<lparr>cs_tokens = fm_new, cs_next_id = 1, cs_budget_tracker = fm_new,
     cs_nonce_tracker = fm_new, cs_current_tick = 0\<rparr>"

definition alloc_id :: "cap_store \<Rightarrow> u64 \<times> cap_store" where
  "alloc_id S = (cs_next_id S, S\<lparr>cs_next_id := cs_next_id S + 1\<rparr>)"

text \<open>The token both \<open>create\<close> and \<open>delegate\<close> fill in, field by field, from a zeroed one.\<close>

definition make_token :: "perm \<Rightarrow> process_id \<Rightarrow> u64 \<Rightarrow> resource_id \<Rightarrow> u64 \<Rightarrow> u32 \<Rightarrow> capability_token" where
  "make_token permissions owner cid resource delegated_from expires =
     token_zeroed\<lparr>ct_version := TOKEN_VERSION, ct_permissions := permissions, ct_owner := owner, ct_id := cid,
       ct_resource := resource, ct_delegated_from := delegated_from, ct_nonce := 0, ct_expires := expires\<rparr>"

definition store_create ::
  "mac \<Rightarrow> cap_store \<Rightarrow> resource_id \<Rightarrow> perm \<Rightarrow> process_id \<Rightarrow> u32 option \<Rightarrow> budget option \<Rightarrow> capability_id cap_result run" where
  "store_create mac S0 resource permissions owner expires bud =
     (if fm_len (cs_tokens S0) \<ge> MAX_TOKENS then Some (Inl StoreFull, S0)
      else do {
        let (cid, S) = alloc_id S0;
        let token = make_token permissions owner cid resource 0 (case expires of None \<Rightarrow> 0 | Some e \<Rightarrow> e);
        let hmac = hmac_sign mac (token_active_bytes token);
        (_, toks) \<leftarrow> fm_insert (cs_tokens S) cid
           \<lparr>st_token = token, st_hmac = hmac, st_budget = bud, st_created_at = cs_current_tick S,
            st_first_child = 0, st_next_sibling = 0\<rparr>;
        Some (Inr cid, S\<lparr>cs_tokens := toks\<rparr>)
      })"

definition child_expires :: "u32 option \<Rightarrow> u32 \<Rightarrow> u32" where
  "child_expires expires parent_expires =
     (case expires of
        Some e \<Rightarrow> if parent_expires > 0 \<and> e > parent_expires then parent_expires else e
      | None \<Rightarrow> parent_expires)"

definition store_delegate ::
  "mac \<Rightarrow> cap_store \<Rightarrow> u64 \<Rightarrow> process_id \<Rightarrow> perm \<Rightarrow> u32 option \<Rightarrow> budget option \<Rightarrow> capability_id cap_result run" where
  "store_delegate mac S0 parent_id new_owner permissions expires bud =
     (if fm_len (cs_tokens S0) \<ge> MAX_TOKENS then Some (Inl StoreFull, S0)
      else do {
        found \<leftarrow> fm_get (cs_tokens S0) parent_id;
        (case found of
           None \<Rightarrow> Some (Inl NotFound, S0)
         | Some parent \<Rightarrow>
             if \<not> perm_contains (ct_permissions (st_token parent)) PERM_GRANT then Some (Inl DelegationDenied, S0)
             else if \<not> perm_is_subset_of permissions (ct_permissions (st_token parent))
             then Some (Inl PermissionEscalation, S0)
             else do {
               let (cid, S) = alloc_id S0;
               let token = make_token permissions new_owner cid (ct_resource (st_token parent)) parent_id
                 (child_expires expires (ct_expires (st_token parent)));
               let hmac = hmac_sign mac (token_active_bytes token);
               (_, toks) \<leftarrow> fm_insert (cs_tokens S) cid
                  \<lparr>st_token = token, st_hmac = hmac, st_budget = bud, st_created_at = cs_current_tick S,
                   st_first_child = 0, st_next_sibling = st_first_child parent\<rparr>;
               (_, toks') \<leftarrow> fm_get_mut toks parent_id (\<lambda>p. p\<lparr>st_first_child := cid\<rparr>);
               Some (Inr cid, S\<lparr>cs_tokens := toks'\<rparr>)
             })
      })"

definition token_expired :: "stored_token \<Rightarrow> u64 \<Rightarrow> bool" where
  "token_expired st now \<longleftrightarrow>
     ct_expires (st_token st) > 0 \<and> now \<ge> st_created_at st + ucast (ct_expires (st_token st))"

definition store_validate :: "mac \<Rightarrow> cap_store \<Rightarrow> u64 \<Rightarrow> perm \<Rightarrow> u32 \<Rightarrow> unit cap_result run" where
  "store_validate mac S token_id required_perm presented_nonce = do {
     found \<leftarrow> fm_get (cs_tokens S) token_id;
     (case found of
        None \<Rightarrow> Some (Inl NotFound, S)
      | Some stored \<Rightarrow>
          if \<not> hmac_verify mac (token_active_bytes (st_token stored)) (st_hmac stored) then Some (Inl InvalidHmac, S)
          else if token_expired stored (cs_current_tick S) then Some (Inl Expired, S)
          else if \<not> perm_contains (ct_permissions (st_token stored)) required_perm
          then Some (Inl InsufficientPermission, S)
          else do {
            (fresh, nt) \<leftarrow> nonce_check_and_advance (cs_nonce_tracker S) token_id presented_nonce;
            let S1 = S\<lparr>cs_nonce_tracker := nt\<rparr>;
            if \<not> fresh then Some (Inl NonceReplay, S1)
            else (case st_budget stored of
                None \<Rightarrow> Some (Inr (), S1)
              | Some b \<Rightarrow> do {
                  (allowed, bt) \<leftarrow> budget_check_and_consume (cs_budget_tracker S1) token_id b (cs_current_tick S1);
                  let S2 = S1\<lparr>cs_budget_tracker := bt\<rparr>;
                  Some (if allowed then Inr () else Inl BudgetExhausted, S2)
                })
          })
   }"

text \<open>Following a link: an absent token reads as \<open>0\<close>, the end of a list.\<close>

definition next_of :: "stored_token fixed_map \<Rightarrow> u64 \<Rightarrow> u64 run" where
  "next_of m cid = do { r \<leftarrow> fm_get m cid; Some (case r of None \<Rightarrow> 0 | Some s \<Rightarrow> st_next_sibling s) }"

definition first_child_of :: "stored_token fixed_map \<Rightarrow> u64 \<Rightarrow> u64 run" where
  "first_child_of m cid = do { r \<leftarrow> fm_get m cid; Some (case r of None \<Rightarrow> 0 | Some s \<Rightarrow> st_first_child s) }"

partial_function (option) unlink_walk ::
  "stored_token fixed_map \<Rightarrow> u64 \<Rightarrow> u64 \<Rightarrow> u64 \<Rightarrow> stored_token fixed_map run" where
  "unlink_walk m child_id child_next prev_id =
     (if prev_id = 0 then Some m
      else Option.bind (next_of m prev_id) (\<lambda>nxt.
        if nxt = child_id
        then map_option snd (fm_get_mut m prev_id (\<lambda>s. s\<lparr>st_next_sibling := child_next\<rparr>))
        else unlink_walk m child_id child_next nxt))"

definition unlink_child :: "stored_token fixed_map \<Rightarrow> u64 \<Rightarrow> u64 \<Rightarrow> stored_token fixed_map run" where
  "unlink_child m parent_id child_id = do {
     child_next \<leftarrow> next_of m child_id;
     parent_first \<leftarrow> first_child_of m parent_id;
     if parent_first = child_id
     then map_option snd (fm_get_mut m parent_id (\<lambda>s. s\<lparr>st_first_child := child_next\<rparr>))
     else unlink_walk m child_id child_next parent_first
   }"

partial_function (option) collect_walk :: "stored_token fixed_map \<Rightarrow> u64 \<Rightarrow> u64 list run" where
  "collect_walk m child_id =
     (if child_id = 0 then Some []
      else Option.bind (next_of m child_id) (\<lambda>nxt.
        Option.bind (collect_walk m nxt) (\<lambda>rest. Some (child_id # rest))))"

definition collect_children :: "stored_token fixed_map \<Rightarrow> u64 \<Rightarrow> u64 list run" where
  "collect_children m parent_id = do { c \<leftarrow> first_child_of m parent_id; collect_walk m c }"

text \<open>The depth-first loop of \<open>revoke\<close>; the top of the stack is the end of the list, as in a \<open>Vec\<close>.\<close>

definition revoke_one :: "cap_store \<Rightarrow> u64 \<Rightarrow> (nat \<times> cap_store) run" where
  "revoke_one S cid = do {
     (r, toks) \<leftarrow> fm_remove (cs_tokens S) cid;
     let S1 = S\<lparr>cs_tokens := toks\<rparr>;
     (case r of
        None \<Rightarrow> Some (0, S1)
      | Some _ \<Rightarrow> do {
          bt \<leftarrow> budget_remove (cs_budget_tracker S1) cid;
          nt \<leftarrow> nonce_remove (cs_nonce_tracker S1) cid;
          Some (1, S1\<lparr>cs_budget_tracker := bt, cs_nonce_tracker := nt\<rparr>)
        })
   }"

partial_function (option) revoke_loop :: "cap_store \<Rightarrow> u64 list \<Rightarrow> nat \<Rightarrow> (nat \<times> cap_store) run" where
  "revoke_loop S stack cnt =
     (if stack = [] then Some (cnt, S)
      else Option.bind (collect_children (cs_tokens S) (last stack)) (\<lambda>children.
        Option.bind (revoke_one S (last stack)) (\<lambda>(k, S').
          revoke_loop S' (butlast stack @ children) (cnt + k))))"

definition store_revoke :: "cap_store \<Rightarrow> u64 \<Rightarrow> nat cap_result run" where
  "store_revoke S token_id = do {
     found \<leftarrow> fm_get (cs_tokens S) token_id;
     (case found of
        None \<Rightarrow> Some (Inl NotFound, S)
      | Some st \<Rightarrow> do {
          let parent_id = ct_delegated_from (st_token st);
          toks \<leftarrow> (if parent_id \<noteq> 0 then unlink_child (cs_tokens S) parent_id token_id else Some (cs_tokens S));
          (cnt, S') \<leftarrow> revoke_loop (S\<lparr>cs_tokens := toks\<rparr>) [token_id] 0;
          Some (Inr cnt, S')
        })
   }"

definition store_get :: "cap_store \<Rightarrow> u64 \<Rightarrow> stored_token option run" where
  "store_get S token_id = fm_get (cs_tokens S) token_id"

definition store_get_token_info :: "cap_store \<Rightarrow> u64 \<Rightarrow> (process_id \<times> resource_id) option run" where
  "store_get_token_info S token_id = do {
     r \<leftarrow> fm_get (cs_tokens S) token_id;
     Some (map_option (\<lambda>s. (ct_owner (st_token s), ct_resource (st_token s))) r)
   }"

definition store_tick :: "cap_store \<Rightarrow> cap_store" where
  "store_tick S = S\<lparr>cs_current_tick := cs_current_tick S + 1\<rparr>"

definition store_advance_ticks :: "cap_store \<Rightarrow> u64 \<Rightarrow> cap_store" where
  "store_advance_ticks S n = S\<lparr>cs_current_tick := cs_current_tick S + n\<rparr>"

definition store_count :: "cap_store \<Rightarrow> nat" where
  "store_count S = fm_len (cs_tokens S)"

definition store_clear :: "cap_store \<Rightarrow> cap_store" where
  "store_clear S = \<lparr>cs_tokens = fm_clear (cs_tokens S), cs_next_id = 1,
     cs_budget_tracker = fm_clear (cs_budget_tracker S), cs_nonce_tracker = fm_clear (cs_nonce_tracker S),
     cs_current_tick = 0\<rparr>"

end
