(* ===== verification/Capability_Tree.thy ===== *)
theory Capability_Tree
  imports Capability
begin

text \<open>
  The delegation tree of the capability store, as a relation on the map of live tokens:
  parents, children, sibling chains and descendants; what the walks of \<^verbatim>\<open>store.rs\<close> over
  the intrusive lists compute; and the depth-first removal of a subtree.
\<close>

type_synonym tokmap = "u64 \<rightharpoonup> stored_token"

section \<open>Parents, children, sibling chains\<close>

definition parent_of :: "tokmap \<Rightarrow> u64 \<Rightarrow> u64" where
  "parent_of T x = (case T x of None \<Rightarrow> 0 | Some st \<Rightarrow> ct_delegated_from (st_token st))"

definition children :: "tokmap \<Rightarrow> u64 \<Rightarrow> u64 set" where
  "children T p = {c \<in> dom T. parent_of T c = p}"

fun chain :: "tokmap \<Rightarrow> u64 \<Rightarrow> u64 list \<Rightarrow> bool" where
  "chain T x [] \<longleftrightarrow> x = 0"
| "chain T x (y # ys) \<longleftrightarrow> x = y \<and> y \<noteq> 0 \<and> (\<exists>st. T y = Some st \<and> chain T (st_next_sibling st) ys)"

text \<open>The list that starts at the first child of \<open>i\<close> holds exactly the ids in \<open>X\<close>.\<close>

definition lists_children :: "tokmap \<Rightarrow> u64 \<Rightarrow> u64 set \<Rightarrow> bool" where
  "lists_children T i X \<longleftrightarrow>
     (\<exists>st cs. T i = Some st \<and> chain T (st_first_child st) cs \<and> distinct cs \<and> set cs = X)"

lemma lists_childrenI:
  "T i = Some st \<Longrightarrow> chain T (st_first_child st) cs \<Longrightarrow> distinct cs \<Longrightarrow> set cs = X \<Longrightarrow> lists_children T i X"
  unfolding lists_children_def by blast

lemma chain_dom: "chain T x xs \<Longrightarrow> set xs \<subseteq> dom T \<and> 0 \<notin> set xs"
  by (induction xs arbitrary: x) auto

lemma chain_cong:
  "chain T x xs \<Longrightarrow> (\<And>y. y \<in> set xs \<Longrightarrow> map_option st_next_sibling (T' y) = map_option st_next_sibling (T y)) \<Longrightarrow>
   chain T' x xs"
proof (induction xs arbitrary: x)
  case (Cons y ys)
  then obtain st where st: "T y = Some st" "chain T (st_next_sibling st) ys" "x = y" "y \<noteq> 0" by auto
  then obtain st' where "T' y = Some st'" "st_next_sibling st' = st_next_sibling st"
    using Cons.prems(2) [of y] by auto
  then show ?case using st Cons.IH [OF st(2)] Cons.prems(2) by auto
qed simp

lemma children_cong: "dom T' = dom T \<Longrightarrow> (\<And>x. parent_of T' x = parent_of T x) \<Longrightarrow> children T' p = children T p"
  by (simp add: children_def)

section \<open>Descendants\<close>

text \<open>\<open>descends T x r\<close>: token \<open>x\<close> is \<open>r\<close>, or was delegated, directly or not, from \<open>r\<close>.\<close>

inductive descends :: "tokmap \<Rightarrow> u64 \<Rightarrow> u64 \<Rightarrow> bool" for T where
  self: "x \<in> dom T \<Longrightarrow> descends T x x"
| step: "x \<in> dom T \<Longrightarrow> parent_of T x = p \<Longrightarrow> p \<noteq> 0 \<Longrightarrow> descends T p r \<Longrightarrow> descends T x r"

definition subtree :: "tokmap \<Rightarrow> u64 \<Rightarrow> u64 set" where
  "subtree T r = {x. descends T x r}"

text \<open>Tokens are older than the tokens delegated from them, and no token is an orphan.\<close>

definition forest :: "tokmap \<Rightarrow> bool" where
  "forest T \<longleftrightarrow> (\<forall>x \<in> dom T. x \<noteq> 0 \<and> (parent_of T x \<noteq> 0 \<longrightarrow> parent_of T x < x \<and> parent_of T x \<in> dom T))"

lemma descends_dom: "descends T x r \<Longrightarrow> x \<in> dom T \<and> r \<in> dom T"
  by (induction rule: descends.induct) auto

lemma forest_parent:
  "forest T \<Longrightarrow> x \<in> dom T \<Longrightarrow> parent_of T x \<noteq> 0 \<Longrightarrow> parent_of T x < x \<and> parent_of T x \<in> dom T"
  unfolding forest_def by blast

lemma descends_ge: "descends T x r \<Longrightarrow> forest T \<Longrightarrow> r \<le> x"
proof (induction rule: descends.induct)
  case (step x p r)
  then have "r \<le> p" "p < x" using forest_parent by blast+
  then show ?case by simp
qed simp

lemma descends_trans: "descends T x y \<Longrightarrow> descends T y z \<Longrightarrow> descends T x z"
  by (induction rule: descends.induct) (auto intro: descends.intros)

lemma child_descends: "c \<in> children T p \<Longrightarrow> p \<in> dom T \<Longrightarrow> p \<noteq> 0 \<Longrightarrow> descends T c p"
  by (auto simp: children_def intro: descends.intros)

lemma descends_cases_last:
  assumes "descends T x r" "x \<noteq> r"
  obtains c where "c \<in> children T r" "descends T x c"
  using assms
proof (induction arbitrary: thesis rule: descends.induct)
  case (step x p r)
  show ?case
  proof (cases "p = r")
    case True
    then have "x \<in> children T r" using step.hyps by (auto simp: children_def)
    then show ?thesis using step.prems(1) step.hyps(1) descends.self by blast
  next
    case False
    obtain c where "c \<in> children T r" "descends T p c" by (rule step.IH [OF _ False])
    then show ?thesis using step.prems(1) step.hyps descends.step by blast
  qed
qed simp

text \<open>The ancestors of a token form a chain.\<close>

lemma descends_linear:
  "descends T x a \<Longrightarrow> descends T x b \<Longrightarrow> descends T a b \<or> descends T b a"
proof (induction rule: descends.induct)
  case (step x p r)
  from step.prems show ?case
  proof (cases rule: descends.cases)
    case self
    then show ?thesis using step.hyps descends.step by blast
  next
    case (step p')
    then show ?thesis using step.IH step.hyps by auto
  qed
qed simp

lemma subtree_split:
  assumes f: "forest T" and r: "r \<in> dom T"
  shows "subtree T r = insert r (\<Union>c \<in> children T r. subtree T c)"
    and "r \<notin> (\<Union>c \<in> children T r. subtree T c)"
proof -
  have r0: "r \<noteq> 0" using f r by (auto simp: forest_def)
  show "subtree T r = insert r (\<Union>c \<in> children T r. subtree T c)"
  proof (intro equalityI subsetI)
    fix x assume "x \<in> subtree T r"
    then show "x \<in> insert r (\<Union>c \<in> children T r. subtree T c)"
      by (cases "x = r") (auto simp: subtree_def elim: descends_cases_last)
  next
    fix x assume "x \<in> insert r (\<Union>c \<in> children T r. subtree T c)"
    then show "x \<in> subtree T r"
      using r r0 by (auto simp: subtree_def intro: descends.self descends_trans child_descends)
  qed
  show "r \<notin> (\<Union>c \<in> children T r. subtree T c)"
  proof
    assume "r \<in> (\<Union>c \<in> children T r. subtree T c)"
    then obtain c where c: "c \<in> children T r" "descends T r c" by (auto simp: subtree_def)
    have "r < c" using f c(1) r0 by (auto simp: forest_def children_def)
    moreover have "c \<le> r" by (rule descends_ge [OF c(2) f])
    ultimately show False by simp
  qed
qed

lemma subtree_siblings_disjoint:
  assumes f: "forest T" and c: "c \<in> children T p" "c' \<in> children T p" "c \<noteq> c'" and p: "p \<noteq> 0"
  shows "subtree T c \<inter> subtree T c' = {}"
proof -
  have False if "descends T d d'" "d \<in> children T p" "d' \<in> children T p" "d \<noteq> d'" for d d'
    using that(1)
  proof (cases rule: descends.cases)
    case (step q)
    then have "descends T p d'" using that(2) by (simp add: children_def)
    then have "d' \<le> p" by (rule descends_ge [OF _ f])
    moreover have "p < d'" using f that(3) p by (auto simp: forest_def children_def)
    ultimately show False by simp
  qed (use that in simp)
  then show ?thesis using c descends_linear by (fastforce simp: subtree_def)
qed

lemma descends_mono:
  "descends T x r \<Longrightarrow> dom T \<subseteq> dom T' \<Longrightarrow> (\<And>x. x \<in> dom T \<Longrightarrow> parent_of T' x = parent_of T x) \<Longrightarrow> descends T' x r"
  by (induction rule: descends.induct) (blast intro: descends.self, metis descends.step subsetD)

lemma descends_cong:
  assumes "dom T' = dom T" "\<And>x. parent_of T' x = parent_of T x"
  shows "descends T' x r = descends T x r"
  using descends_mono [of T x r T'] descends_mono [of T' x r T] assms by simp blast


section \<open>Walking the intrusive lists\<close>

lemma next_of_abs:
  "fm_ok m \<Longrightarrow> next_of m i = Some (case fm_abs m i of None \<Rightarrow> 0 | Some s \<Rightarrow> st_next_sibling s)"
  by (simp add: next_of_def fm.get_law)

lemma first_child_of_abs:
  "fm_ok m \<Longrightarrow> first_child_of m i = Some (case fm_abs m i of None \<Rightarrow> 0 | Some s \<Rightarrow> st_first_child s)"
  by (simp add: first_child_of_def fm.get_law)

lemma collect_walk_chain: "fm_ok m \<Longrightarrow> chain (fm_abs m) x xs \<Longrightarrow> collect_walk m x = Some xs"
proof (induction xs arbitrary: x)
  case Nil
  then show ?case by (subst collect_walk.simps) simp
next
  case (Cons y ys)
  then show ?case by (subst collect_walk.simps) (auto simp: next_of_abs)
qed

lemma collect_children_lists:
  assumes "fm_ok m" "lists_children (fm_abs m) i X"
  obtains cs where "collect_children m i = Some cs" "distinct cs" "set cs = X"
  using assms by (auto simp: lists_children_def collect_children_def first_child_of_abs collect_walk_chain)

lemma lists_children_cong:
  assumes "lists_children T i X" "map_option st_first_child (T' i) = map_option st_first_child (T i)"
    and "\<And>y. y \<in> X \<Longrightarrow> map_option st_next_sibling (T' y) = map_option st_next_sibling (T y)"
  shows "lists_children T' i X"
proof -
  obtain st cs where T: "T i = Some st" "chain T (st_first_child st) cs" "distinct cs" "set cs = X"
    using assms(1) by (auto simp: lists_children_def)
  obtain st' where "T' i = Some st'" "st_first_child st' = st_first_child st"
    using assms(2) T(1) by auto
  moreover have "chain T' (st_first_child st) cs"
    by (rule chain_cong [OF T(2)]) (simp add: assms(3) T(4))
  ultimately show ?thesis using T by (auto simp: lists_children_def)
qed

text \<open>Unlinking \<open>c\<close>, not the first of its list: its predecessor skips it.\<close>

definition set_next :: "tokmap \<Rightarrow> u64 \<Rightarrow> u64 \<Rightarrow> tokmap" where
  "set_next T q v = T(q := map_option (\<lambda>s. s\<lparr>st_next_sibling := v\<rparr>) (T q))"

definition set_first :: "tokmap \<Rightarrow> u64 \<Rightarrow> u64 \<Rightarrow> tokmap" where
  "set_first T q v = T(q := map_option (\<lambda>s. s\<lparr>st_first_child := v\<rparr>) (T q))"

lemma unlink_walk_chain:
  "fm_ok m \<Longrightarrow> chain (fm_abs m) x (as @ c # bs) \<Longrightarrow> as \<noteq> [] \<Longrightarrow> distinct (as @ c # bs) \<Longrightarrow>
   \<exists>m'. unlink_walk m c v x = Some m' \<and> fm_ok m' \<and> fm_abs m' = set_next (fm_abs m) (last as) v"
proof (induction as arbitrary: x)
  case (Cons a as)
  then obtain st where st: "x = a" "a \<noteq> 0" "fm_abs m a = Some st"
    and rest: "chain (fm_abs m) (st_next_sibling st) (as @ c # bs)" by auto
  show ?case
  proof (cases as)
    case Nil
    then have "st_next_sibling st = c" using rest by simp
    moreover obtain m' where "fm_get_mut m a (\<lambda>s. s\<lparr>st_next_sibling := v\<rparr>) = Some (fm_abs m a, m')" "fm_ok m'"
      "fm_abs m' = set_next (fm_abs m) a v"
      using fm.modify_law [OF Cons.prems(1)] unfolding set_next_def by blast
    ultimately show ?thesis using Nil st by (subst unlink_walk.simps) (simp add: next_of_abs Cons.prems(1))
  next
    case (Cons b bs')
    then have "st_next_sibling st \<noteq> c" using rest \<open>distinct ((a # as) @ c # bs)\<close> by auto
    moreover obtain m' where "unlink_walk m c v (st_next_sibling st) = Some m'" "fm_ok m'"
      "fm_abs m' = set_next (fm_abs m) (last as) v"
      using Cons.IH [OF \<open>fm_ok m\<close> rest] Cons \<open>distinct ((a # as) @ c # bs)\<close> by auto
    ultimately show ?thesis using Cons st by (subst unlink_walk.simps) (simp add: next_of_abs \<open>fm_ok m\<close>)
  qed
qed simp

lemma chain_set_next:
  "chain T x (as @ c # bs) \<Longrightarrow> as \<noteq> [] \<Longrightarrow> distinct (as @ c # bs) \<Longrightarrow> T c = Some sc \<Longrightarrow>
   chain (set_next T (last as) (st_next_sibling sc)) x (as @ bs)"
proof (induction as arbitrary: x)
  case (Cons a as)
  let ?q = "last (a # as)"
  let ?T = "set_next T ?q (st_next_sibling sc)"
  obtain st where st: "x = a" "a \<noteq> 0" "T a = Some st" and rest: "chain T (st_next_sibling st) (as @ c # bs)"
    using Cons.prems(1) by auto
  show ?case
  proof (cases as)
    case Nil
    then have "chain T (st_next_sibling sc) bs" using rest Cons.prems(4) by simp
    then have "chain ?T (st_next_sibling sc) bs"
      by (rule chain_cong) (use Nil Cons.prems(3) in \<open>auto simp: set_next_def\<close>)
    moreover have "?T a = Some (st\<lparr>st_next_sibling := st_next_sibling sc\<rparr>)"
      using Nil st by (simp add: set_next_def)
    ultimately show ?thesis using Nil st by simp
  next
    case (Cons b bs')
    then have "chain ?T (st_next_sibling st) (as @ bs)"
      using Cons.IH [OF rest] Cons.prems(3,4) by simp
    moreover have "a \<noteq> ?q" using Cons \<open>distinct ((a # as) @ c # bs)\<close> by (auto simp: last_in_set)
    then have "?T a = Some st" using st by (simp add: set_next_def)
    ultimately show ?thesis using st by (simp del: last.simps)
  qed
qed simp


section \<open>Unlinking a token from its parent\<close>

text \<open>The part of an entry that is not a link.\<close>

definition core :: "stored_token \<Rightarrow> stored_token" where
  "core st = st\<lparr>st_first_child := 0, st_next_sibling := 0\<rparr>"

definition same_core :: "tokmap \<Rightarrow> tokmap \<Rightarrow> bool" where
  "same_core T T' \<longleftrightarrow> (\<forall>x. map_option core (T' x) = map_option core (T x))"

lemma core_eqD: "core s = core t \<Longrightarrow> st_token s = st_token t \<and> st_hmac s = st_hmac t \<and>
    st_budget s = st_budget t \<and> st_created_at s = st_created_at t"
  by (cases s; cases t) (simp add: core_def)

lemma same_core_dom: "same_core T T' \<Longrightarrow> dom T' = dom T"
  unfolding same_core_def dom_def by (metis option.map_disc_iff)

lemma same_core_token: "same_core T T' \<Longrightarrow> map_option st_token (T' x) = map_option st_token (T x)"
  unfolding same_core_def by (cases "T x"; cases "T' x") (metis core_eqD option.map option.distinct(1) option.inject)+

lemma same_core_parent: "same_core T T' \<Longrightarrow> parent_of T' x = parent_of T x"
  using same_core_token [of T T' x] by (auto simp: parent_of_def split: option.splits)

lemma same_core_set_next: "same_core T (set_next T q v)"
  by (auto simp: same_core_def set_next_def option.map_comp comp_def core_def [abs_def])

lemma same_core_set_first: "same_core T (set_first T q v)"
  by (auto simp: same_core_def set_first_def option.map_comp comp_def core_def [abs_def])

lemma set_next_first [simp]: "map_option st_first_child (set_next T q v i) = map_option st_first_child (T i)"
  by (simp add: set_next_def option.map_comp comp_def)

lemma set_next_next: "i \<noteq> q \<Longrightarrow> set_next T q v i = T i"
  by (simp add: set_next_def)

lemma set_first_next [simp]: "map_option st_next_sibling (set_first T q v i) = map_option st_next_sibling (T i)"
  by (simp add: set_first_def option.map_comp comp_def)

lemma set_first_first: "i \<noteq> q \<Longrightarrow> set_first T q v i = T i"
  by (simp add: set_first_def)

text \<open>Every token lists exactly its children.\<close>

definition all_listed :: "tokmap \<Rightarrow> bool" where
  "all_listed T \<longleftrightarrow> (\<forall>i \<in> dom T. lists_children T i (children T i))"

lemma unlink_child_spec:
  assumes ok: "fm_ok m" and T: "T = fm_abs m" and f: "forest T" and L: "all_listed T"
    and r: "r \<in> dom T" "parent_of T r = p" "p \<noteq> 0"
  shows "\<exists>m'. unlink_child m p r = Some m' \<and> fm_ok m' \<and> same_core T (fm_abs m') \<and>
    (\<forall>i \<in> dom T. lists_children (fm_abs m') i (children T i - {r}))"
proof -
  obtain sr where sr: "T r = Some sr" using r by auto
  have p: "p \<in> dom T" "p < r" using forest_parent [OF f r(1)] r by auto
  have rp: "r \<in> children T p" using r by (simp add: children_def)
  have only: "r \<notin> children T i" if "i \<noteq> p" for i using r that by (simp add: children_def)
  obtain sp cs where sp: "T p = Some sp" "chain T (st_first_child sp) cs" "distinct cs" "set cs = children T p"
    using L p(1) unfolding all_listed_def lists_children_def by blast
  obtain as bs where cs: "cs = as @ r # bs" using rp sp(4) by (metis split_list)
  have reads: "next_of m r = Some (st_next_sibling sr)" "first_child_of m p = Some (st_first_child sp)"
    using ok T sr sp(1) by (simp_all add: next_of_abs first_child_of_abs)
  show ?thesis
  proof (cases "st_first_child sp = r")
    case True
    have as: "as = []"
    proof (cases as)
      case (Cons a as')
      then have "a = r" using sp(2) cs True by simp
      then show ?thesis using sp(3) cs Cons by simp
    qed simp
    have bs: "chain T (st_next_sibling sr) bs" "distinct bs"
      using sp(2,3) sr unfolding cs as by simp_all
    have setbs: "set bs = children T p - {r}"
      using sp(3) unfolding sp(4) [symmetric] cs as by auto
    let ?T = "set_first T p (st_next_sibling sr)"
    obtain m' where m': "fm_get_mut m p (\<lambda>s. s\<lparr>st_first_child := st_next_sibling sr\<rparr>) = Some (fm_abs m p, m')"
      "fm_ok m'" "fm_abs m' = ?T"
      using fm.modify_law [OF ok] unfolding set_first_def T by blast
    have "lists_children ?T i (children T i - {r})" if i: "i \<in> dom T" for i
    proof (cases "i = p")
      case True
      have "chain ?T (st_next_sibling sr) bs" by (rule chain_cong [OF bs(1)]) simp
      then show ?thesis
        unfolding True using bs(2) setbs
        by (intro lists_childrenI [where st = "sp\<lparr>st_first_child := st_next_sibling sr\<rparr>"])
          (simp_all add: set_first_def sp(1))
    next
      case False
      then have same: "children T i - {r} = children T i" using only by blast
      show ?thesis
        unfolding same
        by (intro lists_children_cong [OF L [unfolded all_listed_def, rule_format, OF i]])
          (simp_all add: set_first_first False)
    qed
    then show ?thesis using m' reads True same_core_set_first by (simp add: unlink_child_def)
  next
    case False
    have as: "as \<noteq> []" using sp(2) cs False by auto
    let ?q = "last as"
    let ?T = "set_next T ?q (st_next_sibling sr)"
    have q: "?q \<in> children T p" using last_in_set [OF as] unfolding sp(4) [symmetric] cs by simp
    obtain m' where m': "unlink_walk m r (st_next_sibling sr) (st_first_child sp) = Some m'"
      "fm_ok m'" "fm_abs m' = ?T"
      using unlink_walk_chain [OF ok, of "st_first_child sp" as r bs] sp(2,3) as unfolding T cs by blast
    have "lists_children ?T i (children T i - {r})" if i: "i \<in> dom T" for i
    proof (cases "i = p")
      case True
      have ch: "chain ?T (st_first_child sp) (as @ bs)"
        by (rule chain_set_next [OF sp(2) [unfolded cs] as sp(3) [unfolded cs] sr])
      have "map_option st_first_child (?T p) = Some (st_first_child sp)" by (simp add: sp(1))
      then obtain sp' where sp': "?T p = Some sp'" "st_first_child sp' = st_first_child sp"
        unfolding map_option_eq_Some by blast
      have d: "distinct (as @ bs)" "set (as @ bs) = children T p - {r}"
        using sp(3) unfolding sp(4) [symmetric] cs by auto
      show ?thesis
        unfolding True by (rule lists_childrenI [of ?T p sp' "as @ bs"]) (simp_all only: sp' ch d)
    next
      case False
      then have same: "children T i - {r} = children T i" using only by blast
      have "?q \<notin> children T i" using q False by (simp add: children_def)
      then have "?T y = T y" if "y \<in> children T i" for y
        using that by (metis set_next_next)
      then show ?thesis
        unfolding same by (intro lists_children_cong [OF L [unfolded all_listed_def, rule_format, OF i]]) simp_all
    qed
    then show ?thesis using m' reads False same_core_set_next by (simp add: unlink_child_def)
  qed
qed


section \<open>Depth-first removal\<close>

definition maps_ok :: "cap_store \<Rightarrow> bool" where
  "maps_ok S \<longleftrightarrow> fm_ok (cs_tokens S) \<and> fm_ok (cs_budget_tracker S) \<and> fm_ok (cs_nonce_tracker S)"

abbreviation toks :: "cap_store \<Rightarrow> tokmap" where "toks S \<equiv> fm_abs (cs_tokens S)"
abbreviation budgets :: "cap_store \<Rightarrow> u64 \<rightharpoonup> u32 \<times> u64" where "budgets S \<equiv> fm_abs (cs_budget_tracker S)"
abbreviation nonces :: "cap_store \<Rightarrow> u64 \<rightharpoonup> u32" where "nonces S \<equiv> fm_abs (cs_nonce_tracker S)"

text \<open>\<open>S'\<close> is \<open>S\<close> without the tokens in \<open>X\<close> and without their nonces and budgets.\<close>

definition erased :: "u64 set \<Rightarrow> cap_store \<Rightarrow> cap_store \<Rightarrow> bool" where
  "erased X S S' \<longleftrightarrow> maps_ok S' \<and> toks S' = toks S |` (- X) \<and> budgets S' = budgets S |` (- X) \<and>
     nonces S' = nonces S |` (- X) \<and> cs_next_id S' = cs_next_id S \<and> cs_current_tick S' = cs_current_tick S"

lemma erased_empty: "maps_ok S \<Longrightarrow> erased {} S S"
  by (simp add: erased_def restrict_map_def)

lemma erased_comp: "erased X S S' \<Longrightarrow> erased Y S' S'' \<Longrightarrow> erased (X \<union> Y) S S''"
  by (simp add: erased_def)

lemma revoke_one_spec:
  assumes ok: "maps_ok S" and x: "x \<in> dom (toks S)"
  shows "\<exists>S'. revoke_one S x = Some (1, S') \<and> erased {x} S S'"
proof -
  obtain st where st: "toks S x = Some st" using x by auto
  obtain t where t: "fm_remove (cs_tokens S) x = Some (toks S x, t)" "fm_ok t" "fm_abs t = (toks S)(x := None)"
    using fm.remove_law [of "cs_tokens S" x] ok unfolding maps_ok_def by blast
  obtain b where b: "fm_remove (cs_budget_tracker S) x = Some (budgets S x, b)" "fm_ok b"
    "fm_abs b = (budgets S)(x := None)"
    using fm.remove_law [of "cs_budget_tracker S" x] ok unfolding maps_ok_def by blast
  obtain n where n: "fm_remove (cs_nonce_tracker S) x = Some (nonces S x, n)" "fm_ok n"
    "fm_abs n = (nonces S)(x := None)"
    using fm.remove_law [of "cs_nonce_tracker S" x] ok unfolding maps_ok_def by blast
  let ?S = "S\<lparr>cs_tokens := t, cs_budget_tracker := b, cs_nonce_tracker := n\<rparr>"
  have "revoke_one S x = Some (1, ?S)"
    using t(1) b(1) n(1) st by (simp add: revoke_one_def budget_remove_def nonce_remove_def)
  moreover have "erased {x} S ?S"
    using t b n by (simp add: erased_def maps_ok_def restrict_complement_singleton_eq)
  ultimately show ?thesis by blast
qed

definition pending :: "tokmap \<Rightarrow> u64 list \<Rightarrow> u64 set" where
  "pending T0 stack = (\<Union>s \<in> set stack. subtree T0 s)"

definition disjoint_subtrees :: "tokmap \<Rightarrow> u64 list \<Rightarrow> bool" where
  "disjoint_subtrees T0 stack \<longleftrightarrow> distinct stack \<and> set stack \<subseteq> dom T0 \<and>
     (\<forall>s \<in> set stack. \<forall>s' \<in> set stack. s \<noteq> s' \<longrightarrow> subtree T0 s \<inter> subtree T0 s' = {})"

lemma subtree_self: "r \<in> dom T \<Longrightarrow> r \<in> subtree T r"
  by (simp add: subtree_def descends.self)

lemma subtree_dom: "subtree T r \<subseteq> dom T"
  using descends_dom by (auto simp: subtree_def)

text \<open>Replacing the top of the stack by its children takes exactly the top out of the pending set.\<close>

lemma pop_push:
  assumes f: "forest T0" and d: "disjoint_subtrees T0 (ss @ [x])"
    and cs: "distinct cs" "set cs = children T0 x"
  shows "disjoint_subtrees T0 (ss @ cs)"
    and "pending T0 (ss @ [x]) = insert x (pending T0 (ss @ cs))" "x \<notin> pending T0 (ss @ cs)"
proof -
  have x: "x \<in> dom T0" "x \<notin> set ss" and ss: "distinct ss" "set ss \<subseteq> dom T0"
    and sep: "\<And>s s'. s \<in> set ss \<Longrightarrow> s' \<in> set ss \<Longrightarrow> s \<noteq> s' \<Longrightarrow> subtree T0 s \<inter> subtree T0 s' = {}"
    and sepx: "\<And>s. s \<in> set ss \<Longrightarrow> subtree T0 s \<inter> subtree T0 x = {}"
    using d unfolding disjoint_subtrees_def by simp_all metis
  have x0: "x \<noteq> 0" using f x(1) unfolding forest_def by blast
  note split = subtree_split [OF f x(1)]
  have cdom: "set cs \<subseteq> dom T0" using cs(2) by (auto simp: children_def)
  have sub: "subtree T0 c \<subseteq> subtree T0 x" if "c \<in> set cs" for c
    using split(1) that cs(2) by blast
  have sepc: "subtree T0 s \<inter> subtree T0 c = {}" if "s \<in> set ss" "c \<in> set cs" for s c
    using sepx [OF that(1)] sub [OF that(2)] by blast
  have dis: "set ss \<inter> set cs = {}"
  proof (rule equals0I)
    fix c assume c: "c \<in> set ss \<inter> set cs"
    then have "c \<in> subtree T0 c" using subtree_self [of c T0] ss(2) by blast
    then show False using sepc [of c c] c by simp
  qed
  have sib: "subtree T0 c \<inter> subtree T0 c' = {}" if "c \<in> set cs" "c' \<in> set cs" "c \<noteq> c'" for c c'
    by (rule subtree_siblings_disjoint [OF f that(1,2) [unfolded cs(2)] that(3) x0])
  have "subtree T0 s \<inter> subtree T0 s' = {}"
    if "s \<in> set (ss @ cs)" "s' \<in> set (ss @ cs)" "s \<noteq> s'" for s s'
    using that sep sib sepc [of s s'] sepc [of s' s] by (simp add: Int_commute) blast
  then show "disjoint_subtrees T0 (ss @ cs)"
    unfolding disjoint_subtrees_def using ss cs(1) cdom dis by simp
  show "pending T0 (ss @ [x]) = insert x (pending T0 (ss @ cs))"
    unfolding pending_def set_append cs(2) UN_Un by (simp add: split(1))
  show "x \<notin> pending T0 (ss @ cs)"
  proof
    assume "x \<in> pending T0 (ss @ cs)"
    then obtain s where "s \<in> set ss" "x \<in> subtree T0 s"
      using split(2) unfolding pending_def set_append cs(2) UN_Un by blast
    then show False using sepx [of s] subtree_self [OF x(1)] by blast
  qed
qed

text \<open>
  The loop removes exactly the subtrees of the stacked tokens, and counts them. The map
  \<open>T0\<close> is the token map at the start; the loop reads it only below the stack.
\<close>

lemma revoke_loop_spec:
  assumes f: "forest T0"
  shows "maps_ok S \<Longrightarrow> disjoint_subtrees T0 stack \<Longrightarrow> (\<And>x. x \<in> pending T0 stack \<Longrightarrow> toks S x = T0 x) \<Longrightarrow>
    (\<And>x. x \<in> pending T0 stack \<Longrightarrow> lists_children T0 x (children T0 x)) \<Longrightarrow>
    \<exists>S'. revoke_loop S stack n = Some (n + card (pending T0 stack), S') \<and> erased (pending T0 stack) S S'"
proof (induction "card (pending T0 stack)" arbitrary: S stack n rule: less_induct)
  case less
  show ?case
  proof (cases stack rule: rev_cases)
    case Nil
    then show ?thesis
      using less.prems(1) by (subst revoke_loop.simps) (simp add: pending_def erased_empty)
  next
    case (snoc ss x)
    have x: "x \<in> dom T0" using less.prems(2) snoc by (auto simp: disjoint_subtrees_def)
    have xp: "x \<in> pending T0 stack" using subtree_self [OF x] snoc by (auto simp: pending_def)
    have kids: "children T0 x \<subseteq> pending T0 stack"
    proof
      fix c assume "c \<in> children T0 x"
      then have "c \<in> subtree T0 x"
        using child_descends x f by (auto simp: subtree_def forest_def)
      then show "c \<in> pending T0 stack" using snoc by (auto simp: pending_def)
    qed
    have agree: "toks S x = T0 x" "\<And>c. c \<in> children T0 x \<Longrightarrow> toks S c = T0 c"
      using less.prems(3) xp kids by auto
    have "lists_children (toks S) x (children T0 x)"
      by (rule lists_children_cong [OF less.prems(4) [OF xp]]) (simp_all add: agree)
    then obtain cs where cs: "collect_children (cs_tokens S) x = Some cs" "distinct cs" "set cs = children T0 x"
      using collect_children_lists less.prems(1) unfolding maps_ok_def by blast
    note pp = pop_push [OF f less.prems(2) [unfolded snoc] cs(2,3)]
    have "x \<in> dom (toks S)" using agree(1) x by (simp add: dom_def)
    then obtain S1 where S1: "revoke_one S x = Some (1, S1)" "erased {x} S S1"
      using revoke_one_spec [OF less.prems(1)] by blast
    have fin: "finite (pending T0 stack)"
    proof (rule finite_subset [OF subsetI fm_finite [of "cs_tokens S"]])
      fix y assume y: "y \<in> pending T0 stack"
      then have "y \<in> dom T0" using subtree_dom unfolding pending_def by blast
      then show "y \<in> dom (toks S)" using less.prems(3) [OF y] by (simp add: dom_def)
    qed
    have card: "card (pending T0 stack) = Suc (card (pending T0 (ss @ cs)))"
      using pp(2,3) fin snoc by simp
    have ok1: "maps_ok S1" using S1(2) by (simp add: erased_def)
    have agree1: "toks S1 y = T0 y" if "y \<in> pending T0 (ss @ cs)" for y
      using S1(2) that pp(2,3) less.prems(3) snoc by (auto simp: erased_def restrict_map_def)
    have listed1: "lists_children T0 y (children T0 y)" if "y \<in> pending T0 (ss @ cs)" for y
      using less.prems(4) that pp(2) snoc by auto
    have "card (pending T0 (ss @ cs)) < card (pending T0 stack)" using card by simp
    from less.hyps [OF this ok1 pp(1) agree1 listed1, of "n + 1"]
    obtain S2 where S2: "revoke_loop S1 (ss @ cs) (n + 1) = Some (n + 1 + card (pending T0 (ss @ cs)), S2)"
      "erased (pending T0 (ss @ cs)) S1 S2"
      by blast
    have "revoke_loop S stack n = Some (n + card (pending T0 stack), S2)"
      using snoc cs(1) S1(1) S2(1) card by (subst revoke_loop.simps) simp
    moreover have "erased (pending T0 stack) S S2"
      using erased_comp [OF S1(2) S2(2)] pp(2) snoc by simp
    ultimately show ?thesis by blast
  qed
qed

end
