(* ===== verification/Capability_Store.thy ===== *)
theory Capability_Store
  imports Capability_Tree
begin

text \<open>
  The invariant of the capability store and what its operations do: every operation
  returns and keeps the invariant; revocation removes exactly the subtree of a token;
  delegation never widens authority; nonces rule out replays and budgets bound uses.
\<close>

section \<open>The invariant\<close>

definition tokens_signed :: "mac \<Rightarrow> tokmap \<Rightarrow> bool" where
  "tokens_signed mac T \<longleftrightarrow>
     (\<forall>x st. T x = Some st \<longrightarrow> ct_id (st_token st) = x \<and> st_hmac st = mac (token_active_bytes (st_token st)))"

text \<open>A token delegated from \<open>p\<close> has no permission and no resource that \<open>p\<close> does not have.\<close>

definition narrows :: "capability_token \<Rightarrow> capability_token \<Rightarrow> bool" where
  "narrows p c \<longleftrightarrow> perm_contains (ct_permissions p) PERM_GRANT \<and>
     perm_contains (ct_permissions p) (ct_permissions c) \<and> ct_resource c = ct_resource p"

definition authority :: "tokmap \<Rightarrow> bool" where
  "authority T \<longleftrightarrow>
     (\<forall>x st ps. T x = Some st \<longrightarrow> parent_of T x \<noteq> 0 \<longrightarrow> T (parent_of T x) = Some ps \<longrightarrow>
        narrows (st_token ps) (st_token st))"

definition tree_inv :: "mac \<Rightarrow> u64 \<Rightarrow> tokmap \<Rightarrow> bool" where
  "tree_inv mac n T \<longleftrightarrow> forest T \<and> all_listed T \<and> tokens_signed mac T \<and> authority T \<and> (\<forall>x \<in> dom T. x < n)"

definition store_inv :: "mac \<Rightarrow> cap_store \<Rightarrow> bool" where
  "store_inv mac S \<longleftrightarrow> maps_ok S \<and> tree_inv mac (cs_next_id S) (toks S) \<and> cs_next_id S \<noteq> 0 \<and>
     dom (nonces S) \<subseteq> dom (toks S) \<and> dom (budgets S) \<subseteq> dom (toks S)"

lemma store_inv_new: "store_inv mac store_new"
  by (simp add: store_inv_def store_new_def maps_ok_def fm_ok_new fm_abs_new tree_inv_def forest_def
      all_listed_def tokens_signed_def authority_def)

lemma store_inv_ok: "store_inv mac S \<Longrightarrow> maps_ok S"
  by (simp add: store_inv_def)

lemma store_len: "maps_ok S \<Longrightarrow> fm_len (cs_tokens S) = card (dom (toks S))"
  by (simp add: maps_ok_def fm_ok_def fm_card)

lemma MAX_TOKENS_LIMIT: "MAX_TOKENS = FM_LIMIT"
  by (simp add: MAX_TOKENS_def FM_LIMIT_eq)

section \<open>Adding a leaf\<close>

lemma parent_of_upd: "parent_of (T(x \<mapsto> st)) y = (if y = x then ct_delegated_from (st_token st) else parent_of T y)"
  by (simp add: parent_of_def)

lemma no_orphan:
  assumes "forest T" "x \<notin> dom T" "x \<noteq> 0" shows "y \<in> dom T \<Longrightarrow> parent_of T y \<noteq> x"
  using forest_parent [OF assms(1), of y] assms by metis

lemma children_fresh: "forest T \<Longrightarrow> x \<notin> dom T \<Longrightarrow> x \<noteq> 0 \<Longrightarrow> children T x = {}"
  using no_orphan by (auto simp: children_def)

lemma forest_add:
  assumes f: "forest T" and x: "x \<notin> dom T" "x \<noteq> 0"
    and p: "ct_delegated_from (st_token st) \<noteq> 0 \<Longrightarrow>
      ct_delegated_from (st_token st) < x \<and> ct_delegated_from (st_token st) \<in> dom T"
  shows "forest (T(x \<mapsto> st))"
  unfolding forest_def
proof (intro ballI)
  fix y assume y: "y \<in> dom (T(x \<mapsto> st))"
  show "y \<noteq> 0 \<and> (parent_of (T(x \<mapsto> st)) y \<noteq> 0 \<longrightarrow>
      parent_of (T(x \<mapsto> st)) y < y \<and> parent_of (T(x \<mapsto> st)) y \<in> dom (T(x \<mapsto> st)))"
  proof (cases "y = x")
    case True
    then show ?thesis using p x by (simp add: parent_of_upd)
  next
    case False
    then have "y \<in> dom T" using y by simp
    then show ?thesis using f False unfolding forest_def by (simp add: parent_of_upd)
  qed
qed

lemma tokens_signed_add:
  "tokens_signed mac T \<Longrightarrow> ct_id (st_token st) = x \<Longrightarrow> st_hmac st = mac (token_active_bytes (st_token st)) \<Longrightarrow>
   tokens_signed mac (T(x \<mapsto> st))"
  by (simp add: tokens_signed_def)

lemma authority_add:
  assumes a: "authority T" and f: "forest T" and x: "x \<notin> dom T" "x \<noteq> 0"
    and p: "\<And>ps. ct_delegated_from (st_token st) \<noteq> 0 \<Longrightarrow> T (ct_delegated_from (st_token st)) = Some ps \<Longrightarrow>
      narrows (st_token ps) (st_token st)"
    and d: "ct_delegated_from (st_token st) \<noteq> x"
  shows "authority (T(x \<mapsto> st))"
  unfolding authority_def
proof (intro allI impI)
  fix y sy ps
  assume y: "(T(x \<mapsto> st)) y = Some sy" "parent_of (T(x \<mapsto> st)) y \<noteq> 0"
    "(T(x \<mapsto> st)) (parent_of (T(x \<mapsto> st)) y) = Some ps"
  show "narrows (st_token ps) (st_token sy)"
  proof (cases "y = x")
    case True
    then show ?thesis using y p d by (simp add: parent_of_upd)
  next
    case False
    then have "T y = Some sy" "parent_of T y \<noteq> 0" using y by (simp_all add: parent_of_upd)
    moreover have "parent_of T y \<noteq> x" using no_orphan [OF f x] \<open>T y = Some sy\<close> by blast
    ultimately show ?thesis using a y(3) False unfolding authority_def by (simp add: parent_of_upd)
  qed
qed

lemma authority_same_core:
  assumes "authority T" "same_core T T'" shows "authority T'"
  unfolding authority_def
proof (intro allI impI)
  fix x st ps
  assume x: "T' x = Some st" "parent_of T' x \<noteq> 0" "T' (parent_of T' x) = Some ps"
  have par: "parent_of T' x = parent_of T x" by (rule same_core_parent [OF assms(2)])
  obtain st0 where st0: "T x = Some st0" "st_token st0 = st_token st"
    using same_core_token [OF assms(2), of x] x(1) by (cases "T x") auto
  obtain ps0 where ps0: "T (parent_of T x) = Some ps0" "st_token ps0 = st_token ps"
    using same_core_token [OF assms(2), of "parent_of T x"] x(3) par by (cases "T (parent_of T x)") auto
  show "narrows (st_token ps) (st_token st)"
    using assms(1) st0 ps0 x(2) par unfolding authority_def by metis
qed

lemma forest_same_core: "forest T \<Longrightarrow> same_core T T' \<Longrightarrow> forest T'"
  by (simp add: forest_def same_core_dom same_core_parent)

lemma tokens_signed_same_core:
  assumes "tokens_signed mac T" "same_core T T'" shows "tokens_signed mac T'"
  unfolding tokens_signed_def
proof (intro allI impI)
  fix x st assume "T' x = Some st"
  then obtain st0 where st0: "T x = Some st0" "core st0 = core st"
    using assms(2) unfolding same_core_def by (metis map_option_eq_Some)
  then show "ct_id (st_token st) = x \<and> st_hmac st = mac (token_active_bytes (st_token st))"
    using assms(1) core_eqD [OF st0(2)] unfolding tokens_signed_def by metis
qed

lemma children_same_core: "same_core T T' \<Longrightarrow> children T' p = children T p"
  by (rule children_cong) (simp_all add: same_core_dom same_core_parent)

text \<open>A root token joins nobody's list.\<close>

lemma all_listed_root:
  assumes L: "all_listed T" and f: "forest T" and x: "x \<notin> dom T" "x \<noteq> 0"
    and st: "ct_delegated_from (st_token st) = 0" "st_first_child st = 0"
  shows "all_listed (T(x \<mapsto> st))"
  unfolding all_listed_def
proof
  fix i assume i: "i \<in> dom (T(x \<mapsto> st))"
  have ne: "i \<noteq> 0" using i x f by (auto simp: forest_def)
  have kids: "children (T(x \<mapsto> st)) i = children T i"
    using st(1) ne x(1) by (auto simp: children_def parent_of_upd)
  show "lists_children (T(x \<mapsto> st)) i (children (T(x \<mapsto> st)) i)"
  proof (cases "i = x")
    case True
    then show ?thesis
      unfolding kids using children_fresh [OF f x] st(2) by (intro lists_childrenI [of _ _ st "[]"]) simp_all
  next
    case False
    then have "lists_children T i (children T i)" using L i by (simp add: all_listed_def)
    then show ?thesis
      unfolding kids by (rule lists_children_cong) (use False x(1) in \<open>auto simp: children_def\<close>)
  qed
qed

text \<open>A delegated token is put in front of its parent's list.\<close>

lemma all_listed_child:
  assumes L: "all_listed T" and f: "forest T" and x: "x \<notin> dom T" "x \<noteq> 0"
    and p: "T p = Some ps" "p \<noteq> 0"
    and st: "ct_delegated_from (st_token st) = p" "st_first_child st = 0" "st_next_sibling st = st_first_child ps"
  shows "all_listed (set_first (T(x \<mapsto> st)) p x)"
proof -
  let ?T = "T(x \<mapsto> st)"
  let ?U = "set_first ?T p x"
  have px: "p \<noteq> x" using p x by auto
  have sc: "same_core ?T ?U" by (rule same_core_set_first)
  have next_same: "map_option st_next_sibling (?U y) = map_option st_next_sibling (T y)" if "y \<noteq> x" for y
    using that by simp
  have kids: "children ?T i = (if i = p then insert x (children T p) else children T i)" for i
    using st(1) x(1) by (auto simp: children_def parent_of_upd)
  have absent: "x \<notin> children T i" for i using x(1) by (simp add: children_def)
  have "lists_children ?U i (children ?T i)" if i: "i \<in> dom ?T" for i
  proof (cases "i = p")
    case True
    obtain sp cs where cs: "T p = Some sp" "chain T (st_first_child sp) cs" "distinct cs" "set cs = children T p"
      using L p unfolding all_listed_def lists_children_def by blast
    have "map_option st_next_sibling (?U y) = map_option st_next_sibling (T y)" if "y \<in> set cs" for y
      by (rule next_same) (use that cs(4) absent in blast)
    then have "chain ?U (st_first_child ps) cs"
      using chain_cong cs(1,2) p(1) by (metis option.inject)
    moreover have "?U x = Some st" using px by (simp add: set_first_def)
    ultimately have "chain ?U x (x # cs)" using x st(3) by simp
    then show ?thesis
      unfolding True kids using cs absent px p
      by (intro lists_childrenI [of _ _ "ps\<lparr>st_first_child := x\<rparr>" "x # cs"]) (simp_all add: set_first_def)
  next
    case False
    have Ui: "?U i = ?T i" by (rule set_first_first [OF False])
    show ?thesis
    proof (cases "i = x")
      case True
      then show ?thesis
        using children_fresh [OF f x] st(2) px Ui
        by (intro lists_childrenI [of _ _ st "[]"]) (simp_all add: kids False)
    next
      case ix: False
      then have "lists_children T i (children T i)" using L i by (simp add: all_listed_def)
      moreover have "map_option st_first_child (?U i) = map_option st_first_child (T i)" using Ui ix by simp
      moreover have "map_option st_next_sibling (?U y) = map_option st_next_sibling (T y)"
        if "y \<in> children T i" for y
        using next_same absent that by metis
      ultimately show ?thesis using kids False by (metis lists_children_cong)
    qed
  qed
  then show ?thesis
    unfolding all_listed_def children_same_core [OF sc] same_core_dom [OF sc] by blast
qed

lemma less_next: "(n :: u64) + 1 \<noteq> 0 \<Longrightarrow> x < n \<Longrightarrow> x < n + 1" "(n :: u64) + 1 \<noteq> 0 \<Longrightarrow> n < n + 1"
  using unatSuc [of n] by (simp_all add: word_less_nat_alt add.commute)

lemma tree_inv_fresh: "tree_inv mac n T \<Longrightarrow> n \<notin> dom T"
  by (auto simp: tree_inv_def)

lemma tree_inv_root:
  assumes "tree_inv mac n T" "n \<noteq> 0" "n + 1 \<noteq> 0"
    and "ct_id (st_token st) = n" "st_hmac st = mac (token_active_bytes (st_token st))"
    and "ct_delegated_from (st_token st) = 0" "st_first_child st = 0"
  shows "tree_inv mac (n + 1) (T(n \<mapsto> st))"
proof -
  note fresh = tree_inv_fresh [OF assms(1)]
  have f: "forest T" and L: "all_listed T" and s: "tokens_signed mac T" and a: "authority T"
    and b: "\<forall>x \<in> dom T. x < n"
    using assms(1) by (simp_all add: tree_inv_def)
  show ?thesis
    unfolding tree_inv_def
  proof (intro conjI)
    show "forest (T(n \<mapsto> st))" by (rule forest_add [OF f fresh]) (use assms in simp_all)
    show "all_listed (T(n \<mapsto> st))" by (rule all_listed_root [OF L f fresh]) (use assms in simp_all)
    show "tokens_signed mac (T(n \<mapsto> st))" by (rule tokens_signed_add [OF s]) (use assms in simp_all)
    show "authority (T(n \<mapsto> st))" by (rule authority_add [OF a f fresh]) (use assms in simp_all)
    show "\<forall>x \<in> dom (T(n \<mapsto> st)). x < n + 1" using b less_next assms(3) by simp
  qed
qed

lemma tree_inv_child:
  assumes "tree_inv mac n T" "n \<noteq> 0" "n + 1 \<noteq> 0"
    and "ct_id (st_token st) = n" "st_hmac st = mac (token_active_bytes (st_token st))"
    and "ct_delegated_from (st_token st) = p" "st_first_child st = 0" "st_next_sibling st = st_first_child ps"
    and p: "T p = Some ps" and nar: "narrows (st_token ps) (st_token st)"
  shows "tree_inv mac (n + 1) (set_first (T(n \<mapsto> st)) p n)"
proof -
  note fresh = tree_inv_fresh [OF assms(1)]
  have f: "forest T" and L: "all_listed T" and s: "tokens_signed mac T" and a: "authority T"
    and b: "\<forall>x \<in> dom T. x < n"
    using assms(1) by (simp_all add: tree_inv_def)
  have p0: "p \<noteq> 0" "p < n" "p \<noteq> n" using f b p fresh by (auto simp: forest_def)
  have sc: "same_core (T(n \<mapsto> st)) (set_first (T(n \<mapsto> st)) p n)" by (rule same_core_set_first)
  show ?thesis
    unfolding tree_inv_def
  proof (intro conjI)
    show "forest (set_first (T(n \<mapsto> st)) p n)"
      by (rule forest_same_core [OF forest_add [OF f fresh] sc]) (use assms p0 in auto)
    show "all_listed (set_first (T(n \<mapsto> st)) p n)"
      by (rule all_listed_child [OF L f fresh assms(2) p p0(1)]) (use assms in simp_all)
    show "tokens_signed mac (set_first (T(n \<mapsto> st)) p n)"
      by (rule tokens_signed_same_core [OF tokens_signed_add [OF s] sc]) (use assms in simp_all)
    show "authority (set_first (T(n \<mapsto> st)) p n)"
      by (rule authority_same_core [OF authority_add [OF a f fresh] sc]) (use assms p0 in simp_all)
    show "\<forall>x \<in> dom (set_first (T(n \<mapsto> st)) p n). x < n + 1"
      unfolding same_core_dom [OF sc] using b less_next assms(3) by simp
  qed
qed

section \<open>Creating and delegating\<close>

definition new_entry :: "mac \<Rightarrow> cap_store \<Rightarrow> capability_token \<Rightarrow> budget option \<Rightarrow> u64 \<Rightarrow> stored_token" where
  "new_entry mac S token bud nxt = \<lparr>st_token = token, st_hmac = mac (token_active_bytes token), st_budget = bud,
     st_created_at = cs_current_tick S, st_first_child = 0, st_next_sibling = nxt\<rparr>"

lemma create_full: "MAX_TOKENS \<le> fm_len (cs_tokens S) \<Longrightarrow> store_create mac S res perms own ex bud = Some (Inl StoreFull, S)"
  by (simp add: store_create_def)

lemma create_spec:
  assumes inv: "store_inv mac S" and room: "fm_len (cs_tokens S) < MAX_TOKENS" and nid: "cs_next_id S + 1 \<noteq> 0"
    and token_def: "token = make_token perms own (cs_next_id S) res 0 (case ex of None \<Rightarrow> 0 | Some e \<Rightarrow> e)"
  shows "\<exists>m. store_create mac S res perms own ex bud =
      Some (Inr (cs_next_id S), S\<lparr>cs_next_id := cs_next_id S + 1, cs_tokens := m\<rparr>) \<and>
    store_inv mac (S\<lparr>cs_next_id := cs_next_id S + 1, cs_tokens := m\<rparr>) \<and>
    fm_abs m = (toks S)(cs_next_id S \<mapsto> new_entry mac S token bud 0)"
proof -
  let ?e = "new_entry mac S token bud 0"
  have ok: "maps_ok S" and tree: "tree_inv mac (cs_next_id S) (toks S)" and n0: "cs_next_id S \<noteq> 0"
    using inv by (simp_all add: store_inv_def)
  have "card (dom (toks S)) < FM_LIMIT" using room store_len [OF ok] by (simp add: MAX_TOKENS_LIMIT)
  then obtain m where m: "fm_insert (cs_tokens S) (cs_next_id S) ?e = Some (True, m)" "fm_ok m"
    "fm_abs m = (toks S)(cs_next_id S \<mapsto> ?e)"
    using fm.ins_law [of "cs_tokens S" "cs_next_id S" ?e] ok unfolding maps_ok_def by blast
  have "tree_inv mac (cs_next_id S + 1) (fm_abs m)"
    unfolding m(3) by (rule tree_inv_root [OF tree n0 nid]) (simp_all add: new_entry_def token_def make_token_def)
  then have "store_inv mac (S\<lparr>cs_next_id := cs_next_id S + 1, cs_tokens := m\<rparr>)"
    using inv m nid unfolding store_inv_def maps_ok_def by auto
  moreover have "store_create mac S res perms own ex bud =
      Some (Inr (cs_next_id S), S\<lparr>cs_next_id := cs_next_id S + 1, cs_tokens := m\<rparr>)"
    using m(1) room unfolding new_entry_def token_def
    by (simp add: store_create_def alloc_id_def hmac_sign_def)
  ultimately show ?thesis using m(3) by blast
qed

text \<open>Delegation succeeds exactly when there is room, the parent lives, may grant, and has the permissions asked for.\<close>

lemma delegate_errors:
  assumes inv: "store_inv mac S"
  shows "MAX_TOKENS \<le> fm_len (cs_tokens S) \<Longrightarrow>
      store_delegate mac S p own perms ex bud = Some (Inl StoreFull, S)"
    and "fm_len (cs_tokens S) < MAX_TOKENS \<Longrightarrow> toks S p = None \<Longrightarrow>
      store_delegate mac S p own perms ex bud = Some (Inl NotFound, S)"
    and "fm_len (cs_tokens S) < MAX_TOKENS \<Longrightarrow> toks S p = Some ps \<Longrightarrow>
      \<not> perm_contains (ct_permissions (st_token ps)) PERM_GRANT \<Longrightarrow>
      store_delegate mac S p own perms ex bud = Some (Inl DelegationDenied, S)"
    and "fm_len (cs_tokens S) < MAX_TOKENS \<Longrightarrow> toks S p = Some ps \<Longrightarrow>
      perm_contains (ct_permissions (st_token ps)) PERM_GRANT \<Longrightarrow>
      \<not> perm_is_subset_of perms (ct_permissions (st_token ps)) \<Longrightarrow>
      store_delegate mac S p own perms ex bud = Some (Inl PermissionEscalation, S)"
  using fm.get_law [of "cs_tokens S" p] store_inv_ok [OF inv]
  by (simp_all add: store_delegate_def maps_ok_def)

lemma delegate_spec:
  assumes inv: "store_inv mac S" and room: "fm_len (cs_tokens S) < MAX_TOKENS" and nid: "cs_next_id S + 1 \<noteq> 0"
    and p: "toks S p = Some ps" and grant: "perm_contains (ct_permissions (st_token ps)) PERM_GRANT"
    and sub: "perm_is_subset_of perms (ct_permissions (st_token ps))"
    and token_def: "token = make_token perms own (cs_next_id S) (ct_resource (st_token ps)) p
       (child_expires ex (ct_expires (st_token ps)))"
  shows "\<exists>m. store_delegate mac S p own perms ex bud =
      Some (Inr (cs_next_id S), S\<lparr>cs_next_id := cs_next_id S + 1, cs_tokens := m\<rparr>) \<and>
    store_inv mac (S\<lparr>cs_next_id := cs_next_id S + 1, cs_tokens := m\<rparr>) \<and>
    fm_abs m = set_first ((toks S)(cs_next_id S \<mapsto> new_entry mac S token bud (st_first_child ps))) p (cs_next_id S)"
proof -
  let ?n = "cs_next_id S"
  let ?e = "new_entry mac S token bud (st_first_child ps)"
  have ok: "maps_ok S" and tree: "tree_inv mac ?n (toks S)" and n0: "?n \<noteq> 0"
    using inv by (simp_all add: store_inv_def)
  have get: "fm_get (cs_tokens S) p = Some (Some ps)"
    using fm.get_law [of "cs_tokens S" p] ok p by (simp add: maps_ok_def)
  have "card (dom (toks S)) < FM_LIMIT" using room store_len [OF ok] by (simp add: MAX_TOKENS_LIMIT)
  then obtain m where m: "fm_insert (cs_tokens S) ?n ?e = Some (True, m)" "fm_ok m"
    "fm_abs m = (toks S)(?n \<mapsto> ?e)"
    using fm.ins_law [of "cs_tokens S" ?n ?e] ok unfolding maps_ok_def by blast
  obtain m' where m': "fm_get_mut m p (\<lambda>s. s\<lparr>st_first_child := ?n\<rparr>) = Some (fm_abs m p, m')" "fm_ok m'"
    "fm_abs m' = (fm_abs m)(p := map_option (\<lambda>s. s\<lparr>st_first_child := ?n\<rparr>) (fm_abs m p))"
    using fm.modify_law [OF m(2), of p "\<lambda>s. s\<lparr>st_first_child := ?n\<rparr>"] by blast
  have abs: "fm_abs m' = set_first ((toks S)(?n \<mapsto> ?e)) p ?n"
    unfolding m'(3) m(3) set_first_def by simp
  have nar: "narrows (st_token ps) (st_token ?e)"
    using grant sub by (simp add: narrows_def new_entry_def token_def make_token_def perm_subset_contains)
  have "tree_inv mac (?n + 1) (fm_abs m')"
    unfolding abs by (rule tree_inv_child [OF tree n0 nid _ _ _ _ _ p nar])
      (simp_all add: new_entry_def token_def make_token_def)
  moreover have "dom (fm_abs m') = insert ?n (dom (toks S))"
    unfolding abs same_core_dom [OF same_core_set_first] by simp
  ultimately have "store_inv mac (S\<lparr>cs_next_id := ?n + 1, cs_tokens := m'\<rparr>)"
    using inv m' nid unfolding store_inv_def maps_ok_def by auto
  moreover have "store_delegate mac S p own perms ex bud = Some (Inr ?n, S\<lparr>cs_next_id := ?n + 1, cs_tokens := m'\<rparr>)"
    using m(1) m'(1) room get grant sub unfolding new_entry_def token_def
    by (simp add: store_delegate_def alloc_id_def hmac_sign_def)
  ultimately show ?thesis using abs by blast
qed

section \<open>Validating\<close>

text \<open>What \<open>validate\<close> decides, read off the maps of the store; \<open>None\<close> stands for \<open>Ok\<close>.\<close>

definition last_nonce :: "cap_store \<Rightarrow> u64 \<Rightarrow> u32" where
  "last_nonce S t = (case nonces S t of None \<Rightarrow> 0 | Some n \<Rightarrow> n)"

definition interval_use :: "cap_store \<Rightarrow> u64 \<Rightarrow> u32 \<times> u64" where
  "interval_use S t = (case budgets S t of None \<Rightarrow> (0, cs_current_tick S) | Some e \<Rightarrow> e)"

definition budget_use :: "budget \<Rightarrow> u64 \<Rightarrow> u32 \<times> u64 \<Rightarrow> u32 \<times> u64" where
  "budget_use b now e = (let e' = budget_roll b now e in if fst e' < max_uses b then (fst e' + 1, snd e') else e')"

definition within_budget :: "cap_store \<Rightarrow> u64 \<Rightarrow> budget option \<Rightarrow> bool" where
  "within_budget S t bud \<longleftrightarrow>
     (case bud of None \<Rightarrow> True
      | Some b \<Rightarrow> fst (budget_roll b (cs_current_tick S) (interval_use S t)) < max_uses b)"

definition validate_error :: "cap_store \<Rightarrow> u64 \<Rightarrow> perm \<Rightarrow> u32 \<Rightarrow> capability_error option" where
  "validate_error S t perm nonce =
     (case toks S t of
        None \<Rightarrow> Some NotFound
      | Some st \<Rightarrow>
          if token_expired st (cs_current_tick S) then Some Expired
          else if \<not> perm_contains (ct_permissions (st_token st)) perm then Some InsufficientPermission
          else if nonce \<le> last_nonce S t then Some NonceReplay
          else if \<not> within_budget S t (st_budget st) then Some BudgetExhausted
          else None)"

lemma tokens_room: "store_inv mac S \<Longrightarrow> finite (dom (toks S)) \<and> card (dom (toks S)) \<le> FM_LIMIT"
  using fm_finite [of "cs_tokens S"] store_len [of S]
  by (auto simp: store_inv_def maps_ok_def fm_ok_def fm_wf_def FM_LIMIT_def split: option.splits)

lemma nonce_spec:
  assumes inv: "store_inv mac S" and t: "t \<in> dom (toks S)"
  shows "\<exists>nt. nonce_check_and_advance (cs_nonce_tracker S) t nonce = Some (last_nonce S t < nonce, nt) \<and>
    fm_ok nt \<and> fm_abs nt = (nonces S)(t \<mapsto> max (last_nonce S t) nonce)"
proof -
  have "fm_ok (cs_nonce_tracker S)" "dom (nonces S) \<subseteq> dom (toks S)"
    using inv by (simp_all add: store_inv_def maps_ok_def)
  from fm.get_or_insert_within [OF this conjunct1 [OF tokens_room [OF inv]] conjunct2 [OF tokens_room [OF inv]] t,
      of 0 "\<lambda>e. if nonce > e then nonce else e"]
  moreover have "(\<lambda>e :: u32. if nonce > e then nonce else e) = (\<lambda>e. max e nonce)"
    by (auto simp: max_def fun_eq_iff)
  ultimately show ?thesis
    unfolding last_nonce_def [symmetric] by (auto simp: nonce_check_and_advance_def)
qed

lemma budget_spec:
  assumes inv: "store_inv mac S" and t: "t \<in> dom (toks S)"
  shows "\<exists>bt. budget_check_and_consume (cs_budget_tracker S) t b (cs_current_tick S) =
      Some (within_budget S t (Some b), bt) \<and> fm_ok bt \<and>
    fm_abs bt = (budgets S)(t \<mapsto> budget_use b (cs_current_tick S) (interval_use S t))"
proof -
  have "fm_ok (cs_budget_tracker S)" "dom (budgets S) \<subseteq> dom (toks S)"
    using inv by (simp_all add: store_inv_def maps_ok_def)
  from fm.get_or_insert_within [OF this conjunct1 [OF tokens_room [OF inv]] conjunct2 [OF tokens_room [OF inv]] t,
      of "(0, cs_current_tick S)" "budget_use b (cs_current_tick S)"]
  show ?thesis
    unfolding interval_use_def [symmetric]
    by (auto simp: budget_check_and_consume_def budget_use_def [abs_def] within_budget_def)
qed

definition nonces_after :: "cap_store \<Rightarrow> u64 \<Rightarrow> perm \<Rightarrow> u32 \<Rightarrow> u64 \<rightharpoonup> u32" where
  "nonces_after S t perm nonce =
     (if validate_error S t perm nonce \<in> {Some NotFound, Some Expired, Some InsufficientPermission} then nonces S
      else (nonces S)(t \<mapsto> max (last_nonce S t) nonce))"

definition budgets_after :: "cap_store \<Rightarrow> u64 \<Rightarrow> perm \<Rightarrow> u32 \<Rightarrow> u64 \<rightharpoonup> u32 \<times> u64" where
  "budgets_after S t perm nonce =
     (case Option.bind (toks S t) st_budget of
        Some b \<Rightarrow> if validate_error S t perm nonce \<in> {None, Some BudgetExhausted}
                  then (budgets S)(t \<mapsto> budget_use b (cs_current_tick S) (interval_use S t)) else budgets S
      | None \<Rightarrow> budgets S)"

lemma validate_spec:
  assumes inv: "store_inv mac S"
  shows "\<exists>nt bt. store_validate mac S t perm nonce =
      Some (case validate_error S t perm nonce of None \<Rightarrow> Inr () | Some e \<Rightarrow> Inl e,
        S\<lparr>cs_nonce_tracker := nt, cs_budget_tracker := bt\<rparr>) \<and>
    fm_ok nt \<and> fm_ok bt \<and> fm_abs nt = nonces_after S t perm nonce \<and> fm_abs bt = budgets_after S t perm nonce"
proof -
  have ok: "fm_ok (cs_tokens S)" "fm_ok (cs_nonce_tracker S)" "fm_ok (cs_budget_tracker S)"
    using inv by (simp_all add: store_inv_def maps_ok_def)
  have get: "fm_get (cs_tokens S) t = Some (toks S t)" by (rule fm.get_law [OF ok(1)])
  have same: "S = S\<lparr>cs_nonce_tracker := cs_nonce_tracker S, cs_budget_tracker := cs_budget_tracker S\<rparr>" by simp
  have keep: ?thesis if "store_validate mac S t perm nonce = Some (Inl e, S)" "validate_error S t perm nonce = Some e"
    "e \<in> {NotFound, Expired, InsufficientPermission}" for e
    using that ok by (intro exI [of _ "cs_nonce_tracker S"] exI [of _ "cs_budget_tracker S"])
      (auto simp: nonces_after_def budgets_after_def split: option.splits)
  show ?thesis
  proof (cases "toks S t")
    case None
    show ?thesis by (rule keep [of NotFound]) (simp_all add: store_validate_def get None validate_error_def)
  next
    case (Some st)
    have hm: "hmac_verify mac (token_active_bytes (st_token st)) (st_hmac st)"
      using inv Some by (simp add: store_inv_def tree_inv_def tokens_signed_def hmac_verify_def)
    have t: "t \<in> dom (toks S)" using Some by blast
    obtain nt where nt: "nonce_check_and_advance (cs_nonce_tracker S) t nonce = Some (last_nonce S t < nonce, nt)"
      "fm_ok nt" "fm_abs nt = (nonces S)(t \<mapsto> max (last_nonce S t) nonce)"
      using nonce_spec [OF inv t] by blast
    show ?thesis
    proof (cases "token_expired st (cs_current_tick S) \<or> \<not> perm_contains (ct_permissions (st_token st)) perm")
      case True
      then show ?thesis
        using keep [of Expired] keep [of InsufficientPermission]
        by (cases "token_expired st (cs_current_tick S)") (simp_all add: store_validate_def get Some validate_error_def hm)
    next
      case False
      note go = store_validate_def get Some validate_error_def hm nt nonces_after_def budgets_after_def ok
      show ?thesis
      proof (cases "last_nonce S t < nonce")
        case stale: False
        then show ?thesis
          using False by (intro exI [of _ nt] exI [of _ "cs_budget_tracker S"])
            (simp add: go not_less split: option.split)
      next
        case fresh: True
        show ?thesis
        proof (cases "st_budget st")
          case None
          then show ?thesis
            using False fresh by (intro exI [of _ nt] exI [of _ "cs_budget_tracker S"])
              (simp add: go within_budget_def not_le)
        next
          case b: (Some b)
          obtain bt where bt: "budget_check_and_consume (cs_budget_tracker S) t b (cs_current_tick S) =
              Some (within_budget S t (Some b), bt)" "fm_ok bt"
            "fm_abs bt = (budgets S)(t \<mapsto> budget_use b (cs_current_tick S) (interval_use S t))"
            using budget_spec [OF inv t] by blast
          show ?thesis
            using False fresh b by (intro exI [of _ nt] exI [of _ bt]) (simp add: go bt not_le)
        qed
      qed
    qed
  qed
qed

lemma validate_inv:
  assumes "store_inv mac S" "fm_ok nt" "fm_ok bt" "fm_abs nt = nonces_after S t perm nonce"
    "fm_abs bt = budgets_after S t perm nonce"
  shows "store_inv mac (S\<lparr>cs_nonce_tracker := nt, cs_budget_tracker := bt\<rparr>)"
proof -
  have "t \<in> dom (toks S)" if "validate_error S t perm nonce \<noteq> Some NotFound"
    using that by (auto simp: validate_error_def split: option.splits)
  then have "dom (fm_abs nt) \<subseteq> dom (toks S)" "dom (fm_abs bt) \<subseteq> dom (toks S)"
    using assms by (auto simp: store_inv_def nonces_after_def budgets_after_def split: option.splits if_splits)
  then show ?thesis using assms(1-3) by (simp add: store_inv_def maps_ok_def)
qed

section \<open>Revoking\<close>

lemma subtree_closed:
  assumes "c \<in> children T i" "i \<noteq> 0" "i \<in> subtree T r" shows "c \<in> subtree T r"
  using assms by (auto simp: children_def subtree_def intro: descends.step)

lemma subtree_top:
  assumes "c \<in> children T i" "i \<notin> subtree T r" "c \<in> subtree T r" shows "c = r"
proof -
  have "descends T c r" "parent_of T c = i" using assms by (simp_all add: subtree_def children_def)
  then show ?thesis using assms(2) by (cases rule: descends.cases) (auto simp: subtree_def)
qed

text \<open>What is left when a whole subtree is taken out, its root already unlinked.\<close>

lemma tree_inv_cut:
  assumes tree: "tree_inv mac n T" and sc: "same_core T U"
    and listed: "\<forall>i \<in> dom T. lists_children U i (children T i - {r})"
  shows "tree_inv mac n (U |` (- subtree T r))"
proof -
  let ?X = "subtree T r"
  let ?V = "U |` (- ?X)"
  have f: "forest T" and s: "tokens_signed mac U" and a: "authority U" and b: "\<forall>x \<in> dom T. x < n"
    using tree sc tokens_signed_same_core authority_same_core unfolding tree_inv_def by blast+
  have dom: "dom ?V = dom T - ?X" by (simp add: same_core_dom [OF sc] Diff_eq)
  have par: "parent_of ?V x = parent_of T x" if "x \<notin> ?X" for x
    using that same_core_parent [OF sc, of x] by (simp add: parent_of_def)
  have up: "parent_of T x \<notin> ?X" if "x \<in> dom T" "x \<notin> ?X" "parent_of T x \<noteq> 0" for x
    using that subtree_closed [of x T "parent_of T x" r] by (auto simp: children_def)
  have kids: "children ?V i = children T i - {r}" if i: "i \<in> dom T" "i \<notin> ?X" for i
  proof -
    have "i \<noteq> 0" using f i(1) by (simp add: forest_def)
    have "children ?V i = children T i - ?X"
      using par unfolding children_def dom by auto
    moreover have "children T i \<inter> ?X \<subseteq> {r}" using subtree_top i(2) by blast
    moreover have "r \<in> ?X" if "r \<in> children T i"
      using that subtree_self [of r T] by (simp add: children_def)
    ultimately show ?thesis by blast
  qed
  show ?thesis
    unfolding tree_inv_def
  proof (intro conjI)
    show "forest ?V"
      using f par up unfolding forest_def dom by auto
    show "all_listed ?V"
      unfolding all_listed_def
    proof
      fix i assume "i \<in> dom ?V"
      then have i: "i \<in> dom T" "i \<notin> ?X" using dom by auto
      have "lists_children ?V i (children T i - {r})"
      proof (rule lists_children_cong [of U])
        show "lists_children U i (children T i - {r})" using listed i(1) by blast
        show "map_option st_first_child (?V i) = map_option st_first_child (U i)" using i(2) by simp
        show "map_option st_next_sibling (?V y) = map_option st_next_sibling (U y)"
          if "y \<in> children T i - {r}" for y
          using that subtree_top [of y T i r] i(2) by (auto simp: restrict_map_def)
      qed
      then show "lists_children ?V i (children ?V i)" by (simp only: kids [OF i])
    qed
    show "tokens_signed mac ?V"
      using s by (auto simp: tokens_signed_def restrict_map_def)
    show "authority ?V"
      unfolding authority_def
    proof (intro allI impI)
      fix x st ps assume x: "?V x = Some st" "parent_of ?V x \<noteq> 0" "?V (parent_of ?V x) = Some ps"
      then have "x \<notin> ?X" "U x = Some st" by (auto simp: restrict_map_def split: if_splits)
      then show "narrows (st_token ps) (st_token st)"
        using a x(2,3) par [of x] same_core_parent [OF sc, of x] unfolding authority_def
        by (auto simp: restrict_map_def split: if_splits)
    qed
    show "\<forall>x \<in> dom ?V. x < n" using b dom by blast
  qed
qed

text \<open>The unlinking step of \<open>revoke\<close>, whether or not the token has a parent.\<close>

definition revoke_unlink :: "cap_store \<Rightarrow> u64 \<Rightarrow> stored_token \<Rightarrow> stored_token fixed_map run" where
  "revoke_unlink S t st = (if ct_delegated_from (st_token st) \<noteq> 0
     then unlink_child (cs_tokens S) (ct_delegated_from (st_token st)) t else Some (cs_tokens S))"

lemma revoke_unlink_spec:
  assumes inv: "store_inv mac S" and t: "toks S t = Some st"
  shows "\<exists>m. revoke_unlink S t st = Some m \<and> fm_ok m \<and> same_core (toks S) (fm_abs m) \<and>
    (\<forall>i \<in> dom (toks S). lists_children (fm_abs m) i (children (toks S) i - {t}))"
proof -
  have f: "forest (toks S)" and L: "all_listed (toks S)" and ok: "fm_ok (cs_tokens S)"
    using inv by (simp_all add: store_inv_def tree_inv_def maps_ok_def)
  have par: "parent_of (toks S) t = ct_delegated_from (st_token st)" using t by (simp add: parent_of_def)
  show ?thesis
  proof (cases "ct_delegated_from (st_token st) = 0")
    case True
    have "children (toks S) i - {t} = children (toks S) i" if "i \<in> dom (toks S)" for i
    proof -
      have "i \<noteq> 0" using f that unfolding forest_def by blast
      then show ?thesis using par True by (auto simp: children_def)
    qed
    then show ?thesis
      using True ok L by (simp add: revoke_unlink_def same_core_def all_listed_def)
  next
    case False
    from t have "t \<in> dom (toks S)" by blast
    from unlink_child_spec [OF ok refl f L this par False] show ?thesis
      using False by (simp add: revoke_unlink_def)
  qed
qed

lemma revoke_missing: "store_inv mac S \<Longrightarrow> toks S t = None \<Longrightarrow> store_revoke S t = Some (Inl NotFound, S)"
  using fm.get_law [of "cs_tokens S" t] by (simp add: store_revoke_def store_inv_def maps_ok_def)

lemma revoke_spec:
  assumes inv: "store_inv mac S" and t: "toks S t = Some st"
  defines "X \<equiv> subtree (toks S) t"
  shows "\<exists>S'. store_revoke S t = Some (Inr (card X), S') \<and> store_inv mac S' \<and>
    same_core (toks S |` (- X)) (toks S') \<and> nonces S' = nonces S |` (- X) \<and> budgets S' = budgets S |` (- X) \<and>
    cs_next_id S' = cs_next_id S \<and> cs_current_tick S' = cs_current_tick S"
proof -
  let ?T = "toks S"
  have f: "forest ?T" and tree: "tree_inv mac (cs_next_id S) ?T" and ok: "maps_ok S"
    using inv by (simp_all add: store_inv_def tree_inv_def)
  obtain m where m: "revoke_unlink S t st = Some m" "fm_ok m" "same_core ?T (fm_abs m)"
    "\<forall>i \<in> dom ?T. lists_children (fm_abs m) i (children ?T i - {t})"
    using revoke_unlink_spec [OF inv t] by blast
  let ?S = "S\<lparr>cs_tokens := m\<rparr>"
  have desc: "descends (fm_abs m) = descends ?T"
    by (intro ext descends_cong) (simp_all add: same_core_dom [OF m(3)] same_core_parent [OF m(3)])
  have sub: "subtree (fm_abs m) x = subtree ?T x" for x by (simp add: subtree_def desc)
  have pend: "pending (fm_abs m) [t] = X" by (simp add: pending_def sub X_def)
  have "disjoint_subtrees (fm_abs m) [t]"
    using t same_core_dom [OF m(3)] by (auto simp: disjoint_subtrees_def)
  moreover have "lists_children (fm_abs m) x (children (fm_abs m) x)" if x: "x \<in> X" for x
  proof -
    have "descends ?T x t" using x by (simp add: X_def subtree_def)
    then have "t \<le> x" "x \<in> dom ?T" using descends_ge f descends_dom by blast+
    moreover have "x \<noteq> 0" using f \<open>x \<in> dom ?T\<close> unfolding forest_def by blast
    ultimately have "t \<notin> children ?T x"
      using forest_parent [OF f domI [of ?T t st, OF t]] by (auto simp: children_def)
    then have "children ?T x - {t} = children ?T x" by blast
    then show ?thesis using m(4) \<open>x \<in> dom ?T\<close> children_same_core [OF m(3)] by metis
  qed
  ultimately obtain S' where S': "revoke_loop ?S [t] 0 = Some (card X, S')" "erased X ?S S'"
    using revoke_loop_spec [OF forest_same_core [OF f m(3)], of ?S "[t]" 0] ok m(2)
    unfolding pend maps_ok_def by auto
  have "store_revoke S t = Some (Inr (card X), S')"
    using fm.get_law [of "cs_tokens S" t] ok t m(1) S'(1)
    by (simp add: store_revoke_def revoke_unlink_def maps_ok_def)
  moreover have e: "toks S' = fm_abs m |` (- X)" "nonces S' = nonces S |` (- X)" "budgets S' = budgets S |` (- X)"
    "cs_next_id S' = cs_next_id S" "cs_current_tick S' = cs_current_tick S" "maps_ok S'"
    using S'(2) by (simp_all add: erased_def)
  moreover have "same_core (?T |` (- X)) (toks S')"
    using m(3) unfolding e(1) same_core_def by (simp add: restrict_map_def)
  moreover have "store_inv mac S'"
    unfolding store_inv_def
  proof (intro conjI)
    show "tree_inv mac (cs_next_id S') (toks S')"
      unfolding e X_def by (rule tree_inv_cut [OF tree m(3,4)])
    show "dom (nonces S') \<subseteq> dom (toks S')" "dom (budgets S') \<subseteq> dom (toks S')"
      using inv same_core_dom [OF m(3)] unfolding e store_inv_def by auto
    show "maps_ok S'" "cs_next_id S' \<noteq> 0" using e inv by (simp_all add: store_inv_def)
  qed
  ultimately show ?thesis by blast
qed

section \<open>Histories of the store\<close>

lemma clear_inv: "store_inv mac S \<Longrightarrow> store_inv mac (store_clear S)"
  using fm.clear_law [of "cs_tokens S"] fm.clear_law [of "cs_budget_tracker S"] fm.clear_law [of "cs_nonce_tracker S"]
  by (simp add: store_inv_def store_clear_def maps_ok_def tree_inv_def forest_def all_listed_def
      tokens_signed_def authority_def)

lemma tick_inv: "store_inv mac S \<Longrightarrow> store_inv mac (S\<lparr>cs_current_tick := n\<rparr>)"
  by (simp add: store_inv_def maps_ok_def)

datatype store_op =
    Create resource_id perm process_id "u32 option" "budget option"
  | Delegate u64 process_id perm "u32 option" "budget option"
  | Validate u64 perm u32
  | Revoke u64
  | Tick
  | Advance_Ticks u64

datatype store_out = Got_Id "capability_error + u64" | Checked "capability_error + unit"
  | Revoked "capability_error + nat" | Ticked

fun store_step :: "mac \<Rightarrow> cap_store \<Rightarrow> store_op \<Rightarrow> (store_out \<times> cap_store) run" where
  "store_step mac S (Create res perms own ex bud) =
     map_option (map_prod Got_Id (\<lambda>s. s)) (store_create mac S res perms own ex bud)"
| "store_step mac S (Delegate p own perms ex bud) =
     map_option (map_prod Got_Id (\<lambda>s. s)) (store_delegate mac S p own perms ex bud)"
| "store_step mac S (Validate t perm nonce) =
     map_option (map_prod Checked (\<lambda>s. s)) (store_validate mac S t perm nonce)"
| "store_step mac S (Revoke t) = map_option (map_prod Revoked (\<lambda>s. s)) (store_revoke S t)"
| "store_step mac S Tick = Some (Ticked, store_tick S)"
| "store_step mac S (Advance_Ticks n) = Some (Ticked, store_advance_ticks S n)"

primrec store_trace :: "mac \<Rightarrow> cap_store \<Rightarrow> store_op list \<Rightarrow> (store_out list \<times> cap_store) run" where
  "store_trace mac S [] = Some ([], S)"
| "store_trace mac S (c # cs) = do {
     (r, S') \<leftarrow> store_step mac S c;
     (rs, S'') \<leftarrow> store_trace mac S' cs;
     Some (r # rs, S'')
   }"

text \<open>What one step may do to the tokens: ids only grow, and tokens keep what was signed into them.\<close>

definition grows :: "cap_store \<Rightarrow> cap_store \<Rightarrow> bool" where
  "grows S S' \<longleftrightarrow> cs_next_id S \<le> cs_next_id S' \<and>
     (\<forall>x < cs_next_id S. x \<in> dom (toks S') \<longrightarrow>
        map_option core (toks S' x) = map_option core (toks S x) \<and> last_nonce S x \<le> last_nonce S' x)"

lemma same_coreD: "same_core T T' \<Longrightarrow> map_option core (T' x) = map_option core (T x)"
  by (simp add: same_core_def)

lemma step_add:
  assumes "fm_abs m = set_first ((toks S)(cs_next_id S \<mapsto> e)) p v \<or> fm_abs m = (toks S)(cs_next_id S \<mapsto> e)"
    and "cs_next_id S + 1 \<noteq> 0"
  shows "grows S (S\<lparr>cs_next_id := cs_next_id S + 1, cs_tokens := m\<rparr>)"
proof -
  have "map_option core (fm_abs m x) = map_option core (((toks S)(cs_next_id S \<mapsto> e)) x)" for x
    using assms(1) same_coreD [OF same_core_set_first] by metis
  then show ?thesis
    using less_next(2) [OF assms(2)] by (auto simp: grows_def last_nonce_def)
qed

lemma step_spec:
  assumes inv: "store_inv mac S" and nid: "cs_next_id S + 1 \<noteq> 0"
  shows "\<exists>r S'. store_step mac S c = Some (r, S') \<and> store_inv mac S' \<and> grows S S' \<and>
    cs_next_id S' \<le> cs_next_id S + 1"
proof -
  have n: "cs_next_id S \<le> cs_next_id S + 1" using less_next(2) [OF nid] by simp
  have same: "grows S S" by (simp add: grows_def)
  show ?thesis
  proof (cases c)
    case (Create res perms own ex bud)
    show ?thesis
    proof (cases "MAX_TOKENS \<le> fm_len (cs_tokens S)")
      case True
      then show ?thesis using Create inv same n by (simp add: create_full)
    next
      case False
      then show ?thesis
        using create_spec [OF inv _ nid refl, of res perms own ex bud] step_add [OF _ nid] Create by fastforce
    qed
  next
    case (Delegate p own perms ex bud)
    consider "MAX_TOKENS \<le> fm_len (cs_tokens S)" | "fm_len (cs_tokens S) < MAX_TOKENS" "toks S p = None"
      | ps where "fm_len (cs_tokens S) < MAX_TOKENS" "toks S p = Some ps"
      using not_le by (cases "toks S p") blast+
    then show ?thesis
    proof cases
      case 3
      show ?thesis
      proof (cases "perm_contains (ct_permissions (st_token ps)) PERM_GRANT \<and>
          perm_is_subset_of perms (ct_permissions (st_token ps))")
        case True
        then show ?thesis
          using delegate_spec [OF inv 3(1) nid 3(2), of perms _ own ex bud] step_add [OF _ nid] Delegate by fastforce
      next
        case False
        then show ?thesis
          using delegate_errors(3) [OF inv 3, of own perms ex bud] delegate_errors(4) [OF inv 3, of perms own ex bud] Delegate inv same n by fastforce
      qed
    qed (use delegate_errors(1,2) [OF inv, of p own perms ex bud] Delegate inv same n in simp_all)
  next
    case (Validate t perm nonce)
    obtain nt bt where v: "store_validate mac S t perm nonce =
      Some (case validate_error S t perm nonce of None \<Rightarrow> Inr () | Some e \<Rightarrow> Inl e,
        S\<lparr>cs_nonce_tracker := nt, cs_budget_tracker := bt\<rparr>)" "fm_ok nt" "fm_ok bt"
      "fm_abs nt = nonces_after S t perm nonce" "fm_abs bt = budgets_after S t perm nonce"
      using validate_spec [OF inv] by blast
    have "grows S (S\<lparr>cs_nonce_tracker := nt, cs_budget_tracker := bt\<rparr>)"
      using v(4) by (auto simp: grows_def last_nonce_def nonces_after_def)
    then show ?thesis using validate_inv [OF inv v(2-5)] v(1) n Validate by simp
  next
    case (Revoke t)
    show ?thesis
    proof (cases "toks S t")
      case None
      then show ?thesis using revoke_missing [OF inv] Revoke inv same n by simp
    next
      case (Some st)
      obtain S' where S': "store_revoke S t = Some (Inr (card (subtree (toks S) t)), S')" "store_inv mac S'"
        "same_core (toks S |` (- subtree (toks S) t)) (toks S')" "nonces S' = nonces S |` (- subtree (toks S) t)"
        "cs_next_id S' = cs_next_id S"
        using revoke_spec [OF inv Some] by blast
      have "grows S S'"
        using S'(5) same_coreD [OF S'(3)] same_core_dom [OF S'(3)] unfolding grows_def last_nonce_def S'(4)
        by (simp add: restrict_map_def domIff)
      then show ?thesis using S' Revoke n by simp
    qed
  qed (use inv n in \<open>simp_all add: tick_inv store_tick_def store_advance_ticks_def grows_def last_nonce_def\<close>)
qed

lemma grows_trans:
  assumes "grows S S'" "grows S' S''" shows "grows S S''"
  unfolding grows_def
proof (intro conjI allI impI)
  show "cs_next_id S \<le> cs_next_id S''" using assms unfolding grows_def by (metis order_trans)
  fix x assume x: "x < cs_next_id S" "x \<in> dom (toks S'')"
  have lt: "x < cs_next_id S'" using x(1) assms(1) unfolding grows_def by (metis order_less_le_trans)
  then have b: "map_option core (toks S'' x) = map_option core (toks S' x)" "last_nonce S' x \<le> last_nonce S'' x"
    using assms(2) x(2) unfolding grows_def by blast+
  then have "x \<in> dom (toks S')" using x(2) by (metis domIff map_option_is_None)
  then have "map_option core (toks S' x) = map_option core (toks S x)" "last_nonce S x \<le> last_nonce S' x"
    using assms(1) x(1) unfolding grows_def by blast+
  then show "map_option core (toks S'' x) = map_option core (toks S x)" "last_nonce S x \<le> last_nonce S'' x"
    using b by (metis, metis order_trans)
qed

lemma trace_spec:
  "store_inv mac S \<Longrightarrow> unat (cs_next_id S) + length ops < 2 ^ 64 \<Longrightarrow>
   \<exists>rs S'. store_trace mac S ops = Some (rs, S') \<and> store_inv mac S' \<and> grows S S'"
proof (induction ops arbitrary: S)
  case Nil
  then show ?case by (simp add: grows_def)
next
  case (Cons c ops)
  have "unat (cs_next_id S) + 1 < 2 ^ 64" using Cons.prems(2) by simp
  then have nid: "cs_next_id S + 1 \<noteq> 0" and Suc: "unat (cs_next_id S + 1) = unat (cs_next_id S) + 1"
    using unat_Suc_word [of "cs_next_id S" "2 ^ 64 - 1"] by auto
  obtain r S1 where S1: "store_step mac S c = Some (r, S1)" "store_inv mac S1" "grows S S1"
    "cs_next_id S1 \<le> cs_next_id S + 1"
    using step_spec [OF Cons.prems(1) nid] by blast
  have "unat (cs_next_id S1) + length ops < 2 ^ 64"
    using S1(4) Suc Cons.prems(2) by (simp add: word_le_nat_alt)
  from Cons.IH [OF S1(2) this] obtain rs S2
    where "store_trace mac S1 ops = Some (rs, S2)" "store_inv mac S2" "grows S1 S2" by blast
  then show ?case using S1(1) grows_trans [OF S1(3)] by auto
qed

text \<open>
  C2. From the empty store, any sequence of creations, delegations, validations,
  revocations and ticks short enough not to use up the 64-bit ids runs to its end without
  a panic or an endless loop, and the store is then sound: the ids, signatures and
  permissions of all tokens are as issued, the child lists are exactly the children, and
  nonces and budgets are kept for live tokens only.
\<close>

theorem store_history_sound:
  assumes "length ops < 2 ^ 64 - 1"
  shows "\<exists>rs S. store_trace mac store_new ops = Some (rs, S) \<and> store_inv mac S"
proof -
  have "unat (cs_next_id store_new) + length ops < 2 ^ 64" using assms by (simp add: store_new_def)
  from trace_spec [OF store_inv_new this] show ?thesis by blast
qed

text \<open>An example history: a root token with every permission, and a delegated read-only one.\<close>

definition demo_ops :: "store_op list" where
  "demo_ops = [Create 5 0x1F 1 (Some 10) None,
     Delegate 1 2 PERM_READ None (Some \<lparr>max_uses = 2, interval_ticks = 100\<rparr>)]"

theorem store_history_sound_witness:
  "length demo_ops < 2 ^ 64 - 1 \<and>
   (\<exists>rs S. store_trace (\<lambda>data. data) store_new demo_ops = Some (rs, S) \<and> store_inv (\<lambda>data. data) S)"
proof
  show len: "length demo_ops < 2 ^ 64 - 1" by (simp add: demo_ops_def)
  show "\<exists>rs S. store_trace (\<lambda>data. data) store_new demo_ops = Some (rs, S) \<and> store_inv (\<lambda>data. data) S"
    by (rule store_history_sound [OF len])
qed

lemma demo_store:
  "\<exists>S s1 s2. store_trace (\<lambda>data. data) store_new demo_ops = Some ([Got_Id (Inr 1), Got_Id (Inr 2)], S) \<and>
     store_inv (\<lambda>data. data) S \<and> cs_next_id S = 3 \<and> cs_current_tick S = 0 \<and>
     toks S = [1 \<mapsto> s1, 2 \<mapsto> s2] \<and> nonces S = Map.empty \<and> budgets S = Map.empty \<and>
     st_token s1 = make_token 0x1F 1 1 5 0 10 \<and> st_token s2 = make_token PERM_READ 2 2 5 1 10 \<and>
     st_budget s1 = None \<and> st_budget s2 = Some \<lparr>max_uses = 2, interval_ticks = 100\<rparr> \<and>
     st_created_at s1 = 0 \<and> st_created_at s2 = 0"
proof -
  let ?mac = "\<lambda>data. data"
  have new: "cs_next_id store_new = 1" "toks store_new = Map.empty" "fm_len (cs_tokens store_new) = 0"
    "cs_current_tick store_new = 0" "nonces store_new = Map.empty" "budgets store_new = Map.empty"
    using fm_abs_new by (simp_all add: store_new_def) (simp add: fm_new_def)
  let ?t1 = "make_token 0x1F 1 1 5 0 10"
  obtain m1 where m1: "store_create ?mac store_new 5 0x1F 1 (Some 10) None =
      Some (Inr 1, store_new\<lparr>cs_next_id := 2, cs_tokens := m1\<rparr>)"
    "store_inv ?mac (store_new\<lparr>cs_next_id := 2, cs_tokens := m1\<rparr>)"
    "fm_abs m1 = [1 \<mapsto> new_entry ?mac store_new ?t1 None 0]"
    using create_spec [OF store_inv_new, of ?t1 "0x1F" 1 5 "Some 10" ?mac None] by (auto simp: new MAX_TOKENS_def)
  let ?S1 = "store_new\<lparr>cs_next_id := 2, cs_tokens := m1\<rparr>"
  have len: "fm_len (cs_tokens ?S1) < MAX_TOKENS"
    using store_len [OF store_inv_ok [OF m1(2)]] m1(3) by (simp add: MAX_TOKENS_def)
  let ?b = "\<lparr>max_uses = 2, interval_ticks = 100\<rparr>"
  let ?t2 = "make_token PERM_READ 2 2 5 1 10"
  have t2: "?t2 = make_token PERM_READ 2 (cs_next_id ?S1)
      (ct_resource (st_token (new_entry ?mac store_new ?t1 None 0))) 1
      (child_expires None (ct_expires (st_token (new_entry ?mac store_new ?t1 None 0))))"
    by (simp add: new_entry_def make_token_def child_expires_def)
  have "perm_contains (ct_permissions (st_token (new_entry ?mac store_new ?t1 None 0))) PERM_GRANT"
    "perm_is_subset_of PERM_READ (ct_permissions (st_token (new_entry ?mac store_new ?t1 None 0)))"
    by (simp_all add: new_entry_def make_token_def perm_contains_def perm_is_subset_of_def PERM_GRANT_def PERM_READ_def)
  from delegate_spec [OF m1(2) len _ _ this t2, of "Some ?b"]
  obtain m2 where m2: "store_delegate ?mac ?S1 1 2 PERM_READ None (Some ?b) =
      Some (Inr 2, ?S1\<lparr>cs_next_id := 3, cs_tokens := m2\<rparr>)"
    "store_inv ?mac (?S1\<lparr>cs_next_id := 3, cs_tokens := m2\<rparr>)"
    "fm_abs m2 = set_first ([1 \<mapsto> new_entry ?mac store_new ?t1 None 0, 2 \<mapsto> new_entry ?mac ?S1 ?t2 (Some ?b) 0]) 1 2"
    using m1(3) by (auto simp: new_entry_def)
  show ?thesis
  proof (intro exI conjI)
    show "store_trace ?mac store_new demo_ops = Some ([Got_Id (Inr 1), Got_Id (Inr 2)], ?S1\<lparr>cs_next_id := 3, cs_tokens := m2\<rparr>)"
      using m1(1) m2(1) by (simp add: demo_ops_def)
    show "toks (?S1\<lparr>cs_next_id := 3, cs_tokens := m2\<rparr>) = [1 \<mapsto> new_entry ?mac store_new ?t1 None 0 \<lparr>st_first_child := 2\<rparr>,
        2 \<mapsto> new_entry ?mac ?S1 ?t2 (Some ?b) 0]"
      using m2(3) by (auto simp: set_first_def)
  qed (use m2(2) new in \<open>simp_all add: new_entry_def\<close>)
qed

section \<open>What the store guarantees\<close>

text \<open>
  C3. Revoking a live token in a sound store removes the token and everything delegated
  from it, directly or not, and nothing else: it returns how many tokens that are, erases
  their nonces and budgets, and leaves all other tokens with the signature, budget and
  creation time they had. The store stays sound.
\<close>

theorem revoke_removes_subtree:
  assumes "store_inv mac S" "t \<in> dom (toks S)"
  shows "\<exists>S'. store_revoke S t = Some (Inr (card {x. descends (toks S) x t}), S') \<and> store_inv mac S' \<and>
    (\<forall>x. map_option core (toks S' x) = (if descends (toks S) x t then None else map_option core (toks S x))) \<and>
    (\<forall>x. nonces S' x = (if descends (toks S) x t then None else nonces S x)) \<and>
    (\<forall>x. budgets S' x = (if descends (toks S) x t then None else budgets S x))"
proof -
  obtain st where "toks S t = Some st" using assms(2) by blast
  from revoke_spec [OF assms(1) this] obtain S' where
    "store_revoke S t = Some (Inr (card (subtree (toks S) t)), S')" "store_inv mac S'"
    "same_core (toks S |` (- subtree (toks S) t)) (toks S')" "nonces S' = nonces S |` (- subtree (toks S) t)"
    "budgets S' = budgets S |` (- subtree (toks S) t)"
    by blast
  then show ?thesis by (intro exI [of _ S']) (simp add: same_core_def subtree_def restrict_map_def)
qed

theorem revoke_removes_subtree_witness:
  "\<exists>S S'. (\<exists>rs. store_trace (\<lambda>data. data) store_new demo_ops = Some (rs, S)) \<and>
     store_revoke S 1 = Some (Inr (card {x. descends (toks S) x 1}), S') \<and> toks S' 2 = None \<and> toks S' 1 = None"
proof -
  obtain S s1 s2 where S: "store_trace (\<lambda>data. data) store_new demo_ops = Some ([Got_Id (Inr 1), Got_Id (Inr 2)], S)"
    "store_inv (\<lambda>data. data) S" "toks S = [1 \<mapsto> s1, 2 \<mapsto> s2]" "st_token s2 = make_token PERM_READ 2 2 5 1 10"
    using demo_store by blast
  have "descends (toks S) 1 1" by (rule descends.self) (simp add: S)
  moreover have "descends (toks S) 2 1"
    by (rule descends.step [of _ _ 1]) (use S calculation in \<open>simp_all add: parent_of_def make_token_def\<close>)
  moreover have "1 \<in> dom (toks S)" by (simp add: S)
  ultimately show ?thesis
    using revoke_removes_subtree [OF S(2), of 1] S(1) by (metis map_option_is_None)
qed

lemma descends_narrows:
  "descends T x a \<Longrightarrow> authority T \<Longrightarrow> T x = Some sx \<Longrightarrow> T a = Some sa \<Longrightarrow>
   perm_contains (ct_permissions (st_token sa)) (ct_permissions (st_token sx)) \<and>
   ct_resource (st_token sx) = ct_resource (st_token sa) \<and>
   (x \<noteq> a \<longrightarrow> perm_contains (ct_permissions (st_token sa)) PERM_GRANT)"
proof (induction arbitrary: sx rule: descends.induct)
  case (self x)
  then show ?case by (simp add: perm_contains_refl)
next
  case (step x p a)
  obtain sp where sp: "T p = Some sp" using descends_dom [OF step.hyps(4)] by blast
  have "narrows (st_token sp) (st_token sx)"
    using step.prems(1,2) step.hyps(2,3) sp unfolding authority_def by blast
  then show ?case
    using step.IH [OF step.prems(1) sp step.prems(3)] perm_contains_trans unfolding narrows_def
    by (metis step.prems(3) sp option.inject)
qed

text \<open>
  C4. Delegation never widens authority: after any history of operations on an empty store a
  token has only permissions that each of its ancestors has, for the same resource, and every
  proper ancestor holds the grant permission.
\<close>

theorem no_privilege_escalation:
  assumes "store_trace mac store_new ops = Some (rs, S)" "length ops < 2 ^ 64 - 1"
    and "descends (toks S) x a" "toks S x = Some sx" "toks S a = Some sa"
  shows "perm_contains (ct_permissions (st_token sa)) (ct_permissions (st_token sx)) \<and>
    ct_resource (st_token sx) = ct_resource (st_token sa) \<and>
    (x \<noteq> a \<longrightarrow> perm_contains (ct_permissions (st_token sa)) PERM_GRANT)"
proof -
  have "unat (cs_next_id store_new) + length ops < 2 ^ 64" using assms(2) by (simp add: store_new_def)
  from trace_spec [OF store_inv_new this] obtain rs' S'
    where "store_trace mac store_new ops = Some (rs', S')" "store_inv mac S'" by blast
  then have "store_inv mac S" using assms(1) by simp
  then show ?thesis using descends_narrows [OF assms(3) _ assms(4,5)] unfolding store_inv_def tree_inv_def by blast
qed

theorem no_privilege_escalation_witness:
  "\<exists>rs S s1 s2. store_trace (\<lambda>data. data) store_new demo_ops = Some (rs, S) \<and>
     toks S 2 = Some s2 \<and> toks S 1 = Some s1 \<and> descends (toks S) 2 1 \<and>
     perm_contains (ct_permissions (st_token s1)) (ct_permissions (st_token s2))"
proof -
  obtain rs S s1 s2 where S: "store_trace (\<lambda>data. data) store_new demo_ops = Some (rs, S)" "toks S = [1 \<mapsto> s1, 2 \<mapsto> s2]"
    "st_token s2 = make_token PERM_READ 2 2 5 1 10"
    using demo_store by blast
  have "descends (toks S) 1 1" by (rule descends.self) (simp add: S)
  then have d: "descends (toks S) 2 1"
    by (intro descends.step [of 2 _ 1]) (use S in \<open>simp_all add: parent_of_def make_token_def\<close>)
  have len: "length demo_ops < 2 ^ 64 - 1" by (simp add: demo_ops_def)
  have "toks S 2 = Some s2" "toks S 1 = Some s1" using S by simp_all
  then show ?thesis using no_privilege_escalation [OF S(1) len d] S(1) d by blast
qed

text \<open>
  The rules for a request, stated on the recorded fields alone. A lifetime of zero means that a
  token never lapses; otherwise it lapses when the clock reaches the tick of its creation plus
  its lifetime, in 64 bits. A budget counts the uses in a window that begins with the first use and
  starts afresh once it has lasted for the interval.
\<close>

definition lapsed :: "nat \<Rightarrow> stored_token \<Rightarrow> bool" where
  "lapsed now st \<longleftrightarrow> unat (ct_expires (st_token st)) \<noteq> 0 \<and>
     (unat (st_created_at st) + unat (ct_expires (st_token st))) mod 2 ^ 64 \<le> now"

definition window :: "nat \<Rightarrow> budget \<Rightarrow> (u32 \<times> u64) option \<Rightarrow> nat \<times> nat" where
  "window now b tracked =
     (case tracked of
        None \<Rightarrow> (0, now)
      | Some (used, start) \<Rightarrow> if unat start + unat (interval_ticks b) \<le> now \<or> unat (interval_ticks b) = 0 then (0, now) else (unat used, unat start))"

definition request_error :: "cap_store \<Rightarrow> u64 \<Rightarrow> perm \<Rightarrow> u32 \<Rightarrow> capability_error option" where
  "request_error S t perm nonce =
     (case toks S t of
        None \<Rightarrow> Some NotFound
      | Some st \<Rightarrow>
          if lapsed (unat (cs_current_tick S)) st then Some Expired
          else if \<exists>n. bit perm n \<and> \<not> bit (ct_permissions (st_token st)) n then Some InsufficientPermission
          else if nonce = 0 \<or> (\<exists>n. nonces S t = Some n \<and> nonce \<le> n) then Some NonceReplay
          else if \<exists>b. st_budget st = Some b \<and> unat (max_uses b) \<le> fst (window (unat (cs_current_tick S)) b (budgets S t))
          then Some BudgetExhausted
          else None)"

text \<open>The entry of the budget tracker after a request that reached the budget check.\<close>

definition charged :: "cap_store \<Rightarrow> u64 \<Rightarrow> budget \<Rightarrow> u32 \<times> u64" where
  "charged S t b =
     (let (used, start) = window (unat (cs_current_tick S)) b (budgets S t)
      in (of_nat (if used < unat (max_uses b) then used + 1 else used), of_nat start))"

lemma lapsed_iff: "token_expired st now \<longleftrightarrow> lapsed (unat now) st"
proof -
  have "unat (ucast (ct_expires (st_token st)) :: u64) = unat (ct_expires (st_token st))"
    using unat_bound [of "ct_expires (st_token st)"] by (simp add: unsigned_ucast_eq take_bit_nat_eq_self)
  then have "unat (st_created_at st + ucast (ct_expires (st_token st))) =
      (unat (st_created_at st) + unat (ct_expires (st_token st))) mod 2 ^ 64"
    by (simp add: unat_word_ariths)
  then show ?thesis by (simp add: token_expired_def lapsed_def word_le_nat_alt word_neq_0_conv [symmetric] unat_eq_zero)
qed

lemma window_roll:
  "window (unat (cs_current_tick S)) b (budgets S t) =
     (let e = budget_roll b (cs_current_tick S) (interval_use S t) in (unat (fst e), unat (snd e)))"
  by (auto simp: window_def interval_use_def budget_roll_def word_le_nat_alt unat_saturating_sub split: option.split)

lemma request_error_iff: "request_error S t perm nonce = validate_error S t perm nonce"
proof -
  have budget: "within_budget S t bud \<longleftrightarrow>
      \<not> (\<exists>b. bud = Some b \<and> unat (max_uses b) \<le> fst (window (unat (cs_current_tick S)) b (budgets S t)))" for bud
    by (simp add: within_budget_def window_roll Let_def word_less_nat_alt not_le split: option.split)
  have nonce: "nonce \<le> last_nonce S t \<longleftrightarrow> nonce = 0 \<or> (\<exists>n. nonces S t = Some n \<and> nonce \<le> n)"
    by (auto simp: last_nonce_def split: option.split)
  have perm: "perm_contains p perm \<longleftrightarrow> \<not> (\<exists>n. bit perm n \<and> \<not> bit p n)" for p
    by (auto simp: perm_contains_bits)
  show ?thesis
    unfolding request_error_def validate_error_def lapsed_iff perm budget nonce not_not by (rule refl)
qed

lemma charged_use: "charged S t b = budget_use b (cs_current_tick S) (interval_use S t)"
  by (simp add: charged_def window_roll Let_def budget_use_def word_less_nat_alt prod_eq_iff)

text \<open>
  C5. Validation of a sound store always returns. It accepts exactly the requests for a
  live token that has not lapsed and has every permission bit asked for, with a nonce above the
  last accepted one and a budget window with uses left; otherwise it reports the first of these
  checks that fails. The nonce is remembered once the permission check is passed, the budget is
  charged once the nonce check is; nothing else changes, and the store stays sound.
\<close>

theorem validate_decides:
  assumes "store_inv mac S"
  shows "\<exists>S'. store_validate mac S t perm nonce =
      Some (case request_error S t perm nonce of None \<Rightarrow> Inr () | Some e \<Rightarrow> Inl e, S') \<and> store_inv mac S' \<and>
    cs_tokens S' = cs_tokens S \<and> cs_current_tick S' = cs_current_tick S \<and> cs_next_id S' = cs_next_id S \<and>
    nonces S' = (if request_error S t perm nonce \<in> {Some NotFound, Some Expired, Some InsufficientPermission} then nonces S
      else (nonces S)(t \<mapsto> (case nonces S t of None \<Rightarrow> nonce | Some n \<Rightarrow> max n nonce))) \<and>
    budgets S' = (case Option.bind (toks S t) st_budget of
        Some b \<Rightarrow> if request_error S t perm nonce \<in> {None, Some BudgetExhausted} then (budgets S)(t \<mapsto> charged S t b) else budgets S
      | None \<Rightarrow> budgets S)"
proof -
  obtain nt bt where "store_validate mac S t perm nonce =
      Some (case validate_error S t perm nonce of None \<Rightarrow> Inr () | Some e \<Rightarrow> Inl e,
        S\<lparr>cs_nonce_tracker := nt, cs_budget_tracker := bt\<rparr>)" "fm_ok nt" "fm_ok bt"
    "fm_abs nt = nonces_after S t perm nonce" "fm_abs bt = budgets_after S t perm nonce"
    using validate_spec [OF assms] by blast
  moreover have "max (last_nonce S t) nonce = (case nonces S t of None \<Rightarrow> nonce | Some n \<Rightarrow> max n nonce)"
    by (simp add: last_nonce_def max_def split: option.split)
  ultimately show ?thesis
    unfolding request_error_iff charged_use using validate_inv [OF assms, of nt bt]
    by (simp add: nonces_after_def budgets_after_def)
qed

theorem validate_decides_witness:
  "\<exists>S S'. store_inv (\<lambda>data. data) S \<and> store_validate (\<lambda>data. data) S 2 PERM_READ 1 = Some (Inr (), S') \<and>
     nonces S' 2 = Some 1"
proof -
  obtain S s1 s2 where S: "store_inv (\<lambda>data. data) S" "toks S = [1 \<mapsto> s1, 2 \<mapsto> s2]" "cs_current_tick S = 0"
    "nonces S = Map.empty" "budgets S = Map.empty" "st_token s2 = make_token PERM_READ 2 2 5 1 10"
    "st_budget s2 = Some \<lparr>max_uses = 2, interval_ticks = 100\<rparr>" "st_created_at s2 = 0"
    using demo_store by blast
  then have "validate_error S 2 PERM_READ 1 = None"
    by (simp add: validate_error_def last_nonce_def within_budget_def interval_use_def budget_roll_def
        token_expired_def make_token_def perm_contains_def PERM_READ_def saturating_sub_def)
  then show ?thesis
    using validate_decides [OF S(1), of 2 PERM_READ 1] S(1,4) by (fastforce simp: request_error_iff)
qed

end
