(* ===== verification/Capability_History.thy ===== *)
theory Capability_History
  imports Capability_Store
begin

text \<open>
  Properties of whole histories of the capability store: an accepted nonce is never
  accepted again, and a budget bounds the accepted uses of a token in any window of time
  shorter than its interval.
\<close>

section \<open>Replay\<close>

lemma validate_dom: "validate_error S t perm nonce = None \<Longrightarrow> t \<in> dom (toks S)"
  by (auto simp: validate_error_def split: option.splits)

lemma validate_ok_iff:
  assumes "store_inv mac S" "store_validate mac S t perm nonce = Some (r, S')"
  shows "r = Inr () \<longleftrightarrow> validate_error S t perm nonce = None" "store_inv mac S'" "toks S' = toks S"
    "nonces S' = nonces_after S t perm nonce" "budgets S' = budgets_after S t perm nonce"
    "cs_next_id S' = cs_next_id S" "cs_current_tick S' = cs_current_tick S"
proof -
  obtain nt bt where v: "store_validate mac S t perm nonce =
      Some (case validate_error S t perm nonce of None \<Rightarrow> Inr () | Some e \<Rightarrow> Inl e,
        S\<lparr>cs_nonce_tracker := nt, cs_budget_tracker := bt\<rparr>)" "fm_ok nt" "fm_ok bt"
    "fm_abs nt = nonces_after S t perm nonce" "fm_abs bt = budgets_after S t perm nonce"
    using validate_spec [OF assms(1)] by blast
  have r: "r = (case validate_error S t perm nonce of None \<Rightarrow> Inr () | Some e \<Rightarrow> Inl e)"
    "S' = S\<lparr>cs_nonce_tracker := nt, cs_budget_tracker := bt\<rparr>"
    using v(1) assms(2) by simp_all
  show "r = Inr () \<longleftrightarrow> validate_error S t perm nonce = None" using r(1) by (simp split: option.splits)
  show "store_inv mac S'" unfolding r(2) by (rule validate_inv [OF assms(1) v(2-5)])
  show "toks S' = toks S" "nonces S' = nonces_after S t perm nonce" "budgets S' = budgets_after S t perm nonce"
    "cs_next_id S' = cs_next_id S" "cs_current_tick S' = cs_current_tick S"
    using v(4,5) r(2) by simp_all
qed

lemma live_id: "store_inv mac S \<Longrightarrow> t \<in> dom (toks S) \<Longrightarrow> t < cs_next_id S"
  by (simp add: store_inv_def tree_inv_def)

text \<open>
  C6. No replay: once a nonce has been accepted for a token, no later validation of that
  token with the same or a smaller nonce is accepted, whatever happens in between (tokens
  created, delegated and revoked, the clock advanced, other validations).
\<close>

theorem no_nonce_replay:
  assumes "store_inv mac S" "store_validate mac S t perm n = Some (Inr (), S1)"
    and "unat (cs_next_id S) + length ops < 2 ^ 64"
    and "store_trace mac S1 ops = Some (rs, S2)" "store_validate mac S2 t perm' n' = Some (r, S3)" "n' \<le> n"
  shows "r \<noteq> Inr ()"
proof
  assume r: "r = Inr ()"
  note v1 = validate_ok_iff [OF assms(1,2)]
  have ok: "validate_error S t perm n = None" using v1(1) by simp
  have t: "t < cs_next_id S1" using live_id [OF assms(1) validate_dom [OF ok]] v1(6) by simp
  have last: "n \<le> last_nonce S1 t" using v1(4) ok by (simp add: last_nonce_def nonces_after_def)
  have "unat (cs_next_id S1) + length ops < 2 ^ 64" using assms(3) v1(6) by simp
  from trace_spec [OF v1(2) this] have S2: "store_inv mac S2" "grows S1 S2" using assms(4) by auto
  have ok2: "validate_error S2 t perm' n' = None" using validate_ok_iff(1) [OF S2(1) assms(5)] r by simp
  have "n \<le> last_nonce S2 t"
    using S2(2) t validate_dom [OF ok2] last unfolding grows_def by (metis order_trans)
  then show False using ok2 assms(6) by (auto simp: validate_error_def split: option.splits if_splits)
qed

theorem no_nonce_replay_witness:
  "\<exists>S S1 S3 r. store_inv (\<lambda>data. data) S \<and> store_validate (\<lambda>data. data) S 2 PERM_READ 7 = Some (Inr (), S1) \<and>
     store_trace (\<lambda>data. data) S1 [] = Some ([], S1) \<and>
     store_validate (\<lambda>data. data) S1 2 PERM_READ 7 = Some (r, S3) \<and> r \<noteq> Inr ()"
proof -
  obtain S s1 s2 where S: "store_inv (\<lambda>data. data) S" "toks S = [1 \<mapsto> s1, 2 \<mapsto> s2]" "cs_current_tick S = 0"
    "nonces S = Map.empty" "budgets S = Map.empty" "st_token s2 = make_token PERM_READ 2 2 5 1 10"
    "st_budget s2 = Some \<lparr>max_uses = 2, interval_ticks = 100\<rparr>" "st_created_at s2 = 0" "cs_next_id S = 3"
    using demo_store by blast
  then have "validate_error S 2 PERM_READ 7 = None"
    by (simp add: validate_error_def last_nonce_def within_budget_def interval_use_def budget_roll_def
        token_expired_def make_token_def perm_contains_def PERM_READ_def saturating_sub_def)
  then obtain S1 where S1: "store_validate (\<lambda>data. data) S 2 PERM_READ 7 = Some (Inr (), S1)"
    using validate_spec [OF S(1), of 2 PERM_READ 7] by auto
  obtain r S3 where S3: "store_validate (\<lambda>data. data) S1 2 PERM_READ 7 = Some (r, S3)"
    using validate_spec [OF validate_ok_iff(2) [OF S(1) S1], of 2 PERM_READ 7] by blast
  have "r \<noteq> Inr ()"
    by (rule no_nonce_replay [OF S(1) S1 _ _ S3, of "[]"]) (simp_all add: S(9))
  then show ?thesis using S(1) S1 S3 by (intro exI conjI) simp_all
qed

section \<open>Budgets\<close>

text \<open>Time that a history lets pass, and how often it has token \<open>t\<close> accepted.\<close>

primrec op_ticks :: "store_op \<Rightarrow> nat" where
  "op_ticks (Create _ _ _ _ _) = 0"
| "op_ticks (Delegate _ _ _ _ _) = 0"
| "op_ticks (Validate _ _ _) = 0"
| "op_ticks (Revoke _) = 0"
| "op_ticks Tick = 1"
| "op_ticks (Advance_Ticks n) = unat n"

definition elapsed :: "store_op list \<Rightarrow> nat" where
  "elapsed ops = sum_list (map op_ticks ops)"

fun accepted :: "u64 \<Rightarrow> store_op \<Rightarrow> store_out \<Rightarrow> bool" where
  "accepted t (Validate t' _ _) (Checked (Inr ())) \<longleftrightarrow> t' = t"
| "accepted t _ _ \<longleftrightarrow> False"

definition uses :: "u64 \<Rightarrow> store_op list \<Rightarrow> store_out list \<Rightarrow> nat" where
  "uses t ops rs = length (filter (\<lambda>(c, r). accepted t c r) (zip ops rs))"

lemma uses_simps [simp]:
  "uses t [] rs = 0" "uses t (c # ops) (r # rs) = (if accepted t c r then 1 else 0) + uses t ops rs"
  by (simp_all add: uses_def)

lemma elapsed_simps [simp]: "elapsed [] = 0" "elapsed (c # ops) = op_ticks c + elapsed ops"
  by (simp_all add: elapsed_def)

lemma accepted_iff:
  "accepted t c r \<longleftrightarrow> (\<exists>perm n. c = Validate t perm n \<and> r = Checked (Inr ()))"
  by (cases "(t, c, r)" rule: accepted.cases) auto

text \<open>What a step does to the budget of a token that is live afterwards.\<close>

lemma step_budget:
  assumes inv: "store_inv mac S" and nid: "cs_next_id S + 1 \<noteq> 0" and c: "store_step mac S c = Some (r, S')"
    and t: "t < cs_next_id S" "t \<in> dom (toks S')"
  shows "cs_current_tick S' = cs_current_tick S + of_nat (op_ticks c)"
    and "budgets S' t = (case c of Validate t' perm n \<Rightarrow> if t' = t then budgets_after S t perm n t else budgets S t
                         | _ \<Rightarrow> budgets S t)"
    and "accepted t c r \<longleftrightarrow> (\<exists>perm n. c = Validate t perm n \<and> validate_error S t perm n = None)"
proof -
  have "cs_current_tick S' = cs_current_tick S + of_nat (op_ticks c) \<and>
    budgets S' t = (case c of Validate t' perm n \<Rightarrow> if t' = t then budgets_after S t perm n t else budgets S t
                    | _ \<Rightarrow> budgets S t) \<and>
    (accepted t c r \<longleftrightarrow> (\<exists>perm n. c = Validate t perm n \<and> validate_error S t perm n = None))"
  proof (cases c)
    case (Create res perms own ex bud)
    then show ?thesis
      using create_spec [OF inv _ nid refl, of res perms own ex bud] create_full [of S mac res perms own ex bud] c
      by (cases "MAX_TOKENS \<le> fm_len (cs_tokens S)") (auto simp: not_le accepted_iff)
  next
    case (Delegate p own perms ex bud)
    have "\<exists>r m n. store_delegate mac S p own perms ex bud = Some (r, S\<lparr>cs_next_id := n, cs_tokens := m\<rparr>)"
    proof (cases "MAX_TOKENS \<le> fm_len (cs_tokens S) \<or> toks S p = None \<or>
        (\<exists>ps. toks S p = Some ps \<and> (\<not> perm_contains (ct_permissions (st_token ps)) PERM_GRANT \<or>
           \<not> perm_is_subset_of perms (ct_permissions (st_token ps))))")
      case True
      have "S\<lparr>cs_next_id := cs_next_id S, cs_tokens := cs_tokens S\<rparr> = S" by simp
      then show ?thesis
        using True delegate_errors [OF inv, of p] by (metis not_le)
    next
      case False
      then obtain ps where "toks S p = Some ps" "perm_contains (ct_permissions (st_token ps)) PERM_GRANT"
        "perm_is_subset_of perms (ct_permissions (st_token ps))" "fm_len (cs_tokens S) < MAX_TOKENS"
        by auto
      then show ?thesis using delegate_spec [OF inv _ nid _ _ _ refl, of p ps perms own ex bud] by blast
    qed
    then show ?thesis using Delegate c by (auto simp: accepted_iff)
  next
    case (Validate t' perm n)
    then obtain v where v: "store_validate mac S t' perm n = Some (v, S')" "r = Checked v" using c by auto
    note S' = validate_ok_iff [OF inv v(1)]
    have "budgets_after S t' perm n t = budgets S t" if "t' \<noteq> t"
      using that by (simp add: budgets_after_def split: option.splits)
    then show ?thesis using Validate v(2) S' by (auto simp: accepted_iff)
  next
    case (Revoke t')
    show ?thesis
    proof (cases "toks S t'")
      case None
      then show ?thesis using revoke_missing [OF inv] Revoke c by (auto simp: accepted_iff)
    next
      case (Some st)
      obtain S'' where S'': "store_revoke S t' = Some (Inr (card (subtree (toks S) t')), S'')"
        "same_core (toks S |` (- subtree (toks S) t')) (toks S'')" "budgets S'' = budgets S |` (- subtree (toks S) t')"
        "cs_current_tick S'' = cs_current_tick S"
        using revoke_spec [OF inv Some] by blast
      have "S' = S''" "r = Revoked (Inr (card (subtree (toks S) t')))" using S''(1) Revoke c by auto
      moreover have "t \<notin> subtree (toks S) t'"
        using t(2) same_core_dom [OF S''(2)] \<open>S' = S''\<close> by auto
      ultimately show ?thesis using S'' Revoke by (simp add: accepted_iff)
    qed
  qed (use c in \<open>auto simp: store_tick_def store_advance_ticks_def accepted_iff\<close>)
  then show "cs_current_tick S' = cs_current_tick S + of_nat (op_ticks c)"
    "budgets S' t = (case c of Validate t' perm n \<Rightarrow> if t' = t then budgets_after S t perm n t else budgets S t
                    | _ \<Rightarrow> budgets S t)"
    "accepted t c r \<longleftrightarrow> (\<exists>perm n. c = Validate t perm n \<and> validate_error S t perm n = None)"
    by blast+
qed

text \<open>Uses counted in the current interval of a token, and the age of that interval.\<close>

definition used :: "cap_store \<Rightarrow> u64 \<Rightarrow> nat" where
  "used S t = unat (fst (interval_use S t))"

definition age :: "cap_store \<Rightarrow> u64 \<Rightarrow> nat" where
  "age S t = unat (cs_current_tick S) - unat (snd (interval_use S t))"

lemma roll_iff: "budget_roll b (cs_current_tick S) (interval_use S t) =
    (if unat (interval_ticks b) \<le> age S t then (0, cs_current_tick S) else interval_use S t)"
  by (simp add: budget_roll_def word_le_nat_alt unat_saturating_sub age_def)

text \<open>A validation of \<open>t\<close> that gets as far as the budget.\<close>

lemma consume_window:
  assumes S': "budgets S' t = Some (budget_use b (cs_current_tick S) (interval_use S t))"
    "cs_current_tick S' = cs_current_tick S"
    and acc: "acc \<longleftrightarrow> within_budget S t (Some b)"
  shows "age S t < unat (interval_ticks b) \<Longrightarrow>
      age S' t = age S t \<and> used S' t = used S t + (if acc then 1 else 0) \<and> (acc \<longrightarrow> used S t < unat (max_uses b))"
    and "unat (interval_ticks b) \<le> age S t \<Longrightarrow>
      age S' t = 0 \<and> used S' t = (if acc then 1 else 0) \<and> (acc \<longleftrightarrow> 0 < unat (max_uses b))"
proof -
  let ?e = "budget_roll b (cs_current_tick S) (interval_use S t)"
  have acc': "acc \<longleftrightarrow> unat (fst ?e) < unat (max_uses b)" by (simp add: acc within_budget_def word_less_nat_alt)
  have inc: "unat (fst ?e + 1) = unat (fst ?e) + 1" if "fst ?e < max_uses b"
    using that unat_Suc_word [of "fst ?e" "unat (max_uses b)"] unat_bound [of "max_uses b"] by (simp add: word_less_nat_alt)
  have use: "interval_use S' t = (if fst ?e < max_uses b then (fst ?e + 1, snd ?e) else ?e)"
    using S'(1) by (simp add: interval_use_def [of S'] budget_use_def Let_def)
  show "age S' t = age S t \<and> used S' t = used S t + (if acc then 1 else 0) \<and> (acc \<longrightarrow> used S t < unat (max_uses b))"
    if "age S t < unat (interval_ticks b)"
    using that use inc acc' S'(2) by (auto simp: roll_iff used_def age_def word_less_nat_alt)
  show "age S' t = 0 \<and> used S' t = (if acc then 1 else 0) \<and> (acc \<longleftrightarrow> 0 < unat (max_uses b))"
    if "unat (interval_ticks b) \<le> age S t"
    using that use inc acc' S'(2) by (auto simp: roll_iff used_def age_def word_less_nat_alt)
qed

text \<open>How one step moves the interval of a token: not at all, within it, or to a fresh one.\<close>

definition interval_move :: "cap_store \<Rightarrow> cap_store \<Rightarrow> u64 \<Rightarrow> budget \<Rightarrow> nat \<Rightarrow> bool \<Rightarrow> bool" where
  "interval_move S S' t b k acc \<longleftrightarrow>
     (\<not> acc \<and> used S' t = used S t \<and> age S' t \<le> age S t + k) \<or>
     (age S t < unat (interval_ticks b) \<and> age S' t = age S t \<and> used S' t = used S t + (if acc then 1 else 0) \<and>
        (acc \<longrightarrow> used S t < unat (max_uses b))) \<or>
     (unat (interval_ticks b) \<le> age S t \<and> age S' t = 0 \<and> used S' t = (if acc then 1 else 0) \<and>
        (acc \<longleftrightarrow> 0 < unat (max_uses b)))"

lemma step_window:
  assumes inv: "store_inv mac S" and nid: "cs_next_id S + 1 \<noteq> 0" and c: "store_step mac S c = Some (r, S')"
    and st: "toks S t = Some st" "st_budget st = Some b" and t': "t \<in> dom (toks S')"
    and clock: "unat (cs_current_tick S) + op_ticks c < 2 ^ 64"
  shows "interval_move S S' t b (op_ticks c) (accepted t c r)"
    and "unat (cs_current_tick S') = unat (cs_current_tick S) + op_ticks c"
proof -
  have "t < cs_next_id S" using live_id [OF inv] st(1) by blast
  note eff = step_budget [OF inv nid c this t']
  show tick: "unat (cs_current_tick S') = unat (cs_current_tick S) + op_ticks c"
    using clock unfolding eff(1) by (simp add: unat_word_ariths unat_of_nat)
  show "interval_move S S' t b (op_ticks c) (accepted t c r)"
  proof (cases "\<exists>perm n. c = Validate t perm n \<and> validate_error S t perm n \<in> {None, Some BudgetExhausted}")
    case True
    then obtain perm n where v: "c = Validate t perm n" "validate_error S t perm n \<in> {None, Some BudgetExhausted}"
      by blast
    have b': "budgets S' t = Some (budget_use b (cs_current_tick S) (interval_use S t))"
      using eff(2) v st by (simp add: budgets_after_def)
    have t': "cs_current_tick S' = cs_current_tick S" using eff(1) v by simp
    have acc: "accepted t c r \<longleftrightarrow> within_budget S t (Some b)"
      using eff(3) v st by (auto simp: validate_error_def split: if_splits)
    show ?thesis
      using consume_window [OF b' t' acc] unfolding interval_move_def by (cases "age S t < unat (interval_ticks b)") simp_all
  next
    case False
    then have "budgets S' t = budgets S t"
      using eff(2) st by (auto simp: budgets_after_def split: store_op.splits option.splits)
    moreover have "\<not> accepted t c r" using eff(3) False by blast
    ultimately show ?thesis
      using tick by (auto simp: interval_move_def used_def age_def interval_use_def split: option.splits)
  qed
qed

lemma trace_Cons:
  assumes "store_inv mac S" "unat (cs_next_id S) + length (c # ops) < 2 ^ 64"
    and "store_trace mac S (c # ops) = Some (rs, S')"
  obtains r S1 rs' where "rs = r # rs'" "store_step mac S c = Some (r, S1)" "store_trace mac S1 ops = Some (rs', S')"
    "cs_next_id S + 1 \<noteq> 0" "store_inv mac S1" "grows S S1" "unat (cs_next_id S1) + length ops < 2 ^ 64"
proof -
  obtain r S1 rs' where s: "store_step mac S c = Some (r, S1)" "store_trace mac S1 ops = Some (rs', S')" "rs = r # rs'"
    using assms(3) by (auto simp: Option.bind_eq_Some_conv)
  have nid: "cs_next_id S + 1 \<noteq> 0" "unat (cs_next_id S + 1) = unat (cs_next_id S) + 1"
    using unat_Suc_word [of "cs_next_id S" "2 ^ 64 - 1"] assms(2) by auto
  have S1: "store_inv mac S1" "grows S S1" "cs_next_id S1 \<le> cs_next_id S + 1"
    using step_spec [OF assms(1) nid(1), of c] s(1) by auto
  have "unat (cs_next_id S1) + length ops < 2 ^ 64"
    using S1(3) nid(2) assms(2) by (simp add: word_le_nat_alt)
  then show thesis using that s nid(1) S1 by blast
qed

lemma grows_id: "grows S S' \<Longrightarrow> t < cs_next_id S \<Longrightarrow> t < cs_next_id S'"
  unfolding grows_def by (metis order_less_le_trans)

lemma grows_gone: "grows S S' \<Longrightarrow> t < cs_next_id S \<Longrightarrow> t \<notin> dom (toks S) \<Longrightarrow> t \<notin> dom (toks S')"
  unfolding grows_def by (metis domIff map_option_is_None)

lemma accepted_live:
  assumes "store_inv mac S" "store_step mac S c = Some (r, S')" "accepted t c r"
  shows "t \<in> dom (toks S) \<and> t \<in> dom (toks S')"
proof -
  obtain perm n where v: "c = Validate t perm n" "r = Checked (Inr ())" using assms(3) accepted_iff by blast
  then have "store_validate mac S t perm n = Some (Inr (), S')" using assms(2) by auto
  then show ?thesis using validate_ok_iff(1,3) [OF assms(1)] validate_dom by metis
qed

lemma dead_uses:
  "store_inv mac S \<Longrightarrow> unat (cs_next_id S) + length ops < 2 ^ 64 \<Longrightarrow> t < cs_next_id S \<Longrightarrow> t \<notin> dom (toks S) \<Longrightarrow>
   store_trace mac S ops = Some (rs, S') \<Longrightarrow> uses t ops rs = 0"
proof (induction ops arbitrary: S rs)
  case (Cons c ops)
  obtain r S1 rs' where s: "rs = r # rs'" "store_step mac S c = Some (r, S1)" "store_trace mac S1 ops = Some (rs', S')"
    "cs_next_id S + 1 \<noteq> 0" "store_inv mac S1" "grows S S1" "unat (cs_next_id S1) + length ops < 2 ^ 64"
    by (rule trace_Cons [OF Cons.prems(1,2,5)])
  have "uses t ops rs' = 0"
    by (rule Cons.IH [OF s(5,7) grows_id [OF s(6) Cons.prems(3)] grows_gone [OF s(6) Cons.prems(3,4)] s(3)])
  then show ?case using s(1) accepted_live [OF Cons.prems(1) s(2)] Cons.prems(4) by auto
qed simp

text \<open>A live token keeps its budget.\<close>

lemma grows_budget:
  assumes "grows S S'" "store_inv mac S" "toks S t = Some st" "t \<in> dom (toks S')"
  obtains st' where "toks S' t = Some st'" "st_budget st' = st_budget st"
proof -
  have "t < cs_next_id S" using live_id [OF assms(2)] assms(3) by blast
  then have "map_option core (toks S' t) = map_option core (toks S t)"
    using assms(1,4) unfolding grows_def by blast
  then obtain st' where "toks S' t = Some st'" "core st' = core st" using assms(3) by auto
  then show thesis using that core_eqD [of st' st] by blast
qed

lemma window_cases:
  assumes "store_inv mac S" "unat (cs_next_id S) + length (c # ops) < 2 ^ 64"
    and "toks S t = Some st" "st_budget st = Some b" "unat (cs_current_tick S) + elapsed (c # ops) < 2 ^ 64"
    and "store_trace mac S (c # ops) = Some (rs, S')"
  obtains (gone) "uses t (c # ops) rs = 0"
    | (live) r S1 rs' st1 where "rs = r # rs'" "store_inv mac S1" "unat (cs_next_id S1) + length ops < 2 ^ 64"
        "toks S1 t = Some st1" "st_budget st1 = Some b" "unat (cs_current_tick S1) + elapsed ops < 2 ^ 64"
        "store_trace mac S1 ops = Some (rs', S')" "interval_move S S1 t b (op_ticks c) (accepted t c r)"
proof -
  obtain r S1 rs' where s: "rs = r # rs'" "store_step mac S c = Some (r, S1)" "store_trace mac S1 ops = Some (rs', S')"
    "cs_next_id S + 1 \<noteq> 0" "store_inv mac S1" "grows S S1" "unat (cs_next_id S1) + length ops < 2 ^ 64"
    by (rule trace_Cons [OF assms(1,2,6)])
  have t: "t < cs_next_id S" using live_id [OF assms(1)] assms(3) by blast
  show thesis
  proof (cases "t \<in> dom (toks S1)")
    case False
    then have "uses t ops rs' = 0" by (rule dead_uses [OF s(5,7) grows_id [OF s(6) t] _ s(3)])
    then show thesis using accepted_live [OF assms(1) s(2)] False s(1) by (intro gone) auto
  next
    case True
    obtain st1 where st1: "toks S1 t = Some st1" "st_budget st1 = Some b"
      by (rule grows_budget [OF s(6) assms(1,3) True]) (use assms(4) in simp)
    have clock: "unat (cs_current_tick S) + op_ticks c < 2 ^ 64" using assms(5) by simp
    note w = step_window [OF assms(1) s(4,2) assms(3,4) True clock]
    have "unat (cs_current_tick S1) + elapsed ops < 2 ^ 64" using w(2) assms(5) by simp
    then show thesis by (rule live [OF s(1,5,7) st1 _ s(3) w(1)])
  qed
qed

lemma quiet_window:
  "store_inv mac S \<Longrightarrow> unat (cs_next_id S) + length ops < 2 ^ 64 \<Longrightarrow> toks S t = Some st \<Longrightarrow> st_budget st = Some b \<Longrightarrow>
   unat (cs_current_tick S) + elapsed ops < 2 ^ 64 \<Longrightarrow> age S t + elapsed ops < unat (interval_ticks b) \<Longrightarrow>
   store_trace mac S ops = Some (rs, S') \<Longrightarrow> uses t ops rs \<le> unat (max_uses b) - used S t"
proof (induction ops arbitrary: S st rs)
  case (Cons c ops)
  show ?case
  proof (cases rule: window_cases [OF Cons.prems(1-5,7)])
    case (2 r S1 rs' st1)
    have "age S1 t + elapsed ops < unat (interval_ticks b)"
      using 2(8) Cons.prems(6) unfolding interval_move_def by auto
    from Cons.IH [OF 2(2-6) this 2(7)] have "uses t ops rs' \<le> unat (max_uses b) - used S1 t" .
    then show ?thesis using 2(1,8) Cons.prems(6) unfolding interval_move_def by auto
  qed simp
qed simp

lemma any_window:
  "store_inv mac S \<Longrightarrow> unat (cs_next_id S) + length ops < 2 ^ 64 \<Longrightarrow> toks S t = Some st \<Longrightarrow> st_budget st = Some b \<Longrightarrow>
   unat (cs_current_tick S) + elapsed ops < 2 ^ 64 \<Longrightarrow> elapsed ops < unat (interval_ticks b) \<Longrightarrow>
   store_trace mac S ops = Some (rs, S') \<Longrightarrow> uses t ops rs \<le> (unat (max_uses b) - used S t) + unat (max_uses b)"
proof (induction ops arbitrary: S st rs)
  case (Cons c ops)
  have el: "elapsed ops < unat (interval_ticks b)" using Cons.prems(6) by simp
  show ?case
  proof (cases rule: window_cases [OF Cons.prems(1-5,7)])
    case (2 r S1 rs' st1)
    have IH: "uses t ops rs' \<le> (unat (max_uses b) - used S1 t) + unat (max_uses b)"
      by (rule Cons.IH [OF 2(2-6) el 2(7)])
    have "uses t ops rs' \<le> unat (max_uses b) - used S1 t" if "age S1 t = 0"
      by (rule quiet_window [OF 2(2-6) _ 2(7)]) (use that el in simp)
    then show ?thesis using IH 2(1,8) unfolding interval_move_def by auto
  qed simp
qed simp

text \<open>
  C7. Budgets bound use: in any stretch of a history that is shorter than the interval of
  a token's budget, the token is accepted at most twice its \<open>max_uses\<close>, and at most
  \<open>max_uses\<close> times if it had not been used before (the interval then starts with the
  stretch). Neither the ids nor the clock may wrap around.
\<close>

theorem budget_bounds_uses:
  assumes "store_inv mac S" "unat (cs_next_id S) + length ops < 2 ^ 64"
    and "toks S t = Some st" "st_budget st = Some b"
    and "unat (cs_current_tick S) + elapsed ops < 2 ^ 64" "elapsed ops < unat (interval_ticks b)"
    and "store_trace mac S ops = Some (rs, S')"
  shows "uses t ops rs \<le> 2 * unat (max_uses b) \<and> (budgets S t = None \<longrightarrow> uses t ops rs \<le> unat (max_uses b))"
proof
  show "uses t ops rs \<le> 2 * unat (max_uses b)" using any_window [OF assms] by simp
  show "budgets S t = None \<longrightarrow> uses t ops rs \<le> unat (max_uses b)"
  proof
    assume "budgets S t = None"
    then have "age S t = 0" by (simp add: age_def interval_use_def)
    then show "uses t ops rs \<le> unat (max_uses b)" using quiet_window [OF assms(1-5) _ assms(7)] assms(6) by simp
  qed
qed

theorem budget_bounds_uses_witness:
  "\<exists>S rs S'. store_inv (\<lambda>data. data) S \<and>
     store_trace (\<lambda>data. data) S [Validate 2 PERM_READ 1, Tick, Validate 2 PERM_READ 2, Validate 2 PERM_READ 3] =
       Some (rs, S') \<and>
     uses 2 [Validate 2 PERM_READ 1, Tick, Validate 2 PERM_READ 2, Validate 2 PERM_READ 3] rs \<le> 2"
proof -
  let ?ops = "[Validate 2 PERM_READ 1, Tick, Validate 2 PERM_READ 2, Validate 2 PERM_READ 3]"
  obtain S s1 s2 where S: "store_inv (\<lambda>data. data) S" "toks S = [1 \<mapsto> s1, 2 \<mapsto> s2]" "cs_current_tick S = 0"
    "budgets S = Map.empty" "st_budget s2 = Some \<lparr>max_uses = 2, interval_ticks = 100\<rparr>" "cs_next_id S = 3"
    using demo_store by blast
  have ids: "unat (cs_next_id S) + length ?ops < 2 ^ 64" by (simp add: S)
  obtain rs S' where tr: "store_trace (\<lambda>data. data) S ?ops = Some (rs, S')"
    using trace_spec [OF S(1) ids] by blast
  have "toks S 2 = Some s2" by (simp add: S)
  from budget_bounds_uses [OF S(1) ids this S(5) _ _ tr] have "uses 2 ?ops rs \<le> 2"
    by (simp add: S)
  then show ?thesis using S(1) tr by blast
qed

section \<open>Lifetimes of delegated tokens\<close>

text \<open>
  The tick from which a token counts as expired. \<open>delegate\<close> bounds the lifetime of a
  child by that of its parent, but the lifetime starts when the child is created: a child
  that inherits its parent's lifetime later than the parent was created outlives it.
\<close>

definition deadline :: "stored_token \<Rightarrow> nat" where
  "deadline st = unat (st_created_at st) + unat (ct_expires (st_token st))"

text \<open>
  C38. The lifetime rule of delegation is relative, not absolute. Whoever holds GRANT on a token
  with a limited lifetime can, at any tick after the token was created, delegate from it without
  naming a lifetime, and the new token has a later deadline than the one it comes from.
\<close>

theorem child_outlives_parent:
  assumes "store_inv mac S" "fm_len (cs_tokens S) < MAX_TOKENS" "cs_next_id S + 1 \<noteq> 0"
    and "toks S p = Some ps" "perm_contains (ct_permissions (st_token ps)) PERM_GRANT"
    and "perm_is_subset_of perms (ct_permissions (st_token ps))" "st_created_at ps < cs_current_tick S"
    and "ct_expires (st_token ps) \<noteq> 0"
  shows "\<exists>S' cs. store_delegate mac S p own perms None bud = Some (Inr (cs_next_id S), S') \<and>
    toks S' (cs_next_id S) = Some cs \<and> ct_delegated_from (st_token cs) = p \<and> deadline ps < deadline cs"
proof -
  let ?token = "make_token perms own (cs_next_id S) (ct_resource (st_token ps)) p (child_expires None (ct_expires (st_token ps)))"
  obtain m where m: "store_delegate mac S p own perms None bud =
      Some (Inr (cs_next_id S), S\<lparr>cs_next_id := cs_next_id S + 1, cs_tokens := m\<rparr>)"
    "fm_abs m = set_first ((toks S)(cs_next_id S \<mapsto> new_entry mac S ?token bud (st_first_child ps))) p (cs_next_id S)"
    using delegate_spec [OF assms(1-6) refl, of own None bud] by blast
  have "p \<noteq> cs_next_id S" using live_id [OF assms(1), of p] assms(4) by auto
  then have "fm_abs m (cs_next_id S) = Some (new_entry mac S ?token bud (st_first_child ps))"
    by (simp add: m(2) set_first_def)
  moreover have "deadline ps < deadline (new_entry mac S ?token bud (st_first_child ps))"
    using assms(7) by (simp add: deadline_def new_entry_def make_token_def child_expires_def word_less_nat_alt)
  ultimately show ?thesis using m(1) by (fastforce simp: new_entry_def make_token_def)
qed

theorem child_outlives_parent_witness:
  "\<exists>S ps S' cs. toks S 1 = Some ps \<and>
     store_delegate (\<lambda>data. data) S 1 2 PERM_READ None None = Some (Inr (cs_next_id S), S') \<and>
     toks S' (cs_next_id S) = Some cs \<and> deadline ps < deadline cs"
proof -
  obtain S s1 s2 where S: "store_inv (\<lambda>data. data) S" "toks S = [1 \<mapsto> s1, 2 \<mapsto> s2]" "cs_next_id S = 3"
    "st_token s1 = make_token 0x1F 1 1 5 0 10" "st_created_at s1 = 0"
    using demo_store by blast
  let ?S = "S\<lparr>cs_current_tick := 5\<rparr>"
  have t: "toks ?S 1 = Some s1" by (simp add: S)
  have len: "fm_len (cs_tokens ?S) < MAX_TOKENS"
    using store_len [OF store_inv_ok [OF S(1)]] S(2) by (simp add: MAX_TOKENS_def)
  have nz: "cs_next_id ?S + 1 \<noteq> 0" by (simp add: S)
  have pm: "perm_contains (ct_permissions (st_token s1)) PERM_GRANT"
    "perm_is_subset_of PERM_READ (ct_permissions (st_token s1))" "ct_expires (st_token s1) \<noteq> 0"
    by (simp_all add: S make_token_def perm_contains_def perm_is_subset_of_def PERM_GRANT_def PERM_READ_def)
  have "st_created_at s1 < cs_current_tick ?S" by (simp add: S)
  from child_outlives_parent [OF tick_inv [OF S(1)] len nz t pm(1,2) this pm(3), of 2 None]
  show ?thesis using t by blast
qed

end
