(* ===== verification/Ring_Buffer.thy ===== *)
theory Ring_Buffer
  imports Prelude
begin

text \<open>
  Ring buffers and the queues made of them. The kernel has many: the inboxes and monitor
  taps of the bus, the loopback device, the keyboard and window event queues, the byte
  buffers of sockets. The first part reads an array as a ring; the locales after it state
  what a queue promises, and what follows for every history of pushes and pops.
\<close>

section \<open>Arrays read as rings\<close>

text \<open>The \<open>n\<close> elements of \<open>buf\<close> from position \<open>h\<close> on, wrapping around.\<close>

definition ring_list :: "'a list \<Rightarrow> nat \<Rightarrow> nat \<Rightarrow> 'a list" where
  "ring_list buf h n = map (\<lambda>i. buf ! ((h + i) mod length buf)) [0..<n]"

definition ring_ok :: "nat \<Rightarrow> 'a list \<Rightarrow> nat \<Rightarrow> nat \<Rightarrow> nat \<Rightarrow> bool" where
  "ring_ok N buf h t n \<longleftrightarrow> 0 < N \<and> length buf = N \<and> h < N \<and> n \<le> N \<and> t = (h + n) mod N"

lemma length_ring_list [simp]: "length (ring_list buf h n) = n"
  by (simp add: ring_list_def)

lemma ring_list_0 [simp]: "ring_list buf h 0 = []"
  by (simp add: ring_list_def)

lemma ring_list_eq_Nil [simp]: "ring_list buf h n = [] \<longleftrightarrow> n = 0"
  by (simp add: ring_list_def)

lemma ring_ok_tail: "ring_ok N buf h t n \<Longrightarrow> t < length buf"
  by (simp add: ring_ok_def)

lemma ring_list_Suc: "ring_list buf h (Suc n) = ring_list buf h n @ [buf ! ((h + n) mod length buf)]"
  by (simp add: ring_list_def)

lemma ring_list_Cons:
  assumes "h < length buf"
  shows "ring_list buf h (Suc n) = buf ! h # ring_list buf (Suc h mod length buf) n"
proof -
  have "(Suc h mod length buf + i) mod length buf = (h + Suc i) mod length buf" for i
    by (simp add: mod_add_left_eq)
  then show ?thesis
    using assms by (simp add: ring_list_def upt_conv_Cons map_Suc_upt [symmetric] o_def del: upt_Suc map_Suc_upt)
qed

text \<open>Writing outside the occupied part leaves the contents alone.\<close>

lemma ring_list_update:
  assumes "h < length buf" "n + k < length buf"
  shows "ring_list (buf[(h + n + k) mod length buf := x]) h n = ring_list buf h n"
proof -
  have "(h + n + k) mod length buf \<noteq> (h + i) mod length buf" if "i < n" for i
    using that assms by (cases "h + i < length buf"; cases "h + n + k < length buf") (auto simp: le_mod_geq not_less)
  then show ?thesis using assms by (auto simp: ring_list_def)
qed

lemma ring_push:
  assumes "ring_ok N buf h t n" "n < N"
  shows "ring_ok N (buf[t := x]) h (Suc t mod N) (Suc n)" "ring_list (buf[t := x]) h (Suc n) = ring_list buf h n @ [x]"
proof -
  have t: "t < length buf" using ring_ok_tail [OF assms(1)] .
  show "ring_ok N (buf[t := x]) h (Suc t mod N) (Suc n)"
    using assms by (simp add: ring_ok_def mod_Suc_eq)
  have "ring_list (buf[t := x]) h n = ring_list buf h n"
    using ring_list_update [of h buf n 0 x] assms by (simp add: ring_ok_def)
  then show "ring_list (buf[t := x]) h (Suc n) = ring_list buf h n @ [x]"
    using t assms by (simp add: ring_list_Suc ring_ok_def)
qed

lemma ring_pop:
  assumes "ring_ok N buf h t n" "0 < n"
  shows "ring_ok N buf (Suc h mod N) t (n - 1)" "ring_list buf h n = buf ! h # ring_list buf (Suc h mod N) (n - 1)"
proof -
  obtain m where m: "n = Suc m" using assms(2) by (cases n) auto
  show "ring_ok N buf (Suc h mod N) t (n - 1)"
    using assms m by (simp add: ring_ok_def mod_add_left_eq)
  show "ring_list buf h n = buf ! h # ring_list buf (Suc h mod N) (n - 1)"
    using ring_list_Cons [of h buf m] assms m by (simp add: ring_ok_def)
qed

text \<open>The slot just popped may be cleared.\<close>

lemma ring_clear_slot:
  assumes "ring_ok N buf h t n" "0 < n"
  shows "ring_list (buf[h := x]) (Suc h mod N) (n - 1) = ring_list buf (Suc h mod N) (n - 1)"
proof -
  have b: "0 < N" "length buf = N" "h < N" "n \<le> N" using assms by (simp_all add: ring_ok_def)
  have "Suc h mod N + (n - 1) + (N - n) = Suc h mod N + (N - 1)" using assms(2) b by simp
  then have "(Suc h mod N + (n - 1) + (N - n)) mod N = (Suc h + (N - 1)) mod N" by (simp only: mod_add_left_eq)
  also have "\<dots> = (h + N) mod N" using b(1) by (simp add: add.commute)
  also have "\<dots> = h" using b by simp
  finally have h: "(Suc h mod N + (n - 1) + (N - n)) mod N = h" .
  have "Suc h mod N < length buf" "n - 1 + (N - n) < length buf" using assms(2) b by simp_all
  from ring_list_update [OF this, of x] show ?thesis by (simp only: b(2) h)
qed

lemma ring_ok_update [simp]: "ring_ok N (buf[i := x]) h t n = ring_ok N buf h t n"
  by (simp add: ring_ok_def)

text \<open>Rings of optional slots: the occupied ones all hold a value.\<close>

definition slot_ring_ok :: "nat \<Rightarrow> 'a option list \<Rightarrow> nat \<Rightarrow> nat \<Rightarrow> nat \<Rightarrow> bool" where
  "slot_ring_ok N buf h t n \<longleftrightarrow> ring_ok N buf h t n \<and> None \<notin> set (ring_list buf h n)"

definition slot_ring_list :: "'a option list \<Rightarrow> nat \<Rightarrow> nat \<Rightarrow> 'a list" where
  "slot_ring_list buf h n = map the (ring_list buf h n)"

lemma length_slot_ring_list [simp]: "length (slot_ring_list buf h n) = n"
  by (simp add: slot_ring_list_def)

lemma slot_ring_empty: "0 < N \<Longrightarrow> slot_ring_ok N (replicate N None) 0 0 0"
  by (simp add: slot_ring_ok_def ring_ok_def)

lemma slot_ring_push:
  assumes "slot_ring_ok N buf h t n" "n < N"
  shows "slot_ring_ok N (buf[t := Some x]) h (Suc t mod N) (Suc n)"
    "slot_ring_list (buf[t := Some x]) h (Suc n) = slot_ring_list buf h n @ [x]"
  using assms ring_push [of N buf h t n "Some x"] by (simp_all add: slot_ring_ok_def slot_ring_list_def)

lemma slot_ring_drop:
  assumes "slot_ring_ok N buf h t n" "0 < n"
  shows "slot_ring_ok N buf (Suc h mod N) t (n - 1)"
    "slot_ring_list buf h n = the (buf ! h) # slot_ring_list buf (Suc h mod N) (n - 1)" "buf ! h \<noteq> None"
  using assms ring_pop [of N buf h t n] by (simp_all add: slot_ring_ok_def slot_ring_list_def eq_commute [of None])

lemma slot_ring_pop:
  assumes "slot_ring_ok N buf h t n" "0 < n"
  shows "slot_ring_ok N (buf[h := None]) (Suc h mod N) t (n - 1)"
    "slot_ring_list buf h n = the (buf ! h) # slot_ring_list (buf[h := None]) (Suc h mod N) (n - 1)" "buf ! h \<noteq> None"
  using slot_ring_drop [OF assms] ring_clear_slot [of N buf h t n None] assms
  by (simp_all add: slot_ring_ok_def slot_ring_list_def)

section \<open>Queues\<close>

locale fifo =
  fixes ok :: "'q \<Rightarrow> bool"
    and contents :: "'q \<Rightarrow> 'e list"
    and capacity :: nat
    and pop :: "'q \<Rightarrow> ('e option \<times> 'q) run"
  assumes bound: "ok q \<Longrightarrow> length (contents q) \<le> capacity"
    and pop_empty: "ok q \<Longrightarrow> contents q = [] \<Longrightarrow> pop q = Some (None, q)"
    and pop_first: "ok q \<Longrightarrow> contents q = x # xs \<Longrightarrow> \<exists>q'. pop q = Some (Some x, q') \<and> ok q' \<and> contents q' = xs"
begin

lemma pop_total:
  "ok q \<Longrightarrow> \<exists>q'. pop q = Some (case contents q of [] \<Rightarrow> None | x # _ \<Rightarrow> Some x, q') \<and> ok q' \<and> contents q' = tl (contents q)"
  by (cases "contents q") (auto simp: pop_empty dest: pop_first)

end

text \<open>A queue that refuses what it has no room for, and elements that do not qualify.\<close>

locale guarded_fifo = fifo +
  fixes accepts :: "'b \<Rightarrow> bool"
    and push :: "'a \<Rightarrow> 'b \<Rightarrow> (bool \<times> 'a) run"
  assumes push_room: "ok q \<Longrightarrow> length (contents q) < capacity \<Longrightarrow> accepts x \<Longrightarrow>
      \<exists>q'. push q x = Some (True, q') \<and> ok q' \<and> contents q' = contents q @ [x]"
    and push_refused: "ok q \<Longrightarrow> length (contents q) = capacity \<or> \<not> accepts x \<Longrightarrow> push q x = Some (False, q)"
begin

lemma push_total:
  "ok q \<Longrightarrow> \<exists>b q'. push q x = Some (b, q') \<and> ok q' \<and> (b \<longleftrightarrow> length (contents q) < capacity \<and> accepts x) \<and>
     contents q' = (if b then contents q @ [x] else contents q)"
  using bound [of q] push_room [of q x] push_refused [of q x]
  by (cases "length (contents q) < capacity \<and> accepts x") force+

end

text \<open>A queue that refuses only what it has no room for.\<close>

locale bounded_fifo = fifo +
  fixes push :: "'a \<Rightarrow> 'b \<Rightarrow> (bool \<times> 'a) run"
  assumes push_if_room: "ok q \<Longrightarrow> length (contents q) < capacity \<Longrightarrow>
      \<exists>q'. push q x = Some (True, q') \<and> ok q' \<and> contents q' = contents q @ [x]"
    and push_full: "ok q \<Longrightarrow> length (contents q) = capacity \<Longrightarrow> push q x = Some (False, q)"

sublocale bounded_fifo \<subseteq> guarded_fifo ok contents capacity pop "\<lambda>_. True" push
  by unfold_locales (simp_all add: push_if_room push_full)

text \<open>A queue that makes room by dropping its oldest element.\<close>

locale lossy_fifo = fifo +
  fixes push :: "'a \<Rightarrow> 'b \<Rightarrow> 'a run"
  assumes push_lossy: "ok q \<Longrightarrow> \<exists>q'. push q x = Some q' \<and> ok q' \<and>
      contents q' = (if length (contents q) < capacity then contents q else tl (contents q)) @ [x]"

section \<open>Histories of a bounded queue\<close>

datatype 'e queue_op = Push 'e | Pop

fun queue_run ::
  "('q \<Rightarrow> 'e \<Rightarrow> (bool \<times> 'q) run) \<Rightarrow> ('q \<Rightarrow> ('e option \<times> 'q) run) \<Rightarrow> 'q \<Rightarrow> 'e queue_op list \<Rightarrow>
   ('e list \<times> 'e list \<times> 'q) run" where
  "queue_run push pop q [] = Some ([], [], q)"
| "queue_run push pop q (Push x # ops) = do {
     (b, q') \<leftarrow> push q x;
     (ins, outs, q'') \<leftarrow> queue_run push pop q' ops;
     Some (if b then x # ins else ins, outs, q'')
   }"
| "queue_run push pop q (Pop # ops) = do {
     (r, q') \<leftarrow> pop q;
     (ins, outs, q'') \<leftarrow> queue_run push pop q' ops;
     Some (ins, (case r of None \<Rightarrow> outs | Some x \<Rightarrow> x # outs), q'')
   }"

context guarded_fifo
begin

text \<open>
  Whatever the mix of pushes and pops, what was in the queue followed by what it accepted
  is what it handed out followed by what it still holds: nothing is lost, duplicated or
  reordered.
\<close>

lemma run_fifo:
  "ok q \<Longrightarrow> \<exists>ins outs q'. queue_run push pop q ops = Some (ins, outs, q') \<and> ok q' \<and>
     contents q @ ins = outs @ contents q'"
proof (induction ops arbitrary: q)
  case (Cons c ops)
  show ?case
  proof (cases c)
    case (Push x)
    obtain b q1 where p: "push q x = Some (b, q1)" "ok q1" "contents q1 = (if b then contents q @ [x] else contents q)"
      using push_total [OF Cons.prems] by blast
    obtain ins outs q2 where "queue_run push pop q1 ops = Some (ins, outs, q2)" "ok q2"
      "contents q1 @ ins = outs @ contents q2"
      using Cons.IH [OF p(2)] by blast
    then show ?thesis using p Push by (cases b) auto
  next
    case Pop
    obtain q1 where p: "pop q = Some (case contents q of [] \<Rightarrow> None | x # _ \<Rightarrow> Some x, q1)" "ok q1"
      "contents q1 = tl (contents q)"
      using pop_total [OF Cons.prems] by blast
    obtain ins outs q2 where "queue_run push pop q1 ops = Some (ins, outs, q2)" "ok q2"
      "contents q1 @ ins = outs @ contents q2"
      using Cons.IH [OF p(2)] by blast
    then show ?thesis using p Pop by (cases "contents q") auto
  qed
qed simp

end

section \<open>Indexing that may panic\<close>

definition index :: "'a list \<Rightarrow> nat \<Rightarrow> 'a run" where
  "index xs i = (if i < length xs then Some (xs ! i) else None)"

definition store_at :: "'a list \<Rightarrow> nat \<Rightarrow> 'a \<Rightarrow> 'a list run" where
  "store_at xs i v = (if i < length xs then Some (xs[i := v]) else None)"

lemma index_in [simp]: "i < length xs \<Longrightarrow> index xs i = Some (xs ! i)"
  by (simp add: index_def)

lemma store_at_in [simp]: "i < length xs \<Longrightarrow> store_at xs i v = Some (xs[i := v])"
  by (simp add: store_at_def)

text \<open>\<open>&xs[lo..hi]\<close> and \<open>xs[lo..hi].copy_from_slice(ys)\<close>.\<close>

definition slice_of :: "'a list \<Rightarrow> nat \<Rightarrow> nat \<Rightarrow> 'a list run" where
  "slice_of xs lo hi = (if lo \<le> hi \<and> hi \<le> length xs then Some (take (hi - lo) (drop lo xs)) else None)"

definition copy_slice :: "'a list \<Rightarrow> nat \<Rightarrow> nat \<Rightarrow> 'a list \<Rightarrow> 'a list run" where
  "copy_slice xs lo hi ys =
     (if lo \<le> hi \<and> hi \<le> length xs \<and> length ys = hi - lo then Some (take lo xs @ ys @ drop hi xs) else None)"

lemma slice_of_in [simp]: "lo \<le> hi \<Longrightarrow> hi \<le> length xs \<Longrightarrow> slice_of xs lo hi = Some (take (hi - lo) (drop lo xs))"
  by (simp add: slice_of_def)

lemma copy_slice_in [simp]:
  "lo \<le> hi \<Longrightarrow> hi \<le> length xs \<Longrightarrow> length ys = hi - lo \<Longrightarrow> copy_slice xs lo hi ys = Some (take lo xs @ ys @ drop hi xs)"
  by (simp add: copy_slice_def)

end
