(* ===== verification/Bus_Queues.thy ===== *)
theory Bus_Queues
  imports Fabric_Types Ring_Buffer
begin

text \<open>
  The buffers of the message bus (\<^verbatim>\<open>kernel/src/bus\<close>): the per-process inbox of
  \<^verbatim>\<open>queue.rs\<close>, which refuses messages when full, and the monitor taps of
  \<^verbatim>\<open>monitor.rs\<close>, which drop their oldest message instead.
\<close>

section \<open>Inbox (\<^verbatim>\<open>queue.rs\<close>)\<close>

record arena_slice =
  sl_offset :: u32
  sl_len :: u32

definition QUEUE_CAPACITY :: nat where "QUEUE_CAPACITY = 32"

record envelope =
  env_header :: message_header
  env_hmac :: bytes
  env_payload :: "arena_slice option"

definition envelope_zeroed :: envelope where
  "envelope_zeroed = \<lparr>env_header = header_zeroed, env_hmac = replicate 32 0, env_payload = None\<rparr>"

record inbox_queue =
  iq_entries :: "envelope option list"
  iq_head :: nat
  iq_tail :: nat
  iq_count :: nat

definition inbox_new :: inbox_queue where
  "inbox_new = \<lparr>iq_entries = replicate QUEUE_CAPACITY None, iq_head = 0, iq_tail = 0, iq_count = 0\<rparr>"

definition inbox_push :: "inbox_queue \<Rightarrow> envelope \<Rightarrow> (bool \<times> inbox_queue) run" where
  "inbox_push q env =
     (if iq_count q \<ge> QUEUE_CAPACITY then Some (False, q)
      else do {
        entries \<leftarrow> store_at (iq_entries q) (iq_tail q) (Some env);
        Some (True, q\<lparr>iq_entries := entries, iq_tail := (iq_tail q + 1) mod QUEUE_CAPACITY, iq_count := iq_count q + 1\<rparr>)
      })"

definition inbox_pop :: "inbox_queue \<Rightarrow> (envelope option \<times> inbox_queue) run" where
  "inbox_pop q =
     (if iq_count q = 0 then Some (None, q)
      else do {
        env \<leftarrow> index (iq_entries q) (iq_head q);
        entries \<leftarrow> store_at (iq_entries q) (iq_head q) None;
        Some (env, q\<lparr>iq_entries := entries, iq_head := (iq_head q + 1) mod QUEUE_CAPACITY, iq_count := iq_count q - 1\<rparr>)
      })"

definition inbox_peek :: "inbox_queue \<Rightarrow> envelope option run" where
  "inbox_peek q = (if iq_count q = 0 then Some None else index (iq_entries q) (iq_head q))"

definition inbox_len :: "inbox_queue \<Rightarrow> nat" where
  "inbox_len q = iq_count q"

definition inbox_is_full :: "inbox_queue \<Rightarrow> bool" where
  "inbox_is_full q \<longleftrightarrow> iq_count q \<ge> QUEUE_CAPACITY"

definition inbox_is_empty :: "inbox_queue \<Rightarrow> bool" where
  "inbox_is_empty q \<longleftrightarrow> iq_count q = 0"

definition inbox_clear :: "inbox_queue \<Rightarrow> inbox_queue" where
  "inbox_clear q = \<lparr>iq_entries = map (\<lambda>_. None) (iq_entries q), iq_head = 0, iq_tail = 0, iq_count = 0\<rparr>"

section \<open>Monitor taps (\<^verbatim>\<open>monitor.rs\<close>)\<close>

definition MAX_MONITORS :: nat where "MAX_MONITORS = 4"
definition MONITOR_BUFFER_SIZE :: nat where "MONITOR_BUFFER_SIZE = 64"

record monitor_filter =
  mf_sender :: "process_id option"
  mf_receiver :: "process_id option"
  mf_msg_type :: "type_id option"

definition filter_matches :: "monitor_filter \<Rightarrow> envelope \<Rightarrow> bool" where
  "filter_matches f env \<longleftrightarrow>
     (case mf_sender f of None \<Rightarrow> True | Some s \<Rightarrow> mh_sender (env_header env) = s) \<and>
     (case mf_receiver f of None \<Rightarrow> True | Some r \<Rightarrow> mh_receiver (env_header env) = r) \<and>
     (case mf_msg_type f of None \<Rightarrow> True | Some t \<Rightarrow> mh_msg_type (env_header env) = t)"

record monitor_tap =
  mt_id :: u32
  mt_filter :: monitor_filter
  mt_buffer :: "envelope option list"
  mt_head :: nat
  mt_tail :: nat
  mt_count :: nat

definition tap_new :: "u32 \<Rightarrow> monitor_filter \<Rightarrow> monitor_tap" where
  "tap_new tid f = \<lparr>mt_id = tid, mt_filter = f, mt_buffer = replicate MONITOR_BUFFER_SIZE None,
     mt_head = 0, mt_tail = 0, mt_count = 0\<rparr>"

definition tap_push :: "monitor_tap \<Rightarrow> envelope \<Rightarrow> monitor_tap run" where
  "tap_push tap0 env = do {
     let tap = (if mt_count tap0 \<ge> MONITOR_BUFFER_SIZE
                then tap0\<lparr>mt_head := (mt_head tap0 + 1) mod MONITOR_BUFFER_SIZE, mt_count := mt_count tap0 - 1\<rparr>
                else tap0);
     buffer \<leftarrow> store_at (mt_buffer tap) (mt_tail tap) (Some env);
     Some (tap\<lparr>mt_buffer := buffer, mt_tail := (mt_tail tap + 1) mod MONITOR_BUFFER_SIZE, mt_count := mt_count tap + 1\<rparr>)
   }"

definition tap_pop :: "monitor_tap \<Rightarrow> (envelope option \<times> monitor_tap) run" where
  "tap_pop tap =
     (if mt_count tap = 0 then Some (None, tap)
      else do {
        env \<leftarrow> index (mt_buffer tap) (mt_head tap);
        buffer \<leftarrow> store_at (mt_buffer tap) (mt_head tap) None;
        Some (env, tap\<lparr>mt_buffer := buffer, mt_head := (mt_head tap + 1) mod MONITOR_BUFFER_SIZE,
          mt_count := mt_count tap - 1\<rparr>)
      })"

definition tap_pending :: "monitor_tap \<Rightarrow> nat" where
  "tap_pending tap = mt_count tap"

record monitor_registry =
  mr_taps :: "monitor_tap option list"
  mr_next_id :: u32

definition monitors_new :: monitor_registry where
  "monitors_new = \<lparr>mr_taps = replicate MAX_MONITORS None, mr_next_id = 1\<rparr>"

text \<open>The loops over the slots stop at the first free slot, or at the first slot with the id.\<close>

fun fill_first_free :: "monitor_tap \<Rightarrow> monitor_tap option list \<Rightarrow> monitor_tap option list option" where
  "fill_first_free tap [] = None"
| "fill_first_free tap (None # slots) = Some (Some tap # slots)"
| "fill_first_free tap (Some t # slots) = map_option ((#) (Some t)) (fill_first_free tap slots)"

definition monitors_register :: "monitor_registry \<Rightarrow> monitor_filter \<Rightarrow> u32 option \<times> monitor_registry" where
  "monitors_register M f =
     (case fill_first_free (tap_new (mr_next_id M) f) (mr_taps M) of
        None \<Rightarrow> (None, M)
      | Some taps \<Rightarrow> (Some (mr_next_id M), \<lparr>mr_taps = taps, mr_next_id = mr_next_id M + 1\<rparr>))"

fun clear_first_id :: "u32 \<Rightarrow> monitor_tap option list \<Rightarrow> monitor_tap option list option" where
  "clear_first_id tid [] = None"
| "clear_first_id tid (None # slots) = map_option ((#) None) (clear_first_id tid slots)"
| "clear_first_id tid (Some t # slots) =
     (if mt_id t = tid then Some (None # slots) else map_option ((#) (Some t)) (clear_first_id tid slots))"

definition monitors_unregister :: "monitor_registry \<Rightarrow> u32 \<Rightarrow> bool \<times> monitor_registry" where
  "monitors_unregister M tid =
     (case clear_first_id tid (mr_taps M) of None \<Rightarrow> (False, M) | Some taps \<Rightarrow> (True, M\<lparr>mr_taps := taps\<rparr>))"

fun notify_taps :: "envelope \<Rightarrow> monitor_tap option list \<Rightarrow> monitor_tap option list run" where
  "notify_taps env [] = Some []"
| "notify_taps env (None # slots) = do { rest \<leftarrow> notify_taps env slots; Some (None # rest) }"
| "notify_taps env (Some tap # slots) = do {
     tap' \<leftarrow> (if filter_matches (mt_filter tap) env then tap_push tap env else Some tap);
     rest \<leftarrow> notify_taps env slots;
     Some (Some tap' # rest)
   }"

definition monitors_notify :: "monitor_registry \<Rightarrow> envelope \<Rightarrow> monitor_registry run" where
  "monitors_notify M env = do { taps \<leftarrow> notify_taps env (mr_taps M); Some (M\<lparr>mr_taps := taps\<rparr>) }"

fun drain_taps :: "u32 \<Rightarrow> monitor_tap option list \<Rightarrow> (envelope option \<times> monitor_tap option list) run" where
  "drain_taps tid [] = Some (None, [])"
| "drain_taps tid (None # slots) = do { (r, rest) \<leftarrow> drain_taps tid slots; Some (r, None # rest) }"
| "drain_taps tid (Some tap # slots) =
     (if mt_id tap = tid then do { (r, tap') \<leftarrow> tap_pop tap; Some (r, Some tap' # slots) }
      else do { (r, rest) \<leftarrow> drain_taps tid slots; Some (r, Some tap # rest) })"

definition monitors_drain :: "monitor_registry \<Rightarrow> u32 \<Rightarrow> (envelope option \<times> monitor_registry) run" where
  "monitors_drain M tid = do { (r, taps) \<leftarrow> drain_taps tid (mr_taps M); Some (r, M\<lparr>mr_taps := taps\<rparr>) }"

fun pending_taps :: "u32 \<Rightarrow> monitor_tap option list \<Rightarrow> nat" where
  "pending_taps tid [] = 0"
| "pending_taps tid (None # slots) = pending_taps tid slots"
| "pending_taps tid (Some tap # slots) = (if mt_id tap = tid then tap_pending tap else pending_taps tid slots)"

definition monitors_pending_count :: "monitor_registry \<Rightarrow> u32 \<Rightarrow> nat" where
  "monitors_pending_count M tid = pending_taps tid (mr_taps M)"

definition monitors_clear :: "monitor_registry \<Rightarrow> monitor_registry" where
  "monitors_clear M = \<lparr>mr_taps = map (\<lambda>_. None) (mr_taps M), mr_next_id = 1\<rparr>"

section \<open>Both are queues\<close>

definition inbox_ok :: "inbox_queue \<Rightarrow> bool" where
  "inbox_ok q \<longleftrightarrow> slot_ring_ok QUEUE_CAPACITY (iq_entries q) (iq_head q) (iq_tail q) (iq_count q)"

definition inbox_list :: "inbox_queue \<Rightarrow> envelope list" where
  "inbox_list q = slot_ring_list (iq_entries q) (iq_head q) (iq_count q)"

definition tap_ok :: "monitor_tap \<Rightarrow> bool" where
  "tap_ok tap \<longleftrightarrow> slot_ring_ok MONITOR_BUFFER_SIZE (mt_buffer tap) (mt_head tap) (mt_tail tap) (mt_count tap)"

definition tap_list :: "monitor_tap \<Rightarrow> envelope list" where
  "tap_list tap = slot_ring_list (mt_buffer tap) (mt_head tap) (mt_count tap)"

lemma slot_ring_bounds:
  "slot_ring_ok N buf h t n \<Longrightarrow> h < length buf \<and> t < length buf \<and> n \<le> N"
  by (auto simp: slot_ring_ok_def ring_ok_def)

lemma inbox_ok_new [simp]: "inbox_ok inbox_new" "inbox_list inbox_new = []"
  using slot_ring_empty [of QUEUE_CAPACITY] by (simp_all add: inbox_ok_def inbox_new_def inbox_list_def QUEUE_CAPACITY_def slot_ring_list_def)

lemma tap_ok_new [simp]: "tap_ok (tap_new tid f)" "tap_list (tap_new tid f) = []"
  using slot_ring_empty [of MONITOR_BUFFER_SIZE] by (simp_all add: tap_ok_def tap_new_def tap_list_def MONITOR_BUFFER_SIZE_def slot_ring_list_def)

lemma inbox_pop_cons:
  assumes "inbox_ok q" "inbox_list q = x # xs"
  shows "\<exists>q'. inbox_pop q = Some (Some x, q') \<and> inbox_ok q' \<and> inbox_list q' = xs"
proof -
  have n: "0 < iq_count q" using assms(2) by (cases "iq_count q") (simp_all add: inbox_list_def slot_ring_list_def)
  note r = slot_ring_pop [OF assms(1) [unfolded inbox_ok_def] n]
  show ?thesis
    using r n slot_ring_bounds [OF assms(1) [unfolded inbox_ok_def]] assms(2)
    by (auto simp: inbox_pop_def inbox_ok_def inbox_list_def)
qed

lemma tap_pop_cons:
  assumes "tap_ok q" "tap_list q = x # xs"
  shows "\<exists>q'. tap_pop q = Some (Some x, q') \<and> tap_ok q' \<and> tap_list q' = xs"
proof -
  have n: "0 < mt_count q" using assms(2) by (cases "mt_count q") (simp_all add: tap_list_def slot_ring_list_def)
  note r = slot_ring_pop [OF assms(1) [unfolded tap_ok_def] n]
  show ?thesis
    using r n slot_ring_bounds [OF assms(1) [unfolded tap_ok_def]] assms(2)
    by (auto simp: tap_pop_def tap_ok_def tap_list_def)
qed

lemma tap_push_lossy:
  assumes ok: "tap_ok q"
  shows "\<exists>q'. tap_push q x = Some q' \<and> tap_ok q' \<and>
    tap_list q' = (if length (tap_list q) < MONITOR_BUFFER_SIZE then tap_list q else tl (tap_list q)) @ [x]"
proof -
  have r: "slot_ring_ok MONITOR_BUFFER_SIZE (mt_buffer q) (mt_head q) (mt_tail q) (mt_count q)"
    using ok by (simp add: tap_ok_def)
  show ?thesis
  proof (cases "mt_count q < MONITOR_BUFFER_SIZE")
    case True
    then show ?thesis
      using slot_ring_push [OF r True, of x] slot_ring_bounds [OF r]
      by (simp add: tap_push_def tap_ok_def tap_list_def)
  next
    case False
    then have n: "0 < mt_count q" "mt_count q = MONITOR_BUFFER_SIZE"
      using slot_ring_bounds [OF r] by (simp_all add: MONITOR_BUFFER_SIZE_def)
    note d = slot_ring_drop [OF r n(1)]
    have "mt_count q - 1 < MONITOR_BUFFER_SIZE" using n by simp
    note p = slot_ring_push [OF d(1) this, of x]
    show ?thesis
      using p d(2) n slot_ring_bounds [OF r] by (simp add: tap_push_def tap_ok_def tap_list_def)
  qed
qed

interpretation inbox: bounded_fifo inbox_ok inbox_list QUEUE_CAPACITY inbox_pop inbox_push
proof
  fix q :: inbox_queue and x :: envelope and xs :: "envelope list"
  show "length (inbox_list q) \<le> QUEUE_CAPACITY" if "inbox_ok q"
    using slot_ring_bounds that unfolding inbox_ok_def inbox_list_def by fastforce
  show "inbox_pop q = Some (None, q)" if "inbox_ok q" "inbox_list q = []"
    using that by (simp add: inbox_list_def inbox_pop_def slot_ring_list_def)
  show "\<exists>q'. inbox_pop q = Some (Some x, q') \<and> inbox_ok q' \<and> inbox_list q' = xs"
    if "inbox_ok q" "inbox_list q = x # xs" using inbox_pop_cons that .
  show "\<exists>q'. inbox_push q x = Some (True, q') \<and> inbox_ok q' \<and> inbox_list q' = inbox_list q @ [x]"
    if "inbox_ok q" "length (inbox_list q) < QUEUE_CAPACITY"
    using that slot_ring_push [of QUEUE_CAPACITY "iq_entries q" "iq_head q" "iq_tail q" "iq_count q" x]
      slot_ring_bounds [of QUEUE_CAPACITY "iq_entries q" "iq_head q" "iq_tail q" "iq_count q"]
    by (simp add: inbox_push_def inbox_ok_def inbox_list_def)
  show "inbox_push q x = Some (False, q)" if "inbox_ok q" "length (inbox_list q) = QUEUE_CAPACITY"
    using that by (simp add: inbox_list_def inbox_push_def)
qed

interpretation tap: lossy_fifo tap_ok tap_list MONITOR_BUFFER_SIZE tap_pop tap_push
proof
  fix q :: monitor_tap and x :: envelope and xs :: "envelope list"
  show "length (tap_list q) \<le> MONITOR_BUFFER_SIZE" if "tap_ok q"
    using slot_ring_bounds that unfolding tap_ok_def tap_list_def by fastforce
  show "tap_pop q = Some (None, q)" if "tap_ok q" "tap_list q = []"
    using that by (simp add: tap_list_def tap_pop_def slot_ring_list_def)
  show "\<exists>q'. tap_pop q = Some (Some x, q') \<and> tap_ok q' \<and> tap_list q' = xs"
    if "tap_ok q" "tap_list q = x # xs" using tap_pop_cons that .
  show "\<exists>q'. tap_push q x = Some q' \<and> tap_ok q' \<and>
    tap_list q' = (if length (tap_list q) < MONITOR_BUFFER_SIZE then tap_list q else tl (tap_list q)) @ [x]"
    if "tap_ok q" using tap_push_lossy that .
qed

end
