(* ===== verification/Bus_Arena.thy ===== *)
theory Bus_Arena
  imports Bus_Queues "HOL-Library.Finite_Map"
begin

text \<open>
  The payload arena of the bus (\<^verbatim>\<open>arena.rs\<close>), a ring of 256 KiB into which payloads are
  copied one after the other, and the per-sender sequence numbers (\<^verbatim>\<open>sequence.rs\<close>).
  Maps from the \<open>alloc\<close> crate (\<open>BTreeMap\<close>) are finite maps.
\<close>

section \<open>Arena\<close>

definition ARENA_CAPACITY :: nat where "ARENA_CAPACITY = 256 * 1024"
definition MAX_PAYLOAD_SIZE :: nat where "MAX_PAYLOAD_SIZE = 4096"

record payload_arena =
  pa_buffer :: "bytes option"
  pa_write_cursor :: nat

definition arena_new :: payload_arena where
  "arena_new = \<lparr>pa_buffer = None, pa_write_cursor = 0\<rparr>"

definition arena_init :: "payload_arena \<Rightarrow> payload_arena" where
  "arena_init A = \<lparr>pa_buffer = Some (replicate ARENA_CAPACITY 0), pa_write_cursor = 0\<rparr>"

text \<open>\<open>buf[from..from + n].copy_from_slice(data)\<close>: panics when the range leaves the buffer.\<close>

definition copy_at :: "bytes \<Rightarrow> nat \<Rightarrow> bytes \<Rightarrow> bytes run" where
  "copy_at buf from data =
     (if from + length data \<le> length buf
      then Some (take from buf @ data @ drop (from + length data) buf) else None)"

definition arena_allocate :: "payload_arena \<Rightarrow> bytes \<Rightarrow> (arena_slice option \<times> payload_arena) run" where
  "arena_allocate A data =
     (if data = [] then Some (None, A)
      else if length data > MAX_PAYLOAD_SIZE then Some (None, A)
      else (case pa_buffer A of
          None \<Rightarrow> Some (None, A)
        | Some buf \<Rightarrow>
            let offset = pa_write_cursor A in
            if offset + length data > ARENA_CAPACITY
            then do {
              buf' \<leftarrow> copy_at buf 0 data;
              Some (Some \<lparr>sl_offset = 0, sl_len = of_nat (length data)\<rparr>,
                \<lparr>pa_buffer = Some buf', pa_write_cursor = length data\<rparr>)
            }
            else do {
              buf' \<leftarrow> copy_at buf offset data;
              Some (Some \<lparr>sl_offset = of_nat offset, sl_len = of_nat (length data)\<rparr>,
                \<lparr>pa_buffer = Some buf', pa_write_cursor = offset + length data\<rparr>)
            }))"

definition arena_get :: "payload_arena \<Rightarrow> arena_slice \<Rightarrow> bytes run" where
  "arena_get A sl =
     (case pa_buffer A of
        None \<Rightarrow> None
      | Some buf \<Rightarrow>
          let start = unat (sl_offset sl); stop = start + unat (sl_len sl)
          in if stop \<le> length buf then Some (take (stop - start) (drop start buf)) else None)"

definition arena_clear :: "payload_arena \<Rightarrow> payload_arena" where
  "arena_clear A = A\<lparr>pa_write_cursor := 0\<rparr>"

definition arena_available :: "payload_arena \<Rightarrow> nat" where
  "arena_available A = ARENA_CAPACITY - pa_write_cursor A"

definition arena_is_initialized :: "payload_arena \<Rightarrow> bool" where
  "arena_is_initialized A \<longleftrightarrow> pa_buffer A \<noteq> None"

definition arena_ok :: "payload_arena \<Rightarrow> bool" where
  "arena_ok A \<longleftrightarrow> pa_write_cursor A \<le> ARENA_CAPACITY \<and>
     (case pa_buffer A of None \<Rightarrow> pa_write_cursor A = 0 | Some buf \<Rightarrow> length buf = ARENA_CAPACITY)"

section \<open>Sequence numbers (\<^verbatim>\<open>sequence.rs\<close>)\<close>

type_synonym sequence_tracker = "(u32, u64) fmap"

datatype sequence_error = Replay | Gap u64 u64

definition seq_last :: "sequence_tracker \<Rightarrow> process_id \<Rightarrow> u64" where
  "seq_last Q s = (case fmlookup Q s of None \<Rightarrow> 0 | Some n \<Rightarrow> n)"

definition seq_next_expected :: "sequence_tracker \<Rightarrow> process_id \<Rightarrow> u64" where
  "seq_next_expected Q s = (case fmlookup Q s of None \<Rightarrow> 1 | Some n \<Rightarrow> n + 1)"

definition seq_check :: "sequence_tracker \<Rightarrow> process_id \<Rightarrow> u64 \<Rightarrow> (sequence_error + unit) \<times> sequence_tracker" where
  "seq_check Q sender sequence =
     (let expected = seq_next_expected Q sender in
      if sequence = expected then (Inr (), fmupd sender sequence Q)
      else if sequence \<le> seq_last Q sender then (Inl Replay, Q)
      else (Inl (Gap expected sequence), Q))"

definition seq_remove :: "sequence_tracker \<Rightarrow> process_id \<Rightarrow> sequence_tracker" where
  "seq_remove Q s = fmdrop s Q"

lemma seq_next_last: "seq_next_expected Q s = seq_last Q s + 1"
  by (simp add: seq_next_expected_def seq_last_def split: option.split)

lemma seq_check_ok:
  "seq_check Q s n = (Inr (), Q') \<longleftrightarrow> n = seq_last Q s + 1 \<and> Q' = fmupd s n Q"
  by (auto simp: seq_check_def Let_def seq_next_last)

section \<open>What the arena keeps\<close>

lemma arena_ok_new [simp]: "arena_ok arena_new" "arena_ok (arena_init A)"
  by (simp_all add: arena_ok_def arena_new_def arena_init_def)

lemma length_copy_at: "copy_at buf from data = Some buf' \<Longrightarrow> length buf' = length buf"
  by (auto simp: copy_at_def split: if_splits)

text \<open>Where an allocation puts its data.\<close>

definition arena_target :: "payload_arena \<Rightarrow> nat \<Rightarrow> nat" where
  "arena_target A n = (if pa_write_cursor A + n > ARENA_CAPACITY then 0 else pa_write_cursor A)"

lemma allocate_spec:
  assumes ok: "arena_ok A" and init: "pa_buffer A = Some buf"
    and data: "data \<noteq> []" "length data \<le> MAX_PAYLOAD_SIZE"
  defines "a \<equiv> arena_target A (length data)"
  shows "a + length data \<le> ARENA_CAPACITY \<and> arena_allocate A data =
     Some (Some \<lparr>sl_offset = of_nat a, sl_len = of_nat (length data)\<rparr>,
       \<lparr>pa_buffer = Some (take a buf @ data @ drop (a + length data) buf), pa_write_cursor = a + length data\<rparr>)"
proof -
  have len: "length buf = ARENA_CAPACITY" using ok init by (simp add: arena_ok_def)
  have small: "length data \<le> ARENA_CAPACITY" using data(2) by (simp add: MAX_PAYLOAD_SIZE_def ARENA_CAPACITY_def)
  show ?thesis
    using data len small init by (auto simp: a_def arena_target_def arena_allocate_def copy_at_def Let_def)
qed

lemma allocate_refuses:
  "data = [] \<or> length data > MAX_PAYLOAD_SIZE \<or> pa_buffer A = None \<Longrightarrow> arena_allocate A data = Some (None, A)"
  by (auto simp: arena_allocate_def)

lemma allocate_total:
  assumes "arena_ok A"
  shows "\<exists>r A'. arena_allocate A data = Some (r, A') \<and> arena_ok A' \<and>
    (r = None \<longleftrightarrow> data = [] \<or> length data > MAX_PAYLOAD_SIZE \<or> pa_buffer A = None) \<and>
    (pa_buffer A' = None \<longleftrightarrow> pa_buffer A = None)"
proof (cases "data = [] \<or> length data > MAX_PAYLOAD_SIZE \<or> pa_buffer A = None")
  case True
  then show ?thesis using allocate_refuses assms by auto
next
  case False
  then obtain buf where b: "pa_buffer A = Some buf" by auto
  have "length buf = ARENA_CAPACITY" using assms b by (simp add: arena_ok_def)
  then show ?thesis
    using allocate_spec [OF assms b, of data] False by (auto simp: arena_ok_def)
qed

text \<open>A slice, as the range of offsets it covers, and its contents.\<close>

lemma get_slice:
  assumes "pa_buffer A = Some buf" "length buf = ARENA_CAPACITY" "off + n \<le> ARENA_CAPACITY"
  shows "arena_get A \<lparr>sl_offset = of_nat off, sl_len = of_nat n\<rparr> = Some (take n (drop off buf))"
proof -
  have "unat (of_nat off :: u32) = off" "unat (of_nat n :: u32) = n"
    using assms(3) by (simp_all add: unat_of_nat ARENA_CAPACITY_def)
  then show ?thesis using assms by (simp add: arena_get_def)
qed

lemma take_drop_copy:
  assumes "from + length data \<le> length buf" "off + n \<le> from \<or> from + length data \<le> off" "off + n \<le> length buf"
  shows "take n (drop off (take from buf @ data @ drop (from + length data) buf)) = take n (drop off buf)"
  using assms(2)
proof
  assume "off + n \<le> from"
  then have "n \<le> from - off" "n \<le> length buf - off" using assms(1) by linarith+
  then show ?thesis using assms(1,3) by (simp add: drop_take)
next
  assume "from + length data \<le> off"
  then show ?thesis using assms(1,3) by simp
qed

primrec allocate_all :: "payload_arena \<Rightarrow> bytes list \<Rightarrow> payload_arena run" where
  "allocate_all A [] = Some A"
| "allocate_all A (d # ds) = do { (_, A') \<leftarrow> arena_allocate A d; allocate_all A' ds }"

text \<open>
  The bytes at \<open>off..off + n\<close> are safe while the cursor has not come around to them: it is
  past them with \<open>k\<close> bytes still to be written before it may wrap onto them, or it has
  wrapped and is still below them.
\<close>

definition clear_of :: "payload_arena \<Rightarrow> nat \<Rightarrow> nat \<Rightarrow> nat \<Rightarrow> bool" where
  "clear_of A off n k \<longleftrightarrow>
     (off + n \<le> pa_write_cursor A \<and> k + n + MAX_PAYLOAD_SIZE \<le> ARENA_CAPACITY - pa_write_cursor A + (off + n)) \<or>
     pa_write_cursor A + k \<le> off"

lemma clear_of_step:
  assumes ok: "arena_ok A" and b: "pa_buffer A = Some buf" and d: "d \<noteq> []" "length d \<le> MAX_PAYLOAD_SIZE"
    and c: "clear_of A off n k" "length d \<le> k" and off: "off + n \<le> ARENA_CAPACITY"
  shows "let a = arena_target A (length d) in off + n \<le> a \<or> a + length d \<le> off"
    and "\<And>A'. pa_write_cursor A' = arena_target A (length d) + length d \<Longrightarrow> clear_of A' off n (k - length d)"
  using assms by (auto simp: arena_target_def clear_of_def arena_ok_def Let_def)

lemma payload_kept:
  "arena_ok A \<Longrightarrow> pa_buffer A = Some buf \<Longrightarrow> off + n \<le> ARENA_CAPACITY \<Longrightarrow> clear_of A off n k \<Longrightarrow>
   sum_list (map length ds) \<le> k \<Longrightarrow>
   \<exists>A' buf'. allocate_all A ds = Some A' \<and> arena_ok A' \<and> pa_buffer A' = Some buf' \<and>
     take n (drop off buf') = take n (drop off buf)"
proof (induction ds arbitrary: A buf k)
  case (Cons d ds)
  show ?case
  proof (cases "d = [] \<or> length d > MAX_PAYLOAD_SIZE")
    case True
    have "sum_list (map length ds) \<le> k" using Cons.prems(5) by simp
    then show ?thesis
      using Cons.IH [OF Cons.prems(1-4)] True allocate_refuses by auto
  next
    case False
    then have d: "d \<noteq> []" "length d \<le> MAX_PAYLOAD_SIZE" by simp_all
    have len: "length buf = ARENA_CAPACITY" using Cons.prems(1,2) by (simp add: arena_ok_def)
    define a where "a = arena_target A (length d)"
    let ?buf = "take a buf @ d @ drop (a + length d) buf"
    let ?A = "\<lparr>pa_buffer = Some ?buf, pa_write_cursor = a + length d\<rparr>"
    have al: "a + length d \<le> ARENA_CAPACITY" "\<exists>sl. arena_allocate A d = Some (Some sl, ?A)"
      using allocate_spec [OF Cons.prems(1,2) d] by (simp_all add: a_def)
    have k: "length d \<le> k" "sum_list (map length ds) \<le> k - length d" using Cons.prems(5) by simp_all
    note step = clear_of_step [OF Cons.prems(1,2) d Cons.prems(4) k(1) Cons.prems(3)]
    have apart: "off + n \<le> a \<or> a + length d \<le> off" using step(1) by (simp add: a_def Let_def)
    have "arena_ok ?A" using al len by (simp add: arena_ok_def)
    moreover have "clear_of ?A off n (k - length d)" by (rule step(2)) (simp add: a_def)
    ultimately obtain A' buf' where A': "allocate_all ?A ds = Some A'" "arena_ok A'" "pa_buffer A' = Some buf'"
      "take n (drop off buf') = take n (drop off ?buf)"
      using Cons.IH [of ?A ?buf "k - length d"] Cons.prems(3) k(2) by auto
    have "take n (drop off ?buf) = take n (drop off buf)"
      by (rule take_drop_copy) (use apart al len Cons.prems(3) in auto)
    then show ?thesis using A' al(2) by auto
  qed
qed simp

text \<open>
  C11. A payload can be read back from the arena for as long as the payloads allocated
  after it, itself and one maximal payload fit into the arena together: until then no
  later allocation, wrapped around or not, overwrites it.
\<close>

theorem payload_survives:
  assumes ok: "arena_ok A" and al: "arena_allocate A data = Some (Some sl, A1)"
    and later: "sum_list (map length ds) + length data + MAX_PAYLOAD_SIZE \<le> ARENA_CAPACITY"
  shows "\<exists>A2. allocate_all A1 ds = Some A2 \<and> arena_get A2 sl = Some data"
proof -
  obtain buf where buf: "pa_buffer A = Some buf" and data: "data \<noteq> []" "length data \<le> MAX_PAYLOAD_SIZE"
    using allocate_total [OF ok, of data] al by auto
  have len: "length buf = ARENA_CAPACITY" using ok buf by (simp add: arena_ok_def)
  define a where "a = arena_target A (length data)"
  let ?buf = "take a buf @ data @ drop (a + length data) buf"
  have a: "a + length data \<le> ARENA_CAPACITY" "sl = \<lparr>sl_offset = of_nat a, sl_len = of_nat (length data)\<rparr>"
    "A1 = \<lparr>pa_buffer = Some ?buf, pa_write_cursor = a + length data\<rparr>"
    using allocate_spec [OF ok buf data] al by (simp_all add: a_def)
  have "arena_ok A1" "clear_of A1 a (length data) (sum_list (map length ds))"
    using a len later by (simp_all add: arena_ok_def clear_of_def)
  moreover have "pa_buffer A1 = Some ?buf" by (simp add: a(3))
  ultimately obtain A2 buf2 where A2: "allocate_all A1 ds = Some A2" "arena_ok A2"
    "pa_buffer A2 = Some buf2" "take (length data) (drop a buf2) = take (length data) (drop a ?buf)"
    using payload_kept [OF _ _ a(1) _ order_refl] by blast
  have "length buf2 = ARENA_CAPACITY" using A2 by (simp add: arena_ok_def)
  from get_slice [OF A2(3) this a(1)] have "arena_get A2 sl = Some (take (length data) (drop a ?buf))"
    using a(2) A2(4) by simp
  also have "take (length data) (drop a ?buf) = data" using a(1) len by simp
  finally show ?thesis using A2(1) by blast
qed

theorem payload_survives_witness:
  "\<exists>sl A1 A2. arena_allocate (arena_init arena_new) [1, 2, 3] = Some (Some sl, A1) \<and>
     allocate_all A1 [[7, 7], [9]] = Some A2 \<and> arena_get A2 sl = Some [1, 2, 3]"
proof -
  have ok: "arena_ok (arena_init arena_new)" by simp
  obtain sl A1 where al: "arena_allocate (arena_init arena_new) [1, 2, 3] = Some (Some sl, A1)"
    using allocate_total [OF ok, of "[1, 2, 3]"] by (auto simp: arena_init_def MAX_PAYLOAD_SIZE_def)
  from payload_survives [OF ok al, of "[[7, 7], [9]]"] show ?thesis
    using al by (auto simp: MAX_PAYLOAD_SIZE_def ARENA_CAPACITY_def)
qed

end
