(* ===== verification/Bus_Audit.thy ===== *)
theory Bus_Audit
  imports Fabric_Types Ring_Buffer
begin

text \<open>
  The hash-chained audit log of the bus (\<^verbatim>\<open>kernel/src/bus/audit.rs\<close>): a ring of 512
  entries, each carrying the hash of its predecessor. SHA3-256 (crate \<open>sha3\<close>) is the
  parameter \<open>sha3\<close>; feeding a hasher several pieces hashes their concatenation.
\<close>

type_synonym hash_fun = "bytes \<Rightarrow> bytes"

definition AUDIT_CAPACITY :: nat where "AUDIT_CAPACITY = 512"

record audit_log =
  al_entries :: "audit_entry option list"
  al_write_pos :: nat
  al_total_count :: u64
  al_prev_hash :: bytes

definition audit_new :: audit_log where
  "audit_new = \<lparr>al_entries = replicate AUDIT_CAPACITY None, al_write_pos = 0, al_total_count = 0,
     al_prev_hash = replicate 32 0\<rparr>"

text \<open>The bytes that are hashed for an entry.\<close>

definition entry_bytes :: "audit_entry \<Rightarrow> bytes" where
  "entry_bytes e = hashable_bytes e @ le_bytes 8 (ae_capability_id e) @ le_bytes 8 (ae_msg_sequence e)"

definition audit_append ::
  "hash_fun \<Rightarrow> audit_log \<Rightarrow> process_id \<Rightarrow> audit_action \<Rightarrow> process_id \<Rightarrow> type_id \<Rightarrow> u64 \<Rightarrow> u64 \<Rightarrow> timestamp \<Rightarrow> audit_log run" where
  "audit_append sha3 L actor action target msg_type capability_id msg_sequence timestamp = do {
     let e = entry_zeroed\<lparr>ae_sequence := al_total_count L, ae_timestamp := timestamp, ae_actor := actor,
       ae_action := action, ae_target := target, ae_msg_type := msg_type, ae_capability_id := capability_id,
       ae_msg_sequence := msg_sequence, ae_prev_hash := al_prev_hash L\<rparr>;
     let e' = e\<lparr>ae_hash := sha3 (entry_bytes e)\<rparr>;
     entries \<leftarrow> store_at (al_entries L) (al_write_pos L) (Some e');
     Some \<lparr>al_entries = entries, al_write_pos = (al_write_pos L + 1) mod AUDIT_CAPACITY,
       al_total_count = al_total_count L + 1, al_prev_hash = ae_hash e'\<rparr>
   }"

definition audit_ring_count :: "audit_log \<Rightarrow> nat" where
  "audit_ring_count L =
     (if al_total_count L \<le> of_nat AUDIT_CAPACITY then unat (al_total_count L) else AUDIT_CAPACITY)"

text \<open>
  The loop of \<open>verify_chain\<close> over the indices still to visit: \<open>prev\<close> is \<open>None\<close> while
  no entry has been seen, and the hash the next entry must link to afterwards.
\<close>

fun verify_loop :: "hash_fun \<Rightarrow> audit_entry option list \<Rightarrow> nat list \<Rightarrow> nat \<Rightarrow> bytes option \<Rightarrow> (nat \<times> bool) run" where
  "verify_loop sha3 entries [] verified prev = Some (verified, True)"
| "verify_loop sha3 entries (idx # idxs) verified prev = do {
     slot \<leftarrow> index entries idx;
     (case slot of
        None \<Rightarrow> verify_loop sha3 entries idxs verified prev
      | Some e \<Rightarrow>
          let prev_hash = (case prev of None \<Rightarrow> ae_prev_hash e | Some h \<Rightarrow> h) in
          if ae_prev_hash e \<noteq> prev_hash then Some (verified, False)
          else if ae_hash e \<noteq> sha3 (entry_bytes e) then Some (verified, False)
          else verify_loop sha3 entries idxs (verified + 1) (Some (ae_hash e)))
   }"

definition audit_verify_chain :: "hash_fun \<Rightarrow> audit_log \<Rightarrow> (nat \<times> bool) run" where
  "audit_verify_chain sha3 L =
     (if al_total_count L = 0 then Some (0, True)
      else if audit_ring_count L = 0 then Some (0, True)
      else
        let start = (if al_total_count L \<le> of_nat AUDIT_CAPACITY then 0 else al_write_pos L) in
        verify_loop sha3 (al_entries L) (map (\<lambda>i. (start + i) mod AUDIT_CAPACITY) [0..<audit_ring_count L]) 0 None)"

definition audit_clear :: "audit_log \<Rightarrow> audit_log" where
  "audit_clear L = \<lparr>al_entries = map (\<lambda>_. None) (al_entries L), al_write_pos = 0, al_total_count = 0,
     al_prev_hash = replicate 32 0\<rparr>"

section \<open>The chain as a list\<close>

text \<open>The position of the oldest entry, and the entries from the oldest to the newest.\<close>

definition audit_start :: "audit_log \<Rightarrow> nat" where
  "audit_start L = (if al_total_count L \<le> of_nat AUDIT_CAPACITY then 0 else al_write_pos L)"

definition audit_list :: "audit_log \<Rightarrow> audit_entry list" where
  "audit_list L = slot_ring_list (al_entries L) (audit_start L) (audit_ring_count L)"

fun chained :: "hash_fun \<Rightarrow> bytes option \<Rightarrow> audit_entry list \<Rightarrow> bool" where
  "chained sha3 prev [] \<longleftrightarrow> True"
| "chained sha3 prev (e # es) \<longleftrightarrow>
     (case prev of None \<Rightarrow> True | Some h \<Rightarrow> ae_prev_hash e = h) \<and> ae_hash e = sha3 (entry_bytes e) \<and>
     chained sha3 (Some (ae_hash e)) es"

lemma chained_append:
  "chained sha3 prev (es @ [e]) \<longleftrightarrow> chained sha3 prev es \<and> ae_hash e = sha3 (entry_bytes e) \<and>
     (case (if es = [] then prev else Some (ae_hash (last es))) of None \<Rightarrow> True | Some h \<Rightarrow> ae_prev_hash e = h)"
  by (induction es arbitrary: prev) auto

lemma chained_tl: "chained sha3 prev es \<Longrightarrow> chained sha3 None (tl es)"
  by (cases es; cases "tl es") (auto split: option.splits)

text \<open>The loop skips empty slots and otherwise checks the list of entries.\<close>

definition found_entries :: "audit_entry option list \<Rightarrow> nat list \<Rightarrow> audit_entry list" where
  "found_entries entries idxs = map the (filter (\<lambda>x. x \<noteq> None) (map ((!) entries) idxs))"

lemma verify_loop_chained:
  "\<forall>i \<in> set idxs. i < length entries \<Longrightarrow>
   \<exists>n. verify_loop sha3 entries idxs k prev = Some (n, chained sha3 prev (found_entries entries idxs)) \<and>
     (chained sha3 prev (found_entries entries idxs) \<longrightarrow> n = k + length (found_entries entries idxs))"
proof (induction idxs arbitrary: k prev)
  case (Cons i idxs)
  show ?case
  proof (cases "entries ! i")
    case None
    then show ?thesis using Cons by (simp add: found_entries_def)
  next
    case (Some e)
    obtain n where "verify_loop sha3 entries idxs (k + 1) (Some (ae_hash e)) =
        Some (n, chained sha3 (Some (ae_hash e)) (found_entries entries idxs))"
      "chained sha3 (Some (ae_hash e)) (found_entries entries idxs) \<longrightarrow> n = k + 1 + length (found_entries entries idxs)"
      using Cons.IH [of "k + 1" "Some (ae_hash e)"] Cons.prems by auto
    then show ?thesis using Some Cons.prems by (cases prev) (auto simp: Let_def found_entries_def)
  qed
qed (simp add: found_entries_def)

text \<open>The indices the verification visits.\<close>

definition audit_indices :: "audit_log \<Rightarrow> nat list" where
  "audit_indices L = map (\<lambda>i. (audit_start L + i) mod AUDIT_CAPACITY) [0..<audit_ring_count L]"

lemma verify_chain_found:
  assumes "length (al_entries L) = AUDIT_CAPACITY"
  shows "\<exists>n. audit_verify_chain sha3 L = Some (n, chained sha3 None (found_entries (al_entries L) (audit_indices L))) \<and>
    (chained sha3 None (found_entries (al_entries L) (audit_indices L)) \<longrightarrow>
       n = length (found_entries (al_entries L) (audit_indices L)))"
proof -
  have "\<forall>i \<in> set (audit_indices L). i < length (al_entries L)"
    using assms by (auto simp: audit_indices_def AUDIT_CAPACITY_def)
  note v = verify_loop_chained [OF this, of sha3 0 None]
  have "audit_ring_count L = 0 \<Longrightarrow> audit_indices L = []" by (simp add: audit_indices_def)
  moreover have "al_total_count L = 0 \<Longrightarrow> audit_ring_count L = 0" by (simp add: audit_ring_count_def)
  ultimately show ?thesis
    using v unfolding audit_indices_def
    by (auto simp: audit_verify_chain_def audit_start_def found_entries_def Let_def)
qed

definition audit_ring :: "audit_log \<Rightarrow> bool" where
  "audit_ring L \<longleftrightarrow> slot_ring_ok AUDIT_CAPACITY (al_entries L) (audit_start L) (al_write_pos L) (audit_ring_count L)"

lemma found_all:
  assumes "audit_ring L" shows "found_entries (al_entries L) (audit_indices L) = audit_list L"
proof -
  have r: "length (al_entries L) = AUDIT_CAPACITY" "None \<notin> set (ring_list (al_entries L) (audit_start L) (audit_ring_count L))"
    using assms by (simp_all add: audit_ring_def slot_ring_ok_def ring_ok_def)
  have "map ((!) (al_entries L)) (audit_indices L) = ring_list (al_entries L) (audit_start L) (audit_ring_count L)"
    by (simp add: audit_indices_def ring_list_def r(1))
  then show ?thesis using filter_all_Some [OF r(2)] by (simp add: found_entries_def audit_list_def slot_ring_list_def)
qed

lemma verify_chain_iff:
  assumes "audit_ring L"
  shows "\<exists>n. audit_verify_chain sha3 L = Some (n, chained sha3 None (audit_list L)) \<and>
    (chained sha3 None (audit_list L) \<longrightarrow> n = audit_ring_count L)"
proof -
  have "length (al_entries L) = AUDIT_CAPACITY"
    using assms by (simp add: audit_ring_def slot_ring_ok_def ring_ok_def)
  from verify_chain_found [OF this, of sha3] show ?thesis
    unfolding found_all [OF assms] by (simp add: audit_list_def)
qed

section \<open>Appending\<close>

definition audit_ok :: "hash_fun \<Rightarrow> audit_log \<Rightarrow> bool" where
  "audit_ok sha3 L \<longleftrightarrow> audit_ring L \<and> chained sha3 None (audit_list L) \<and>
     (audit_list L \<noteq> [] \<longrightarrow> al_prev_hash L = ae_hash (last (audit_list L)))"

lemma audit_ok_new: "audit_ok sha3 audit_new"
  using slot_ring_empty [of AUDIT_CAPACITY]
  by (simp add: audit_ok_def audit_ring_def audit_new_def audit_start_def audit_ring_count_def audit_list_def
      slot_ring_list_def AUDIT_CAPACITY_def)

text \<open>The entry an append writes.\<close>

definition logged ::
  "hash_fun \<Rightarrow> audit_log \<Rightarrow> process_id \<Rightarrow> audit_action \<Rightarrow> process_id \<Rightarrow> type_id \<Rightarrow> u64 \<Rightarrow> u64 \<Rightarrow> timestamp \<Rightarrow> audit_entry" where
  "logged sha3 L actor action target msg_type cap_id sq ts =
     (let e = \<lparr>ae_sequence = al_total_count L, ae_timestamp = ts, ae_actor = actor, ae_action = action,
        ae_target = target, ae_msg_type = msg_type, ae_capability_id = cap_id, ae_msg_sequence = sq,
        ae_prev_hash = al_prev_hash L, ae_hash = replicate 32 0\<rparr>
      in e\<lparr>ae_hash := sha3 (entry_bytes e)\<rparr>)"

lemma logged_hash: "ae_hash (logged sha3 L a c t m i s ts) = sha3 (entry_bytes (logged sha3 L a c t m i s ts))"
  by (simp add: logged_def entry_bytes_def hashable_bytes_def Let_def)

lemma logged_prev: "ae_prev_hash (logged sha3 L a c t m i s ts) = al_prev_hash L"
  by (simp add: logged_def Let_def)

lemma append_eq:
  assumes "al_write_pos L < length (al_entries L)"
  shows "audit_append sha3 L a c t m i s ts = Some \<lparr>al_entries = (al_entries L)[al_write_pos L := Some (logged sha3 L a c t m i s ts)],
     al_write_pos = Suc (al_write_pos L) mod AUDIT_CAPACITY, al_total_count = al_total_count L + 1,
     al_prev_hash = ae_hash (logged sha3 L a c t m i s ts)\<rparr>"
  using assms by (simp add: audit_append_def logged_def entry_zeroed_def Let_def)

lemma total_count_nat:
  "(w :: u64) \<le> of_nat AUDIT_CAPACITY \<longleftrightarrow> unat w \<le> AUDIT_CAPACITY"
  by (simp add: word_le_nat_alt AUDIT_CAPACITY_def)

lemma append_ring:
  assumes ring: "audit_ring L" and nowrap: "al_total_count L + 1 \<noteq> 0"
    and L': "audit_append sha3 L a c t m i s ts = Some L'"
  shows "audit_ring L'" "audit_list L' = (if length (audit_list L) < AUDIT_CAPACITY then audit_list L else tl (audit_list L)) @
    [logged sha3 L a c t m i s ts]"
proof -
  let ?e = "logged sha3 L a c t m i s ts"
  have r: "slot_ring_ok AUDIT_CAPACITY (al_entries L) (audit_start L) (al_write_pos L) (audit_ring_count L)"
    using ring by (simp add: audit_ring_def)
  have "al_write_pos L < length (al_entries L)" using r by (auto simp: slot_ring_ok_def ring_ok_def)
  note L'_eq = append_eq [OF this, of sha3 a c t m i s ts, unfolded L', simplified]
  have Suc: "unat (al_total_count L + 1) = Suc (unat (al_total_count L))"
    using unatSuc [of "al_total_count L"] nowrap by (simp add: add.commute)
  have "audit_ring L' \<and> audit_list L' = (if length (audit_list L) < AUDIT_CAPACITY then audit_list L else tl (audit_list L)) @ [?e]"
  proof (cases "unat (al_total_count L) < AUDIT_CAPACITY")
    case True
    then have "audit_start L = 0" "audit_start L' = 0" "audit_ring_count L = unat (al_total_count L)"
      "audit_ring_count L' = Suc (audit_ring_count L)"
      using Suc by (simp_all add: audit_start_def audit_ring_count_def total_count_nat L'_eq)
    moreover have "audit_ring_count L < AUDIT_CAPACITY" using calculation(3) True by simp
    ultimately show ?thesis
      using slot_ring_push [OF r, of ?e] by (simp add: audit_ring_def audit_list_def L'_eq)
  next
    case False
    have full: "audit_ring_count L = AUDIT_CAPACITY" "audit_ring_count L' = AUDIT_CAPACITY"
      "audit_start L' = Suc (al_write_pos L) mod AUDIT_CAPACITY"
      using False Suc by (auto simp: audit_ring_count_def audit_start_def total_count_nat L'_eq)
    have pos: "0 < AUDIT_CAPACITY" by (simp add: AUDIT_CAPACITY_def)
    have start: "audit_start L = al_write_pos L" using r full(1) by (simp add: slot_ring_ok_def ring_ok_def)
    note d = slot_ring_drop [OF r [unfolded full(1)] pos]
    have "AUDIT_CAPACITY - 1 < AUDIT_CAPACITY" "Suc (AUDIT_CAPACITY - 1) = AUDIT_CAPACITY"
      by (simp_all add: AUDIT_CAPACITY_def)
    note p = slot_ring_push [OF d(1) this(1), of ?e, unfolded this(2) start]
    show ?thesis
      unfolding audit_ring_def audit_list_def full using p d(2) by (simp add: L'_eq start)
  qed
  then show "audit_ring L'" "audit_list L' = (if length (audit_list L) < AUDIT_CAPACITY then audit_list L else tl (audit_list L)) @ [?e]"
    by simp_all
qed

lemma append_spec:
  assumes ok: "audit_ok sha3 L" and nowrap: "al_total_count L + 1 \<noteq> 0"
  shows "\<exists>L'. audit_append sha3 L a c t m i s ts = Some L' \<and> audit_ok sha3 L' \<and>
    al_total_count L' = al_total_count L + 1 \<and> last (audit_list L') = logged sha3 L a c t m i s ts \<and>
    audit_list L' = (if length (audit_list L) < AUDIT_CAPACITY then audit_list L else tl (audit_list L)) @
      [logged sha3 L a c t m i s ts]"
proof -
  let ?e = "logged sha3 L a c t m i s ts"
  define old where "old = (if length (audit_list L) < AUDIT_CAPACITY then audit_list L else tl (audit_list L))"
  have ring: "audit_ring L" and ch: "chained sha3 None (audit_list L)" using ok by (simp_all add: audit_ok_def)
  have pos: "al_write_pos L < length (al_entries L)"
    using ring by (auto simp: audit_ring_def slot_ring_ok_def ring_ok_def)
  obtain L' where L': "audit_append sha3 L a c t m i s ts = Some L'" "al_total_count L' = al_total_count L + 1"
    "al_prev_hash L' = ae_hash ?e"
    using append_eq [OF pos] by simp
  note r = append_ring [OF ring nowrap L'(1)]
  have "chained sha3 None old" using ch chained_tl by (simp add: old_def)
  moreover have "old \<noteq> [] \<Longrightarrow> audit_list L \<noteq> [] \<and> last old = last (audit_list L)"
    by (cases "audit_list L") (auto simp: old_def split: if_splits)
  ultimately have "chained sha3 None (old @ [?e])"
    using ok logged_hash logged_prev unfolding chained_append audit_ok_def by (cases "old = []") auto
  then have "audit_ok sha3 L'" using r L'(3) by (simp add: audit_ok_def old_def)
  then show ?thesis using L' r(2) by auto
qed

section \<open>What the log guarantees\<close>

type_synonym audit_event = "process_id \<times> audit_action \<times> process_id \<times> type_id \<times> u64 \<times> u64 \<times> timestamp"

fun append_all :: "hash_fun \<Rightarrow> audit_log \<Rightarrow> audit_event list \<Rightarrow> audit_log run" where
  "append_all sha3 L [] = Some L"
| "append_all sha3 L ((a, c, t, m, i, s, ts) # evs) = do { L' \<leftarrow> audit_append sha3 L a c t m i s ts; append_all sha3 L' evs }"

lemma append_all_spec:
  "audit_ok sha3 L \<Longrightarrow> unat (al_total_count L) + length evs < 2 ^ 64 \<Longrightarrow>
   \<exists>L'. append_all sha3 L evs = Some L' \<and> audit_ok sha3 L' \<and> unat (al_total_count L') = unat (al_total_count L) + length evs"
proof (induction evs arbitrary: L)
  case (Cons ev evs)
  obtain a c t m i s ts where ev: "ev = (a, c, t, m, i, s, ts)" by (cases ev) auto
  have nw: "al_total_count L + 1 \<noteq> 0" "unat (al_total_count L + 1) = unat (al_total_count L) + 1"
    using unat_Suc_word [of "al_total_count L" "2 ^ 64 - 1"] Cons.prems(2) by auto
  obtain L1 where "audit_append sha3 L a c t m i s ts = Some L1" "audit_ok sha3 L1" "al_total_count L1 = al_total_count L + 1"
    using append_spec [OF Cons.prems(1) nw(1)] by blast
  then show ?case using Cons.IH [of L1] Cons.prems(2) nw(2) ev by auto
qed simp

text \<open>
  Whatever has been logged, and however often the ring has wrapped, verification of
  the audit chain succeeds and covers every entry that the ring holds.
\<close>

theorem audit_chain_verifies:
  assumes "length evs < 2 ^ 64"
  shows "\<exists>L. append_all sha3 audit_new evs = Some L \<and>
    audit_verify_chain sha3 L = Some (min (length evs) AUDIT_CAPACITY, True)"
proof -
  have "unat (al_total_count audit_new) = 0" by (simp add: audit_new_def)
  then obtain L where L: "append_all sha3 audit_new evs = Some L" "audit_ok sha3 L" "unat (al_total_count L) = length evs"
    using append_all_spec [OF audit_ok_new, of evs sha3] assms by auto
  then have "audit_ring_count L = min (length evs) AUDIT_CAPACITY"
    by (simp add: audit_ring_count_def total_count_nat)
  moreover have "audit_ring L" "chained sha3 None (audit_list L)" using L(2) by (simp_all add: audit_ok_def)
  ultimately show ?thesis using verify_chain_iff [of L sha3] L(1) by auto
qed

theorem audit_chain_verifies_witness:
  "\<exists>L. append_all (\<lambda>data. data) audit_new [(1, MessageSent, 2, 7, 0, 1, 0), (2, QueueFull, 1, 7, 0, 1, 3)] = Some L \<and>
     audit_verify_chain (\<lambda>data. data) L = Some (Suc (Suc 0), True)"
  using audit_chain_verifies [of "[(1, MessageSent, 2, 7, 0, 1, 0), (2, QueueFull, 1, 7, 0, 1, 3)]" "\<lambda>data. data"]
  by (simp add: AUDIT_CAPACITY_def)

lemma entry_bytes_inj: "entry_bytes d = entry_bytes e \<Longrightarrow> d = e\<lparr>ae_hash := ae_hash d\<rparr>"
  using hashable_bytes_inj [of d e] by (auto simp: entry_bytes_def)

definition collision_free :: "hash_fun \<Rightarrow> audit_entry list \<Rightarrow> audit_entry list \<Rightarrow> bool" where
  "collision_free sha3 es fs \<longleftrightarrow> (\<forall>e \<in> set es. \<forall>f \<in> set fs.
     sha3 (entry_bytes e) = sha3 (entry_bytes f) \<longrightarrow> entry_bytes e = entry_bytes f)"

lemma chained_suffix:
  "chained sha3 None es \<Longrightarrow> chained sha3 None fs \<Longrightarrow> length fs \<le> length es \<Longrightarrow> fs \<noteq> [] \<Longrightarrow>
   ae_hash (last fs) = ae_hash (last es) \<Longrightarrow> collision_free sha3 es fs \<Longrightarrow> fs = drop (length es - length fs) es"
proof (induction fs arbitrary: es rule: rev_induct)
  case (snoc f fs)
  obtain e es' where es: "es = es' @ [e]" using snoc.prems(3) by (cases es rule: rev_cases) auto
  have "sha3 (entry_bytes e) = sha3 (entry_bytes f)" "ae_hash e = ae_hash f"
    using snoc.prems(1,2,5) es by (simp_all add: chained_append)
  then have ef: "e = f"
    using entry_bytes_inj [of e f] snoc.prems(6) es by (simp add: collision_free_def)
  show ?case
  proof (cases "fs = []")
    case True
    then show ?thesis using es ef by simp
  next
    case False
    then have "es' \<noteq> []" using snoc.prems(3) es by auto
    have "fs = drop (length es' - length fs) es'"
    proof (rule snoc.IH)
      show "ae_hash (last fs) = ae_hash (last es')"
        using snoc.prems(1,2) es ef False \<open>es' \<noteq> []\<close> by (simp add: chained_append)
      show "collision_free sha3 es' fs" using snoc.prems(6) es by (simp add: collision_free_def)
    qed (use snoc.prems es False in \<open>simp_all add: chained_append\<close>)
    then show ?thesis using es ef snoc.prems(3) by simp
  qed
qed simp

text \<open>The entries that a log still shows, from the oldest to the newest; slots may have been blanked.\<close>

definition visible_entries :: "audit_log \<Rightarrow> audit_entry list" where
  "visible_entries L = found_entries (al_entries L) (audit_indices L)"

lemma length_visible: "length (visible_entries L) \<le> audit_ring_count L"
  using length_filter_le [of "\<lambda>x. x \<noteq> None" "map ((!) (al_entries L)) (audit_indices L)"]
  by (simp add: visible_entries_def found_entries_def audit_indices_def)

text \<open>
  C10. What tampering cannot do: let the slots of a sound log be overwritten or blanked in any way. If
  the chain still verifies, with \<open>n\<close> entries, and the newest entry has the hash that the log remembers,
  then the entries it shows are exactly the newest \<open>n\<close> entries of the original log, each unchanged and
  in place, unless two different entries have the same hash. So only a run of the oldest entries
  can have been erased, and the count that verification returns tells how many are left.
\<close>

theorem audit_tamper_evident:
  assumes "audit_ok sha3 L" "L' = L\<lparr>al_entries := entries\<rparr>" "length entries = AUDIT_CAPACITY"
    and "audit_verify_chain sha3 L' = Some (n, True)"
    and "visible_entries L' \<noteq> []" "ae_hash (last (visible_entries L')) = al_prev_hash L"
    and "collision_free sha3 (audit_list L) (visible_entries L')"
  shows "n \<le> length (audit_list L) \<and> visible_entries L' = drop (length (audit_list L) - n) (audit_list L)"
proof -
  have len: "length (al_entries L') = AUDIT_CAPACITY" using assms(2,3) by simp
  have v: "chained sha3 None (visible_entries L')" "n = length (visible_entries L')"
    using verify_chain_found [OF len, of sha3] assms(4) by (auto simp: visible_entries_def)
  have "audit_ring_count L' = audit_ring_count L" using assms(2) by (simp add: audit_ring_count_def)
  then have le: "length (visible_entries L') \<le> length (audit_list L)"
    using length_visible [of L'] by (simp add: audit_list_def)
  then have "audit_list L \<noteq> []" using assms(5) by auto
  then have "visible_entries L' = drop (length (audit_list L) - length (visible_entries L')) (audit_list L)"
    using chained_suffix [of sha3 "audit_list L" "visible_entries L'"] assms(1,5-7) v(1) le by (simp add: audit_ok_def)
  then show ?thesis using v(2) le by simp
qed

text \<open>A log of two entries whose older one is erased: it verifies with one entry, the newer one.\<close>

theorem audit_tamper_evident_witness:
  "\<exists>L e1 e2. append_all (\<lambda>data. data) audit_new [(1, MessageSent, 2, 7, 0, 1, 0), (2, QueueFull, 1, 7, 0, 1, 3)] = Some L \<and>
     audit_list L = [e1, e2] \<and>
     audit_verify_chain (\<lambda>data. data) (L\<lparr>al_entries := (al_entries L)[0 := None]\<rparr>) = Some (1, True) \<and>
     visible_entries (L\<lparr>al_entries := (al_entries L)[0 := None]\<rparr>) = drop 1 (audit_list L)"
proof -
  let ?h = "\<lambda>data :: bytes. data"
  have new: "al_total_count audit_new = 0" "audit_list audit_new = []"
    by (simp_all add: audit_new_def audit_list_def audit_ring_count_def slot_ring_list_def)
  obtain L1 where L1: "audit_append ?h audit_new 1 MessageSent 2 7 0 1 0 = Some L1" "audit_ok ?h L1" "al_total_count L1 = 1"
    "audit_list L1 = [logged ?h audit_new 1 MessageSent 2 7 0 1 0]"
    using append_spec [of ?h audit_new 1 MessageSent 2 7 0 1 0] audit_ok_new [of ?h] new by (auto simp: AUDIT_CAPACITY_def)
  obtain L e1 e2 where L: "audit_append ?h L1 2 QueueFull 1 7 0 1 3 = Some L" "audit_ok ?h L" "al_total_count L = 2"
    "audit_list L = [e1, e2]"
    using append_spec [of ?h L1 2 QueueFull 1 7 0 1 3] L1(2-4)
    by (auto simp: AUDIT_CAPACITY_def)
  have ring: "length (al_entries L) = AUDIT_CAPACITY" "audit_start L = 0" "audit_ring_count L = 2"
    using L(2,3) by (simp_all add: audit_ok_def audit_ring_def slot_ring_ok_def ring_ok_def audit_start_def audit_ring_count_def AUDIT_CAPACITY_def)
  define L' where "L' = L\<lparr>al_entries := (al_entries L)[0 := None]\<rparr>"
  have idx: "audit_indices L = [0, 1]" "audit_indices L' = [0, 1]"
    using L(3) by (simp_all add: audit_indices_def L'_def audit_start_def audit_ring_count_def AUDIT_CAPACITY_def upt_rec)
  have all: "found_entries (al_entries L) (audit_indices L) = [e1, e2]"
    using found_all [of L] L(2,4) by (simp add: audit_ok_def)
  have slots: "al_entries L ! 0 \<noteq> None" "al_entries L ! 1 = Some e2"
    using all unfolding idx by (auto simp: found_entries_def split: if_splits)
  have vis: "visible_entries L' = [e2]"
    unfolding visible_entries_def idx(2) using slots ring(1) by (simp add: found_entries_def L'_def AUDIT_CAPACITY_def)
  have ch: "chained ?h None [e1, e2]" and prev: "al_prev_hash L = ae_hash e2" using L(2,4) by (simp_all add: audit_ok_def)
  have n: "audit_verify_chain ?h L' = Some (1, True)"
    using verify_chain_found [of L' ?h] ring(1) vis ch by (auto simp: L'_def visible_entries_def)
  have "1 \<le> length (audit_list L) \<and> visible_entries L' = drop (length (audit_list L) - 1) (audit_list L)"
    by (rule audit_tamper_evident [OF L(2) L'_def _ n]) (use ring vis prev in \<open>simp_all add: collision_free_def\<close>)
  then show ?thesis using L1(1) L(1,4) n by (intro exI [of _ L] exI [of _ e1] exI [of _ e2]) (simp add: L'_def)
qed

section \<open>What verification does not see\<close>

text \<open>
  The verification skips empty slots and never looks at the hash the log remembers, so a
  newest entry that has been blanked out goes unnoticed.
\<close>

lemma found_entries_blank_last:
  assumes ring: "audit_ring L" and ne: "0 < audit_ring_count L"
    and p: "p = (audit_start L + (audit_ring_count L - 1)) mod AUDIT_CAPACITY"
  shows "found_entries ((al_entries L)[p := None]) (audit_indices L) = butlast (audit_list L)"
proof -
  have r: "length (al_entries L) = AUDIT_CAPACITY" "audit_start L < AUDIT_CAPACITY" "audit_ring_count L \<le> AUDIT_CAPACITY"
    "None \<notin> set (ring_list (al_entries L) (audit_start L) (audit_ring_count L))"
    using ring by (simp_all add: audit_ring_def slot_ring_ok_def ring_ok_def)
  obtain k where k: "audit_ring_count L = Suc k" using ne by (cases "audit_ring_count L") auto
  let ?xs = "ring_list (al_entries L) (audit_start L) k"
  have "map ((!) ((al_entries L)[p := None])) (audit_indices L) = ring_list ((al_entries L)[p := None]) (audit_start L) (Suc k)"
    by (simp add: audit_indices_def ring_list_def r(1) k)
  also have "\<dots> = ?xs @ [None]"
    using ring_list_update [of "audit_start L" "al_entries L" k 0 None] r k p by (simp add: ring_list_Suc)
  finally have a: "map ((!) ((al_entries L)[p := None])) (audit_indices L) = ?xs @ [None]" .
  have "None \<notin> set ?xs" using r(4) k by (simp add: ring_list_Suc)
  then have "filter (\<lambda>x. x \<noteq> None) ?xs = ?xs" by (rule filter_all_Some)
  then show ?thesis
    by (simp add: found_entries_def a audit_list_def slot_ring_list_def k ring_list_Suc)
qed

text \<open>
  What verification does not see: it skips empty slots and never compares the newest entry
  with the hash the log remembers, so a sound log from which the newest entry was erased still
  verifies.
\<close>

theorem audit_truncation_unnoticed:
  assumes ok: "audit_ok sha3 L" and ne: "0 < audit_ring_count L"
  shows "\<exists>p n. al_entries L ! p = Some (last (audit_list L)) \<and>
    audit_verify_chain sha3 (L\<lparr>al_entries := (al_entries L)[p := None]\<rparr>) = Some (n, True)"
proof -
  have ring: "audit_ring L" using ok by (simp add: audit_ok_def)
  define p where "p = (audit_start L + (audit_ring_count L - 1)) mod AUDIT_CAPACITY"
  let ?L = "L\<lparr>al_entries := (al_entries L)[p := None]\<rparr>"
  have len: "length (al_entries L) = AUDIT_CAPACITY" using ring by (simp add: audit_ring_def slot_ring_ok_def ring_ok_def)
  obtain k where k: "audit_ring_count L = Suc k" using ne by (cases "audit_ring_count L") auto
  have last: "last (ring_list (al_entries L) (audit_start L) (audit_ring_count L)) = al_entries L ! p"
    by (simp add: k ring_list_Suc p_def len)
  then have "al_entries L ! p \<in> set (ring_list (al_entries L) (audit_start L) (audit_ring_count L))"
    using ne last_in_set [of "ring_list (al_entries L) (audit_start L) (audit_ring_count L)"] by simp
  then have "al_entries L ! p \<noteq> None" using ring by (metis audit_ring_def slot_ring_ok_def)
  then have e: "al_entries L ! p = Some (last (audit_list L))"
    using last ne by (simp add: audit_list_def slot_ring_list_def last_map)
  have idx: "audit_indices ?L = audit_indices L" by (simp add: audit_indices_def audit_start_def audit_ring_count_def)
  have "chained sha3 None (butlast (audit_list L))"
  proof (cases "audit_list L" rule: rev_cases)
    case (snoc es e)
    then show ?thesis using ok by (simp add: audit_ok_def chained_append)
  qed simp
  then have "\<exists>n. audit_verify_chain sha3 ?L = Some (n, True)"
    using verify_chain_found [of ?L sha3] len found_entries_blank_last [OF ring ne p_def] idx by auto
  then show ?thesis using e by blast
qed

theorem audit_truncation_unnoticed_witness:
  "\<exists>L p n. append_all (\<lambda>data. data) audit_new [(1, MessageSent, 2, 7, 0, 1, 0)] = Some L \<and> al_entries L ! p \<noteq> None \<and>
     audit_verify_chain (\<lambda>data. data) (L\<lparr>al_entries := (al_entries L)[p := None]\<rparr>) = Some (n, True)"
proof -
  have "al_total_count audit_new + 1 \<noteq> 0" by (simp add: audit_new_def)
  from append_spec [OF audit_ok_new this] obtain L e where L:
    "audit_append (\<lambda>data. data) audit_new 1 MessageSent 2 7 0 1 0 = Some L" "audit_ok (\<lambda>data. data) L"
    and e: "e \<in> set (audit_list L)"
    by (metis in_set_conv_decomp)
  have pos: "0 < audit_ring_count L" using e by (cases "audit_ring_count L") (auto simp: audit_list_def slot_ring_list_def)
  from audit_truncation_unnoticed [OF L(2) pos] obtain p n where "al_entries L ! p = Some (last (audit_list L))"
    "audit_verify_chain (\<lambda>data. data) (L\<lparr>al_entries := (al_entries L)[p := None]\<rparr>) = Some (n, True)"
    by blast
  then show ?thesis using L(1) by auto
qed

end
