(* ===== verification/Bus_Router.thy ===== *)
theory Bus_Router
  imports Bus_Arena Bus_Audit Capability
begin

text \<open>
  The bus router (\<^verbatim>\<open>kernel/src/bus/router.rs\<close>): it checks a message, takes the next
  sequence number of its sender, copies the payload into the arena, signs header and
  payload, queues the envelope for the receiver, shows it to the monitors, and logs what
  it did. \<open>mac\<close> is the keyed hash of the HMAC engine, \<open>sha3\<close> the hash of the audit log.
\<close>

section \<open>State and operations\<close>

definition MAX_PROCESSES :: nat where "MAX_PROCESSES = 64"

datatype bus_error =
    SenderNotRegistered | ReceiverNotRegistered | ReceiverQueueFull | SelfSendDenied
  | CapabilityInvalid capability_error | OwnerMismatch | HmacVerificationFailed
  | SequenceReplay | SequenceGap u64 u64
  | InvalidVersion | InvalidSender | PayloadLengthMismatch | PayloadTooLarge
  | ArenaFull | MonitorLimitReached | MonitorNotFound | ProcessAlreadyRegistered | ProcessLimitReached
  | PolicyDenied | NotInitialized

record bus_router =
  br_inboxes :: "(u32, inbox_queue) fmap"
  br_arena :: payload_arena
  br_sequences :: sequence_tracker
  br_monitors :: monitor_registry
  br_audit :: audit_log
  br_current_tick :: u64
  br_total_sent :: u64
  br_total_rejected :: u64

type_synonym 'a bus_result = "(bus_error + 'a) \<times> bus_router"

definition router_new :: bus_router where
  "router_new = \<lparr>br_inboxes = fmempty, br_arena = arena_new, br_sequences = fmempty, br_monitors = monitors_new,
     br_audit = audit_new, br_current_tick = 0, br_total_sent = 0, br_total_rejected = 0\<rparr>"

definition router_init :: "bus_router \<Rightarrow> bus_router" where
  "router_init B = B\<lparr>br_arena := arena_init (br_arena B)\<rparr>"

definition router_tick :: "bus_router \<Rightarrow> bus_router" where
  "router_tick B = B\<lparr>br_current_tick := br_current_tick B + 1\<rparr>"

definition router_advance_ticks :: "bus_router \<Rightarrow> u64 \<Rightarrow> bus_router" where
  "router_advance_ticks B n = B\<lparr>br_current_tick := br_current_tick B + n\<rparr>"

definition register_process :: "bus_router \<Rightarrow> process_id \<Rightarrow> unit bus_result" where
  "register_process B pid =
     (if pid = 0 then (Inl InvalidSender, B)
      else if fmlookup (br_inboxes B) pid \<noteq> None then (Inl ProcessAlreadyRegistered, B)
      else if fcard (fmdom (br_inboxes B)) \<ge> MAX_PROCESSES then (Inl ProcessLimitReached, B)
      else (Inr (), B\<lparr>br_inboxes := fmupd pid inbox_new (br_inboxes B)\<rparr>))"

definition unregister_process :: "bus_router \<Rightarrow> process_id \<Rightarrow> unit bus_result" where
  "unregister_process B pid =
     (if fmlookup (br_inboxes B) pid = None then (Inl ReceiverNotRegistered, B)
      else (Inr (), B\<lparr>br_inboxes := fmdrop pid (br_inboxes B), br_sequences := seq_remove (br_sequences B) pid\<rparr>))"

definition router_log :: "hash_fun \<Rightarrow> bus_router \<Rightarrow> message_header \<Rightarrow> audit_action \<Rightarrow> timestamp \<Rightarrow> bus_router run" where
  "router_log sha3 B h action ts = do {
     log \<leftarrow> audit_append sha3 (br_audit B) (mh_sender h) action (mh_receiver h) (mh_msg_type h)
       (mh_capability_id h) (mh_sequence h) ts;
     Some (B\<lparr>br_audit := log\<rparr>)
   }"

definition router_reject :: "hash_fun \<Rightarrow> bus_router \<Rightarrow> message_header \<Rightarrow> audit_action \<Rightarrow> timestamp \<Rightarrow> bus_router run" where
  "router_reject sha3 B h action ts = do {
     B' \<leftarrow> router_log sha3 B h action ts;
     Some (B'\<lparr>br_total_rejected := br_total_rejected B' + 1\<rparr>)
   }"

definition reject_with_policy :: "hash_fun \<Rightarrow> bus_router \<Rightarrow> message_header \<Rightarrow> bus_router run" where
  "reject_with_policy sha3 B h = router_reject sha3 B h PolicyViolation (br_current_tick B)"

definition payload_check :: "message_header \<Rightarrow> bytes option \<Rightarrow> bus_error + bytes option" where
  "payload_check h payload =
     (case payload of
        None \<Rightarrow> if mh_payload_len h = 0 then Inr None else Inl PayloadLengthMismatch
      | Some data \<Rightarrow>
          if mh_payload_len h = 0 \<and> data = [] then Inr None
          else if unat (mh_payload_len h) = length data
          then if length data > MAX_PAYLOAD_SIZE then Inl PayloadTooLarge else Inr (Some data)
          else Inl PayloadLengthMismatch)"

definition message_hmac :: "mac \<Rightarrow> message_header \<Rightarrow> bytes option \<Rightarrow> bytes" where
  "message_hmac mac h payload_data =
     hmac_sign mac (case payload_data of None \<Rightarrow> header_active_bytes h | Some data \<Rightarrow> header_active_bytes h @ data)"

definition refuse :: "hash_fun \<Rightarrow> bus_router \<Rightarrow> message_header \<Rightarrow> audit_action \<Rightarrow> bus_error \<Rightarrow> unit bus_result run" where
  "refuse sha3 B h action err = do {
     B' \<leftarrow> router_reject sha3 B h action (br_current_tick B);
     Some (Inl err, B')
   }"

text \<open>Steps 9 to 12 of \<open>send\<close>: sign, queue, notify, log.\<close>

definition router_enqueue ::
  "mac \<Rightarrow> hash_fun \<Rightarrow> bus_router \<Rightarrow> message_header \<Rightarrow> bytes option \<Rightarrow> arena_slice option \<Rightarrow> unit bus_result run" where
  "router_enqueue mac sha3 B h payload_data slc = do {
     let env = \<lparr>env_header = h, env_hmac = message_hmac mac h payload_data, env_payload = slc\<rparr>;
     inbox \<leftarrow> fmlookup (br_inboxes B) (mh_receiver h);
     (pushed, inbox') \<leftarrow> inbox_push inbox env;
     let B1 = B\<lparr>br_inboxes := fmupd (mh_receiver h) inbox' (br_inboxes B)\<rparr>;
     (if \<not> pushed then refuse sha3 B1 h QueueFull ReceiverQueueFull
      else do {
        mons \<leftarrow> monitors_notify (br_monitors B1) env;
        B2 \<leftarrow> router_log sha3 (B1\<lparr>br_monitors := mons\<rparr>) h MessageSent (br_current_tick B1);
        Some (Inr (), B2\<lparr>br_total_sent := br_total_sent B2 + 1\<rparr>)
      })
   }"

text \<open>Step 8: copy the payload, if there is one, and go on.\<close>

definition router_store ::
  "mac \<Rightarrow> hash_fun \<Rightarrow> bus_router \<Rightarrow> message_header \<Rightarrow> bytes option \<Rightarrow> unit bus_result run" where
  "router_store mac sha3 B h payload_data =
     (case payload_data of
        None \<Rightarrow> router_enqueue mac sha3 B h None None
      | Some data \<Rightarrow> do {
          (slc, arena) \<leftarrow> arena_allocate (br_arena B) data;
          (case slc of
             None \<Rightarrow> refuse sha3 (B\<lparr>br_arena := arena\<rparr>) h MessageRejected ArenaFull
           | Some _ \<Rightarrow> router_enqueue mac sha3 (B\<lparr>br_arena := arena\<rparr>) h payload_data slc)
        })"

definition router_send :: "mac \<Rightarrow> hash_fun \<Rightarrow> bus_router \<Rightarrow> message_header \<Rightarrow> bytes option \<Rightarrow> u32 \<Rightarrow> unit bus_result run" where
  "router_send mac sha3 B h payload nonce =
     (if mh_version h \<noteq> MESSAGE_VERSION then refuse sha3 B h MessageRejected InvalidVersion
      else if mh_sender h = 0 then refuse sha3 B h MessageRejected InvalidSender
      else if fmlookup (br_inboxes B) (mh_sender h) = None then refuse sha3 B h MessageRejected SenderNotRegistered
      else if fmlookup (br_inboxes B) (mh_receiver h) = None then refuse sha3 B h MessageRejected ReceiverNotRegistered
      else if mh_sender h = mh_receiver h then refuse sha3 B h MessageRejected SelfSendDenied
      else (case payload_check h payload of
          Inl err \<Rightarrow> refuse sha3 B h MessageRejected err
        | Inr payload_data \<Rightarrow>
            (case seq_check (br_sequences B) (mh_sender h) (mh_sequence h) of
               (Inl Replay, _) \<Rightarrow> refuse sha3 B h SequenceViolation SequenceReplay
             | (Inl (Gap expected got), _) \<Rightarrow> refuse sha3 B h SequenceViolation (SequenceGap expected got)
             | (Inr _, seqs) \<Rightarrow> router_store mac sha3 (B\<lparr>br_sequences := seqs\<rparr>) h payload_data)))"

definition router_receive :: "bus_router \<Rightarrow> process_id \<Rightarrow> (envelope option \<times> bus_router) run" where
  "router_receive B pid =
     (case fmlookup (br_inboxes B) pid of
        None \<Rightarrow> Some (None, B)
      | Some inbox \<Rightarrow> do {
          (r, inbox') \<leftarrow> inbox_pop inbox;
          Some (r, B\<lparr>br_inboxes := fmupd pid inbox' (br_inboxes B)\<rparr>)
        })"

definition router_peek :: "bus_router \<Rightarrow> process_id \<Rightarrow> envelope option run" where
  "router_peek B pid = (case fmlookup (br_inboxes B) pid of None \<Rightarrow> Some None | Some inbox \<Rightarrow> inbox_peek inbox)"

definition router_payload :: "bus_router \<Rightarrow> arena_slice \<Rightarrow> bytes run" where
  "router_payload B sl = arena_get (br_arena B) sl"

definition register_monitor :: "bus_router \<Rightarrow> monitor_filter \<Rightarrow> u32 bus_result" where
  "register_monitor B f =
     (let (r, M) = monitors_register (br_monitors B) f
      in (case r of None \<Rightarrow> Inl MonitorLimitReached | Some tid \<Rightarrow> Inr tid, B\<lparr>br_monitors := M\<rparr>))"

definition unregister_monitor :: "bus_router \<Rightarrow> u32 \<Rightarrow> unit bus_result" where
  "unregister_monitor B tid =
     (let (r, M) = monitors_unregister (br_monitors B) tid
      in (if r then Inr () else Inl MonitorNotFound, B\<lparr>br_monitors := M\<rparr>))"

definition monitor_drain :: "bus_router \<Rightarrow> u32 \<Rightarrow> (envelope option \<times> bus_router) run" where
  "monitor_drain B tid = do { (r, M) \<leftarrow> monitors_drain (br_monitors B) tid; Some (r, B\<lparr>br_monitors := M\<rparr>) }"

definition monitor_pending :: "bus_router \<Rightarrow> u32 \<Rightarrow> nat" where
  "monitor_pending B tid = monitors_pending_count (br_monitors B) tid"

definition verify_audit_chain :: "hash_fun \<Rightarrow> bus_router \<Rightarrow> (nat \<times> bool) run" where
  "verify_audit_chain sha3 B = audit_verify_chain sha3 (br_audit B)"

definition router_stats :: "bus_router \<Rightarrow> u64 \<times> u64" where
  "router_stats B = (br_total_sent B, br_total_rejected B)"

definition router_pending_count :: "bus_router \<Rightarrow> process_id \<Rightarrow> nat" where
  "router_pending_count B pid = (case fmlookup (br_inboxes B) pid of None \<Rightarrow> 0 | Some q \<Rightarrow> inbox_len q)"

definition router_is_registered :: "bus_router \<Rightarrow> process_id \<Rightarrow> bool" where
  "router_is_registered B pid \<longleftrightarrow> fmlookup (br_inboxes B) pid \<noteq> None"

definition router_clear :: "bus_router \<Rightarrow> bus_router" where
  "router_clear B = \<lparr>br_inboxes = fmempty, br_arena = arena_clear (br_arena B), br_sequences = fmempty,
     br_monitors = monitors_clear (br_monitors B), br_audit = audit_clear (br_audit B), br_current_tick = 0,
     br_total_sent = 0, br_total_rejected = 0\<rparr>"

end
