(* ===== verification/Bus_Delivery.thy ===== *)
theory Bus_Delivery
  imports Bus_Router
begin

text \<open>
  What the bus router guarantees: it never panics, its counters and its audit log account
  for every attempt, an accepted message is queued signed and with its payload readable,
  and messages from one sender arrive in the order of their sequence numbers, each once.
\<close>

section \<open>The invariant\<close>

definition monitors_ok :: "monitor_registry \<Rightarrow> bool" where
  "monitors_ok M \<longleftrightarrow> (\<forall>tap. Some tap \<in> set (mr_taps M) \<longrightarrow> tap_ok tap)"

definition router_ok :: "hash_fun \<Rightarrow> bus_router \<Rightarrow> bool" where
  "router_ok sha3 B \<longleftrightarrow> (\<forall>p q. fmlookup (br_inboxes B) p = Some q \<longrightarrow> p \<noteq> 0 \<and> inbox_ok q) \<and>
     fcard (fmdom (br_inboxes B)) \<le> MAX_PROCESSES \<and> arena_ok (br_arena B) \<and> monitors_ok (br_monitors B) \<and>
     audit_ok sha3 (br_audit B) \<and> al_total_count (br_audit B) = br_total_sent B + br_total_rejected B"

lemma router_ok_new: "router_ok sha3 (router_init router_new)"
  by (simp add: router_ok_def router_init_def router_new_def monitors_ok_def monitors_new_def audit_ok_new
      fcard_fempty) (simp add: audit_new_def)

text \<open>A tap afterwards, when it has been shown an envelope: it holds the envelope last if its filter matches.\<close>

definition saw :: "envelope \<Rightarrow> monitor_tap \<Rightarrow> monitor_tap \<Rightarrow> bool" where
  "saw env t t' \<longleftrightarrow> mt_id t' = mt_id t \<and> mt_filter t' = mt_filter t \<and>
     (if filter_matches (mt_filter t) env then tap_list t' \<noteq> [] \<and> last (tap_list t') = env else t' = t)"

lemma tap_push_saw:
  assumes "tap_ok tap" "filter_matches (mt_filter tap) env"
  shows "\<exists>t'. tap_push tap env = Some t' \<and> tap_ok t' \<and> saw env tap t'"
proof -
  obtain t' where t': "tap_push tap env = Some t'" "tap_ok t'"
    "tap_list t' = (if length (tap_list tap) < MONITOR_BUFFER_SIZE then tap_list tap else tl (tap_list tap)) @ [env]"
    using tap_push_lossy [OF assms(1)] by blast
  moreover have "mt_id t' = mt_id tap" "mt_filter t' = mt_filter tap"
    using t'(1) by (auto simp: tap_push_def Let_def Option.bind_eq_Some_conv)
  ultimately show ?thesis using assms(2) by (simp add: saw_def)
qed

lemma notify_taps_ok:
  "(\<forall>tap. Some tap \<in> set taps \<longrightarrow> tap_ok tap) \<Longrightarrow>
   \<exists>taps'. notify_taps env taps = Some taps' \<and> (\<forall>tap. Some tap \<in> set taps' \<longrightarrow> tap_ok tap) \<and>
     list_all2 (rel_option (saw env)) taps taps'"
proof (induction taps)
  case (Cons slot slots)
  obtain slots' where IH: "notify_taps env slots = Some slots'" "\<forall>tap. Some tap \<in> set slots' \<longrightarrow> tap_ok tap"
    "list_all2 (rel_option (saw env)) slots slots'"
    using Cons by auto
  show ?case
  proof (cases slot)
    case (Some tap)
    then have ok: "tap_ok tap" using Cons.prems by simp
    have "\<exists>t'. (if filter_matches (mt_filter tap) env then tap_push tap env else Some tap) = Some t' \<and> tap_ok t' \<and> saw env tap t'"
      using tap_push_saw [OF ok] ok by (cases "filter_matches (mt_filter tap) env") (simp_all add: saw_def)
    then show ?thesis using IH Some by auto
  qed (use IH in simp)
qed simp

lemma notify_ok:
  assumes "monitors_ok M" shows "\<exists>M'. monitors_notify M env = Some M' \<and> monitors_ok M'"
  using notify_taps_ok [of "mr_taps M" env] assms by (auto simp: monitors_notify_def monitors_ok_def)

section \<open>Sending\<close>

text \<open>The outcome of a send, read off the state; \<open>None\<close> stands for \<open>Ok\<close>.\<close>

definition send_error :: "bus_router \<Rightarrow> message_header \<Rightarrow> bytes option \<Rightarrow> bus_error option" where
  "send_error B h payload =
     (if mh_version h \<noteq> MESSAGE_VERSION then Some InvalidVersion
      else if mh_sender h = 0 then Some InvalidSender
      else if fmlookup (br_inboxes B) (mh_sender h) = None then Some SenderNotRegistered
      else (case fmlookup (br_inboxes B) (mh_receiver h) of
          None \<Rightarrow> Some ReceiverNotRegistered
        | Some inbox \<Rightarrow>
            if mh_sender h = mh_receiver h then Some SelfSendDenied
            else (case payload_check h payload of
                Inl err \<Rightarrow> Some err
              | Inr data \<Rightarrow>
                  if mh_sequence h = seq_last (br_sequences B) (mh_sender h) + 1
                  then if data \<noteq> None \<and> pa_buffer (br_arena B) = None then Some ArenaFull
                       else if length (inbox_list inbox) = QUEUE_CAPACITY then Some ReceiverQueueFull else None
                  else if mh_sequence h \<le> seq_last (br_sequences B) (mh_sender h) then Some SequenceReplay
                  else Some (SequenceGap (seq_last (br_sequences B) (mh_sender h) + 1) (mh_sequence h)))))"

definition may_log :: "bus_router \<Rightarrow> bool" where
  "may_log B \<longleftrightarrow> al_total_count (br_audit B) + 1 \<noteq> 0"

text \<open>One more entry in the log, about the message \<open>h\<close>.\<close>

definition logs :: "hash_fun \<Rightarrow> bus_router \<Rightarrow> bus_router \<Rightarrow> message_header \<Rightarrow> bool" where
  "logs sha3 B B' h \<longleftrightarrow> al_total_count (br_audit B') = al_total_count (br_audit B) + 1 \<and>
     (let e = last (audit_list (br_audit B')) in ae_actor e = mh_sender h \<and> ae_target e = mh_receiver h \<and>
        ae_capability_id e = mh_capability_id h \<and> ae_msg_sequence e = mh_sequence h \<and>
        (ae_action e = MessageSent \<longleftrightarrow> br_total_sent B' = br_total_sent B + 1))"

lemma log_spec:
  assumes "audit_ok sha3 (br_audit B)" "may_log B"
  shows "\<exists>L. router_log sha3 B h action ts = Some (B\<lparr>br_audit := L\<rparr>) \<and> audit_ok sha3 L \<and>
    al_total_count L = al_total_count (br_audit B) + 1 \<and>
    (let e = last (audit_list L) in ae_actor e = mh_sender h \<and> ae_target e = mh_receiver h \<and>
       ae_capability_id e = mh_capability_id h \<and> ae_msg_sequence e = mh_sequence h \<and> ae_action e = action)"
proof -
  obtain L where L: "audit_append sha3 (br_audit B) (mh_sender h) action (mh_receiver h) (mh_msg_type h)
      (mh_capability_id h) (mh_sequence h) ts = Some L" "audit_ok sha3 L" "al_total_count L = al_total_count (br_audit B) + 1"
    "last (audit_list L) = logged sha3 (br_audit B) (mh_sender h) action (mh_receiver h) (mh_msg_type h)
      (mh_capability_id h) (mh_sequence h) ts"
    using append_spec [OF assms(1) assms(2) [unfolded may_log_def]] by blast
  then show ?thesis by (auto simp: router_log_def logged_def Let_def)
qed

lemma refuse_spec:
  assumes "router_ok sha3 B" "may_log B" "action \<noteq> MessageSent"
  shows "\<exists>L. refuse sha3 B h action err = Some (Inl err, B\<lparr>br_audit := L, br_total_rejected := br_total_rejected B + 1\<rparr>) \<and>
    router_ok sha3 (B\<lparr>br_audit := L, br_total_rejected := br_total_rejected B + 1\<rparr>) \<and>
    logs sha3 B (B\<lparr>br_audit := L, br_total_rejected := br_total_rejected B + 1\<rparr>) h"
proof -
  obtain L where "router_log sha3 B h action (br_current_tick B) = Some (B\<lparr>br_audit := L\<rparr>)" "audit_ok sha3 L"
    "al_total_count L = al_total_count (br_audit B) + 1"
    "let e = last (audit_list L) in ae_actor e = mh_sender h \<and> ae_target e = mh_receiver h \<and>
       ae_capability_id e = mh_capability_id h \<and> ae_msg_sequence e = mh_sequence h \<and> ae_action e = action"
    using log_spec [of sha3 B h action "br_current_tick B"] assms by (auto simp: router_ok_def)
  then show ?thesis
    using assms by (intro exI [of _ L]) (simp add: refuse_def router_reject_def router_ok_def logs_def Let_def)
qed

lemma payload_check_data: "payload_check h payload = Inr (Some data) \<Longrightarrow> data \<noteq> [] \<and> length data \<le> MAX_PAYLOAD_SIZE"
  by (auto simp: payload_check_def unat_eq_zero split: option.splits if_splits)

text \<open>An accepted message: the envelope at the end of the receiver's inbox.\<close>

definition delivers :: "mac \<Rightarrow> bus_router \<Rightarrow> bus_router \<Rightarrow> message_header \<Rightarrow> bytes option \<Rightarrow> bool" where
  "delivers mac B B' h payload \<longleftrightarrow>
     (\<exists>q q' env data. fmlookup (br_inboxes B) (mh_receiver h) = Some q \<and> payload_check h payload = Inr data \<and>
        br_inboxes B' = fmupd (mh_receiver h) q' (br_inboxes B) \<and> inbox_list q' = inbox_list q @ [env] \<and>
        env_header env = h \<and> env_hmac env = message_hmac mac h data \<and>
        (case data of None \<Rightarrow> env_payload env = None
         | Some d \<Rightarrow> (\<exists>sl. env_payload env = Some sl \<and> router_payload B' sl = Some d)))"

lemma allocate_get:
  assumes "arena_ok A" "arena_allocate A data = Some (Some sl, A')"
  shows "arena_get A' sl = Some data"
proof -
  obtain buf where buf: "pa_buffer A = Some buf" and data: "data \<noteq> []" "length data \<le> MAX_PAYLOAD_SIZE"
    using allocate_total [OF assms(1), of data] assms(2) by auto
  have len: "length buf = ARENA_CAPACITY" using assms(1) buf by (simp add: arena_ok_def)
  define a where "a = arena_target A (length data)"
  have a: "a + length data \<le> ARENA_CAPACITY" "sl = \<lparr>sl_offset = of_nat a, sl_len = of_nat (length data)\<rparr>"
    "A' = \<lparr>pa_buffer = Some (take a buf @ data @ drop (a + length data) buf), pa_write_cursor = a + length data\<rparr>"
    using allocate_spec [OF assms(1) buf data] assms(2) by (simp_all add: a_def)
  let ?buf = "take a buf @ data @ drop (a + length data) buf"
  have "arena_get A' sl = Some (take (length data) (drop a ?buf))"
    unfolding a(2) by (rule get_slice [OF _ _ a(1)]) (use a len in simp_all)
  then show ?thesis using a(1) len by simp
qed

lemma fcard_update: "fmlookup m k \<noteq> None \<Longrightarrow> fcard (fmdom (fmupd k v m)) = fcard (fmdom m)"
  by (metis finsert_absorb fmdom_fmupd fmlookup_dom_iff not_None_eq)

text \<open>What a send may do to the sequence numbers and, if it fails, to the inboxes.\<close>

definition seq_moves :: "bus_router \<Rightarrow> bus_router \<Rightarrow> message_header \<Rightarrow> bool" where
  "seq_moves B B' h \<longleftrightarrow> br_sequences B' = br_sequences B \<or>
     (mh_sequence h = seq_last (br_sequences B) (mh_sender h) + 1 \<and>
      br_sequences B' = fmupd (mh_sender h) (mh_sequence h) (br_sequences B))"

definition inboxes_list :: "bus_router \<Rightarrow> process_id \<Rightarrow> envelope list option" where
  "inboxes_list B p = map_option inbox_list (fmlookup (br_inboxes B) p)"

definition send_result :: "mac \<Rightarrow> hash_fun \<Rightarrow> bus_router \<Rightarrow> message_header \<Rightarrow> bytes option \<Rightarrow> u32 \<Rightarrow> bus_error option \<Rightarrow> bool" where
  "send_result mac sha3 B h payload nonce err \<longleftrightarrow>
     (\<exists>B'. router_send mac sha3 B h payload nonce = Some (case err of None \<Rightarrow> Inr () | Some e \<Rightarrow> Inl e, B') \<and>
        router_ok sha3 B' \<and> logs sha3 B B' h \<and> seq_moves B B' h \<and>
        (err = None \<longrightarrow> delivers mac B B' h payload \<and>
           br_sequences B' = fmupd (mh_sender h) (mh_sequence h) (br_sequences B)) \<and>
        (err \<noteq> None \<longrightarrow> inboxes_list B' = inboxes_list B))"

text \<open>A send that ends in a refusal, from the state \<open>B1\<close> it had reached.\<close>

lemma send_result_refuse:
  assumes "router_send mac sha3 B h payload nonce = refuse sha3 B1 h action err"
    and "router_ok sha3 B1" "may_log B" "action \<noteq> MessageSent"
    and "br_audit B1 = br_audit B" "br_total_sent B1 = br_total_sent B" "seq_moves B B1 h" "inboxes_list B1 = inboxes_list B"
  shows "send_result mac sha3 B h payload nonce (Some err)"
proof -
  have "may_log B1" using assms(3,5) by (simp add: may_log_def)
  from refuse_spec [OF assms(2) this assms(4), of h err] obtain L where
    L: "refuse sha3 B1 h action err = Some (Inl err, B1\<lparr>br_audit := L, br_total_rejected := br_total_rejected B1 + 1\<rparr>)"
    "router_ok sha3 (B1\<lparr>br_audit := L, br_total_rejected := br_total_rejected B1 + 1\<rparr>)"
    "logs sha3 B1 (B1\<lparr>br_audit := L, br_total_rejected := br_total_rejected B1 + 1\<rparr>) h"
    by blast
  show ?thesis
    unfolding send_result_def
    by (intro exI [of _ "B1\<lparr>br_audit := L, br_total_rejected := br_total_rejected B1 + 1\<rparr>"])
      (use L assms in \<open>simp add: logs_def seq_moves_def inboxes_list_def fun_eq_iff\<close>)
qed

lemma send_accept:
  assumes ok: "router_ok sha3 B" and log: "may_log B" and q: "fmlookup (br_inboxes B) (mh_receiver h) = Some q"
    and room: "length (inbox_list q) < QUEUE_CAPACITY"
    and B2: "br_inboxes B2 = br_inboxes B" "br_monitors B2 = br_monitors B" "br_audit B2 = br_audit B"
      "br_total_sent B2 = br_total_sent B" "br_total_rejected B2 = br_total_rejected B" "arena_ok (br_arena B2)"
      "br_sequences B2 = fmupd (mh_sender h) (mh_sequence h) (br_sequences B)"
    and sq: "mh_sequence h = seq_last (br_sequences B) (mh_sender h) + 1"
    and pl: "payload_check h payload = Inr data"
      "case data of None \<Rightarrow> slc = None | Some d \<Rightarrow> (\<exists>sl. slc = Some sl \<and> arena_get (br_arena B2) sl = Some d)"
    and send: "router_send mac sha3 B h payload nonce = router_enqueue mac sha3 B2 h data slc"
  shows "send_result mac sha3 B h payload nonce None"
proof -
  define env where "env = \<lparr>env_header = h, env_hmac = message_hmac mac h data, env_payload = slc\<rparr>"
  have qok: "inbox_ok q" and q0: "mh_receiver h \<noteq> 0" using ok q by (auto simp: router_ok_def)
  obtain q' where q': "inbox_push q env = Some (True, q')" "inbox_ok q'" "inbox_list q' = inbox_list q @ [env]"
    using inbox.push_if_room [OF qok room] by blast
  obtain M where M: "monitors_notify (br_monitors B) env = Some M" "monitors_ok M"
    using notify_ok [of "br_monitors B" env] ok by (auto simp: router_ok_def)
  let ?B3 = "B2\<lparr>br_inboxes := fmupd (mh_receiver h) q' (br_inboxes B2), br_monitors := M\<rparr>"
  have "audit_ok sha3 (br_audit ?B3)" "may_log ?B3" using ok log B2 by (simp_all add: router_ok_def may_log_def)
  from log_spec [OF this, of h MessageSent "br_current_tick B2"] obtain L
    where L: "router_log sha3 ?B3 h MessageSent (br_current_tick B2) = Some (?B3\<lparr>br_audit := L\<rparr>)"
    "audit_ok sha3 L" "al_total_count L = al_total_count (br_audit B) + 1"
    "let e = last (audit_list L) in ae_actor e = mh_sender h \<and> ae_target e = mh_receiver h \<and>
       ae_capability_id e = mh_capability_id h \<and> ae_msg_sequence e = mh_sequence h \<and> ae_action e = MessageSent"
    using B2(3) by auto
  let ?B' = "?B3\<lparr>br_audit := L, br_total_sent := br_total_sent B2 + 1\<rparr>"
  have "router_send mac sha3 B h payload nonce = Some (Inr (), ?B')"
    unfolding send using q'(1) M(1) L(1) B2 q by (simp add: router_enqueue_def env_def)
  moreover have "router_ok sha3 ?B'"
    using ok q' M(2) L(2,3) B2 q0 fcard_update [of "br_inboxes B" "mh_receiver h" q'] q by (auto simp: router_ok_def)
  moreover have "logs sha3 B ?B' h" using L(3,4) B2 by (simp add: logs_def Let_def)
  moreover have "seq_moves B ?B' h" using B2(7) sq by (simp add: seq_moves_def)
  moreover have "delivers mac B ?B' h payload"
    unfolding delivers_def
    by (rule exI [of _ q], rule exI [of _ q'], rule exI [of _ env], rule exI [of _ data])
      (use q q' pl B2(1) in \<open>auto simp: router_payload_def env_def split: option.splits\<close>)
  ultimately show ?thesis unfolding send_result_def using B2(7) by (intro exI [of _ ?B']) simp
qed

lemma seq_moves_refl [simp]: "seq_moves B B h"
  by (simp add: seq_moves_def)

text \<open>The last steps, from a state \<open>B2\<close> in which the sequence number and the payload are stored.\<close>

lemma send_enqueue:
  assumes ok: "router_ok sha3 B" and log: "may_log B" and q: "fmlookup (br_inboxes B) (mh_receiver h) = Some q"
    and B2: "B2 = B\<lparr>br_sequences := fmupd (mh_sender h) (mh_sequence h) (br_sequences B), br_arena := A\<rparr>" "arena_ok A"
    and sq: "mh_sequence h = seq_last (br_sequences B) (mh_sender h) + 1"
    and pl: "payload_check h payload = Inr data"
      "case data of None \<Rightarrow> slc = None | Some d \<Rightarrow> (\<exists>sl. slc = Some sl \<and> arena_get A sl = Some d)"
    and send: "router_send mac sha3 B h payload nonce = router_enqueue mac sha3 B2 h data slc"
  shows "send_result mac sha3 B h payload nonce (if length (inbox_list q) = QUEUE_CAPACITY then Some ReceiverQueueFull else None)"
proof -
  have qok: "inbox_ok q" using ok q by (simp add: router_ok_def)
  have ok2: "router_ok sha3 B2" "seq_moves B B2 h" "inboxes_list B2 = inboxes_list B" "br_audit B2 = br_audit B"
    "br_total_sent B2 = br_total_sent B"
    using ok B2 sq by (simp_all add: router_ok_def seq_moves_def inboxes_list_def fun_eq_iff)
  show ?thesis
  proof (cases "length (inbox_list q) = QUEUE_CAPACITY")
    case True
    have "fmupd (mh_receiver h) q (br_inboxes B) = br_inboxes B" using q by (intro fmap_ext) auto
    then have same: "B2\<lparr>br_inboxes := fmupd (mh_receiver h) q (br_inboxes B2)\<rparr> = B2" by (simp add: B2)
    have "fmlookup (br_inboxes B2) (mh_receiver h) = Some q" using q B2 by simp
    then have "router_send mac sha3 B h payload nonce = refuse sha3 B2 h QueueFull ReceiverQueueFull"
      unfolding send using inbox.push_full [OF qok True] same by (simp add: router_enqueue_def Let_def)
    from send_result_refuse [OF this ok2(1) log _ ok2(4,5,2,3)] show ?thesis using True by simp
  next
    case False
    then have room: "length (inbox_list q) < QUEUE_CAPACITY" using inbox.bound [OF qok] by linarith
    have "case data of None \<Rightarrow> slc = None | Some d \<Rightarrow> (\<exists>sl. slc = Some sl \<and> arena_get (br_arena B2) sl = Some d)"
      using pl(2) B2(1) by (cases data) simp_all
    then have "send_result mac sha3 B h payload nonce None"
      by (rule send_accept [OF ok log q room _ _ _ _ _ _ _ sq pl(1) _ send, rotated 7]) (use B2 in simp_all)
    then show ?thesis using False by simp
  qed
qed

lemma send_checked:
  assumes ok: "router_ok sha3 B" and log: "may_log B"
    and h: "mh_version h = MESSAGE_VERSION" "mh_sender h \<noteq> 0" "fmlookup (br_inboxes B) (mh_sender h) = Some qs"
      "fmlookup (br_inboxes B) (mh_receiver h) = Some q" "mh_sender h \<noteq> mh_receiver h"
    and pl: "payload_check h payload = Inr data" and sq: "mh_sequence h = seq_last (br_sequences B) (mh_sender h) + 1"
  shows "send_result mac sha3 B h payload nonce
    (if data \<noteq> None \<and> pa_buffer (br_arena B) = None then Some ArenaFull
     else if length (inbox_list q) = QUEUE_CAPACITY then Some ReceiverQueueFull else None)"
proof -
  let ?seqs = "fmupd (mh_sender h) (mh_sequence h) (br_sequences B)"
  let ?B1 = "B\<lparr>br_sequences := ?seqs\<rparr>"
  have "seq_check (br_sequences B) (mh_sender h) (mh_sequence h) = (Inr (), ?seqs)" using sq seq_check_ok by blast
  then have send: "router_send mac sha3 B h payload nonce = router_store mac sha3 ?B1 h data"
    by (simp add: router_send_def h pl)
  have aok: "arena_ok (br_arena B)" using ok by (simp add: router_ok_def)
  note enqueue = send_enqueue [OF ok log h(4) _ _ sq pl]
  show ?thesis
  proof (cases data)
    case None
    have "router_send mac sha3 B h payload nonce = router_enqueue mac sha3 ?B1 h data None"
      by (simp add: send router_store_def None)
    from enqueue [OF _ aok _ this] show ?thesis using None by simp
  next
    case (Some d)
    then have d: "d \<noteq> []" "\<not> length d > MAX_PAYLOAD_SIZE" using payload_check_data [of h payload d] pl by simp_all
    obtain r A where rA: "arena_allocate (br_arena B) d = Some (r, A)" "arena_ok A"
      "r = None \<longleftrightarrow> d = [] \<or> length d > MAX_PAYLOAD_SIZE \<or> pa_buffer (br_arena B) = None"
      using allocate_total [OF aok, of d] by (elim exE conjE) (rule that)
    let ?B2 = "B\<lparr>br_sequences := ?seqs, br_arena := A\<rparr>"
    show ?thesis
    proof (cases r)
      case None
      have "router_send mac sha3 B h payload nonce = refuse sha3 ?B2 h MessageRejected ArenaFull"
        using rA(1) by (simp add: send router_store_def Some None)
      then have "send_result mac sha3 B h payload nonce (Some ArenaFull)"
        by (rule send_result_refuse) (use ok log rA(2) sq in \<open>simp_all add: router_ok_def seq_moves_def inboxes_list_def fun_eq_iff\<close>)
      then show ?thesis using None rA(3) d Some by simp
    next
      case sl: (Some sl)
      have "router_send mac sha3 B h payload nonce = router_enqueue mac sha3 ?B2 h data r"
        using rA(1) by (simp add: send router_store_def Some sl)
      moreover have "arena_get A sl = Some d" using allocate_get [OF aok, of d sl A] rA(1) sl by simp
      ultimately show ?thesis
        using enqueue [OF refl rA(2), of r mac nonce] rA(3) sl d Some by auto
    qed
  qed
qed

lemma send_spec:
  assumes ok: "router_ok sha3 B" and log: "may_log B"
  shows "send_result mac sha3 B h payload nonce (send_error B h payload)"
proof -
  note refuse = send_result_refuse [OF _ ok log _ refl refl seq_moves_refl refl]
  note defs = router_send_def send_error_def
  show ?thesis
  proof (cases "mh_version h = MESSAGE_VERSION \<and> mh_sender h \<noteq> 0 \<and> fmlookup (br_inboxes B) (mh_sender h) \<noteq> None \<and>
      fmlookup (br_inboxes B) (mh_receiver h) \<noteq> None \<and> mh_sender h \<noteq> mh_receiver h")
    case False
    then have "\<exists>err. send_error B h payload = Some err \<and>
      router_send mac sha3 B h payload nonce = refuse sha3 B h MessageRejected err"
      by (cases "mh_version h = MESSAGE_VERSION"; cases "mh_sender h = 0"; cases "fmlookup (br_inboxes B) (mh_sender h)";
          cases "fmlookup (br_inboxes B) (mh_receiver h)") (simp_all add: defs)
    then obtain err where "send_error B h payload = Some err"
      "router_send mac sha3 B h payload nonce = refuse sha3 B h MessageRejected err"
      by blast
    then show ?thesis using refuse [of mac h payload nonce MessageRejected err] by simp
  next
    case True
    then obtain q qs where q: "fmlookup (br_inboxes B) (mh_receiver h) = Some q"
      "fmlookup (br_inboxes B) (mh_sender h) = Some qs"
      by auto
    show ?thesis
    proof (cases "payload_check h payload")
      case (Inl err)
      then show ?thesis
        using True q refuse [of mac h payload nonce MessageRejected err] by (simp add: defs)
    next
      case pl: (Inr data)
      show ?thesis
      proof (cases "mh_sequence h = seq_last (br_sequences B) (mh_sender h) + 1")
        case sq: True
        then show ?thesis
          using send_checked [OF ok log _ _ q(2,1) _ pl sq, of mac nonce] True q pl by (simp add: send_error_def)
      next
        case sq: False
        have "\<exists>err. send_error B h payload = Some err \<and>
          router_send mac sha3 B h payload nonce = refuse sha3 B h SequenceViolation err"
          using True q pl sq by (simp add: defs seq_check_def seq_next_last Let_def)
        then obtain err where "send_error B h payload = Some err"
          "router_send mac sha3 B h payload nonce = refuse sha3 B h SequenceViolation err"
          by blast
        then show ?thesis using refuse [of mac h payload nonce SequenceViolation err] by simp
      qed
    qed
  qed
qed


definition demo_router :: bus_router where
  "demo_router = snd (register_process (snd (register_process (router_init router_new) 1)) 2)"

definition demo_header :: message_header where
  "demo_header = header_zeroed\<lparr>mh_version := 1, mh_sender := 1, mh_receiver := 2, mh_payload_len := 3, mh_sequence := 1\<rparr>"

lemma register_ok: "router_ok sha3 B \<Longrightarrow> router_ok sha3 (snd (register_process B pid))"
  by (auto simp: router_ok_def register_process_def fcard_finsert_if split: if_splits)

lemma register_lookup:
  "fmlookup (br_inboxes (snd (register_process B pid))) p =
     (if p = pid \<and> fst (register_process B pid) = Inr () then Some inbox_new else fmlookup (br_inboxes B) p)"
  by (simp add: register_process_def)

lemma demo_router_ok: "router_ok sha3 demo_router"
  unfolding demo_router_def by (rule register_ok [OF register_ok [OF router_ok_new]])

lemma demo_router_facts:
  "fmlookup (br_inboxes demo_router) 1 = Some inbox_new" "fmlookup (br_inboxes demo_router) 2 = Some inbox_new"
  "may_log demo_router" "br_sequences demo_router = fmempty"
  "pa_buffer (br_arena demo_router) = Some (replicate ARENA_CAPACITY 0)"
  by (simp_all add: demo_router_def register_process_def router_init_def router_new_def may_log_def audit_new_def
      MAX_PROCESSES_def fcard_fempty fcard_finsert_if arena_init_def)


end
