(* ===== verification/Bus_Order.thy ===== *)
theory Bus_Order
  imports Bus_Delivery
begin

text \<open>
  Histories of the message bus: whatever is sent and received, each receiver gets the
  messages of each sender in the order of their sequence numbers, none of them twice.
\<close>

section \<open>Histories\<close>

datatype bus_op = Register process_id | Send message_header "bytes option" u32 | Receive process_id | Bus_Tick

datatype bus_out = Sent "bus_error + unit" | Received process_id "envelope option" | Done

fun bus_step :: "mac \<Rightarrow> hash_fun \<Rightarrow> bus_router \<Rightarrow> bus_op \<Rightarrow> (bus_out \<times> bus_router) run" where
  "bus_step mac sha3 B (Register p) = Some (Done, snd (register_process B p))"
| "bus_step mac sha3 B (Send h payload nonce) = map_option (map_prod Sent (\<lambda>b. b)) (router_send mac sha3 B h payload nonce)"
| "bus_step mac sha3 B (Receive p) = map_option (map_prod (Received p) (\<lambda>b. b)) (router_receive B p)"
| "bus_step mac sha3 B Bus_Tick = Some (Done, router_tick B)"

primrec bus_trace :: "mac \<Rightarrow> hash_fun \<Rightarrow> bus_router \<Rightarrow> bus_op list \<Rightarrow> (bus_out list \<times> bus_router) run" where
  "bus_trace mac sha3 B [] = Some ([], B)"
| "bus_trace mac sha3 B (c # cs) = do {
     (r, B') \<leftarrow> bus_step mac sha3 B c;
     (rs, B'') \<leftarrow> bus_trace mac sha3 B' cs;
     Some (r # rs, B'')
   }"

text \<open>The sequence numbers of what \<open>r\<close> got from \<open>s\<close>, and of what waits for it.\<close>

definition numbers_from :: "process_id \<Rightarrow> envelope list \<Rightarrow> u64 list" where
  "numbers_from s es = map (mh_sequence \<circ> env_header) (filter (\<lambda>e. mh_sender (env_header e) = s) es)"

fun got :: "process_id \<Rightarrow> bus_out \<Rightarrow> envelope list" where
  "got r (Received p (Some e)) = (if p = r then [e] else [])"
| "got r _ = []"

definition received :: "process_id \<Rightarrow> process_id \<Rightarrow> bus_out list \<Rightarrow> u64 list" where
  "received s r outs = numbers_from s (concat (map (got r) outs))"

definition waiting :: "bus_router \<Rightarrow> process_id \<Rightarrow> envelope list" where
  "waiting B r = (case inboxes_list B r of None \<Rightarrow> [] | Some es \<Rightarrow> es)"

lemma numbers_from_append [simp]: "numbers_from s (es @ fs) = numbers_from s es @ numbers_from s fs"
  by (simp add: numbers_from_def)

lemma received_Cons: "received s r (o1 # outs) = numbers_from s (got r o1) @ received s r outs"
  by (simp add: received_def)

section \<open>One step\<close>

text \<open>What one step makes of the waiting messages: receiving takes the first, sending appends one.\<close>

lemma receive_step:
  assumes ok: "router_ok sha3 B"
  shows "\<exists>res B'. router_receive B p = Some (res, B') \<and> router_ok sha3 B' \<and> br_sequences B' = br_sequences B \<and>
    br_audit B' = br_audit B \<and> (\<forall>r. waiting B r = got r (Received p res) @ waiting B' r)"
proof (cases "fmlookup (br_inboxes B) p")
  case None
  then show ?thesis using ok by (simp add: router_receive_def)
next
  case (Some q)
  have q: "inbox_ok q" "p \<noteq> 0" using ok Some by (auto simp: router_ok_def)
  obtain q' where q': "inbox_pop q = Some (case inbox_list q of [] \<Rightarrow> None | x # _ \<Rightarrow> Some x, q')" "inbox_ok q'"
    "inbox_list q' = tl (inbox_list q)"
    using inbox.pop_total [OF q(1)] by blast
  let ?B = "B\<lparr>br_inboxes := fmupd p q' (br_inboxes B)\<rparr>"
  have "router_receive B p = Some (case inbox_list q of [] \<Rightarrow> None | x # _ \<Rightarrow> Some x, ?B)"
    using Some q'(1) by (simp add: router_receive_def)
  moreover have "router_ok sha3 ?B"
    using ok q' q fcard_update [of "br_inboxes B" p q'] Some by (auto simp: router_ok_def)
  moreover have "waiting B r = got r (Received p (case inbox_list q of [] \<Rightarrow> None | x # _ \<Rightarrow> Some x)) @ waiting ?B r" for r
    using Some q'(3) by (cases "inbox_list q") (auto simp: waiting_def inboxes_list_def)
  ultimately show ?thesis by simp
qed

lemma send_step:
  assumes ok: "router_ok sha3 B" and log: "may_log B"
  shows "\<exists>res B'. router_send mac sha3 B h payload nonce = Some (res, B') \<and> router_ok sha3 B' \<and>
    al_total_count (br_audit B') = al_total_count (br_audit B) + 1 \<and> seq_moves B B' h \<and>
    ((\<forall>r. waiting B' r = waiting B r) \<or>
     (\<exists>env. env_header env = h \<and> mh_sequence h = seq_last (br_sequences B) (mh_sender h) + 1 \<and>
        br_sequences B' = fmupd (mh_sender h) (mh_sequence h) (br_sequences B) \<and>
        (\<forall>r. waiting B' r = waiting B r @ (if r = mh_receiver h then [env] else []))))"
proof -
  let ?e = "send_error B h payload"
  from send_spec [OF ok log, of mac h payload nonce] obtain B' where
    B': "router_send mac sha3 B h payload nonce = Some (case ?e of None \<Rightarrow> Inr () | Some e \<Rightarrow> Inl e, B')" "router_ok sha3 B'"
    "logs sha3 B B' h" "seq_moves B B' h" and
    acc: "?e = None \<longrightarrow> delivers mac B B' h payload \<and> br_sequences B' = fmupd (mh_sender h) (mh_sequence h) (br_sequences B)" and
    ref: "?e \<noteq> None \<longrightarrow> inboxes_list B' = inboxes_list B"
    unfolding send_result_def by (elim exE conjE) (rule that)
  have cnt: "al_total_count (br_audit B') = al_total_count (br_audit B) + 1" using B'(3) by (simp add: logs_def)
  show ?thesis
  proof (cases ?e)
    case None
    then obtain q q' env where d: "fmlookup (br_inboxes B) (mh_receiver h) = Some q"
      "br_inboxes B' = fmupd (mh_receiver h) q' (br_inboxes B)" "inbox_list q' = inbox_list q @ [env]" "env_header env = h"
      using acc unfolding delivers_def by blast
    have "mh_sequence h = seq_last (br_sequences B) (mh_sender h) + 1"
      using None by (auto simp: send_error_def split: if_splits option.splits sum.splits)
    moreover have "\<forall>r. waiting B' r = waiting B r @ (if r = mh_receiver h then [env] else [])"
      using d by (simp add: waiting_def inboxes_list_def)
    ultimately show ?thesis using B' cnt acc None d(4) by blast
  next
    case (Some e)
    then have "\<forall>r. waiting B' r = waiting B r" using ref by (simp add: waiting_def)
    then show ?thesis using B' cnt by blast
  qed
qed

section \<open>Order\<close>

text \<open>\<open>D s r\<close> is what \<open>r\<close> got from \<open>s\<close> so far.\<close>

definition in_order :: "(process_id \<Rightarrow> process_id \<Rightarrow> u64 list) \<Rightarrow> bus_router \<Rightarrow> bool" where
  "in_order D B \<longleftrightarrow> (\<forall>s r. sorted_wrt (<) (D s r @ numbers_from s (waiting B r)) \<and>
     (\<forall>n \<in> set (D s r @ numbers_from s (waiting B r)). n \<le> seq_last (br_sequences B) s))"

definition room_left :: "bus_router \<Rightarrow> nat \<Rightarrow> bool" where
  "room_left B k \<longleftrightarrow> unat (al_total_count (br_audit B)) + k < 2 ^ 64 \<and>
     (\<forall>s. unat (seq_last (br_sequences B) s) + k < 2 ^ 64)"

lemma room_may_log: "room_left B (Suc k) \<Longrightarrow> may_log B"
  using unat_Suc_word [of "al_total_count (br_audit B)" "2 ^ 64 - 1"] by (auto simp: room_left_def may_log_def)

lemma room_keep:
  "room_left B (Suc k) \<Longrightarrow> br_audit B' = br_audit B \<Longrightarrow> br_sequences B' = br_sequences B \<Longrightarrow> room_left B' k"
  unfolding room_left_def by (metis Suc_lessD add_Suc_right)

lemma seq_last_upd: "seq_last (fmupd s n Q) t = (if t = s then n else seq_last Q t)"
  by (simp add: seq_last_def)

lemma seq_moves_last:
  assumes "seq_moves B B' h" "room_left B (Suc k)"
  shows "seq_last (br_sequences B) s \<le> seq_last (br_sequences B') s"
    and "unat (seq_last (br_sequences B') s) \<le> Suc (unat (seq_last (br_sequences B) s))"
proof -
  let ?n = "seq_last (br_sequences B) (mh_sender h)"
  have "unat ?n + 1 < 2 ^ 64" using assms(2) by (simp add: room_left_def) (metis add_lessD1 add_Suc_right add_Suc_shift plus_1_eq_Suc)
  then have n: "unat (?n + 1) = Suc (unat ?n)" using unat_Suc_word [of ?n "2 ^ 64 - 1"] by simp
  show "seq_last (br_sequences B) s \<le> seq_last (br_sequences B') s"
    using assms(1) n by (auto simp: seq_moves_def seq_last_upd word_le_nat_alt)
  show "unat (seq_last (br_sequences B') s) \<le> Suc (unat (seq_last (br_sequences B) s))"
    using assms(1) n by (auto simp: seq_moves_def seq_last_upd)
qed

lemma sorted_snoc:
  "sorted_wrt (<) xs \<Longrightarrow> \<forall>x \<in> set xs. x \<le> a \<Longrightarrow> a < n \<Longrightarrow> sorted_wrt (<) (xs @ [n])" for a :: u64
  by (auto simp: sorted_wrt_append intro: order_le_less_trans)

lemma step_in_order:
  assumes ok: "router_ok sha3 B" and ord: "in_order D B" and room: "room_left B (Suc k)"
  shows "\<exists>o1 B'. bus_step mac sha3 B c = Some (o1, B') \<and> router_ok sha3 B' \<and> room_left B' k \<and>
    in_order (\<lambda>s r. D s r @ numbers_from s (got r o1)) B'"
proof (cases c)
  case (Register p)
  let ?B = "snd (register_process B p)"
  have "waiting ?B r = waiting B r" for r
    by (auto simp: register_process_def waiting_def inboxes_list_def)
  moreover have "br_sequences ?B = br_sequences B" "br_audit ?B = br_audit B" by (simp_all add: register_process_def)
  ultimately show ?thesis
    using Register register_ok [OF ok, of p] ord room_keep [OF room, of ?B] by (simp add: in_order_def numbers_from_def)
next
  case (Receive p)
  obtain res B' where B': "router_receive B p = Some (res, B')" "router_ok sha3 B'" "br_sequences B' = br_sequences B"
    "br_audit B' = br_audit B" and w: "\<forall>r. waiting B r = got r (Received p res) @ waiting B' r"
    using receive_step [OF ok, of p] by blast
  then show ?thesis
    using Receive ord room_keep [OF room, of B'] by (simp add: in_order_def w)
next
  case Bus_Tick
  have "waiting (router_tick B) = waiting B" by (simp add: fun_eq_iff waiting_def inboxes_list_def router_tick_def)
  then show ?thesis
    using Bus_Tick ok ord room_keep [OF room, of "router_tick B"]
    by (simp add: in_order_def router_tick_def router_ok_def numbers_from_def)
next
  case (Send h payload nonce)
  obtain res B' where B': "router_send mac sha3 B h payload nonce = Some (res, B')" "router_ok sha3 B'"
    "al_total_count (br_audit B') = al_total_count (br_audit B) + 1" "seq_moves B B' h" and
    w: "(\<forall>r. waiting B' r = waiting B r) \<or>
     (\<exists>env. env_header env = h \<and> mh_sequence h = seq_last (br_sequences B) (mh_sender h) + 1 \<and>
        br_sequences B' = fmupd (mh_sender h) (mh_sequence h) (br_sequences B) \<and>
        (\<forall>r. waiting B' r = waiting B r @ (if r = mh_receiver h then [env] else [])))"
    using send_step [OF ok room_may_log [OF room], of mac h payload nonce] by (elim exE conjE) (rule that)
  note mono = seq_moves_last [OF B'(4) room]
  have "unat (al_total_count (br_audit B) + 1) = Suc (unat (al_total_count (br_audit B)))"
    using room unat_Suc_word [of "al_total_count (br_audit B)" "2 ^ 64 - 1"] by (simp add: room_left_def)
  moreover have "unat (seq_last (br_sequences B') s) + k < 2 ^ 64" for s
  proof -
    have "unat (seq_last (br_sequences B) s) + Suc k < 2 ^ 64" using room unfolding room_left_def by blast
    then show ?thesis using mono(2) [of s] by linarith
  qed
  moreover have "unat (al_total_count (br_audit B)) + Suc k < 2 ^ 64" using room unfolding room_left_def by blast
  ultimately have room': "room_left B' k" unfolding room_left_def B'(3) by simp
  have got: "got r (Sent res) = []" for r by simp
  have "in_order D B'"
    using w
  proof
    assume "\<forall>r. waiting B' r = waiting B r"
    then show ?thesis using ord mono(1) order_trans unfolding in_order_def by metis
  next
    assume "\<exists>env. env_header env = h \<and> mh_sequence h = seq_last (br_sequences B) (mh_sender h) + 1 \<and>
        br_sequences B' = fmupd (mh_sender h) (mh_sequence h) (br_sequences B) \<and>
        (\<forall>r. waiting B' r = waiting B r @ (if r = mh_receiver h then [env] else []))"
    then obtain env where env: "env_header env = h" "mh_sequence h = seq_last (br_sequences B) (mh_sender h) + 1"
      "br_sequences B' = fmupd (mh_sender h) (mh_sequence h) (br_sequences B)"
      "\<And>r. waiting B' r = waiting B r @ (if r = mh_receiver h then [env] else [])"
      by blast
    show ?thesis
      unfolding in_order_def
    proof (intro allI)
      fix s r
      let ?old = "D s r @ numbers_from s (waiting B r)"
      define added where "added = numbers_from s (if r = mh_receiver h then [env] else [])"
      have old: "sorted_wrt (<) ?old" "\<forall>n \<in> set ?old. n \<le> seq_last (br_sequences B) s"
        using ord unfolding in_order_def by blast+
      have new: "added = [] \<or> (s = mh_sender h \<and> added = [mh_sequence h])" using env(1) by (auto simp: added_def numbers_from_def)
      have lt: "seq_last (br_sequences B) (mh_sender h) < mh_sequence h"
        using seq_moves_last(2) [OF B'(4) room, of "mh_sender h"] mono(1) [of "mh_sender h"] env(2,3)
        by (metis add_cancel_right_right order_less_le seq_last_upd zero_neq_one)
      have "sorted_wrt (<) (?old @ added)"
        using new
      proof
        assume "s = mh_sender h \<and> added = [mh_sequence h]"
        then show ?thesis using sorted_snoc [OF old] lt by simp
      qed (use old in simp)
      moreover have "\<forall>n \<in> set (?old @ added). n \<le> seq_last (br_sequences B') s"
        using new old mono(1) [of s] env(3) by (auto simp: seq_last_upd intro: order_trans)
      ultimately show "sorted_wrt (<) (D s r @ numbers_from s (waiting B' r)) \<and>
          (\<forall>n \<in> set (D s r @ numbers_from s (waiting B' r)). n \<le> seq_last (br_sequences B') s)"
        by (simp add: env(4) added_def)
    qed
  qed
  then show ?thesis using Send B'(1,2) room' got by (simp add: numbers_from_def)
qed

lemma trace_in_order:
  "router_ok sha3 B \<Longrightarrow> in_order D B \<Longrightarrow> room_left B (length ops) \<Longrightarrow>
   \<exists>outs B'. bus_trace mac sha3 B ops = Some (outs, B') \<and> router_ok sha3 B' \<and> in_order (\<lambda>s r. D s r @ received s r outs) B'"
proof (induction ops arbitrary: B D)
  case Nil
  then show ?case by (simp add: received_def numbers_from_def)
next
  case (Cons c ops)
  obtain o1 B1 where s: "bus_step mac sha3 B c = Some (o1, B1)" "router_ok sha3 B1" "room_left B1 (length ops)"
    "in_order (\<lambda>s r. D s r @ numbers_from s (got r o1)) B1"
    using step_in_order [OF Cons.prems(1,2), of "length ops" mac c] Cons.prems(3) by auto
  from Cons.IH [OF s(2,4,3)] show ?case using s(1) by (auto simp: received_Cons)
qed

text \<open>
  C8. Starting from the initialised bus, any sequence of registrations, sends, receives and
  ticks runs without a panic, the audit chain verifies at the end, and what each process
  received from each other process carries strictly increasing sequence numbers: messages
  are neither reordered nor delivered twice.
\<close>

theorem ordered_delivery:
  assumes "length ops < 2 ^ 64"
  shows "\<exists>outs B n. bus_trace mac sha3 (router_init router_new) ops = Some (outs, B) \<and>
    verify_audit_chain sha3 B = Some (n, True) \<and> (\<forall>s r. sorted_wrt (<) (received s r outs))"
proof -
  have "in_order (\<lambda>s r. []) (router_init router_new)" "room_left (router_init router_new) (length ops)"
    using assms by (simp_all add: in_order_def room_left_def waiting_def inboxes_list_def numbers_from_def
        router_init_def router_new_def seq_last_def audit_new_def)
  from trace_in_order [OF router_ok_new this, of mac] obtain outs B where
    B: "bus_trace mac sha3 (router_init router_new) ops = Some (outs, B)" "router_ok sha3 B"
      "in_order (\<lambda>s r. [] @ received s r outs) B"
    by blast
  have "\<forall>s r. sorted_wrt (<) (received s r outs)" using B(3) by (simp add: in_order_def sorted_wrt_append)
  moreover have "audit_ring (br_audit B)" "chained sha3 None (audit_list (br_audit B))"
    using B(2) by (simp_all add: router_ok_def audit_ok_def)
  ultimately show ?thesis using B(1) verify_chain_iff [of "br_audit B" sha3] by (auto simp: verify_audit_chain_def)
qed

theorem ordered_delivery_witness:
  "\<exists>outs B n. bus_trace (\<lambda>d. d) (\<lambda>d. d) (router_init router_new)
       [Register 1, Register 2, Send demo_header (Some [10, 20, 30]) 0, Receive 2] = Some (outs, B) \<and>
     verify_audit_chain (\<lambda>d. d) B = Some (n, True) \<and> (\<forall>s r. sorted_wrt (<) (received s r outs))"
  by (rule ordered_delivery) simp

end
