(* ===== verification/Net_Addr.thy ===== *)
theory Net_Addr
  imports Fabric_Types
begin

text \<open>
  Network addresses (\<^verbatim>\<open>kernel/src/network/addr.rs\<close>). A \<open>[u8; 4]\<close> or \<open>[u8; 6]\<close> array is a
  constructor with that many bytes, so that its length is part of its type.
\<close>

datatype ipv4_addr = Ipv4Addr u8 u8 u8 u8

fun octets :: "ipv4_addr \<Rightarrow> bytes" where
  "octets (Ipv4Addr a b c d) = [a, b, c, d]"

definition IP_UNSPECIFIED :: ipv4_addr where "IP_UNSPECIFIED = Ipv4Addr 0 0 0 0"
definition IP_LOOPBACK :: ipv4_addr where "IP_LOOPBACK = Ipv4Addr 127 0 0 1"
definition IP_BROADCAST :: ipv4_addr where "IP_BROADCAST = Ipv4Addr 255 255 255 255"

fun ip_is_loopback :: "ipv4_addr \<Rightarrow> bool" where
  "ip_is_loopback (Ipv4Addr a b c d) \<longleftrightarrow> a = 127 \<and> b = 0 \<and> c = 0 \<and> d = 1"

fun ip_is_unspecified :: "ipv4_addr \<Rightarrow> bool" where
  "ip_is_unspecified (Ipv4Addr a b c d) \<longleftrightarrow> a = 0 \<and> b = 0 \<and> c = 0 \<and> d = 0"

fun ip_to_u32 :: "ipv4_addr \<Rightarrow> u32" where
  "ip_to_u32 (Ipv4Addr a b c d) =
     push_bit 24 (ucast a) OR push_bit 16 (ucast b) OR push_bit 8 (ucast c) OR ucast d"

definition ip_from_u32 :: "u32 \<Rightarrow> ipv4_addr" where
  "ip_from_u32 v = Ipv4Addr (ucast (drop_bit 24 v)) (ucast (drop_bit 16 v)) (ucast (drop_bit 8 v)) (ucast v)"

record socket_addr =
  sa_addr :: ipv4_addr
  sa_port :: u16

definition sa_new :: "ipv4_addr \<Rightarrow> u16 \<Rightarrow> socket_addr" where
  "sa_new addr port = \<lparr>sa_addr = addr, sa_port = port\<rparr>"

definition SA_UNSPECIFIED :: socket_addr where
  "SA_UNSPECIFIED = \<lparr>sa_addr = IP_UNSPECIFIED, sa_port = 0\<rparr>"

definition sa_is_unspecified :: "socket_addr \<Rightarrow> bool" where
  "sa_is_unspecified sa \<longleftrightarrow> ip_is_unspecified (sa_addr sa) \<and> sa_port sa = 0"

datatype socket_type = Stream | Datagram

datatype protocol = Tcp | Udp

lemma length_octets [simp]: "length (octets a) = 4"
  by (cases a) simp

lemma octets_inj [simp]: "octets a = octets b \<longleftrightarrow> a = b"
  by (cases a; cases b) simp

lemma ip_is_unspecified_iff [simp]: "ip_is_unspecified a \<longleftrightarrow> a = IP_UNSPECIFIED"
  by (cases a) (simp add: IP_UNSPECIFIED_def)

lemma ip_is_loopback_iff: "ip_is_loopback a \<longleftrightarrow> a = IP_LOOPBACK"
  by (cases a) (simp add: IP_LOOPBACK_def)

lemma sa_is_unspecified_iff: "sa_is_unspecified sa \<longleftrightarrow> sa = SA_UNSPECIFIED"
  by (cases sa) (simp add: sa_is_unspecified_def SA_UNSPECIFIED_def)

lemma ip_to_u32_be: "ip_to_u32 a = from_be (octets a)"
  by (cases a) (simp add: from_be_def push_bit_or ac_simps)

text \<open>The two conversions between addresses and numbers are inverse to each other.\<close>

lemma ip_to_from_u32 [simp]: "ip_to_u32 (ip_from_u32 v) = v"
  by (simp add: ip_to_u32_be ip_from_u32_def)

lemma ip_from_to_u32 [simp]: "ip_from_u32 (ip_to_u32 a) = a"
proof (cases a)
  case (Ipv4Addr p q r s)
  have "(ucast (drop_bit 24 (ip_to_u32 a)) :: u8) = p" "(ucast (drop_bit 16 (ip_to_u32 a)) :: u8) = q"
    "(ucast (drop_bit 8 (ip_to_u32 a)) :: u8) = r" "(ucast (ip_to_u32 a) :: u8) = s"
    by (rule bit_word_eqI; auto simp: Ipv4Addr bit_ucast_iff bit_drop_bit_eq bit_or_iff bit_push_bit_iff dest: bit_imp_le_length)+
  then show ?thesis by (simp add: ip_from_u32_def Ipv4Addr)
qed

end
