(* ===== verification/Net_Checksum.thy ===== *)
theory Net_Checksum
  imports Net_Addr
begin

text \<open>
  The internet checksum (\<^verbatim>\<open>kernel/src/network/checksum.rs\<close>): the sum of the 16-bit words in
  a 32-bit accumulator, folded to 16 bits and complemented. The fold loop terminates, the
  result is the one's complement sum of RFC 1071, and data that carries its own checksum
  verifies.
\<close>

section \<open>The code\<close>

text \<open>The summation loop, two bytes at a time, and the odd byte after it.\<close>

fun sum_words :: "u32 \<Rightarrow> bytes \<Rightarrow> u32" where
  "sum_words s (a # b # data) = sum_words (s + (push_bit 8 (ucast a) OR ucast b)) data"
| "sum_words s [a] = s + push_bit 8 (ucast a)"
| "sum_words s [] = s"

lemma fold_shrinks:
  assumes "drop_bit 16 (s :: u32) \<noteq> 0"
  shows "unat ((s AND 0xFFFF) + drop_bit 16 s) = unat s mod 65536 + unat s div 65536"
    "unat s mod 65536 + unat s div 65536 < unat s"
proof -
  have b: "unat s < 4294967296" using unat_bound [of s] by simp
  have m: "unat (s AND 0xFFFF) = unat s mod 65536"
  proof -
    have "s AND 0xFFFF = take_bit 16 s" by (simp add: take_bit_eq_mask mask_eq_exp_minus_1)
    then have "unat (s AND 0xFFFF) = take_bit 16 (unat s)" by (simp only: unsigned_take_bit_eq)
    then show ?thesis by (simp add: take_bit_eq_mod)
  qed
  have d: "unat (drop_bit 16 s) = unat s div 65536"
    by (simp only: unsigned_drop_bit_eq) (simp add: drop_bit_eq_div take_bit_nat_eq_self b)
  have "unat s mod 65536 < 65536" "unat s div 65536 < 65536" using b by simp_all
  then have "unat (s AND 0xFFFF) + unat (drop_bit 16 s) < 2 ^ LENGTH(32)" by (simp add: m d)
  then show "unat ((s AND 0xFFFF) + drop_bit 16 s) = unat s mod 65536 + unat s div 65536"
    by (simp add: unat_add_lem [THEN iffD1] m d)
  have "unat s div 65536 \<noteq> 0" using assms d by (metis unat_eq_zero)
  then show "unat s mod 65536 + unat s div 65536 < unat s"
    using mult_div_mod_eq [of 65536 "unat s"] by linarith
qed

function fold_sum :: "u32 \<Rightarrow> u32" where
  "fold_sum s = (if drop_bit 16 s \<noteq> 0 then fold_sum ((s AND 0xFFFF) + drop_bit 16 s) else s)"
  by auto
termination by (relation "measure unat") (simp_all add: fold_shrinks)

declare fold_sum.simps [simp del]

definition internet_checksum :: "bytes \<Rightarrow> u16" where
  "internet_checksum data = NOT (ucast (fold_sum (sum_words 0 data)))"

definition verify_checksum :: "bytes \<Rightarrow> bool" where
  "verify_checksum data \<longleftrightarrow> internet_checksum data = 0"

definition pseudo_header_checksum :: "ipv4_addr \<Rightarrow> ipv4_addr \<Rightarrow> u8 \<Rightarrow> u16 \<Rightarrow> bytes \<Rightarrow> u16" where
  "pseudo_header_checksum src dst proto len payload =
     NOT (ucast (fold_sum (sum_words (sum_words (sum_words 0 (octets src)) (octets dst) + ucast proto + ucast len) payload)))"

section \<open>Sums of 16-bit words\<close>

fun nsum :: "bytes \<Rightarrow> nat" where
  "nsum (a # b # data) = 256 * unat a + unat b + nsum data"
| "nsum [a] = 256 * unat a"
| "nsum [] = 0"

lemma unat_be16:
  assumes "16 \<le> LENGTH('a)"
  shows "unat (push_bit 8 (ucast (a :: u8)) OR ucast (b :: u8) :: 'a::len word) = 256 * unat a + unat b"
proof -
  have le: "(2 :: nat) ^ 16 \<le> 2 ^ LENGTH('a)" by (rule power_increasing [OF assms]) simp
  have up: "unat (ucast (c :: u8) :: 'a word) = unat c" for c
  proof -
    have "unat c < 2 ^ LENGTH('a)" using unat_bound [of c] le by simp
    then show ?thesis by (simp add: unsigned_ucast_eq take_bit_nat_eq_self)
  qed
  have "unat (push_bit 8 (ucast a) :: 'a word) = take_bit LENGTH('a) (push_bit 8 (unat a))"
    by (simp only: unsigned_push_bit_eq up)
  also have "\<dots> = 256 * unat a"
    using unat_bound [of a] le by (simp add: push_bit_eq_mult take_bit_nat_eq_self mult.commute)
  finally have sh: "unat (push_bit 8 (ucast a) :: 'a word) = 256 * unat a" .
  have "push_bit 8 (unat a) AND unat b = 0"
    by (rule bit_eqI) (auto simp: bit_and_iff bit_push_bit_iff bit_unsigned_iff dest: bit_imp_le_length)
  then have "push_bit 8 (unat a) OR unat b = push_bit 8 (unat a) + unat b"
    by (rule disjunctive_add_eq_or [symmetric])
  then show ?thesis by (simp only: unsigned_or_eq sh up) (simp add: push_bit_eq_mult mult.commute)
qed

lemma nsum_append: "even (length xs) \<Longrightarrow> nsum (xs @ ys) = nsum xs + nsum ys"
  by (induction xs rule: nsum.induct) simp_all

lemma nsum_bound: "nsum data \<le> 65535 * ((length data + 1) div 2)"
proof (induction data rule: nsum.induct)
  case (1 a b data)
  then show ?case using unat_bound [of a] unat_bound [of b] by simp
next
  case (2 a)
  then show ?case using unat_bound [of a] by simp
qed simp

lemma sum_words_unat: "unat s + nsum data < 2 ^ 32 \<Longrightarrow> unat (sum_words s data) = unat s + nsum data"
proof (induction s data rule: sum_words.induct)
  case (1 s a b data)
  then have "unat s + (256 * unat a + unat b) < 2 ^ 32" by simp
  then have "unat (s + (push_bit 8 (ucast a) OR ucast b)) = unat s + (256 * unat a + unat b)"
    using unat_add_lem [of s "push_bit 8 (ucast a) OR ucast b"] by (simp only: unat_be16 [where 'a = 32, simplified]) simp
  then show ?case using 1 by simp
next
  case (2 s a)
  have "unat (push_bit 8 (ucast a) :: u32) = 256 * unat a"
    using unat_be16 [where 'a = 32, of a 0] by simp
  then show ?case using 2 unat_add_lem [of s "push_bit 8 (ucast a)"] by simp
qed simp

text \<open>The representative that folding computes: 0 for 0, else one of 1 to 65535.\<close>

definition rep :: "nat \<Rightarrow> nat" where
  "rep n = (if n = 0 then 0 else (n - 1) mod 65535 + 1)"

lemma rep_small: "n \<le> 65535 \<Longrightarrow> rep n = n"
  by (simp add: rep_def)

lemma rep_le: "rep n \<le> 65535"
  by (simp add: rep_def Suc_le_eq)

lemma rep_eq_0 [simp]: "rep n = 0 \<longleftrightarrow> n = 0"
  by (simp add: rep_def)

lemma rep_shift: "0 < n \<Longrightarrow> rep (n + 65535 * k) = rep n"
  by (cases n) (simp_all add: rep_def)

lemma rep_decomp: "\<exists>k. n = rep n + 65535 * k"
proof (cases n)
  case (Suc m)
  then have "n = rep n + 65535 * (m div 65535)" by (simp add: rep_def)
  then show ?thesis ..
qed (simp add: rep_def)

lemma rep_add: "rep (rep m + n) = rep (m + n)"
proof (cases "m = 0")
  case False
  obtain k where "m = rep m + 65535 * k" using rep_decomp by blast
  then have "m + n = rep m + n + 65535 * k" by simp
  moreover have "0 < rep m + n" using False rep_eq_0 [of m] by linarith
  ultimately show ?thesis by (metis rep_shift)
qed (simp add: rep_def)

lemma fold_sum_unat: "unat (fold_sum s) = rep (unat s)"
proof (induction s rule: fold_sum.induct)
  case (1 s)
  let ?n = "unat s"
  show ?case
  proof (cases "drop_bit 16 s = 0")
    case True
    have "unat (drop_bit 16 s) = ?n div 65536"
      using unat_bound [of s] by (simp only: unsigned_drop_bit_eq) (simp add: drop_bit_eq_div take_bit_nat_eq_self)
    then have "?n < 65536" using True by (simp add: div_eq_0_iff)
    then show ?thesis using True by (subst fold_sum.simps) (simp add: rep_small)
  next
    case False
    have eq: "?n = ?n mod 65536 + ?n div 65536 + 65535 * (?n div 65536)"
      using mult_div_mod_eq [of 65536 ?n] by linarith
    have "0 < ?n mod 65536 + ?n div 65536" using fold_shrinks(2) [OF False] eq by linarith
    then have "rep (?n mod 65536 + ?n div 65536) = rep ?n" using rep_shift eq by metis
    then show ?thesis using 1 [OF False] fold_shrinks(1) [OF False] False by (subst fold_sum.simps) simp
  qed
qed

lemma unat_not_16: "unat (NOT w :: u16) = 65535 - unat w"
proof -
  have "NOT w = - 1 - w" by (simp add: not_eq_complement)
  moreover have "unat (- 1 - w) = unat (- 1 :: u16) - unat w" by (rule unat_sub) simp
  ultimately show ?thesis by (simp add: unsigned_minus_1_eq_mask mask_eq_exp_minus_1)
qed

lemma folded_unat: "unat (NOT (ucast (fold_sum s)) :: u16) = 65535 - rep (unat s)"
proof -
  have "unat (ucast (fold_sum s) :: u16) = rep (unat s)"
    using rep_le [of "unat s"] by (simp add: unsigned_ucast_eq fold_sum_unat take_bit_nat_eq_self)
  then show ?thesis by (simp add: unat_not_16)
qed

lemma checksum_unat: "nsum data < 2 ^ 32 \<Longrightarrow> unat (internet_checksum data) = 65535 - rep (nsum data)"
  using sum_words_unat [of 0 data] by (simp add: internet_checksum_def folded_unat)

lemma checksum_eq_0: "nsum data < 2 ^ 32 \<Longrightarrow> internet_checksum data = 0 \<longleftrightarrow> rep (nsum data) = 65535"
  using checksum_unat [of data] rep_le [of "nsum data"] by (auto simp flip: unat_eq_zero)

lemma nsum_be_bytes [simp]: "nsum [ucast (drop_bit 8 c), ucast c] = unat (c :: u16)"
proof -
  have "push_bit 8 (ucast (ucast (drop_bit 8 c) :: u8)) OR ucast (ucast c :: u8) = c"
    using from_be_bytes_16 [of c] by (simp only: from_be_2)
  from arg_cong [OF this, of unat] show ?thesis by (simp only: unat_be16 [where 'a = 16, simplified]) simp
qed

lemma rep_complement: "rep (n + (65535 - rep n)) = 65535"
proof -
  have "rep (n + (65535 - rep n)) = rep (rep n + (65535 - rep n))" by (simp only: rep_add)
  then show ?thesis using rep_le [of n] by (simp add: rep_small)
qed

definition psum :: "ipv4_addr \<Rightarrow> ipv4_addr \<Rightarrow> u8 \<Rightarrow> u16 \<Rightarrow> nat" where
  "psum src dst proto len = nsum (octets src) + nsum (octets dst) + unat proto + unat len"

lemma nsum_octets: "nsum (octets a) \<le> 131070"
  using nsum_bound [of "octets a"] by simp

lemma psum_bound: "psum src dst proto len \<le> 6 * 65535"
  using nsum_octets [of src] nsum_octets [of dst] unat_bound [of proto] unat_bound [of len] by (simp add: psum_def)

lemma pseudo_unat:
  assumes "psum src dst proto len + nsum data < 2 ^ 32"
  shows "unat (pseudo_header_checksum src dst proto len data) = 65535 - rep (psum src dst proto len + nsum data)"
proof -
  let ?p = "ucast proto :: u32" and ?l = "ucast len :: u32"
  have up: "unat ?p = unat proto" "unat ?l = unat len"
    using unat_bound [of proto] unat_bound [of len] by (simp_all add: unsigned_ucast_eq take_bit_nat_eq_self)
  have a: "unat (sum_words 0 (octets src)) = nsum (octets src)"
    using sum_words_unat [of 0 "octets src"] nsum_octets [of src] by simp
  have b: "unat (sum_words (sum_words 0 (octets src)) (octets dst)) = nsum (octets src) + nsum (octets dst)"
    using sum_words_unat [of "sum_words 0 (octets src)" "octets dst"] a nsum_octets [of src] nsum_octets [of dst] by simp
  let ?s = "sum_words (sum_words 0 (octets src)) (octets dst)"
  have c: "unat (?s + ?p) = unat ?s + unat ?p"
    using unat_add_lem [of ?s ?p] b up nsum_octets [of src] nsum_octets [of dst] unat_bound [of proto] by simp
  have "unat (?s + ?p + ?l) = unat (?s + ?p) + unat ?l"
    using unat_add_lem [of "?s + ?p" ?l] b c up nsum_octets [of src] nsum_octets [of dst] unat_bound [of proto] unat_bound [of len] by simp
  then have "unat (?s + ?p + ?l) = psum src dst proto len" by (simp add: psum_def up b c)
  then show ?thesis using assms by (simp only: pseudo_header_checksum_def folded_unat sum_words_unat)
qed

section \<open>Verification of data that carries its checksum\<close>

lemma nsum_field: "even (length xs) \<Longrightarrow> nsum (xs @ be_bytes 2 c @ ys) = nsum (xs @ 0 # 0 # ys) + unat (c :: u16)"
  using nsum_be_bytes [of c] by (simp add: nsum_append)

lemma checksum_field_verifies:
  assumes "even (length xs)" "length xs + length ys \<le> 100000" "c = internet_checksum (xs @ 0 # 0 # ys)"
  shows "verify_checksum (xs @ be_bytes 2 c @ ys)"
proof -
  let ?n = "nsum (xs @ 0 # 0 # ys)"
  have b: "?n \<le> 65535 * 50002" using nsum_bound [of "xs @ 0 # 0 # ys"] assms(2) by (auto elim!: order_trans)
  have "nsum (xs @ be_bytes 2 c @ ys) = ?n + (65535 - rep ?n)"
    using nsum_field [OF assms(1), of c ys] checksum_unat [of "xs @ 0 # 0 # ys"] b assms(3) by simp
  moreover have "?n + (65535 - rep ?n) < 2 ^ 32" using b by simp
  ultimately show ?thesis by (simp add: verify_checksum_def checksum_eq_0 rep_complement del: be_bytes_2)
qed

lemma pseudo_field_verifies:
  assumes "even (length xs)" "length xs + length ys \<le> 100000"
    and "c = pseudo_header_checksum src dst proto len (xs @ 0 # 0 # ys)"
  shows "pseudo_header_checksum src dst proto len (xs @ be_bytes 2 c @ ys) = 0"
proof -
  let ?n = "psum src dst proto len + nsum (xs @ 0 # 0 # ys)"
  have b: "?n \<le> 65535 * 50010"
    using nsum_bound [of "xs @ 0 # 0 # ys"] psum_bound [of src dst proto len] assms(2) by simp
  have n: "psum src dst proto len + nsum (xs @ be_bytes 2 c @ ys) = ?n + (65535 - rep ?n)"
    using nsum_field [OF assms(1), of c ys] pseudo_unat [of src dst proto len "xs @ 0 # 0 # ys"] b assms(3)
    by (simp del: be_bytes_2)
  then have "psum src dst proto len + nsum (xs @ be_bytes 2 c @ ys) < 2 ^ 32" using b by simp
  then have "unat (pseudo_header_checksum src dst proto len (xs @ be_bytes 2 c @ ys)) = 0"
    by (simp only: pseudo_unat n rep_complement)
  then show ?thesis by (simp only: unat_eq_zero)
qed

section \<open>The checksum of RFC 1071\<close>

text \<open>
  The specification adds 16-bit words in one's complement: a carry out of the top bit is
  added back at the bottom, at every addition.
\<close>

definition oc_add :: "u16 \<Rightarrow> u16 \<Rightarrow> u16" where
  "oc_add a b = (if unat a + unat b < 2 ^ 16 then a + b else a + b + 1)"

fun words16 :: "bytes \<Rightarrow> u16 list" where
  "words16 (a # b # data) = from_be [a, b] # words16 data"
| "words16 [a] = [from_be [a, 0]]"
| "words16 [] = []"

lemma oc_add_unat: "unat (oc_add a b) = rep (unat a + unat b)"
proof (cases "unat a + unat b < 2 ^ 16")
  case True
  then show ?thesis using unat_add_lem [of a b] by (simp add: oc_add_def rep_small)
next
  case False
  have b: "unat a < 65536" "unat b < 65536" using unat_bound [of a] unat_bound [of b] by simp_all
  have "unat (a + b) = unat a + unat b - 65536"
    using False b by (simp add: unat_word_ariths le_mod_geq)
  then have "unat (a + b + 1) = unat a + unat b - 65535"
    using unat_Suc_word [of "a + b" 65535] b False by simp
  moreover have "rep (unat a + unat b) = rep (unat a + unat b - 65535)"
    using rep_shift [of "unat a + unat b - 65535" 1] False by simp
  ultimately show ?thesis using False b by (simp add: oc_add_def rep_small)
qed

lemma sum_oc_add: "unat (foldl oc_add w (words16 data)) = rep (unat w + nsum data)"
proof (induction data arbitrary: w rule: words16.induct)
  case (1 a b data)
  have "unat (from_be [a, b] :: u16) = 256 * unat a + unat b" by (simp only: from_be_2) (simp only: unat_be16 [where 'a = 16, simplified])
  then show ?case using 1 by (simp add: oc_add_unat rep_add) (simp only: add.assoc)
next
  case (2 a)
  have "unat (from_be [a, 0] :: u16) = 256 * unat a" using unat_be16 [where 'a = 16, of a 0] by (simp add: from_be_2)
  then show ?case by (simp add: oc_add_unat)
next
  case 3
  then show ?case using unat_bound [of w] by (simp add: rep_small)
qed

text \<open>
  C13. The 32-bit accumulator with folding at the end computes the one's complement sum of
  RFC 1071, for every packet the stack can build (up to 131074 bytes, beyond which the
  accumulator could overflow).
\<close>

theorem checksum_is_ones_complement_sum:
  assumes "length data \<le> 131074"
  shows "internet_checksum data = NOT (foldl oc_add 0 (words16 data))"
proof -
  have "nsum data \<le> 65535 * 65537" using nsum_bound [of data] assms by (auto elim!: order_trans)
  then have "unat (internet_checksum data) = 65535 - rep (nsum data)" by (simp add: checksum_unat)
  also have "\<dots> = unat (NOT (foldl oc_add 0 (words16 data)))" by (simp add: unat_not_16 sum_oc_add)
  finally show ?thesis by (rule unsigned_word_eqI)
qed

theorem checksum_is_ones_complement_sum_witness:
  "internet_checksum [0x45, 0, 0, 20, 1] = NOT (foldl oc_add 0 [0x4500, 20, 0x100])"
  using checksum_is_ones_complement_sum [of "[0x45, 0, 0, 20, 1]"] by (simp add: from_be_2)

end
