(* ===== verification/Net_Packets.thy ===== *)
theory Net_Packets
  imports Net_Checksum Ring_Buffer
begin

text \<open>
  The wire formats of \<^verbatim>\<open>kernel/src/network\<close>: Ethernet frames (\<^verbatim>\<open>ethernet.rs\<close>), ARP packets
  (\<^verbatim>\<open>arp.rs\<close>), and the headers and packet builders of IPv4 (\<^verbatim>\<open>ip.rs\<close>), UDP (\<^verbatim>\<open>udp.rs\<close>) and
  TCP (\<^verbatim>\<open>tcp.rs\<close>). Parsing inverts building, and every packet built carries checksums
  that verify.
\<close>

section \<open>Ethernet (\<^verbatim>\<open>ethernet.rs\<close>)\<close>

datatype mac_addr = Mac u8 u8 u8 u8 u8 u8

fun mac_bytes :: "mac_addr \<Rightarrow> bytes" where
  "mac_bytes (Mac a b c d e f) = [a, b, c, d, e, f]"

definition ETHERTYPE_IPV4 :: u16 where "ETHERTYPE_IPV4 = 0x0800"
definition ETHERTYPE_ARP :: u16 where "ETHERTYPE_ARP = 0x0806"
definition BROADCAST_MAC :: mac_addr where "BROADCAST_MAC = Mac 0xFF 0xFF 0xFF 0xFF 0xFF 0xFF"

record ethernet_frame =
  ef_dst_mac :: mac_addr
  ef_src_mac :: mac_addr
  ef_ethertype :: u16
  ef_payload :: bytes

definition eth_build :: "mac_addr \<Rightarrow> mac_addr \<Rightarrow> u16 \<Rightarrow> bytes \<Rightarrow> bytes" where
  "eth_build dst src ethertype payload =
     mac_bytes dst @ mac_bytes src @ [ucast (drop_bit 8 ethertype), ucast ethertype] @ payload"

definition mac_at :: "bytes \<Rightarrow> nat \<Rightarrow> mac_addr" where
  "mac_at data i = Mac (data ! i) (data ! (i + 1)) (data ! (i + 2)) (data ! (i + 3)) (data ! (i + 4)) (data ! (i + 5))"

definition ip_at :: "bytes \<Rightarrow> nat \<Rightarrow> ipv4_addr" where
  "ip_at data i = Ipv4Addr (data ! i) (data ! (i + 1)) (data ! (i + 2)) (data ! (i + 3))"

definition eth_parse :: "bytes \<Rightarrow> ethernet_frame option" where
  "eth_parse data =
     (if length data < 14 then None
      else Some \<lparr>ef_dst_mac = mac_at data 0, ef_src_mac = mac_at data 6,
        ef_ethertype = push_bit 8 (ucast (data ! 12)) OR ucast (data ! 13), ef_payload = drop 14 data\<rparr>)"

definition eth_header_bytes :: "ethernet_frame \<Rightarrow> bytes" where
  "eth_header_bytes f = mac_bytes (ef_dst_mac f) @ mac_bytes (ef_src_mac f) @
     [ucast (drop_bit 8 (ef_ethertype f)), ucast (ef_ethertype f)]"

section \<open>ARP packets (\<^verbatim>\<open>arp.rs\<close>)\<close>

definition ARP_HW_ETHERNET :: u16 where "ARP_HW_ETHERNET = 1"
definition ARP_PROTO_IPV4 :: u16 where "ARP_PROTO_IPV4 = 0x0800"
definition ARP_OP_REQUEST :: u16 where "ARP_OP_REQUEST = 1"
definition ARP_OP_REPLY :: u16 where "ARP_OP_REPLY = 2"

record arp_packet =
  ap_hw_type :: u16
  ap_proto_type :: u16
  ap_hw_len :: u8
  ap_proto_len :: u8
  ap_opcode :: u16
  ap_sender_mac :: mac_addr
  ap_sender_ip :: ipv4_addr
  ap_target_mac :: mac_addr
  ap_target_ip :: ipv4_addr

definition arp_build_request :: "mac_addr \<Rightarrow> ipv4_addr \<Rightarrow> ipv4_addr \<Rightarrow> arp_packet" where
  "arp_build_request sender_mac sender_ip target_ip =
     \<lparr>ap_hw_type = ARP_HW_ETHERNET, ap_proto_type = ARP_PROTO_IPV4, ap_hw_len = 6, ap_proto_len = 4,
      ap_opcode = ARP_OP_REQUEST, ap_sender_mac = sender_mac, ap_sender_ip = sender_ip,
      ap_target_mac = Mac 0 0 0 0 0 0, ap_target_ip = target_ip\<rparr>"

definition arp_build_reply :: "mac_addr \<Rightarrow> ipv4_addr \<Rightarrow> mac_addr \<Rightarrow> ipv4_addr \<Rightarrow> arp_packet" where
  "arp_build_reply sender_mac sender_ip target_mac target_ip =
     \<lparr>ap_hw_type = ARP_HW_ETHERNET, ap_proto_type = ARP_PROTO_IPV4, ap_hw_len = 6, ap_proto_len = 4,
      ap_opcode = ARP_OP_REPLY, ap_sender_mac = sender_mac, ap_sender_ip = sender_ip,
      ap_target_mac = target_mac, ap_target_ip = target_ip\<rparr>"

definition arp_to_bytes :: "arp_packet \<Rightarrow> bytes" where
  "arp_to_bytes p =
     [ucast (drop_bit 8 (ap_hw_type p)), ucast (ap_hw_type p),
      ucast (drop_bit 8 (ap_proto_type p)), ucast (ap_proto_type p),
      ap_hw_len p, ap_proto_len p,
      ucast (drop_bit 8 (ap_opcode p)), ucast (ap_opcode p)] @
     mac_bytes (ap_sender_mac p) @ octets (ap_sender_ip p) @ mac_bytes (ap_target_mac p) @ octets (ap_target_ip p)"

definition arp_parse :: "bytes \<Rightarrow> arp_packet option" where
  "arp_parse data =
     (if length data < 28 then None
      else Some \<lparr>ap_hw_type = push_bit 8 (ucast (data ! 0)) OR ucast (data ! 1),
        ap_proto_type = push_bit 8 (ucast (data ! 2)) OR ucast (data ! 3),
        ap_hw_len = data ! 4, ap_proto_len = data ! 5,
        ap_opcode = push_bit 8 (ucast (data ! 6)) OR ucast (data ! 7),
        ap_sender_mac = mac_at data 8, ap_sender_ip = ip_at data 14,
        ap_target_mac = mac_at data 18, ap_target_ip = ip_at data 24\<rparr>)"

definition arp_to_ethernet_frame :: "arp_packet \<Rightarrow> mac_addr \<Rightarrow> bytes" where
  "arp_to_ethernet_frame p src_mac =
     eth_build (if ap_opcode p = ARP_OP_REQUEST then BROADCAST_MAC else ap_target_mac p) src_mac ETHERTYPE_ARP (arp_to_bytes p)"

section \<open>IPv4 headers (\<^verbatim>\<open>ip.rs\<close>)\<close>

record ipv4_header =
  ih_version_ihl :: u8
  ih_tos :: u8
  ih_total_length :: u16
  ih_identification :: u16
  ih_flags_fragment :: u16
  ih_ttl :: u8
  ih_protocol :: u8
  ih_checksum :: u16
  ih_src_addr :: ipv4_addr
  ih_dst_addr :: ipv4_addr

definition IP_SIZE :: nat where "IP_SIZE = 20"

definition ip_to_bytes :: "ipv4_header \<Rightarrow> bytes" where
  "ip_to_bytes h = [ih_version_ihl h, ih_tos h] @ be_bytes 2 (ih_total_length h) @ be_bytes 2 (ih_identification h) @
     be_bytes 2 (ih_flags_fragment h) @ [ih_ttl h, ih_protocol h] @ be_bytes 2 (ih_checksum h) @
     octets (ih_src_addr h) @ octets (ih_dst_addr h)"

definition ip_to_bytes_no_checksum :: "ipv4_header \<Rightarrow> bytes" where
  "ip_to_bytes_no_checksum h = (ip_to_bytes h)[10 := 0, 11 := 0]"

definition ip_compute_checksum :: "ipv4_header \<Rightarrow> u16" where
  "ip_compute_checksum h = internet_checksum (ip_to_bytes_no_checksum h)"

definition ip_new :: "ipv4_addr \<Rightarrow> ipv4_addr \<Rightarrow> u8 \<Rightarrow> u16 \<Rightarrow> ipv4_header" where
  "ip_new src dst proto payload_len =
     (let hdr = \<lparr>ih_version_ihl = 0x45, ih_tos = 0, ih_total_length = of_nat IP_SIZE + payload_len,
        ih_identification = 0, ih_flags_fragment = 0x4000, ih_ttl = 64, ih_protocol = proto, ih_checksum = 0,
        ih_src_addr = src, ih_dst_addr = dst\<rparr>
      in hdr\<lparr>ih_checksum := ip_compute_checksum hdr\<rparr>)"

definition ip_from_bytes :: "bytes \<Rightarrow> ipv4_header option" where
  "ip_from_bytes data =
     (if length data < IP_SIZE then None
      else Some \<lparr>ih_version_ihl = data ! 0, ih_tos = data ! 1, ih_total_length = from_be [data ! 2, data ! 3],
        ih_identification = from_be [data ! 4, data ! 5], ih_flags_fragment = from_be [data ! 6, data ! 7],
        ih_ttl = data ! 8, ih_protocol = data ! 9, ih_checksum = from_be [data ! 10, data ! 11],
        ih_src_addr = ip_at data 12, ih_dst_addr = ip_at data 16\<rparr>)"

definition ip_payload_len :: "ipv4_header \<Rightarrow> u16" where
  "ip_payload_len h = saturating_sub (ih_total_length h) (of_nat IP_SIZE)"

section \<open>UDP headers and packets (\<^verbatim>\<open>udp.rs\<close>)\<close>

record udp_header =
  uh_src_port :: u16
  uh_dst_port :: u16
  uh_length :: u16
  uh_checksum :: u16

definition UDP_SIZE :: nat where "UDP_SIZE = 8"

definition udp_new :: "u16 \<Rightarrow> u16 \<Rightarrow> u16 \<Rightarrow> udp_header" where
  "udp_new src_port dst_port data_len =
     \<lparr>uh_src_port = src_port, uh_dst_port = dst_port, uh_length = of_nat UDP_SIZE + data_len, uh_checksum = 0\<rparr>"

definition udp_to_bytes :: "udp_header \<Rightarrow> bytes" where
  "udp_to_bytes h =
     [ucast (drop_bit 8 (uh_src_port h)), ucast (uh_src_port h),
      ucast (drop_bit 8 (uh_dst_port h)), ucast (uh_dst_port h),
      ucast (drop_bit 8 (uh_length h)), ucast (uh_length h),
      ucast (drop_bit 8 (uh_checksum h)), ucast (uh_checksum h)]"

definition udp_from_bytes :: "bytes \<Rightarrow> udp_header option" where
  "udp_from_bytes data =
     (if length data < UDP_SIZE then None
      else Some \<lparr>uh_src_port = from_be [data ! 0, data ! 1], uh_dst_port = from_be [data ! 2, data ! 3],
        uh_length = from_be [data ! 4, data ! 5], uh_checksum = from_be [data ! 6, data ! 7]\<rparr>)"

text \<open>
  The buffer is a slice of the caller's; the result is the packet length, 0 if it does not
  fit. The length of the data is cut to 16 bits first, so longer data makes the copies panic.
\<close>

definition build_udp_packet :: "socket_addr \<Rightarrow> socket_addr \<Rightarrow> bytes \<Rightarrow> bytes \<Rightarrow> (nat \<times> bytes) run" where
  "build_udp_packet src dst data buf =
     (let data_len = of_nat (length data) :: u16;
          udp_len = of_nat UDP_SIZE + data_len;
          total = IP_SIZE + unat udp_len
      in if length buf < total then Some (0, buf)
         else do {
           buf \<leftarrow> copy_slice buf 0 IP_SIZE (ip_to_bytes (ip_new (sa_addr src) (sa_addr dst) 17 udp_len));
           let udp = udp_new (sa_port src) (sa_port dst) data_len;
           buf \<leftarrow> copy_slice buf IP_SIZE (IP_SIZE + UDP_SIZE) (udp_to_bytes udp);
           buf \<leftarrow> copy_slice buf (IP_SIZE + UDP_SIZE) total data;
           segment \<leftarrow> slice_of buf IP_SIZE total;
           let udp = udp\<lparr>uh_checksum := pseudo_header_checksum (sa_addr src) (sa_addr dst) 17 udp_len segment\<rparr>;
           buf \<leftarrow> copy_slice buf IP_SIZE (IP_SIZE + UDP_SIZE) (udp_to_bytes udp);
           Some (total, buf)
         })"

section \<open>TCP headers and packets (\<^verbatim>\<open>tcp.rs\<close>)\<close>

definition FIN :: u8 where "FIN = 0x01"
definition SYN :: u8 where "SYN = 0x02"
definition RST :: u8 where "RST = 0x04"
definition PSH :: u8 where "PSH = 0x08"
definition ACK :: u8 where "ACK = 0x10"

record tcp_header =
  th_src_port :: u16
  th_dst_port :: u16
  th_seq_num :: u32
  th_ack_num :: u32
  th_data_offset_flags :: u16
  th_window :: u16
  th_checksum :: u16
  th_urgent_ptr :: u16

definition TCP_SIZE :: nat where "TCP_SIZE = 20"

definition tcp_new :: "u16 \<Rightarrow> u16 \<Rightarrow> u32 \<Rightarrow> u32 \<Rightarrow> u8 \<Rightarrow> u16 \<Rightarrow> tcp_header" where
  "tcp_new src_port dst_port sq ak flags win =
     \<lparr>th_src_port = src_port, th_dst_port = dst_port, th_seq_num = sq, th_ack_num = ak,
      th_data_offset_flags = push_bit 12 5 OR ucast flags, th_window = win, th_checksum = 0, th_urgent_ptr = 0\<rparr>"

definition tcp_flags :: "tcp_header \<Rightarrow> u8" where
  "tcp_flags h = ucast (th_data_offset_flags h AND 0x3F)"

definition has_flag :: "tcp_header \<Rightarrow> u8 \<Rightarrow> bool" where
  "has_flag h flag \<longleftrightarrow> tcp_flags h AND flag \<noteq> 0"

definition tcp_to_bytes :: "tcp_header \<Rightarrow> bytes" where
  "tcp_to_bytes h = be_bytes 2 (th_src_port h) @ be_bytes 2 (th_dst_port h) @ be_bytes 4 (th_seq_num h) @
     be_bytes 4 (th_ack_num h) @ be_bytes 2 (th_data_offset_flags h) @ be_bytes 2 (th_window h) @
     be_bytes 2 (th_checksum h) @ be_bytes 2 (th_urgent_ptr h)"

definition tcp_from_bytes :: "bytes \<Rightarrow> tcp_header option" where
  "tcp_from_bytes data =
     (if length data < TCP_SIZE then None
      else Some \<lparr>th_src_port = from_be [data ! 0, data ! 1], th_dst_port = from_be [data ! 2, data ! 3],
        th_seq_num = from_be [data ! 4, data ! 5, data ! 6, data ! 7],
        th_ack_num = from_be [data ! 8, data ! 9, data ! 10, data ! 11],
        th_data_offset_flags = from_be [data ! 12, data ! 13], th_window = from_be [data ! 14, data ! 15],
        th_checksum = from_be [data ! 16, data ! 17], th_urgent_ptr = from_be [data ! 18, data ! 19]\<rparr>)"

definition build_tcp_packet ::
  "socket_addr \<Rightarrow> socket_addr \<Rightarrow> u32 \<Rightarrow> u32 \<Rightarrow> u8 \<Rightarrow> u16 \<Rightarrow> bytes \<Rightarrow> bytes \<Rightarrow> (nat \<times> bytes) run" where
  "build_tcp_packet src dst sq ak flags win data buf =
     (let tcp_len = TCP_SIZE + length data;
          total = IP_SIZE + tcp_len
      in if length buf < total then Some (0, buf)
         else do {
           buf \<leftarrow> copy_slice buf 0 IP_SIZE (ip_to_bytes (ip_new (sa_addr src) (sa_addr dst) 6 (of_nat tcp_len)));
           let tcp = tcp_new (sa_port src) (sa_port dst) sq ak flags win;
           buf \<leftarrow> copy_slice buf IP_SIZE (IP_SIZE + TCP_SIZE) (tcp_to_bytes tcp);
           buf \<leftarrow> (if data \<noteq> [] then copy_slice buf (IP_SIZE + TCP_SIZE) total data else Some buf);
           segment \<leftarrow> slice_of buf IP_SIZE total;
           let tcp = tcp\<lparr>th_checksum := pseudo_header_checksum (sa_addr src) (sa_addr dst) 6 (of_nat tcp_len) segment\<rparr>;
           buf \<leftarrow> copy_slice buf IP_SIZE (IP_SIZE + TCP_SIZE) (tcp_to_bytes tcp);
           Some (total, buf)
         })"

section \<open>Parsing inverts building\<close>

lemmas packet_sizes = IP_SIZE_def UDP_SIZE_def TCP_SIZE_def

lemma length_mac_bytes [simp]: "length (mac_bytes m) = 6"
  by (cases m) simp

lemma be16_bytes [simp]: "push_bit 8 (ucast (ucast (drop_bit 8 w) :: u8)) OR ucast (ucast w :: u8) = (w :: u16)"
  using from_be_bytes_16 [of w] by (simp only: from_be_2)

lemma length_to_bytes [simp]:
  "length (ip_to_bytes h) = IP_SIZE" "length (udp_to_bytes u) = UDP_SIZE" "length (tcp_to_bytes t) = TCP_SIZE"
  "length (arp_to_bytes p) = 28"
  by (simp_all add: ip_to_bytes_def udp_to_bytes_def tcp_to_bytes_def arp_to_bytes_def packet_sizes)

lemma eth_parse_build [simp]:
  "eth_parse (eth_build dst src t payload) =
     Some \<lparr>ef_dst_mac = dst, ef_src_mac = src, ef_ethertype = t, ef_payload = payload\<rparr>"
  by (cases dst; cases src) (simp add: eth_parse_def eth_build_def mac_at_def del: push_bit_of_nat)

lemma arp_parse_to_bytes [simp]: "arp_parse (arp_to_bytes p @ rest) = Some p"
  by (cases p; cases "ap_sender_mac p"; cases "ap_target_mac p"; cases "ap_sender_ip p"; cases "ap_target_ip p")
    (simp add: arp_parse_def arp_to_bytes_def mac_at_def ip_at_def)

lemma ip_from_to_bytes [simp]: "ip_from_bytes (ip_to_bytes h @ rest) = Some h"
  by (cases h; cases "ih_src_addr h"; cases "ih_dst_addr h")
    (simp add: ip_from_bytes_def ip_to_bytes_def ip_at_def packet_sizes)

lemma udp_from_to_bytes [simp]: "udp_from_bytes (udp_to_bytes h @ rest) = Some h"
  by (cases h) (simp add: udp_from_bytes_def udp_to_bytes_def packet_sizes)

lemma tcp_from_to_bytes [simp]: "tcp_from_bytes (tcp_to_bytes h @ rest) = Some h"
  by (cases h) (simp add: tcp_from_bytes_def tcp_to_bytes_def packet_sizes)

section \<open>What the builders write\<close>

lemma ip_new_simps [simp]:
  "ih_src_addr (ip_new src dst proto n) = src" "ih_dst_addr (ip_new src dst proto n) = dst"
  "ih_protocol (ip_new src dst proto n) = proto" "ih_total_length (ip_new src dst proto n) = of_nat IP_SIZE + n"
  by (simp_all add: ip_new_def Let_def)

lemma ip_new_verifies: "verify_checksum (ip_to_bytes (ip_new src dst proto n))"
proof -
  let ?xs = "[0x45, 0] @ be_bytes 2 (of_nat IP_SIZE + n) @ be_bytes 2 (0 :: u16) @ be_bytes 2 (0x4000 :: u16) @ [64, proto]"
  let ?ys = "octets src @ octets dst"
  have zero: "ip_to_bytes_no_checksum (ip_new src dst proto n) = ?xs @ 0 # 0 # ?ys"
    by (simp add: ip_to_bytes_no_checksum_def ip_to_bytes_def ip_new_def Let_def)
  have "ih_checksum (ip_new src dst proto n) = internet_checksum (?xs @ 0 # 0 # ?ys)"
    unfolding zero [symmetric]
    by (simp add: ip_new_def Let_def ip_compute_checksum_def ip_to_bytes_no_checksum_def ip_to_bytes_def)
  then have "verify_checksum (?xs @ be_bytes 2 (ih_checksum (ip_new src dst proto n)) @ ?ys)"
    by (rule checksum_field_verifies [rotated 2]) simp_all
  moreover have "ip_to_bytes (ip_new src dst proto n) = ?xs @ be_bytes 2 (ih_checksum (ip_new src dst proto n)) @ ?ys"
    by (simp add: ip_to_bytes_def ip_new_def Let_def)
  ultimately show ?thesis by simp
qed

text \<open>The segment written into a packet, and the packet.\<close>

definition udp_filled :: "socket_addr \<Rightarrow> socket_addr \<Rightarrow> bytes \<Rightarrow> udp_header" where
  "udp_filled src dst data =
     (let udp = udp_new (sa_port src) (sa_port dst) (of_nat (length data))
      in udp\<lparr>uh_checksum := pseudo_header_checksum (sa_addr src) (sa_addr dst) 17 (uh_length udp) (udp_to_bytes udp @ data)\<rparr>)"

definition udp_segment :: "socket_addr \<Rightarrow> socket_addr \<Rightarrow> bytes \<Rightarrow> bytes" where
  "udp_segment src dst data = udp_to_bytes (udp_filled src dst data) @ data"

definition udp_packet :: "socket_addr \<Rightarrow> socket_addr \<Rightarrow> bytes \<Rightarrow> bytes" where
  "udp_packet src dst data =
     ip_to_bytes (ip_new (sa_addr src) (sa_addr dst) 17 (of_nat (UDP_SIZE + length data))) @ udp_segment src dst data"

definition tcp_filled :: "socket_addr \<Rightarrow> socket_addr \<Rightarrow> u32 \<Rightarrow> u32 \<Rightarrow> u8 \<Rightarrow> u16 \<Rightarrow> bytes \<Rightarrow> tcp_header" where
  "tcp_filled src dst sq ak flags win data =
     (let tcp = tcp_new (sa_port src) (sa_port dst) sq ak flags win
      in tcp\<lparr>th_checksum := pseudo_header_checksum (sa_addr src) (sa_addr dst) 6
           (of_nat (TCP_SIZE + length data)) (tcp_to_bytes tcp @ data)\<rparr>)"

definition tcp_segment :: "socket_addr \<Rightarrow> socket_addr \<Rightarrow> u32 \<Rightarrow> u32 \<Rightarrow> u8 \<Rightarrow> u16 \<Rightarrow> bytes \<Rightarrow> bytes" where
  "tcp_segment src dst sq ak flags win data = tcp_to_bytes (tcp_filled src dst sq ak flags win data) @ data"

definition tcp_packet :: "socket_addr \<Rightarrow> socket_addr \<Rightarrow> u32 \<Rightarrow> u32 \<Rightarrow> u8 \<Rightarrow> u16 \<Rightarrow> bytes \<Rightarrow> bytes" where
  "tcp_packet src dst sq ak flags win data =
     ip_to_bytes (ip_new (sa_addr src) (sa_addr dst) 6 (of_nat (TCP_SIZE + length data))) @
     tcp_segment src dst sq ak flags win data"

lemma length_packets [simp]:
  "length (udp_segment src dst data) = UDP_SIZE + length data" "length (udp_packet src dst data) = 28 + length data"
  "length (tcp_segment src dst sq ak flags win data) = TCP_SIZE + length data"
  "length (tcp_packet src dst sq ak flags win data) = 40 + length data"
  by (simp_all add: udp_segment_def udp_packet_def tcp_segment_def tcp_packet_def Let_def packet_sizes)

lemma build_tcp_packet_spec:
  "40 + length data \<le> length buf \<Longrightarrow> build_tcp_packet src dst sq ak flags win data buf =
     Some (40 + length data, tcp_packet src dst sq ak flags win data @ drop (40 + length data) buf)"
  by (simp add: build_tcp_packet_def tcp_packet_def tcp_segment_def tcp_filled_def Let_def packet_sizes add.commute)

lemma build_tcp_packet_small:
  "length buf < 40 + length data \<Longrightarrow> build_tcp_packet src dst sq ak flags win data buf = Some (0, buf)"
  by (simp add: build_tcp_packet_def Let_def packet_sizes)

lemma build_udp_packet_spec:
  assumes "28 + length data \<le> length buf" "length data + 8 < 65536"
  shows "build_udp_packet src dst data buf = Some (28 + length data, udp_packet src dst data @ drop (28 + length data) buf)"
proof -
  have "unat (8 + of_nat (length data) :: u16) = 8 + length data"
    using unat_of_nat [of "8 + length data", where 'a = 16] assms(2) by simp
  then show ?thesis
    using assms(1) by (simp add: build_udp_packet_def udp_packet_def udp_segment_def udp_filled_def udp_new_def Let_def packet_sizes add.commute)
qed

lemma build_udp_packet_small:
  assumes "length buf < 28 + length data" "length data + 8 < 65536"
  shows "build_udp_packet src dst data buf = Some (0, buf)"
proof -
  have "unat (8 + of_nat (length data) :: u16) = 8 + length data"
    using unat_of_nat [of "8 + length data", where 'a = 16] assms(2) by simp
  then show ?thesis using assms(1) by (simp add: build_udp_packet_def Let_def packet_sizes)
qed

lemma udp_segment_verifies:
  assumes "length data \<le> 65535"
  shows "pseudo_header_checksum (sa_addr src) (sa_addr dst) 17 (of_nat (UDP_SIZE + length data)) (udp_segment src dst data) = 0"
proof -
  let ?len = "of_nat UDP_SIZE + of_nat (length data) :: u16"
  let ?xs = "be_bytes 2 (sa_port src) @ be_bytes 2 (sa_port dst) @ be_bytes 2 ?len"
  let ?c = "pseudo_header_checksum (sa_addr src) (sa_addr dst) 17 ?len (?xs @ 0 # 0 # data)"
  have "pseudo_header_checksum (sa_addr src) (sa_addr dst) 17 ?len (?xs @ be_bytes 2 ?c @ data) = 0"
    by (rule pseudo_field_verifies) (use assms in simp_all)
  then show ?thesis by (simp add: udp_segment_def udp_filled_def udp_to_bytes_def udp_new_def Let_def)
qed

lemma tcp_segment_verifies:
  assumes "length data \<le> 65535"
  shows "pseudo_header_checksum (sa_addr src) (sa_addr dst) 6 (of_nat (TCP_SIZE + length data))
    (tcp_segment src dst sq ak flags win data) = 0"
proof -
  let ?h = "tcp_new (sa_port src) (sa_port dst) sq ak flags win"
  let ?len = "of_nat (TCP_SIZE + length data) :: u16"
  let ?xs = "be_bytes 2 (sa_port src) @ be_bytes 2 (sa_port dst) @ be_bytes 4 sq @ be_bytes 4 ak @
    be_bytes 2 (th_data_offset_flags ?h) @ be_bytes 2 win"
  let ?c = "pseudo_header_checksum (sa_addr src) (sa_addr dst) 6 ?len (?xs @ 0 # 0 # be_bytes 2 (0 :: u16) @ data)"
  have "pseudo_header_checksum (sa_addr src) (sa_addr dst) 6 ?len (?xs @ be_bytes 2 ?c @ be_bytes 2 (0 :: u16) @ data) = 0"
    by (rule pseudo_field_verifies) (use assms in simp_all)
  then show ?thesis by (simp add: tcp_segment_def tcp_filled_def tcp_to_bytes_def tcp_new_def Let_def)
qed

lemma tcp_flags_new: "tcp_flags (tcp_new sp dp sq ak flags win) = flags AND 0x3F"
proof (rule bit_word_eqI)
  fix n assume n: "n < LENGTH(8)"
  have "(20480 :: u16) AND 63 = 0" by simp
  then have "\<not> (bit (20480 :: u16) n \<and> bit (63 :: u16) n)" by (metis bit_0_eq bit_and_iff bot_apply bot_bool_def)
  then show "bit (tcp_flags (tcp_new sp dp sq ak flags win)) n = bit (flags AND 63) n"
    using n by (auto simp: tcp_flags_def tcp_new_def bit_simps)
qed

lemma tcp_filled_simps [simp]:
  "th_src_port (tcp_filled src dst sq ak flags win data) = sa_port src"
  "th_dst_port (tcp_filled src dst sq ak flags win data) = sa_port dst"
  "th_seq_num (tcp_filled src dst sq ak flags win data) = sq"
  "th_ack_num (tcp_filled src dst sq ak flags win data) = ak"
  "th_window (tcp_filled src dst sq ak flags win data) = win"
  by (simp_all add: tcp_filled_def tcp_new_def Let_def)

lemma tcp_flags_filled [simp]:
  assumes "flags < 64" shows "tcp_flags (tcp_filled src dst sq ak flags win data) = flags"
proof -
  have "flags AND 0x3F = take_bit 6 flags" by (simp add: take_bit_eq_mask mask_eq_exp_minus_1)
  also have "\<dots> = flags"
  proof (rule unsigned_word_eqI)
    have "unat flags < 2 ^ 6" using assms by (simp add: word_less_nat_alt)
    then show "unat (take_bit 6 flags) = unat flags" by (simp only: unsigned_take_bit_eq take_bit_nat_eq_self)
  qed
  finally show ?thesis
    using tcp_flags_new [of "sa_port src" "sa_port dst" sq ak flags win] by (simp add: tcp_flags_def tcp_filled_def Let_def)
qed

lemma udp_filled_simps [simp]:
  "uh_src_port (udp_filled src dst data) = sa_port src" "uh_dst_port (udp_filled src dst data) = sa_port dst"
  "uh_length (udp_filled src dst data) = of_nat UDP_SIZE + of_nat (length data)"
  by (simp_all add: udp_filled_def udp_new_def Let_def)

lemma unat_lengths:
  "n < 65536 \<Longrightarrow> unat (of_nat n :: u16) = n"
  by (simp add: unat_of_nat)

lemma ip_lengths:
  assumes "20 + n < 65536"
  shows "unat (ih_total_length (ip_new src dst proto (of_nat n))) = 20 + n"
    "ip_payload_len (ip_new src dst proto (of_nat n)) = of_nat n"
proof -
  have "ih_total_length (ip_new src dst proto (of_nat n)) = of_nat (20 + n)" by (simp add: IP_SIZE_def)
  then show total: "unat (ih_total_length (ip_new src dst proto (of_nat n))) = 20 + n"
    using unat_lengths [OF assms] by (simp only:)
  have "unat (ip_payload_len (ip_new src dst proto (of_nat n))) = n"
    unfolding ip_payload_len_def unat_saturating_sub total by (simp add: IP_SIZE_def)
  then have "unat (ip_payload_len (ip_new src dst proto (of_nat n))) = unat (of_nat n :: u16)"
    using unat_lengths [of n] assms by simp
  then show "ip_payload_len (ip_new src dst proto (of_nat n)) = of_nat n" by (rule unsigned_word_eqI)
qed

text \<open>
  C12. A TCP packet that fits its buffer parses back to what it was built from: the IP header
  has the two addresses, protocol 6 and the length of the packet, the TCP header has the
  ports, numbers, flags and window, and the payload is the data. Both checksums verify.
\<close>

theorem tcp_packet_roundtrip:
  assumes "40 + length data \<le> length buf" "40 + length data < 65536" "flags < 64"
  shows "\<exists>pkt ip tcp. build_tcp_packet src dst sq ak flags win data buf =
      Some (40 + length data, pkt @ drop (40 + length data) buf) \<and>
    ip_from_bytes pkt = Some ip \<and> ih_src_addr ip = sa_addr src \<and> ih_dst_addr ip = sa_addr dst \<and>
    ih_protocol ip = 6 \<and> unat (ih_total_length ip) = length pkt \<and> verify_checksum (take IP_SIZE pkt) \<and>
    tcp_from_bytes (drop IP_SIZE pkt) = Some tcp \<and> th_src_port tcp = sa_port src \<and> th_dst_port tcp = sa_port dst \<and>
    th_seq_num tcp = sq \<and> th_ack_num tcp = ak \<and> tcp_flags tcp = flags \<and> th_window tcp = win \<and>
    drop (IP_SIZE + TCP_SIZE) pkt = data \<and>
    pseudo_header_checksum (sa_addr src) (sa_addr dst) 6 (ip_payload_len ip) (drop IP_SIZE pkt) = 0"
proof -
  have n: "20 + (TCP_SIZE + length data) < 65536" using assms(2) by (simp add: TCP_SIZE_def)
  have "pseudo_header_checksum (sa_addr src) (sa_addr dst) 6 (of_nat (TCP_SIZE + length data))
      (tcp_segment src dst sq ak flags win data) = 0"
    using tcp_segment_verifies [of data] assms(2) by simp
  then show ?thesis
    using assms(3) build_tcp_packet_spec [OF assms(1), of src dst sq ak flags win]
    by (intro exI [of _ "tcp_packet src dst sq ak flags win data"]
        exI [of _ "ip_new (sa_addr src) (sa_addr dst) 6 (of_nat (TCP_SIZE + length data))"]
        exI [of _ "tcp_filled src dst sq ak flags win data"] conjI)
      (simp_all add: tcp_packet_def tcp_segment_def ip_new_verifies ip_lengths [OF n, unfolded TCP_SIZE_def] packet_sizes del: of_nat_add ip_new_simps(4))
qed

theorem tcp_packet_roundtrip_witness:
  "\<exists>pkt tcp. build_tcp_packet SA_UNSPECIFIED SA_UNSPECIFIED 1000 0 SYN 4096 [1, 2, 3] (replicate 50 0) = Some (43, pkt @ replicate 7 0) \<and>
     tcp_from_bytes (drop IP_SIZE pkt) = Some tcp \<and> tcp_flags tcp = SYN \<and> drop (IP_SIZE + TCP_SIZE) pkt = [1, 2, 3]"
  using tcp_packet_roundtrip [of "[1, 2, 3]" "replicate 50 0" SYN SA_UNSPECIFIED SA_UNSPECIFIED 1000 0 4096]
  by (auto simp: SYN_def)

text \<open>
  The same holds of UDP datagrams, which are refused when they do not fit the buffer.
\<close>

theorem udp_packet_roundtrip:
  assumes "28 + length data < 65536"
  shows "build_udp_packet src dst data buf =
      Some (if length buf < 28 + length data then (0, buf)
        else (28 + length data, udp_packet src dst data @ drop (28 + length data) buf)) \<and>
    (\<exists>ip udp. ip_from_bytes (udp_packet src dst data) = Some ip \<and> ih_src_addr ip = sa_addr src \<and>
       ih_dst_addr ip = sa_addr dst \<and> ih_protocol ip = 17 \<and> unat (ih_total_length ip) = 28 + length data \<and>
       verify_checksum (take IP_SIZE (udp_packet src dst data)) \<and>
       udp_from_bytes (drop IP_SIZE (udp_packet src dst data)) = Some udp \<and>
       uh_src_port udp = sa_port src \<and> uh_dst_port udp = sa_port dst \<and> unat (uh_length udp) = 8 + length data \<and>
       drop (IP_SIZE + UDP_SIZE) (udp_packet src dst data) = data \<and>
       pseudo_header_checksum (sa_addr src) (sa_addr dst) 17 (ip_payload_len ip) (drop IP_SIZE (udp_packet src dst data)) = 0)"
proof -
  have n: "20 + (UDP_SIZE + length data) < 65536" using assms by (simp add: UDP_SIZE_def)
  have chk: "pseudo_header_checksum (sa_addr src) (sa_addr dst) 17 (of_nat (UDP_SIZE + length data)) (udp_segment src dst data) = 0"
    using udp_segment_verifies [of data] assms by simp
  have len: "unat (uh_length (udp_filled src dst data)) = 8 + length data"
    using unat_lengths [of "8 + length data"] assms by (simp add: UDP_SIZE_def)
  have "build_udp_packet src dst data buf =
      Some (if length buf < 28 + length data then (0, buf)
        else (28 + length data, udp_packet src dst data @ drop (28 + length data) buf))"
    using build_udp_packet_spec [of data buf src dst] build_udp_packet_small [of buf data src dst] assms by simp
  moreover have "ip_from_bytes (udp_packet src dst data) = Some (ip_new (sa_addr src) (sa_addr dst) 17 (of_nat (UDP_SIZE + length data)))"
    "udp_from_bytes (drop IP_SIZE (udp_packet src dst data)) = Some (udp_filled src dst data)"
    "drop (IP_SIZE + UDP_SIZE) (udp_packet src dst data) = data" "drop IP_SIZE (udp_packet src dst data) = udp_segment src dst data"
    "verify_checksum (take IP_SIZE (udp_packet src dst data))"
    by (simp_all add: udp_packet_def udp_segment_def ip_new_verifies del: of_nat_add)
  ultimately show ?thesis
    using chk len ip_lengths [OF n] by (simp del: of_nat_add ip_new_simps(4) udp_filled_simps(3)) (simp add: UDP_SIZE_def)
qed

theorem udp_packet_roundtrip_witness:
  "28 + length [7, 8 :: u8] < 65536 \<and>
   build_udp_packet SA_UNSPECIFIED SA_UNSPECIFIED [7, 8] (replicate 20 0) = Some (0, replicate 20 0) \<and>
   drop (IP_SIZE + UDP_SIZE) (udp_packet SA_UNSPECIFIED SA_UNSPECIFIED [7, 8]) = [7, 8]"
  using udp_packet_roundtrip [of "[7, 8]" SA_UNSPECIFIED SA_UNSPECIFIED "replicate 20 0"] by auto

text \<open>
  The length of a datagram is computed in 16 bits, and a length that wraps around makes the
  builder panic instead of refusing: with a buffer of at least 28 bytes, every datagram of 65528
  to 65536 bytes stops the kernel. The \<open>sendto\<close> system call lets these lengths through.
\<close>

theorem udp_oversize_panics:
  assumes "65528 \<le> length data" "length data \<le> 65536" "28 \<le> length buf"
  shows "build_udp_packet src dst data buf = None"
proof -
  have ul: "unat (of_nat UDP_SIZE + of_nat (length data) :: u16) = length data + 8 - 65536"
  proof -
    have "(of_nat UDP_SIZE + of_nat (length data) :: u16) = of_nat (length data + 8)" by (simp add: UDP_SIZE_def)
    moreover have "(length data + 8) mod 65536 = length data + 8 - 65536" using assms by (simp add: le_mod_geq)
    moreover have "unat (of_nat (length data + 8) :: u16) = (length data + 8) mod 65536"
      by (simp only: unat_of_nat) simp
    ultimately show ?thesis by (simp only:)
  qed
  define k where "k = length data + 8 - 65536"
  have k: "k \<le> 8" "length data = 65528 + k" using assms by (auto simp: k_def)
  show ?thesis
    using assms(3) k unfolding build_udp_packet_def Let_def ul k_def [symmetric]
    by (auto simp: packet_sizes copy_slice_def)
qed

theorem udp_oversize_panics_witness:
  "build_udp_packet SA_UNSPECIFIED SA_UNSPECIFIED (replicate 65530 0) (replicate 1500 0) = None"
  by (rule udp_oversize_panics) simp_all

text \<open>
  An ARP packet wrapped in an Ethernet frame is recovered from it, also when the wire padded
  the frame; requests go to the broadcast address. Frames and packets shorter than their headers
  are refused by every parser.
\<close>

theorem arp_frame_roundtrip:
  "(\<exists>f. eth_parse (arp_to_ethernet_frame p src @ pad) = Some f \<and> ef_ethertype f = ETHERTYPE_ARP \<and> ef_src_mac f = src \<and>
      ef_dst_mac f = (if ap_opcode p = ARP_OP_REQUEST then BROADCAST_MAC else ap_target_mac p) \<and>
      arp_parse (ef_payload f) = Some p) \<and>
   (eth_parse data = None \<longleftrightarrow> length data < 14) \<and> (arp_parse data = None \<longleftrightarrow> length data < 28) \<and>
   (ip_from_bytes data = None \<longleftrightarrow> length data < 20) \<and> (udp_from_bytes data = None \<longleftrightarrow> length data < 8) \<and>
   (tcp_from_bytes data = None \<longleftrightarrow> length data < 20)"
proof -
  have "arp_to_ethernet_frame p src @ pad = eth_build (if ap_opcode p = ARP_OP_REQUEST then BROADCAST_MAC else ap_target_mac p)
      src ETHERTYPE_ARP (arp_to_bytes p @ pad)"
    by (simp add: arp_to_ethernet_frame_def eth_build_def)
  then show ?thesis
    by (simp add: eth_parse_def [of data] arp_parse_def [of data] ip_from_bytes_def udp_from_bytes_def tcp_from_bytes_def packet_sizes)
qed

end
