(* ===== verification/Net_Buffers.thy ===== *)
theory Net_Buffers
  imports Fabric_Types Ring_Buffer
begin

text \<open>
  The buffers of the network stack: the byte ring of a socket (\<^verbatim>\<open>kernel/src/network/buffer.rs\<close>),
  a bounded byte stream, and the packet queue of the loopback device (\<^verbatim>\<open>loopback.rs\<close>), a
  bounded queue that also refuses packets above the MTU.
\<close>

section \<open>Byte ring (\<^verbatim>\<open>buffer.rs\<close>)\<close>

definition RING_BUF_SIZE :: nat where "RING_BUF_SIZE = 4096"

record byte_ring =
  rb_data :: bytes
  rb_read_pos :: nat
  rb_write_pos :: nat
  rb_len :: nat

definition rb_new :: byte_ring where
  "rb_new = \<lparr>rb_data = replicate RING_BUF_SIZE 0, rb_read_pos = 0, rb_write_pos = 0, rb_len = 0\<rparr>"

definition rb_is_empty :: "byte_ring \<Rightarrow> bool" where
  "rb_is_empty rb \<longleftrightarrow> rb_len rb = 0"

definition rb_is_full :: "byte_ring \<Rightarrow> bool" where
  "rb_is_full rb \<longleftrightarrow> rb_len rb = RING_BUF_SIZE"

definition rb_available :: "byte_ring \<Rightarrow> nat" where
  "rb_available rb = RING_BUF_SIZE - rb_len rb"

text \<open>The copying loops, from a position on.\<close>

fun rb_put :: "bytes \<Rightarrow> nat \<Rightarrow> bytes \<Rightarrow> (bytes \<times> nat) run" where
  "rb_put buf pos [] = Some (buf, pos)"
| "rb_put buf pos (b # bs) = do { buf' \<leftarrow> store_at buf pos b; rb_put buf' ((pos + 1) mod RING_BUF_SIZE) bs }"

fun rb_get :: "bytes \<Rightarrow> nat \<Rightarrow> nat \<Rightarrow> (bytes \<times> nat) run" where
  "rb_get buf pos 0 = Some ([], pos)"
| "rb_get buf pos (Suc n) = do {
     b \<leftarrow> index buf pos;
     (bs, pos') \<leftarrow> rb_get buf ((pos + 1) mod RING_BUF_SIZE) n;
     Some (b # bs, pos')
   }"

definition rb_write :: "byte_ring \<Rightarrow> bytes \<Rightarrow> (nat \<times> byte_ring) run" where
  "rb_write rb data = do {
     let to_write = min (length data) (rb_available rb);
     (buf, pos) \<leftarrow> rb_put (rb_data rb) (rb_write_pos rb) (take to_write data);
     Some (to_write, rb\<lparr>rb_data := buf, rb_write_pos := pos, rb_len := rb_len rb + to_write\<rparr>)
   }"

text \<open>The result of reading into \<open>out\<close>: how many bytes, the new contents of \<open>out\<close>, the ring.\<close>

definition rb_read :: "byte_ring \<Rightarrow> bytes \<Rightarrow> (nat \<times> bytes \<times> byte_ring) run" where
  "rb_read rb out = do {
     let to_read = min (length out) (rb_len rb);
     (bs, pos) \<leftarrow> rb_get (rb_data rb) (rb_read_pos rb) to_read;
     Some (to_read, bs @ drop to_read out, rb\<lparr>rb_read_pos := pos, rb_len := rb_len rb - to_read\<rparr>)
   }"

definition rb_peek :: "byte_ring \<Rightarrow> bytes \<Rightarrow> (nat \<times> bytes) run" where
  "rb_peek rb out = do {
     let to_peek = min (length out) (rb_len rb);
     (bs, pos) \<leftarrow> rb_get (rb_data rb) (rb_read_pos rb) to_peek;
     Some (to_peek, bs @ drop to_peek out)
   }"

definition rb_discard :: "byte_ring \<Rightarrow> nat \<Rightarrow> byte_ring" where
  "rb_discard rb n =
     (let to_discard = min n (rb_len rb)
      in rb\<lparr>rb_read_pos := (rb_read_pos rb + to_discard) mod RING_BUF_SIZE, rb_len := rb_len rb - to_discard\<rparr>)"

definition rb_clear :: "byte_ring \<Rightarrow> byte_ring" where
  "rb_clear rb = rb\<lparr>rb_read_pos := 0, rb_write_pos := 0, rb_len := 0\<rparr>"

section \<open>Loopback device (\<^verbatim>\<open>loopback.rs\<close>)\<close>

definition LOOPBACK_MTU :: nat where "LOOPBACK_MTU = 1500"
definition LOOPBACK_QUEUE_SIZE :: nat where "LOOPBACK_QUEUE_SIZE = 64"

record loopback_packet =
  lp_data :: bytes
  lp_len :: nat

definition lp_empty :: loopback_packet where
  "lp_empty = \<lparr>lp_data = replicate LOOPBACK_MTU 0, lp_len = 0\<rparr>"

record loopback =
  lo_packets :: "loopback_packet list"
  lo_head :: nat
  lo_tail :: nat
  lo_count :: nat

definition lo_new :: loopback where
  "lo_new = \<lparr>lo_packets = replicate LOOPBACK_QUEUE_SIZE lp_empty, lo_head = 0, lo_tail = 0, lo_count = 0\<rparr>"

definition lo_enqueue :: "loopback \<Rightarrow> bytes \<Rightarrow> (bool \<times> loopback) run" where
  "lo_enqueue lo data =
     (if lo_count lo \<ge> LOOPBACK_QUEUE_SIZE \<or> length data > LOOPBACK_MTU then Some (False, lo)
      else do {
        slot \<leftarrow> index (lo_packets lo) (lo_tail lo);
        buf \<leftarrow> copy_slice (lp_data slot) 0 (length data) data;
        packets \<leftarrow> store_at (lo_packets lo) (lo_tail lo) (slot\<lparr>lp_data := buf, lp_len := length data\<rparr>);
        Some (True, lo\<lparr>lo_packets := packets, lo_tail := (lo_tail lo + 1) mod LOOPBACK_QUEUE_SIZE,
          lo_count := lo_count lo + 1\<rparr>)
      })"

definition lo_dequeue :: "loopback \<Rightarrow> ((bytes \<times> nat) option \<times> loopback) run" where
  "lo_dequeue lo =
     (if lo_count lo = 0 then Some (None, lo)
      else do {
        slot \<leftarrow> index (lo_packets lo) (lo_head lo);
        data \<leftarrow> slice_of (lp_data slot) 0 (lp_len slot);
        buf \<leftarrow> copy_slice (replicate LOOPBACK_MTU 0) 0 (lp_len slot) data;
        Some (Some (buf, lp_len slot), lo\<lparr>lo_head := (lo_head lo + 1) mod LOOPBACK_QUEUE_SIZE,
          lo_count := lo_count lo - 1\<rparr>)
      })"

definition lo_queued :: "loopback \<Rightarrow> nat" where
  "lo_queued lo = lo_count lo"

definition lo_is_empty :: "loopback \<Rightarrow> bool" where
  "lo_is_empty lo \<longleftrightarrow> lo_count lo = 0"

definition lo_is_full :: "loopback \<Rightarrow> bool" where
  "lo_is_full lo \<longleftrightarrow> lo_count lo \<ge> LOOPBACK_QUEUE_SIZE"

section \<open>Byte streams\<close>

text \<open>
  A bounded byte stream: a write appends what fits, a read takes from the front, and bytes
  come out in the order in which they went in.
\<close>

locale byte_stream =
  fixes ok :: "'q \<Rightarrow> bool"
    and contents :: "'q \<Rightarrow> bytes"
    and capacity :: nat
    and wr :: "'q \<Rightarrow> bytes \<Rightarrow> (nat \<times> 'q) run"
    and rd :: "'q \<Rightarrow> bytes \<Rightarrow> (nat \<times> bytes \<times> 'q) run"
    and dis :: "'q \<Rightarrow> nat \<Rightarrow> 'q"
  assumes bound: "ok q \<Longrightarrow> length (contents q) \<le> capacity"
    and write_law: "ok q \<Longrightarrow> \<exists>q'. wr q xs = Some (min (length xs) (capacity - length (contents q)), q') \<and> ok q' \<and>
      contents q' = contents q @ take (capacity - length (contents q)) xs"
    and read_law: "ok q \<Longrightarrow> \<exists>q'. rd q out = Some (min (length out) (length (contents q)),
        take (length out) (contents q) @ drop (length (contents q)) out, q') \<and> ok q' \<and>
      contents q' = drop (length out) (contents q)"
    and discard_law: "ok q \<Longrightarrow> ok (dis q n) \<and> contents (dis q n) = drop n (contents q)"
begin

lemma write_fits:
  assumes "ok q" "length (contents q) + length xs \<le> capacity"
  shows "\<exists>q'. wr q xs = Some (length xs, q') \<and> ok q' \<and> contents q' = contents q @ xs"
  using write_law [OF assms(1), of xs] assms(2) by (auto simp: min_def)

lemma read_exact:
  assumes "ok q" "contents q = xs @ ys" "length out = length xs"
  shows "\<exists>q'. rd q out = Some (length xs, xs, q') \<and> ok q' \<and> contents q' = ys"
  using read_law [OF assms(1), of out] assms(2,3) by auto

end

datatype stream_op = Write bytes | Read bytes | Discard nat

text \<open>A history of a stream: the bytes it accepted, and the bytes that left it.\<close>

fun stream_run ::
  "('q \<Rightarrow> bytes \<Rightarrow> (nat \<times> 'q) run) \<Rightarrow> ('q \<Rightarrow> bytes \<Rightarrow> (nat \<times> bytes \<times> 'q) run) \<Rightarrow> ('q \<Rightarrow> nat \<Rightarrow> 'q) \<Rightarrow>
   ('q \<Rightarrow> bytes) \<Rightarrow> 'q \<Rightarrow> stream_op list \<Rightarrow> (bytes \<times> bytes \<times> 'q) run" where
  "stream_run w r d c q [] = Some ([], [], q)"
| "stream_run w r d c q (Write xs # ops) = do {
     (n, q') \<leftarrow> w q xs;
     (ins, outs, q'') \<leftarrow> stream_run w r d c q' ops;
     Some (take n xs @ ins, outs, q'')
   }"
| "stream_run w r d c q (Read out # ops) = do {
     (n, out', q') \<leftarrow> r q out;
     (ins, outs, q'') \<leftarrow> stream_run w r d c q' ops;
     Some (ins, take n out' @ outs, q'')
   }"
| "stream_run w r d c q (Discard k # ops) = do {
     (ins, outs, q'') \<leftarrow> stream_run w r d c (d q k) ops;
     Some (ins, take k (c q) @ outs, q'')
   }"

context byte_stream
begin

lemma run_stream:
  "ok q \<Longrightarrow> \<exists>ins outs q'. stream_run wr rd dis contents q ops = Some (ins, outs, q') \<and> ok q' \<and>
     contents q @ ins = outs @ contents q'"
proof (induction ops arbitrary: q)
  case (Cons c ops)
  show ?case
  proof (cases c)
    case (Write xs)
    obtain q1 where p: "wr q xs = Some (min (length xs) (capacity - length (contents q)), q1)" "ok q1"
      "contents q1 = contents q @ take (capacity - length (contents q)) xs"
      using write_law [OF Cons.prems] by blast
    obtain ins outs q2 where "stream_run wr rd dis contents q1 ops = Some (ins, outs, q2)" "ok q2"
      "contents q1 @ ins = outs @ contents q2"
      using Cons.IH [OF p(2)] by blast
    then show ?thesis using p Write by (auto simp: min_def split: if_splits)
  next
    case (Read out)
    obtain q1 where p: "rd q out = Some (min (length out) (length (contents q)),
        take (length out) (contents q) @ drop (length (contents q)) out, q1)" "ok q1"
      "contents q1 = drop (length out) (contents q)"
      using read_law [OF Cons.prems] by blast
    obtain ins outs q2 where "stream_run wr rd dis contents q1 ops = Some (ins, outs, q2)" "ok q2"
      "contents q1 @ ins = outs @ contents q2"
      using Cons.IH [OF p(2)] by blast
    moreover from this(3) p(3) have "contents q @ ins = take (length out) (contents q) @ outs @ contents q2"
      by (metis append.assoc append_take_drop_id)
    ultimately show ?thesis using p Read by (auto simp: min_def)
  next
    case (Discard k)
    have p: "ok (dis q k)" "contents (dis q k) = drop k (contents q)" using discard_law [OF Cons.prems] by auto
    obtain ins outs q2 where "stream_run wr rd dis contents (dis q k) ops = Some (ins, outs, q2)" "ok q2"
      "contents (dis q k) @ ins = outs @ contents q2"
      using Cons.IH [OF p(1)] by blast
    moreover from this(3) p(2) have "contents q @ ins = take k (contents q) @ outs @ contents q2"
      by (metis append.assoc append_take_drop_id)
    ultimately show ?thesis using Discard by auto
  qed
qed simp

end

section \<open>The byte ring is a stream\<close>

definition rb_ok :: "byte_ring \<Rightarrow> bool" where
  "rb_ok rb \<longleftrightarrow> ring_ok RING_BUF_SIZE (rb_data rb) (rb_read_pos rb) (rb_write_pos rb) (rb_len rb)"

definition rb_list :: "byte_ring \<Rightarrow> bytes" where
  "rb_list rb = ring_list (rb_data rb) (rb_read_pos rb) (rb_len rb)"

lemma rb_new_ok [simp]: "rb_ok rb_new" "rb_list rb_new = []"
  by (simp_all add: rb_ok_def rb_list_def rb_new_def ring_ok_def RING_BUF_SIZE_def)

lemma length_rb_list [simp]: "length (rb_list rb) = rb_len rb"
  by (simp add: rb_list_def)

lemma rb_put_spec:
  "ring_ok RING_BUF_SIZE buf h t n \<Longrightarrow> n + length bs \<le> RING_BUF_SIZE \<Longrightarrow>
   \<exists>buf' t'. rb_put buf t bs = Some (buf', t') \<and> ring_ok RING_BUF_SIZE buf' h t' (n + length bs) \<and>
     ring_list buf' h (n + length bs) = ring_list buf h n @ bs"
proof (induction bs arbitrary: buf t n)
  case (Cons b bs)
  have t: "t < length buf" using ring_ok_tail [OF Cons.prems(1)] .
  have "n < RING_BUF_SIZE" using Cons.prems(2) by simp
  note p = ring_push [OF Cons.prems(1) this, of b]
  obtain buf' t' where "rb_put (buf[t := b]) (Suc t mod RING_BUF_SIZE) bs = Some (buf', t')"
    "ring_ok RING_BUF_SIZE buf' h t' (Suc n + length bs)"
    "ring_list buf' h (Suc n + length bs) = ring_list (buf[t := b]) h (Suc n) @ bs"
    using Cons.IH [OF p(1)] Cons.prems(2) by auto
  then show ?case using t p(2) by simp
qed simp

lemma rb_get_spec:
  "ring_ok RING_BUF_SIZE buf h t n \<Longrightarrow> k \<le> n \<Longrightarrow>
   \<exists>h'. rb_get buf h k = Some (take k (ring_list buf h n), h') \<and> h' = (h + k) mod RING_BUF_SIZE \<and>
     ring_ok RING_BUF_SIZE buf h' t (n - k) \<and> ring_list buf h' (n - k) = drop k (ring_list buf h n)"
proof (induction k arbitrary: h n)
  case (Suc k)
  have h: "h < length buf" "length buf = RING_BUF_SIZE" using Suc.prems(1) by (auto simp: ring_ok_def)
  obtain m where m: "n = Suc m" using Suc.prems(2) by (cases n) auto
  note p = ring_pop [OF Suc.prems(1), unfolded m, simplified]
  obtain h' where "rb_get buf (Suc h mod RING_BUF_SIZE) k = Some (take k (ring_list buf (Suc h mod RING_BUF_SIZE) m), h')"
    "h' = (Suc h mod RING_BUF_SIZE + k) mod RING_BUF_SIZE" "ring_ok RING_BUF_SIZE buf h' t (m - k)"
    "ring_list buf h' (m - k) = drop k (ring_list buf (Suc h mod RING_BUF_SIZE) m)"
    using Suc.IH [OF p(1)] Suc.prems(2) m by auto
  then show ?case using h p(2) by (simp add: m mod_add_left_eq)
qed (simp add: ring_ok_def)

interpretation rb: byte_stream rb_ok rb_list RING_BUF_SIZE rb_write rb_read rb_discard
proof
  fix q :: byte_ring and xs out :: bytes and n
  assume ok: "rb_ok q"
  then have ring: "ring_ok RING_BUF_SIZE (rb_data q) (rb_read_pos q) (rb_write_pos q) (rb_len q)" by (simp add: rb_ok_def)
  show le: "length (rb_list q) \<le> RING_BUF_SIZE" using ring by (simp add: ring_ok_def)
  let ?k = "min (length xs) (rb_available q)"
  have k: "rb_len q + length (take ?k xs) \<le> RING_BUF_SIZE" "length (take ?k xs) = ?k" using le by (auto simp: rb_available_def)
  show "\<exists>q'. rb_write q xs = Some (min (length xs) (RING_BUF_SIZE - length (rb_list q)), q') \<and> rb_ok q' \<and>
      rb_list q' = rb_list q @ take (RING_BUF_SIZE - length (rb_list q)) xs"
    using rb_put_spec [OF ring k(1)] unfolding k(2)
    by (auto simp: rb_write_def rb_ok_def rb_list_def rb_available_def min_def Let_def)
  let ?r = "min (length out) (rb_len q)"
  show "\<exists>q'. rb_read q out = Some (min (length out) (length (rb_list q)),
        take (length out) (rb_list q) @ drop (length (rb_list q)) out, q') \<and> rb_ok q' \<and>
      rb_list q' = drop (length out) (rb_list q)"
    using rb_get_spec [OF ring, of ?r] by (auto simp: rb_read_def rb_ok_def rb_list_def min_def Let_def)
  show "rb_ok (rb_discard q n) \<and> rb_list (rb_discard q n) = drop n (rb_list q)"
    using rb_get_spec [OF ring, of "min n (rb_len q)"]
    by (auto simp: rb_discard_def rb_ok_def rb_list_def Let_def min_def)
qed

lemma rb_peek_spec:
  assumes "rb_ok rb"
  shows "rb_peek rb out = Some (min (length out) (rb_len rb), take (length out) (rb_list rb) @ drop (rb_len rb) out)"
  using rb_get_spec [of "rb_data rb" "rb_read_pos rb" "rb_write_pos rb" "rb_len rb" "min (length out) (rb_len rb)"] assms
  by (auto simp: rb_peek_def rb_ok_def rb_list_def min_def Let_def)

text \<open>
  C14. A socket buffer is a faithful bounded byte stream: in every history of writes, reads and
  discards, none of which panics, the bytes accepted are exactly the bytes that have left,
  followed by the bytes still buffered, in order, and at most 4096 bytes are buffered.
\<close>

theorem socket_buffer_is_stream:
  "\<exists>ins outs rb. stream_run rb_write rb_read rb_discard rb_list rb_new ops = Some (ins, outs, rb) \<and>
     ins = outs @ rb_list rb \<and> length (rb_list rb) \<le> RING_BUF_SIZE"
  using rb.run_stream [OF rb_new_ok(1), of ops] rb.bound by fastforce

section \<open>The loopback device is a queue\<close>

definition lo_ok :: "loopback \<Rightarrow> bool" where
  "lo_ok lo \<longleftrightarrow> ring_ok LOOPBACK_QUEUE_SIZE (lo_packets lo) (lo_head lo) (lo_tail lo) (lo_count lo) \<and>
     (\<forall>p \<in> set (lo_packets lo). length (lp_data p) = LOOPBACK_MTU \<and> lp_len p \<le> LOOPBACK_MTU)"

definition lp_bytes :: "loopback_packet \<Rightarrow> bytes" where
  "lp_bytes p = take (lp_len p) (lp_data p)"

definition lo_list :: "loopback \<Rightarrow> bytes list" where
  "lo_list lo = map lp_bytes (ring_list (lo_packets lo) (lo_head lo) (lo_count lo))"

text \<open>The part of a dequeued buffer that its receiver looks at.\<close>

definition lo_next :: "loopback \<Rightarrow> (bytes option \<times> loopback) run" where
  "lo_next lo = do { (r, lo') \<leftarrow> lo_dequeue lo; Some (map_option (\<lambda>(buf, n). take n buf) r, lo') }"

lemma lo_new_ok [simp]: "lo_ok lo_new" "lo_list lo_new = []"
  by (simp_all add: lo_ok_def lo_list_def lo_new_def ring_ok_def lp_empty_def LOOPBACK_QUEUE_SIZE_def)

lemma length_lo_list [simp]: "length (lo_list lo) = lo_count lo"
  by (simp add: lo_list_def)

lemma lo_enqueue_room:
  assumes "lo_ok lo" "lo_count lo < LOOPBACK_QUEUE_SIZE" "length data \<le> LOOPBACK_MTU"
  shows "\<exists>lo'. lo_enqueue lo data = Some (True, lo') \<and> lo_ok lo' \<and> lo_list lo' = lo_list lo @ [data]"
proof -
  have ring: "ring_ok LOOPBACK_QUEUE_SIZE (lo_packets lo) (lo_head lo) (lo_tail lo) (lo_count lo)"
    using assms(1) by (simp add: lo_ok_def)
  have t: "lo_tail lo < length (lo_packets lo)" using ring_ok_tail [OF ring] .
  let ?slot = "lo_packets lo ! lo_tail lo"
  have slot: "length (lp_data ?slot) = LOOPBACK_MTU" using assms(1) t by (simp add: lo_ok_def)
  let ?p = "?slot\<lparr>lp_data := data @ drop (length data) (lp_data ?slot), lp_len := length data\<rparr>"
  note p = ring_push [OF ring assms(2), of ?p]
  have "lp_bytes ?p = data" by (simp add: lp_bytes_def)
  moreover have "\<forall>q \<in> set ((lo_packets lo)[lo_tail lo := ?p]). length (lp_data q) = LOOPBACK_MTU \<and> lp_len q \<le> LOOPBACK_MTU"
    using assms(1,3) slot by (auto simp: lo_ok_def dest!: subsetD [OF set_update_subset_insert])
  ultimately show ?thesis
    using assms(2,3) t slot p by (simp add: lo_enqueue_def lo_ok_def lo_list_def)
qed

interpretation lo: guarded_fifo lo_ok lo_list LOOPBACK_QUEUE_SIZE lo_next "\<lambda>data. length data \<le> LOOPBACK_MTU" lo_enqueue
proof
  fix q :: loopback and x :: bytes and xs :: "bytes list"
  show "length (lo_list q) \<le> LOOPBACK_QUEUE_SIZE" if "lo_ok q" using that by (simp add: lo_ok_def ring_ok_def)
  show "lo_next q = Some (None, q)" if "lo_list q = []"
    using that by (simp add: lo_next_def lo_dequeue_def lo_list_def)
  show "\<exists>q'. lo_next q = Some (Some x, q') \<and> lo_ok q' \<and> lo_list q' = xs" if ok: "lo_ok q" and c: "lo_list q = x # xs"
  proof -
    have ring: "ring_ok LOOPBACK_QUEUE_SIZE (lo_packets q) (lo_head q) (lo_tail q) (lo_count q)"
      using ok by (simp add: lo_ok_def)
    have pos: "0 < lo_count q" using arg_cong [OF c, of length] by simp
    have h: "lo_head q < length (lo_packets q)" using ring by (simp add: ring_ok_def)
    have slot: "length (lp_data (lo_packets q ! lo_head q)) = LOOPBACK_MTU" "lp_len (lo_packets q ! lo_head q) \<le> LOOPBACK_MTU"
      using ok h by (auto simp: lo_ok_def)
    note p = ring_pop [OF ring pos]
    show ?thesis
      using p c ok slot h pos by (auto simp: lo_next_def lo_dequeue_def lo_list_def lo_ok_def lp_bytes_def)
  qed
  show "\<exists>q'. lo_enqueue q x = Some (True, q') \<and> lo_ok q' \<and> lo_list q' = lo_list q @ [x]"
    if "lo_ok q" "length (lo_list q) < LOOPBACK_QUEUE_SIZE" "length x \<le> LOOPBACK_MTU"
    using lo_enqueue_room [of q x] that by simp
  show "lo_enqueue q x = Some (False, q)" if "lo_ok q" "length (lo_list q) = LOOPBACK_QUEUE_SIZE \<or> \<not> length x \<le> LOOPBACK_MTU"
    using that by (auto simp: lo_enqueue_def)
qed

text \<open>
  The loopback device loses, duplicates and reorders nothing: in every history of sends and
  receives, none of which panics, the packets it accepted are those it delivered followed by
  those it still holds, and it holds at most 64.
\<close>

theorem loopback_is_queue:
  "\<exists>ins outs lo. queue_run lo_enqueue lo_next lo_new ops = Some (ins, outs, lo) \<and>
     ins = outs @ lo_list lo \<and> length (lo_list lo) \<le> LOOPBACK_QUEUE_SIZE"
  using lo.run_fifo [OF lo_new_ok(1), of ops] lo.bound by fastforce

end
