(* ===== verification/Net_Timer.thy ===== *)
theory Net_Timer
  imports Fabric_Types
begin

text \<open>
  TCP retransmission (\<^verbatim>\<open>kernel/src/network/tcp_timer.rs\<close>): the queue of unacknowledged
  segments of a socket with its estimate of the round-trip time.
\<close>

definition RTO_MIN_MS :: u32 where "RTO_MIN_MS = 200"
definition RTO_MAX_MS :: u32 where "RTO_MAX_MS = 60000"
definition MAX_RETRIES :: u8 where "MAX_RETRIES = 5"

record retransmit_entry =
  re_seq :: u32
  re_data :: bytes
  re_timestamp :: u64
  re_retries :: u8

record retransmit_queue =
  rq_entries :: "retransmit_entry list"
  rq_srtt_x8 :: u32
  rq_rttvar_x4 :: u32
  rq_rto :: u32

definition rq_new :: retransmit_queue where
  "rq_new = \<lparr>rq_entries = [], rq_srtt_x8 = 1000 * 8, rq_rttvar_x4 = 500 * 4, rq_rto = 1000\<rparr>"

definition rq_enqueue :: "retransmit_queue \<Rightarrow> u32 \<Rightarrow> bytes \<Rightarrow> u64 \<Rightarrow> retransmit_queue" where
  "rq_enqueue rq sq packet now = rq\<lparr>rq_entries := rq_entries rq @
     [\<lparr>re_seq = sq, re_data = packet, re_timestamp = now, re_retries = 0\<rparr>]\<rparr>"

definition wrapping_lt :: "u32 \<Rightarrow> u32 \<Rightarrow> bool" where
  "wrapping_lt a b = (let diff = b - a in diff > 0 \<and> diff < 0x80000000)"

definition update_rto :: "retransmit_queue \<Rightarrow> u32 \<Rightarrow> retransmit_queue" where
  "update_rto rq rtt_ms =
     (let r_x8 = rtt_ms * 8;
          srtt = rq_srtt_x8 rq div 8;
          diff = (if srtt > rtt_ms then srtt - rtt_ms else rtt_ms - srtt);
          rttvar_x4 = (rq_rttvar_x4 rq * 3 + diff * 4) div 4;
          srtt_x8 = (rq_srtt_x8 rq * 7 + r_x8) div 8;
          new_rto = srtt_x8 div 8 + rttvar_x4
      in rq\<lparr>rq_rttvar_x4 := rttvar_x4, rq_srtt_x8 := srtt_x8, rq_rto := clamp new_rto RTO_MIN_MS RTO_MAX_MS\<rparr>)"

text \<open>The \<open>retain\<close> loop: the entries kept, and the last round-trip sample taken on the way.\<close>

fun ack_scan :: "u32 \<Rightarrow> u64 \<Rightarrow> retransmit_entry list \<Rightarrow> u32 option \<Rightarrow> retransmit_entry list \<times> u32 option" where
  "ack_scan ack now [] sample = ([], sample)"
| "ack_scan ack now (e # es) sample =
     (if wrapping_lt (re_seq e) ack
      then ack_scan ack now es
        (if re_retries e = 0 then Some (ucast (saturating_sub now (re_timestamp e))) else sample)
      else case ack_scan ack now es sample of (es', sample') \<Rightarrow> (e # es', sample'))"

definition ack_received :: "retransmit_queue \<Rightarrow> u32 \<Rightarrow> u64 \<Rightarrow> retransmit_queue" where
  "ack_received rq ack_num now =
     (case ack_scan ack_num now (rq_entries rq) None of (es, sample) \<Rightarrow>
        let rq' = rq\<lparr>rq_entries := es\<rparr>
        in case sample of Some rtt \<Rightarrow> update_rto rq' rtt | None \<Rightarrow> rq')"

definition effective_rto :: "u32 \<Rightarrow> retransmit_entry \<Rightarrow> u32" where
  "effective_rto rto e = min (saturating_mul rto (push_bit (unat (min (re_retries e) 5)) 1)) RTO_MAX_MS"

definition timed_out :: "u32 \<Rightarrow> u64 \<Rightarrow> retransmit_entry \<Rightarrow> bool" where
  "timed_out rto now e \<longleftrightarrow> (ucast (saturating_sub now (re_timestamp e)) :: u32) \<ge> effective_rto rto e"

fun timeout_scan :: "u32 \<Rightarrow> u64 \<Rightarrow> retransmit_entry list \<Rightarrow> retransmit_entry list \<times> bytes list" where
  "timeout_scan rto now [] = ([], [])"
| "timeout_scan rto now (e # es) =
     (case timeout_scan rto now es of (es', resend) \<Rightarrow>
        if timed_out rto now e \<and> re_retries e < MAX_RETRIES
        then (e\<lparr>re_retries := re_retries e + 1, re_timestamp := now\<rparr> # es', re_data e # resend)
        else (e # es', resend))"

definition check_timeouts :: "retransmit_queue \<Rightarrow> u64 \<Rightarrow> bytes list \<times> retransmit_queue" where
  "check_timeouts rq now =
     (case timeout_scan (rq_rto rq) now (rq_entries rq) of (es, resend) \<Rightarrow> (resend, rq\<lparr>rq_entries := es\<rparr>))"

definition has_max_retries :: "retransmit_queue \<Rightarrow> bool" where
  "has_max_retries rq \<longleftrightarrow> (\<exists>e \<in> set (rq_entries rq). re_retries e \<ge> MAX_RETRIES)"

definition rq_clear :: "retransmit_queue \<Rightarrow> retransmit_queue" where
  "rq_clear rq = rq\<lparr>rq_entries := []\<rparr>"

definition srtt_ms :: "retransmit_queue \<Rightarrow> u32" where
  "srtt_ms rq = rq_srtt_x8 rq div 8"

definition rttvar_ms :: "retransmit_queue \<Rightarrow> u32" where
  "rttvar_ms rq = rq_rttvar_x4 rq div 4"

definition pending_count :: "retransmit_queue \<Rightarrow> nat" where
  "pending_count rq = length (rq_entries rq)"

definition rto_from_rtt :: "u32 \<Rightarrow> u32" where
  "rto_from_rtt rtt_ms = clamp (saturating_add rtt_ms (rtt_ms * 2)) RTO_MIN_MS RTO_MAX_MS"

section \<open>Sequence numbers\<close>

text \<open>
  The comparison is right for numbers less than half the sequence space apart, whatever
  wraps around in between.
\<close>

lemma wrapping_lt_offset:
  fixes una :: u32
  assumes "i < 2 ^ 31" "j < 2 ^ 31"
  shows "wrapping_lt (una + of_nat i) (una + of_nat j) \<longleftrightarrow> i < j"
proof -
  have d: "una + of_nat j - (una + of_nat i) = of_nat j - of_nat i" by simp
  show ?thesis
  proof (cases "i < j")
    case True
    then have "(of_nat j - of_nat i :: u32) = of_nat (j - i)" by (simp add: of_nat_diff)
    moreover have "unat (of_nat (j - i) :: u32) = j - i" using assms by (simp add: unat_of_nat)
    ultimately show ?thesis
      using True assms by (simp add: wrapping_lt_def d word_less_nat_alt)
  next
    case False
    have "(of_nat j - of_nat i :: u32) = (if i = j then 0 else of_nat (2 ^ 32 - (i - j)))"
      using False assms by (auto simp: of_nat_diff)
    moreover have "unat (of_nat (2 ^ 32 - (i - j)) :: u32) = 2 ^ 32 - (i - j)" if "i \<noteq> j"
      using False that by (simp add: unat_of_nat)
    ultimately show ?thesis
      using False assms by (auto simp: wrapping_lt_def d word_less_nat_alt)
  qed
qed

section \<open>Timeouts\<close>

datatype rq_op = Sent u32 bytes u64 | Acked u32 u64 | Checked u64 | Cleared

fun rq_step :: "rq_op \<Rightarrow> retransmit_queue \<Rightarrow> retransmit_queue" where
  "rq_step (Sent sq packet now) rq = rq_enqueue rq sq packet now"
| "rq_step (Acked ack now) rq = ack_received rq ack now"
| "rq_step (Checked now) rq = snd (check_timeouts rq now)"
| "rq_step Cleared rq = rq_clear rq"

definition rq_ok :: "retransmit_queue \<Rightarrow> bool" where
  "rq_ok rq \<longleftrightarrow> RTO_MIN_MS \<le> rq_rto rq \<and> rq_rto rq \<le> RTO_MAX_MS \<and> (\<forall>e \<in> set (rq_entries rq). re_retries e \<le> MAX_RETRIES)"

lemma rto_limits: "RTO_MIN_MS \<le> RTO_MAX_MS"
  by (simp add: RTO_MIN_MS_def RTO_MAX_MS_def)

lemma update_rto_simps [simp]:
  "rq_entries (update_rto rq rtt) = rq_entries rq"
  "RTO_MIN_MS \<le> rq_rto (update_rto rq rtt)" "rq_rto (update_rto rq rtt) \<le> RTO_MAX_MS"
  using clamp_bounds [OF rto_limits] by (simp_all add: update_rto_def Let_def)

lemma ack_scan_filter: "fst (ack_scan ack now es sample) = filter (\<lambda>e. \<not> wrapping_lt (re_seq e) ack) es"
  by (induction es arbitrary: sample) (auto simp: case_prod_beta)

lemma ack_scan_sample:
  "(\<And>e. e \<in> set es \<Longrightarrow> wrapping_lt (re_seq e) ack \<Longrightarrow> re_retries e \<noteq> 0) \<Longrightarrow> snd (ack_scan ack now es sample) = sample"
  by (induction es) (auto simp: case_prod_beta)

lemma ack_entries: "rq_entries (ack_received rq ack now) = filter (\<lambda>e. \<not> wrapping_lt (re_seq e) ack) (rq_entries rq)"
  using ack_scan_filter [of ack now "rq_entries rq" None]
  by (simp add: ack_received_def Let_def case_prod_beta split: option.split)

lemma retry_Suc: "(r :: u8) < MAX_RETRIES \<Longrightarrow> unat (r + 1) = Suc (unat r) \<and> r + 1 \<le> MAX_RETRIES"
  using unat_Suc_word [of r 5] by (simp add: MAX_RETRIES_def word_less_nat_alt word_le_nat_alt)

lemma timeout_scan_retries:
  "\<forall>e \<in> set es. re_retries e \<le> MAX_RETRIES \<Longrightarrow> \<forall>e \<in> set (fst (timeout_scan rto now es)). re_retries e \<le> MAX_RETRIES"
  by (induction es) (auto split: prod.split simp: retry_Suc)

lemma rq_ok_step: "rq_ok rq \<Longrightarrow> rq_ok (rq_step c rq)"
proof (cases c)
  case (Acked ack now)
  assume "rq_ok rq"
  then show ?thesis
    using ack_entries [of rq ack now] Acked
    by (auto simp: rq_ok_def ack_received_def Let_def split: prod.split option.split)
next
  case (Checked now)
  assume "rq_ok rq"
  then show ?thesis
    using timeout_scan_retries [of "rq_entries rq" "rq_rto rq" now] Checked
    by (auto simp: rq_ok_def check_timeouts_def split: prod.split)
qed (auto simp: rq_ok_def rq_enqueue_def rq_clear_def MAX_RETRIES_def)

lemma effective_rto_unat:
  assumes "rto \<le> RTO_MAX_MS"
  shows "unat (effective_rto rto e) = min (unat rto * 2 ^ min (unat (re_retries e)) 5) 60000"
proof -
  define k where "k = min (unat (re_retries e)) 5"
  have k: "k \<le> 5" "unat (min (re_retries e) 5) = k"
    by (simp_all add: k_def min_def word_le_nat_alt)
  have p: "(2 :: nat) ^ k \<le> 32" using power_increasing [of k 5 "2 :: nat"] k(1) by simp
  have sh: "unat (push_bit k 1 :: u32) = 2 ^ k"
    using p k(1) by (simp only: unsigned_push_bit_eq) (simp add: push_bit_eq_mult take_bit_nat_eq_self)
  have r: "unat rto \<le> 60000" using assms by (simp add: RTO_MAX_MS_def word_le_nat_alt)
  have "unat rto * 2 ^ k \<le> 60000 * 32" by (rule mult_le_mono [OF r p])
  then have lt: "unat rto * 2 ^ k < 2 ^ 32" by simp
  then have "saturating_mul rto (push_bit k 1) = rto * push_bit k 1"
    unfolding saturating_mul_def sh by simp
  moreover have "unat (rto * push_bit k 1) = unat rto * 2 ^ k"
    using unat_mult_lem [of rto "push_bit k 1"] lt unfolding sh by simp
  ultimately show ?thesis
    unfolding effective_rto_def k(2) k_def [symmetric] by (simp add: min_def word_le_nat_alt RTO_MAX_MS_def)
qed

text \<open>
  Whatever is sent, acknowledged and checked, and whatever the clock shows, the retransmission
  timeout of a socket stays between 200 ms and 60 s, the timeout of a segment doubles with each
  of its retransmissions up to that bound, and no segment is retransmitted more than five times.
\<close>

theorem timeouts_bounded:
  assumes "rq = fold rq_step ops rq_new" "e \<in> set (rq_entries rq)"
  shows "200 \<le> rq_rto rq \<and> rq_rto rq \<le> 60000 \<and> re_retries e \<le> 5 \<and>
    unat (effective_rto (rq_rto rq) e) = min (unat (rq_rto rq) * 2 ^ unat (re_retries e)) 60000 \<and>
    200 \<le> effective_rto (rq_rto rq) e"
proof -
  have "rq_ok rq0 \<Longrightarrow> rq_ok (fold rq_step ops rq0)" for rq0
    by (induction ops arbitrary: rq0) (simp_all add: rq_ok_step)
  moreover have "rq_ok rq_new" by (simp add: rq_ok_def rq_new_def RTO_MIN_MS_def RTO_MAX_MS_def)
  ultimately have ok: "rq_ok rq" using assms(1) by simp
  have r: "re_retries e \<le> 5" using ok assms(2) by (auto simp: rq_ok_def MAX_RETRIES_def)
  then have "min (unat (re_retries e)) 5 = unat (re_retries e)" by (simp add: word_le_nat_alt)
  then have eff: "unat (effective_rto (rq_rto rq) e) = min (unat (rq_rto rq) * 2 ^ unat (re_retries e)) 60000"
    using effective_rto_unat [of "rq_rto rq" e] ok by (simp add: rq_ok_def)
  have lo: "200 \<le> unat (rq_rto rq)" using ok by (simp add: rq_ok_def RTO_MIN_MS_def word_le_nat_alt)
  have "200 * 1 \<le> unat (rq_rto rq) * 2 ^ unat (re_retries e)" by (rule mult_le_mono [OF lo]) simp
  then have "200 \<le> unat (effective_rto (rq_rto rq) e)" using eff by simp
  then show ?thesis
    using ok r eff by (simp add: rq_ok_def RTO_MIN_MS_def RTO_MAX_MS_def word_le_nat_alt)
qed

theorem timeouts_bounded_witness:
  "\<exists>rq e. rq = fold rq_step [Sent 1000 [1] 0, Checked 1500, Checked 1600] rq_new \<and> e \<in> set (rq_entries rq) \<and>
     re_retries e \<le> 5 \<and> rq_rto rq \<le> 60000"
proof -
  let ?rq = "fold rq_step [Sent 1000 [1] 0, Checked 1500, Checked 1600] rq_new"
  have "rq_entries ?rq \<noteq> []"
    by (simp add: rq_new_def rq_enqueue_def check_timeouts_def case_prod_beta)
  then obtain e where e: "e \<in> set (rq_entries ?rq)" by (cases "rq_entries ?rq") auto
  show ?thesis using timeouts_bounded [OF refl e] e by blast
qed

section \<open>Acknowledgements\<close>

text \<open>
  An acknowledgement removes exactly the segments it covers and keeps the others in order,
  also when sequence numbers wrap around, as long as all are within half the sequence space
  of the oldest. If every segment it covers had been retransmitted, the estimate of the
  round-trip time and the timeout stay as they are (Karn's rule).
\<close>

theorem ack_removes_acknowledged:
  assumes "\<forall>e \<in> set (rq_entries rq). unat (re_seq e - una) < 2 ^ 31" "k < 2 ^ 31"
    and "rq' = ack_received rq (una + of_nat k) now"
  shows "rq_entries rq' = filter (\<lambda>e. k \<le> unat (re_seq e - una)) (rq_entries rq) \<and>
    ((\<forall>e \<in> set (rq_entries rq). unat (re_seq e - una) < k \<longrightarrow> re_retries e \<noteq> 0) \<longrightarrow>
     rq' = rq\<lparr>rq_entries := rq_entries rq'\<rparr>)"
proof -
  have lt: "wrapping_lt (re_seq e) (una + of_nat k) \<longleftrightarrow> unat (re_seq e - una) < k" if "e \<in> set (rq_entries rq)" for e
    using wrapping_lt_offset [of "unat (re_seq e - una)" k una] assms(1,2) that by simp
  have "rq_entries rq' = filter (\<lambda>e. k \<le> unat (re_seq e - una)) (rq_entries rq)"
    unfolding assms(3) ack_entries by (rule filter_cong) (simp_all add: lt not_less)
  moreover have "rq' = rq\<lparr>rq_entries := rq_entries rq'\<rparr>"
    if "\<forall>e \<in> set (rq_entries rq). unat (re_seq e - una) < k \<longrightarrow> re_retries e \<noteq> 0"
  proof -
    have "snd (ack_scan (una + of_nat k) now (rq_entries rq) None) = None"
      by (rule ack_scan_sample) (use that lt in auto)
    then show ?thesis by (simp add: assms(3) ack_received_def Let_def case_prod_beta)
  qed
  ultimately show ?thesis by blast
qed

theorem ack_removes_acknowledged_witness:
  "rq_entries (ack_received (rq_enqueue (rq_enqueue rq_new 0xFFFFFFFF [1] 0) 9 [2] 0) 5 0) =
     [\<lparr>re_seq = 9, re_data = [2], re_timestamp = 0, re_retries = 0\<rparr>]"
proof -
  have "(0xFFFFFFFF + of_nat 6 :: u32) = 5" by simp
  from ack_removes_acknowledged [of "rq_enqueue (rq_enqueue rq_new 0xFFFFFFFF [1] 0) 9 [2] 0" "0xFFFFFFFF" 6 _ 0, OF _ _ refl, unfolded this]
  show ?thesis by (simp add: rq_enqueue_def rq_new_def)
qed

section \<open>Giving up\<close>

text \<open>A sequence of checks: what each of them sends again, and the queue at the end.\<close>

fun check_run :: "retransmit_queue \<Rightarrow> u64 list \<Rightarrow> bytes list list \<times> retransmit_queue" where
  "check_run rq [] = ([], rq)"
| "check_run rq (now # ts) =
     (case check_timeouts rq now of (resend, rq') \<Rightarrow>
        case check_run rq' ts of (later, rq'') \<Rightarrow> (resend # later, rq''))"

text \<open>Clock readings a minute or more apart, but less than the 32-bit range of the elapsed time.\<close>

fun spaced :: "u64 \<Rightarrow> u64 list \<Rightarrow> bool" where
  "spaced t [] = True"
| "spaced t (now # ts) \<longleftrightarrow> unat t + 60000 \<le> unat now \<and> unat now < unat t + 2 ^ 32 \<and> spaced now ts"

lemma spaced_timed_out:
  assumes "unat (re_timestamp e) + 60000 \<le> unat now" "unat now < unat (re_timestamp e) + 2 ^ 32" "rto \<le> RTO_MAX_MS"
  shows "timed_out rto now e"
proof -
  have "unat (saturating_sub now (re_timestamp e)) = unat now - unat (re_timestamp e)" by (rule unat_saturating_sub)
  moreover have "unat now - unat (re_timestamp e) < 2 ^ 32" using assms(1,2) by linarith
  ultimately have "unat (ucast (saturating_sub now (re_timestamp e)) :: u32) = unat now - unat (re_timestamp e)"
    by (simp add: unsigned_ucast_eq take_bit_nat_eq_self)
  then show ?thesis
    using assms effective_rto_unat [OF assms(3), of e] by (simp add: timed_out_def word_le_nat_alt)
qed

text \<open>What a check does to a segment once its timeout has passed.\<close>

definition resent :: "u64 \<Rightarrow> retransmit_entry \<Rightarrow> retransmit_entry" where
  "resent now e = (if unat (re_retries e) < 5 then e\<lparr>re_retries := re_retries e + 1, re_timestamp := now\<rparr> else e)"

lemma timeout_scan_all:
  assumes "\<forall>e \<in> set es. unat (re_retries e) < 5 \<longrightarrow> timed_out rto now e"
  shows "timeout_scan rto now es = (map (resent now) es, map re_data (filter (\<lambda>e. unat (re_retries e) < 5) es))"
  using assms by (induction es) (auto simp: resent_def MAX_RETRIES_def word_less_nat_alt)

lemma check_run_all:
  assumes "rq_rto rq \<le> RTO_MAX_MS" and "\<forall>e \<in> set (rq_entries rq). unat (re_retries e) < 5 \<longrightarrow> spaced (re_timestamp e) ts"
  shows "fst (check_run rq ts) =
      map (\<lambda>i. map re_data (filter (\<lambda>e. unat (re_retries e) + i < 5) (rq_entries rq))) [0..<length ts] \<and>
    (has_max_retries (snd (check_run rq ts)) \<longleftrightarrow> (\<exists>e \<in> set (rq_entries rq). 5 \<le> unat (re_retries e) + length ts))"
  using assms
proof (induction ts arbitrary: rq)
  case Nil
  then show ?case by (simp add: has_max_retries_def MAX_RETRIES_def word_le_nat_alt)
next
  case (Cons now ts)
  define es where "es = rq_entries rq"
  define rq' where "rq' = rq\<lparr>rq_entries := map (resent now) es\<rparr>"
  have "\<forall>e \<in> set es. unat (re_retries e) < 5 \<longrightarrow> timed_out (rq_rto rq) now e"
    using Cons.prems spaced_timed_out by (simp add: es_def)
  then have now: "check_timeouts rq now = (map re_data (filter (\<lambda>e. unat (re_retries e) < 5) es), rq')"
    by (simp add: check_timeouts_def timeout_scan_all es_def rq'_def)
  have count: "unat (re_retries (resent now e)) = (if unat (re_retries e) < 5 then unat (re_retries e) + 1 else unat (re_retries e))" for e
    using retry_Suc [of "re_retries e"] by (simp add: resent_def MAX_RETRIES_def word_less_nat_alt)
  have data: "re_data (resent now e) = re_data e" for e by (simp add: resent_def)
  have later: "unat (re_retries (resent now e)) + i < 5 \<longleftrightarrow> unat (re_retries e) + Suc i < 5"
    "5 \<le> unat (re_retries (resent now e)) + length ts \<longleftrightarrow> 5 \<le> unat (re_retries e) + Suc (length ts)" for e i
    by (auto simp: count)
  have "fst (check_run rq' ts) =
      map (\<lambda>i. map re_data (filter (\<lambda>e. unat (re_retries e) + i < 5) (rq_entries rq'))) [0..<length ts] \<and>
    (has_max_retries (snd (check_run rq' ts)) \<longleftrightarrow> (\<exists>e \<in> set (rq_entries rq'). 5 \<le> unat (re_retries e) + length ts))"
  proof (rule Cons.IH)
    show "\<forall>e \<in> set (rq_entries rq'). unat (re_retries e) < 5 \<longrightarrow> spaced (re_timestamp e) ts"
      using Cons.prems(2) by (auto simp: rq'_def es_def resent_def)
  qed (use Cons.prems(1) in \<open>simp add: rq'_def\<close>)
  moreover have "map re_data (filter (\<lambda>e. unat (re_retries e) + i < 5) (rq_entries rq')) =
      map re_data (filter (\<lambda>e. unat (re_retries e) + Suc i < 5) es)" for i
    by (simp add: rq'_def filter_map o_def later(1) data)
  moreover have "[0..<length (now # ts)] = 0 # map Suc [0..<length ts]" by (simp add: map_Suc_upt upt_conv_Cons del: upt_Suc)
  ultimately show ?case
    using now by (auto simp: case_prod_beta rq'_def later(2) es_def [symmetric] o_def simp del: upt_Suc)
qed

lemma rq_ok_history: "rq_ok (fold rq_step ops rq_new)"
proof -
  have "rq_ok rq \<Longrightarrow> rq_ok (fold rq_step ops rq)" for rq
    by (induction ops arbitrary: rq) (simp_all add: rq_ok_step)
  moreover have "rq_ok rq_new" by (simp add: rq_ok_def rq_new_def RTO_MIN_MS_def RTO_MAX_MS_def)
  ultimately show ?thesis by blast
qed

text \<open>
  C16. Unacknowledged segments are given up in the end. In a queue with any number of segments, left by any
  history of sends, acknowledgements and checks, let checks follow that come a minute or more (and less than
  \<open>2 ^ 32\<close> ms) after the last transmission of a segment and after each other. Then each
  check sends again, in order, exactly the segments that have been sent again fewer than five times by
  then, and afterwards the queue reports that it gives up exactly if some segment has reached five.
\<close>

theorem unacknowledged_gives_up:
  assumes "rq = fold rq_step ops rq_new" and "\<forall>e \<in> set (rq_entries rq). spaced (re_timestamp e) ts"
  shows "fst (check_run rq ts) =
      map (\<lambda>i. map re_data (filter (\<lambda>e. unat (re_retries e) + i < 5) (rq_entries rq))) [0..<length ts] \<and>
    (has_max_retries (snd (check_run rq ts)) \<longleftrightarrow> (\<exists>e \<in> set (rq_entries rq). 5 \<le> unat (re_retries e) + length ts))"
  using check_run_all [of rq ts] rq_ok_history [of ops] assms by (simp add: rq_ok_def)

text \<open>Two segments, the first of which has been sent again once.\<close>

theorem unacknowledged_gives_up_witness:
  "fst (check_run (fold rq_step [Sent 7 [1, 2] 0, Checked 1500, Sent 9 [3] 2000] rq_new) [70000, 140000, 210000, 280000, 350000]) =
     [[[1, 2], [3]], [[1, 2], [3]], [[1, 2], [3]], [[1, 2], [3]], [[3]]]"
proof -
  define rq where "rq = fold rq_step [Sent 7 [1, 2] 0, Checked 1500, Sent 9 [3] 2000] rq_new"
  have es: "rq_entries rq = [\<lparr>re_seq = 7, re_data = [1, 2], re_timestamp = 1500, re_retries = 1\<rparr>,
      \<lparr>re_seq = 9, re_data = [3], re_timestamp = 2000, re_retries = 0\<rparr>]"
    by (simp add: rq_def rq_new_def rq_enqueue_def check_timeouts_def timed_out_def effective_rto_def saturating_sub_def
        saturating_mul_def MAX_RETRIES_def RTO_MAX_MS_def)
  have "fst (check_run rq [70000, 140000, 210000, 280000, 350000]) =
      map (\<lambda>i. map re_data (filter (\<lambda>e. unat (re_retries e) + i < 5) (rq_entries rq))) [0..<length [70000, 140000, 210000, 280000, 350000 :: u64]]"
    by (rule unacknowledged_gives_up [OF rq_def, THEN conjunct1]) (simp add: es)
  then show ?thesis unfolding rq_def [symmetric] by (simp add: es upt_rec del: check_run.simps)
qed

end
