(* ===== verification/Net_Socket.thy ===== *)
theory Net_Socket
  imports Net_Addr Net_Buffers Net_Timer
begin

text \<open>
  The socket table (\<^verbatim>\<open>kernel/src/network/socket.rs\<close>): 256 slots, addressed by identifiers that
  carry a slot and the generation of its occupant.
\<close>

section \<open>Sockets\<close>

definition MAX_SOCKETS :: nat where "MAX_SOCKETS = 256"
definition MAX_BACKLOG :: nat where "MAX_BACKLOG = 8"

type_synonym socket_id = u32

definition SID_INVALID :: socket_id where "SID_INVALID = 0xFFFFFFFF"

definition sid_slot :: "socket_id \<Rightarrow> u8" where
  "sid_slot i = ucast (i AND 0xFF)"

definition sid_generation :: "socket_id \<Rightarrow> u16" where
  "sid_generation i = ucast (drop_bit 8 i AND 0xFFFF)"

definition sid_pack :: "u8 \<Rightarrow> u16 \<Rightarrow> socket_id" where
  "sid_pack slot gen = ucast slot OR push_bit 8 (ucast gen)"

datatype socket_state =
    Closed | Bound | Listen | SynSent | SynReceived | Established | FinWait1 | FinWait2 | CloseWait | LastAck | TimeWait | Closing

datatype socket_error =
    NotFound | InvalidState | AddressInUse | ConnectionRefused | NotConnected | WouldBlock | BufferFull | TooManySockets
  | InvalidArgument | NotBound

record socket =
  sk_active :: bool
  sk_generation :: u16
  sk_sock_type :: socket_type
  sk_protocol :: protocol
  sk_local_addr :: socket_addr
  sk_remote_addr :: socket_addr
  sk_state :: socket_state
  sk_owner :: process_id
  sk_rx :: byte_ring
  sk_tx :: byte_ring
  sk_send_seq :: u32
  sk_send_ack :: u32
  sk_recv_seq :: u32
  sk_recv_window :: u16
  sk_send_window :: u16
  sk_retransmit :: "retransmit_queue option"
  sk_backlog :: "socket_id list"
  sk_backlog_count :: nat

definition socket_empty :: socket where
  "socket_empty = \<lparr>sk_active = False, sk_generation = 0, sk_sock_type = Stream, sk_protocol = Tcp,
     sk_local_addr = SA_UNSPECIFIED, sk_remote_addr = SA_UNSPECIFIED, sk_state = Closed, sk_owner = PID_KERNEL,
     sk_rx = rb_new, sk_tx = rb_new, sk_send_seq = 0, sk_send_ack = 0, sk_recv_seq = 0, sk_recv_window = 4096,
     sk_send_window = 4096, sk_retransmit = None, sk_backlog = replicate MAX_BACKLOG SID_INVALID, sk_backlog_count = 0\<rparr>"

definition socket_reset :: "socket \<Rightarrow> socket" where
  "socket_reset s = socket_empty\<lparr>sk_generation := sk_generation s\<rparr>"

section \<open>The table\<close>

type_synonym socket_table = "socket list"

definition table_new :: socket_table where
  "table_new = replicate MAX_SOCKETS socket_empty"

text \<open>The occupant that \<open>alloc\<close> puts into a slot of generation \<open>gen\<close>.\<close>

definition new_socket :: "socket_type \<Rightarrow> protocol \<Rightarrow> process_id \<Rightarrow> u16 \<Rightarrow> socket" where
  "new_socket ty proto own gen = socket_empty\<lparr>sk_active := True, sk_generation := gen, sk_sock_type := ty,
     sk_protocol := proto, sk_owner := own, sk_retransmit := (if proto = Tcp then Some rq_new else None)\<rparr>"

definition socket_alloc :: "socket_table \<Rightarrow> socket_type \<Rightarrow> protocol \<Rightarrow> process_id \<Rightarrow> (socket_error + socket_id) \<times> socket_table" where
  "socket_alloc t ty proto own =
     (case find_slot (\<lambda>s. \<not> sk_active s) t of
        None \<Rightarrow> (Inl TooManySockets, t)
      | Some slot \<Rightarrow>
          let gen = sk_generation (t ! slot) + 1
          in (Inr (sid_pack (of_nat slot) gen), t[slot := new_socket ty proto own gen]))"

definition sock_get :: "socket_table \<Rightarrow> socket_id \<Rightarrow> socket option" where
  "sock_get t i =
     (let slot = unat (sid_slot i)
      in if slot \<ge> MAX_SOCKETS then None
         else if sk_active (t ! slot) \<and> sk_generation (t ! slot) = sid_generation i then Some (t ! slot) else None)"

text \<open>What is left in the table after changing the socket that \<open>get_mut\<close> returned.\<close>

definition sock_put :: "socket_table \<Rightarrow> socket_id \<Rightarrow> socket \<Rightarrow> socket_table" where
  "sock_put t i s = t[unat (sid_slot i) := s]"

definition socket_release :: "socket_table \<Rightarrow> socket_id \<Rightarrow> (socket_error + unit) \<times> socket_table" where
  "socket_release t i =
     (let slot = unat (sid_slot i)
      in if slot \<ge> MAX_SOCKETS then (Inl NotFound, t)
         else if \<not> sk_active (t ! slot) \<or> sk_generation (t ! slot) \<noteq> sid_generation i then (Inl NotFound, t)
         else (Inr (), t[slot := (t ! slot)\<lparr>sk_active := False\<rparr>]))"

definition slot_id :: "socket_table \<Rightarrow> nat \<Rightarrow> socket_id" where
  "slot_id t slot = sid_pack (of_nat slot) (sk_generation (t ! slot))"

definition find_by_local :: "socket_table \<Rightarrow> socket_addr \<Rightarrow> protocol \<Rightarrow> socket_id option" where
  "find_by_local t addr proto =
     map_option (slot_id t) (find_slot (\<lambda>s. sk_active s \<and> sk_protocol s = proto \<and>
       (sk_local_addr s = addr \<or> ip_is_unspecified (sa_addr (sk_local_addr s)) \<and> sa_port (sk_local_addr s) = sa_port addr)) t)"

definition find_tcp_connection :: "socket_table \<Rightarrow> socket_addr \<Rightarrow> socket_addr \<Rightarrow> socket_id option" where
  "find_tcp_connection t lcl rmt =
     map_option (slot_id t) (find_slot (\<lambda>s. sk_active s \<and> sk_protocol s = Tcp \<and>
       (sk_local_addr s = lcl \<or> ip_is_unspecified (sa_addr (sk_local_addr s)) \<and> sa_port (sk_local_addr s) = sa_port lcl) \<and>
       sk_remote_addr s = rmt) t)"

definition find_listener :: "socket_table \<Rightarrow> u16 \<Rightarrow> socket_id option" where
  "find_listener t port =
     map_option (slot_id t) (find_slot (\<lambda>s. sk_active s \<and> sk_protocol s = Tcp \<and> sk_state s = Listen \<and>
       sa_port (sk_local_addr s) = port) t)"

definition cleanup_by_owner :: "socket_table \<Rightarrow> process_id \<Rightarrow> socket_table" where
  "cleanup_by_owner t pid = map (\<lambda>s. if sk_active s \<and> sk_owner s = pid then s\<lparr>sk_active := False\<rparr> else s) t"

definition port_in_use :: "socket_table \<Rightarrow> u16 \<Rightarrow> protocol \<Rightarrow> bool" where
  "port_in_use t port proto \<longleftrightarrow> list_ex (\<lambda>s. sk_active s \<and> sk_protocol s = proto \<and> sa_port (sk_local_addr s) = port) t"

definition socket_count :: "socket_table \<Rightarrow> nat" where
  "socket_count t = length (filter sk_active t)"

section \<open>Identifiers\<close>

lemma and_0xFF: "w AND 0xFF = take_bit 8 (w :: 'a::len word)"
  by (simp add: take_bit_eq_mask mask_eq_exp_minus_1)

lemma and_0xFFFF: "w AND 0xFFFF = take_bit 16 (w :: 'a::len word)"
  by (simp add: take_bit_eq_mask mask_eq_exp_minus_1)

lemma sid_slot_pack [simp]: "sid_slot (sid_pack slot gen) = slot"
  unfolding sid_slot_def sid_pack_def and_0xFF by (rule bit_word_eqI) (auto simp: bit_simps)

lemma sid_generation_pack [simp]: "sid_generation (sid_pack slot gen) = gen"
  unfolding sid_generation_def sid_pack_def and_0xFFFF
  by (rule bit_word_eqI) (auto simp: bit_simps dest: bit_imp_le_length)

lemma unat_slot [simp]: "slot < MAX_SOCKETS \<Longrightarrow> unat (of_nat slot :: u8) = slot"
  by (simp add: MAX_SOCKETS_def unat_of_nat)

lemma sid_slot_less [simp]: "unat (sid_slot i) < MAX_SOCKETS"
  using unat_bound [of "sid_slot i"] by (simp add: MAX_SOCKETS_def)

lemma sock_get_eq:
  "sock_get t i = (let s = t ! unat (sid_slot i) in if sk_active s \<and> sk_generation s = sid_generation i then Some s else None)"
  using sid_slot_less [of i] by (simp add: sock_get_def Let_def not_le [symmetric])

lemma sock_get_slot [simp]: "i < MAX_SOCKETS \<Longrightarrow> sk_active (t ! i) \<Longrightarrow> sock_get t (slot_id t i) = Some (t ! i)"
  by (simp add: sock_get_eq slot_id_def Let_def)

lemma sock_get_put:
  "length t = MAX_SOCKETS \<Longrightarrow> sock_get (sock_put t i s) j =
     (if sid_slot j = sid_slot i then (if sk_active s \<and> sk_generation s = sid_generation j then Some s else None) else sock_get t j)"
  using sid_slot_less [of i] by (auto simp: sock_get_eq sock_put_def Let_def nth_list_update word_unat_eq_iff)

lemma length_sock_put [simp]: "length (sock_put t i s) = length t"
  by (simp add: sock_put_def)

lemma socket_alloc_cases:
  assumes "length t = MAX_SOCKETS"
  obtains (full) "socket_alloc t ty proto own = (Inl TooManySockets, t)" "\<forall>s \<in> set t. sk_active s"
  | (slot) k where "k < MAX_SOCKETS" "\<not> sk_active (t ! k)" "\<forall>j < k. sk_active (t ! j)"
      "socket_alloc t ty proto own = (Inr (sid_pack (of_nat k) (sk_generation (t ! k) + 1)),
         t[k := new_socket ty proto own (sk_generation (t ! k) + 1)])"
proof (cases "find_slot (\<lambda>s. \<not> sk_active s) t")
  case None
  then show ?thesis using None [unfolded find_slot_None] by (intro full) (simp_all add: socket_alloc_def)
next
  case (Some k)
  then show ?thesis
    using assms Some [unfolded find_slot_Some] by (intro slot [of k]) (simp_all add: socket_alloc_def Let_def)
qed

lemma new_socket_simps [simp]:
  "sk_active (new_socket ty proto own gen)" "sk_generation (new_socket ty proto own gen) = gen"
  by (simp_all add: new_socket_def)

text \<open>
  Allocation fails exactly when all 256 slots are taken. Otherwise the new identifier resolves
  to a fresh socket of the requested kind and owner, no identifier that resolved before stops
  resolving or resolves to something else, and the new identifier was not in use.
\<close>

theorem alloc_is_fresh:
  assumes "length t = MAX_SOCKETS"
  shows "case socket_alloc t ty proto own of
      (Inl e, t') \<Rightarrow> e = TooManySockets \<and> t' = t \<and> socket_count t = MAX_SOCKETS
    | (Inr i, t') \<Rightarrow> sock_get t i = None \<and> (\<exists>gen. sock_get t' i = Some (new_socket ty proto own gen)) \<and>
        (\<forall>j s. sock_get t j = Some s \<longrightarrow> sock_get t' j = Some s) \<and> length t' = MAX_SOCKETS"
  using assms
proof (cases t rule: socket_alloc_cases [where ty = ty and proto = proto and own = own])
  case full
  then have "filter sk_active t = t" by simp
  then show ?thesis using full assms by (simp add: socket_count_def)
next
  case (slot k)
  then show ?thesis using assms by (auto simp: sock_get_eq Let_def nth_list_update split: if_splits)
qed

theorem alloc_is_fresh_witness:
  "length table_new = MAX_SOCKETS \<and> (\<exists>i t'. socket_alloc table_new Datagram Udp 3 = (Inr i, t') \<and> sock_get t' i \<noteq> None)"
proof -
  have len: "length table_new = MAX_SOCKETS" by (simp add: table_new_def)
  show ?thesis
    using len
  proof (cases table_new rule: socket_alloc_cases [where ty = Datagram and proto = Udp and own = 3])
    case full
    then show ?thesis by (simp add: table_new_def MAX_SOCKETS_def socket_empty_def)
  next
    case (slot k)
    then show ?thesis using alloc_is_fresh [OF len, of Datagram Udp 3] len by auto
  qed
qed

section \<open>Stale identifiers\<close>

datatype table_op = Alloc socket_type protocol process_id | Release socket_id | Cleanup process_id | Change socket_id "socket \<Rightarrow> socket"

text \<open>
  Any operation of the kernel on the table: allocation, release, the clean-up after a process,
  and changes to a live socket, of which none touches the generation or revives the socket.
\<close>

definition keeps_identity :: "(socket \<Rightarrow> socket) \<Rightarrow> bool" where
  "keeps_identity f \<longleftrightarrow> (\<forall>s. sk_generation (f s) = sk_generation s)"

fun table_step :: "table_op \<Rightarrow> socket_table \<Rightarrow> socket_table" where
  "table_step (Alloc ty proto own) t = snd (socket_alloc t ty proto own)"
| "table_step (Release i) t = snd (socket_release t i)"
| "table_step (Cleanup pid) t = cleanup_by_owner t pid"
| "table_step (Change i f) t = (case sock_get t i of None \<Rightarrow> t | Some s \<Rightarrow> sock_put t i (f s))"

fun is_alloc :: "table_op \<Rightarrow> bool" where
  "is_alloc (Alloc ty proto own) = True"
| "is_alloc c = False"

fun op_ok :: "table_op \<Rightarrow> bool" where
  "op_ok (Change i f) \<longleftrightarrow> keeps_identity f"
| "op_ok c \<longleftrightarrow> True"

text \<open>The slot of a released identifier: since then allocated \<open>k\<close> times, and free if \<open>k = 0\<close>.\<close>

definition reused :: "u16 \<Rightarrow> nat \<Rightarrow> nat \<Rightarrow> socket_table \<Rightarrow> bool" where
  "reused gen slot k t \<longleftrightarrow> length t = MAX_SOCKETS \<and> sk_generation (t ! slot) = gen + of_nat k \<and> (k = 0 \<longrightarrow> \<not> sk_active (t ! slot))"

lemma reused_step:
  assumes "reused gen slot k t" "slot < MAX_SOCKETS" "op_ok c"
  shows "\<exists>k'. reused gen slot k' (table_step c t) \<and> k' \<le> k + (if is_alloc c then 1 else 0)"
proof (cases c)
  case (Alloc ty proto own)
  have len: "length t = MAX_SOCKETS" using assms(1) by (simp add: reused_def)
  show ?thesis
    using len
  proof (cases t rule: socket_alloc_cases [where ty = ty and proto = proto and own = own])
    case full
    then show ?thesis using assms(1) Alloc by (intro exI [of _ k]) simp
  next
    case (slot j)
    then show ?thesis
      using assms(1,2) Alloc len
      by (intro exI [of _ "if j = slot then Suc k else k"]) (auto simp: reused_def nth_list_update add.assoc)
  qed
next
  case (Release i)
  then show ?thesis
    using assms(1,2) by (intro exI [of _ k]) (auto simp: reused_def socket_release_def Let_def nth_list_update)
next
  case (Cleanup pid)
  then show ?thesis using assms(1,2) by (intro exI [of _ k]) (auto simp: reused_def cleanup_by_owner_def)
next
  case (Change i f)
  then show ?thesis
    using assms sid_slot_less [of i]
    by (intro exI [of _ k])
      (auto simp: reused_def sock_get_eq sock_put_def Let_def nth_list_update keeps_identity_def split: option.split if_splits)
qed

lemma reused_run:
  "reused gen slot k t \<Longrightarrow> slot < MAX_SOCKETS \<Longrightarrow> list_all op_ok ops \<Longrightarrow>
   \<exists>k'. reused gen slot k' (fold table_step ops t) \<and> k' \<le> k + length (filter is_alloc ops)"
proof (induction ops arbitrary: t k)
  case (Cons c ops)
  obtain k1 where k1: "reused gen slot k1 (table_step c t)" "k1 \<le> k + (if is_alloc c then 1 else 0)"
    using reused_step [OF Cons.prems(1,2), of c] Cons.prems(3) by auto
  obtain k2 where "reused gen slot k2 (fold table_step ops (table_step c t))" "k2 \<le> k1 + length (filter is_alloc ops)"
    using Cons.IH [OF k1(1) Cons.prems(2)] Cons.prems(3) by auto
  then show ?case using k1(2) by (intro exI [of _ k2]) (auto split: if_splits)
qed auto

text \<open>
  C15. An identifier that was released never resolves again, whatever the kernel does with the
  table afterwards, for as long as fewer than 65536 further sockets are allocated: the 16-bit
  generation of its slot must come around first.
\<close>

theorem released_id_stays_dead:
  assumes "length t = MAX_SOCKETS" "sock_get t i = Some s" "socket_release t i = (r, t1)"
    and "list_all op_ok ops" "length (filter is_alloc ops) < 65536"
  shows "r = Inr () \<and> sock_get (fold table_step ops t1) i = None"
proof -
  let ?slot = "unat (sid_slot i)"
  have live: "sk_active (t ! ?slot)" "sk_generation (t ! ?slot) = sid_generation i"
    using assms(2) by (auto simp: sock_get_eq Let_def split: if_splits)
  then have r: "r = Inr ()" "t1 = t[?slot := (t ! ?slot)\<lparr>sk_active := False\<rparr>]"
    using assms(3) sid_slot_less [of i] by (auto simp: socket_release_def Let_def not_le [symmetric])
  have "reused (sid_generation i) ?slot 0 t1" using r(2) assms(1) live by (simp add: reused_def)
  then obtain k where k: "reused (sid_generation i) ?slot k (fold table_step ops t1)" "k < 65536"
    using reused_run [OF _ _ assms(4)] assms(5) by fastforce
  have "unat (of_nat k :: u16) = k" using k(2) by (simp add: unat_of_nat)
  then have "of_nat k \<noteq> (0 :: u16)" if "k \<noteq> 0" using that by (cases "of_nat k = (0 :: u16)") simp_all
  then show ?thesis using r(1) k(1) by (auto simp: reused_def sock_get_eq Let_def)
qed

theorem released_id_stays_dead_witness:
  "\<exists>i t1. sock_get (snd (socket_alloc table_new Stream Tcp 3)) i \<noteq> None \<and>
     socket_release (snd (socket_alloc table_new Stream Tcp 3)) i = (Inr (), t1) \<and>
     sock_get (fold table_step [Alloc Stream Tcp 4, Cleanup 4, Release i] t1) i = None"
proof -
  have len: "length table_new = MAX_SOCKETS" by (simp add: table_new_def)
  then show ?thesis
  proof (cases table_new rule: socket_alloc_cases [where ty = Stream and proto = Tcp and own = 3])
    case full
    then show ?thesis by (simp add: table_new_def MAX_SOCKETS_def socket_empty_def)
  next
    case (slot k)
    let ?t = "snd (socket_alloc table_new Stream Tcp 3)"
    let ?i = "sid_pack (of_nat k) (sk_generation (table_new ! k) + 1)"
    have t: "length ?t = MAX_SOCKETS" "sock_get ?t ?i = Some (new_socket Stream Tcp 3 (sk_generation (table_new ! k) + 1))"
      using slot len by (simp_all add: sock_get_eq Let_def)
    obtain r t1 where r: "socket_release ?t ?i = (r, t1)" by fastforce
    have "r = Inr () \<and> sock_get (fold table_step [Alloc Stream Tcp 4, Cleanup 4, Release ?i] t1) ?i = None"
      by (rule released_id_stays_dead [OF t r]) simp_all
    then show ?thesis using t(2) r by blast
  qed
qed

end
