(* ===== verification/Net_Stack.thy ===== *)
theory Net_Stack
  imports Net_Packets Net_Socket
begin

text \<open>
  The network stack above its buffers and tables: routing between the loopback device and the
  network card (\<^verbatim>\<open>kernel/src/network/nic_dispatch.rs\<close>), address resolution (\<^verbatim>\<open>arp.rs\<close>), delivery
  of UDP datagrams (\<^verbatim>\<open>udp.rs\<close>), the TCP state machine (\<^verbatim>\<open>tcp.rs\<close>), the retransmission timer
  (\<^verbatim>\<open>tcp_timer.rs\<close>) and the socket operations (\<^verbatim>\<open>ops.rs\<close>).

  The statics of these modules are the fields of one record. The driver behind \<open>ACTIVE_NIC\<close> is
  known through its trait only: its address if one is registered, the list of frames handed to
  \<open>send_packet\<close>, and, as an input to each delivery, the frame that \<open>poll_rx\<close> returns. The clock
  is an input as well.
\<close>

section \<open>State\<close>

record dns_response =
  dr_data :: bytes
  dr_len :: nat
  dr_ready :: bool

definition dns_response_new :: dns_response where
  "dns_response_new = \<lparr>dr_data = replicate 512 0, dr_len = 0, dr_ready = False\<rparr>"

definition dns_response_clear :: "dns_response \<Rightarrow> dns_response" where
  "dns_response_clear d = d\<lparr>dr_len := 0, dr_ready := False\<rparr>"

record net =
  net_sockets :: socket_table
  net_loopback :: loopback
  net_isn :: u32
  net_port :: u16
  net_arp :: "ipv4_addr \<rightharpoonup> mac_addr"
  net_dns :: dns_response
  net_nic :: "mac_addr option"
  net_sent :: "bytes list"

definition net_new :: net where
  "net_new = \<lparr>net_sockets = table_new, net_loopback = lo_new, net_isn = 1000, net_port = 49152,
     net_arp = Map.empty, net_dns = dns_response_new, net_nic = None, net_sent = []\<rparr>"

text \<open>What the surroundings contribute to one delivery: a frame if the card has one, and the clock
  when the packet is processed, when the timers are checked and when the caller looks at it.\<close>

record net_event =
  ev_frame :: "bytes option"
  ev_now :: u64
  ev_timer :: u64
  ev_clock :: u64

definition register_nic :: "net \<Rightarrow> mac_addr \<Rightarrow> net" where
  "register_nic n mac = n\<lparr>net_nic := Some mac\<rparr>"

definition cleanup_process_sockets :: "net \<Rightarrow> process_id \<Rightarrow> net" where
  "cleanup_process_sockets n pid = n\<lparr>net_sockets := cleanup_by_owner (net_sockets n) pid\<rparr>"

section \<open>Address resolution (\<^verbatim>\<open>arp.rs\<close>)\<close>

definition handle_arp_reply :: "net \<Rightarrow> arp_packet \<Rightarrow> net" where
  "handle_arp_reply n p =
     (if ap_opcode p = ARP_OP_REPLY then n\<lparr>net_arp := (net_arp n)(ap_sender_ip p \<mapsto> ap_sender_mac p)\<rparr> else n)"

definition arp_lookup :: "net \<Rightarrow> ipv4_addr \<Rightarrow> mac_addr option" where
  "arp_lookup n ip = net_arp n ip"

definition GUEST_IP :: ipv4_addr where "GUEST_IP = Ipv4Addr 10 0 2 15"
definition GATEWAY_IP :: ipv4_addr where "GATEWAY_IP = Ipv4Addr 10 0 2 2"

definition arp_request :: "net \<Rightarrow> ipv4_addr \<Rightarrow> net" where
  "arp_request n target_ip =
     (case net_nic n of
        Some src_mac \<Rightarrow>
          n\<lparr>net_sent := net_sent n @ [arp_to_ethernet_frame (arp_build_request src_mac (Ipv4Addr 10 0 2 15) target_ip) src_mac]\<rparr>
      | None \<Rightarrow> n)"

definition process_arp_frame :: "net \<Rightarrow> bytes \<Rightarrow> net" where
  "process_arp_frame n payload =
     (case arp_parse payload of
        Some p \<Rightarrow> if ap_opcode p = ARP_OP_REPLY then handle_arp_reply n p else n
      | None \<Rightarrow> n)"

section \<open>Transmission (\<^verbatim>\<open>nic_dispatch.rs\<close>)\<close>

fun nic_is_loopback :: "ipv4_addr \<Rightarrow> bool" where
  "nic_is_loopback (Ipv4Addr a b c d) \<longleftrightarrow> a = 127"

definition transmit_ip :: "net \<Rightarrow> bytes \<Rightarrow> net run" where
  "transmit_ip n packet =
     (case ip_from_bytes packet of
        None \<Rightarrow> Some n
      | Some ip_hdr \<Rightarrow>
          if nic_is_loopback (ih_dst_addr ip_hdr) then do {
            (_, lo) \<leftarrow> lo_enqueue (net_loopback n) packet;
            Some (n\<lparr>net_loopback := lo\<rparr>)
          } else (case net_nic n of
              None \<Rightarrow> Some n
            | Some src_mac \<Rightarrow>
                let dst_mac = (case arp_lookup n GATEWAY_IP of Some m \<Rightarrow> m | None \<Rightarrow> Mac 0xFF 0xFF 0xFF 0xFF 0xFF 0xFF)
                in Some (n\<lparr>net_sent := net_sent n @ [eth_build dst_mac src_mac ETHERTYPE_IPV4 packet]\<rparr>)))"

section \<open>UDP delivery (\<^verbatim>\<open>udp.rs\<close>)\<close>

definition udp_receive_packet :: "ipv4_header \<Rightarrow> bytes \<Rightarrow> socket_table \<Rightarrow> socket_table run" where
  "udp_receive_packet ip_hdr udp_data t =
     (case udp_from_bytes udp_data of
        None \<Rightarrow> Some t
      | Some udp_hdr \<Rightarrow>
          (case find_by_local t (sa_new (ih_dst_addr ip_hdr) (uh_dst_port udp_hdr)) Udp of
             None \<Rightarrow> Some t
           | Some sock_id \<Rightarrow>
               let payload_len = unat (uh_length udp_hdr) - UDP_SIZE
               in if UDP_SIZE + payload_len > length udp_data then Some t
                  else do {
                    payload \<leftarrow> slice_of udp_data UDP_SIZE (UDP_SIZE + payload_len);
                    case sock_get t sock_id of
                      None \<Rightarrow> Some t
                    | Some sock \<Rightarrow> do {
                        (_, rx) \<leftarrow> rb_write (sk_rx sock) (be_bytes 2 (uh_src_port udp_hdr));
                        (_, rx) \<leftarrow> rb_write rx (octets (ih_src_addr ip_hdr));
                        (_, rx) \<leftarrow> rb_write rx (be_bytes 2 (of_nat (length payload) :: u16));
                        (_, rx) \<leftarrow> rb_write rx payload;
                        Some (sock_put t sock_id (sock\<lparr>sk_rx := rx\<rparr>))
                      }
                  }))"

section \<open>TCP (\<^verbatim>\<open>tcp.rs\<close>)\<close>

definition next_isn :: "net \<Rightarrow> u32 \<times> net" where
  "next_isn n = (net_isn n, n\<lparr>net_isn := net_isn n + 1000\<rparr>)"

text \<open>Building a segment in a zeroed buffer of the size of the MTU and transmitting it.\<close>

definition tcp_output ::
  "net \<Rightarrow> socket_addr \<Rightarrow> socket_addr \<Rightarrow> u32 \<Rightarrow> u32 \<Rightarrow> u8 \<Rightarrow> u16 \<Rightarrow> bytes \<Rightarrow> net run" where
  "tcp_output n src dst sq ak flags win data = do {
     (pkt_len, pkt_buf) \<leftarrow> build_tcp_packet src dst sq ak flags win data (replicate LOOPBACK_MTU 0);
     if pkt_len > 0 then do { pkt \<leftarrow> slice_of pkt_buf 0 pkt_len; transmit_ip n pkt } else Some n
   }"

definition put_socket :: "net \<Rightarrow> socket_id \<Rightarrow> socket \<Rightarrow> net" where
  "put_socket n i s = n\<lparr>net_sockets := sock_put (net_sockets n) i s\<rparr>"

definition get_socket :: "net \<Rightarrow> socket_id \<Rightarrow> socket option" where
  "get_socket n i = sock_get (net_sockets n) i"

definition add_to_backlog :: "socket \<Rightarrow> socket_id \<Rightarrow> socket" where
  "add_to_backlog s conn =
     (if sk_backlog_count s < MAX_BACKLOG
      then s\<lparr>sk_backlog := (sk_backlog s)[sk_backlog_count s := conn], sk_backlog_count := sk_backlog_count s + 1\<rparr>
      else s)"

definition syn_received :: "socket \<Rightarrow> tcp_header \<Rightarrow> socket_addr \<Rightarrow> socket_addr \<Rightarrow> u32 \<Rightarrow> socket" where
  "syn_received s tcp_hdr src_addr dst_addr isn = s\<lparr>sk_local_addr := dst_addr, sk_remote_addr := src_addr,
     sk_state := SynReceived, sk_recv_seq := th_seq_num tcp_hdr + 1, sk_send_seq := isn,
     sk_send_ack := th_seq_num tcp_hdr + 1, sk_send_window := th_window tcp_hdr\<rparr>"

definition handle_syn :: "net \<Rightarrow> socket_id \<Rightarrow> tcp_header \<Rightarrow> socket_addr \<Rightarrow> socket_addr \<Rightarrow> net run" where
  "handle_syn n listener_id tcp_hdr src_addr dst_addr =
     (case get_socket n listener_id of
        None \<Rightarrow> Some n
      | Some s \<Rightarrow>
          (case socket_alloc (net_sockets n) Stream Tcp (sk_owner s) of
             (Inl _, t) \<Rightarrow> Some n
           | (Inr conn_id, t) \<Rightarrow>
               let (isn, n1) = next_isn (n\<lparr>net_sockets := t\<rparr>);
                   n2 = (case get_socket n1 conn_id of
                           None \<Rightarrow> n1
                         | Some conn \<Rightarrow> put_socket n1 conn_id (syn_received conn tcp_hdr src_addr dst_addr isn));
                   n3 = (case get_socket n2 listener_id of
                           None \<Rightarrow> n2
                         | Some listener \<Rightarrow> put_socket n2 listener_id (add_to_backlog listener conn_id))
               in tcp_output n3 dst_addr src_addr isn (th_seq_num tcp_hdr + 1) (SYN OR ACK) 4096 []))"

definition sock_acked :: "socket \<Rightarrow> u32 \<Rightarrow> u64 \<Rightarrow> socket" where
  "sock_acked s ack_num now = s\<lparr>sk_retransmit := map_option (\<lambda>rq. ack_received rq ack_num now) (sk_retransmit s)\<rparr>"

definition sock_no_retransmit :: "socket \<Rightarrow> socket" where
  "sock_no_retransmit s = s\<lparr>sk_retransmit := map_option rq_clear (sk_retransmit s)\<rparr>"

text \<open>Storing the socket and acknowledging what it has received.\<close>

definition put_and_ack :: "net \<Rightarrow> socket_id \<Rightarrow> socket \<Rightarrow> net run" where
  "put_and_ack n i s =
     tcp_output (put_socket n i s) (sk_local_addr s) (sk_remote_addr s) (sk_send_seq s) (sk_recv_seq s) ACK 4096 []"

definition tcp_in_syn_sent :: "net \<Rightarrow> socket_id \<Rightarrow> socket \<Rightarrow> tcp_header \<Rightarrow> u64 \<Rightarrow> net run" where
  "tcp_in_syn_sent n i s tcp_hdr now =
     (let flags = tcp_flags tcp_hdr
      in if flags AND SYN \<noteq> 0 \<and> flags AND ACK \<noteq> 0
         then put_and_ack n i (sock_acked (s\<lparr>sk_recv_seq := th_seq_num tcp_hdr + 1, sk_send_ack := th_seq_num tcp_hdr + 1,
             sk_send_window := th_window tcp_hdr, sk_state := Established\<rparr>) (th_ack_num tcp_hdr) now)
         else Some n)"

definition tcp_in_syn_received :: "net \<Rightarrow> socket_id \<Rightarrow> socket \<Rightarrow> tcp_header \<Rightarrow> u64 \<Rightarrow> net run" where
  "tcp_in_syn_received n i s tcp_hdr now =
     (if tcp_flags tcp_hdr AND ACK \<noteq> 0
      then Some (put_socket n i (sock_acked (s\<lparr>sk_send_seq := sk_send_seq s + 1, sk_state := Established\<rparr>) (th_ack_num tcp_hdr) now))
      else Some n)"

definition tcp_in_established :: "net \<Rightarrow> socket_id \<Rightarrow> socket \<Rightarrow> tcp_header \<Rightarrow> bytes \<Rightarrow> u64 \<Rightarrow> net run" where
  "tcp_in_established n i s tcp_hdr payload now =
     (let flags = tcp_flags tcp_hdr
      in if flags AND FIN \<noteq> 0
         then put_and_ack n i (s\<lparr>sk_recv_seq := th_seq_num tcp_hdr + 1, sk_state := CloseWait\<rparr>)
         else if flags AND ACK \<noteq> 0 \<and> payload \<noteq> [] then do {
           (_, rx) \<leftarrow> rb_write (sk_rx s) payload;
           put_and_ack n i (s\<lparr>sk_rx := rx, sk_recv_seq := th_seq_num tcp_hdr + of_nat (length payload)\<rparr>)
         } else if flags AND ACK \<noteq> 0
         then Some (put_socket n i (sock_acked (s\<lparr>sk_send_ack := th_ack_num tcp_hdr\<rparr>) (th_ack_num tcp_hdr) now))
         else Some n)"

definition tcp_in_fin_wait1 :: "net \<Rightarrow> socket_id \<Rightarrow> socket \<Rightarrow> tcp_header \<Rightarrow> u64 \<Rightarrow> net run" where
  "tcp_in_fin_wait1 n i s tcp_hdr now =
     (let flags = tcp_flags tcp_hdr
      in if flags AND ACK \<noteq> 0 \<and> flags AND FIN \<noteq> 0
         then put_and_ack n i (sock_acked (s\<lparr>sk_recv_seq := th_seq_num tcp_hdr + 1, sk_state := TimeWait\<rparr>) (th_ack_num tcp_hdr) now)
         else if flags AND ACK \<noteq> 0
         then Some (put_socket n i (sock_acked (s\<lparr>sk_state := FinWait2\<rparr>) (th_ack_num tcp_hdr) now))
         else if flags AND FIN \<noteq> 0
         then put_and_ack n i (s\<lparr>sk_recv_seq := th_seq_num tcp_hdr + 1, sk_state := Closing\<rparr>)
         else Some n)"

definition tcp_in_fin_wait2 :: "net \<Rightarrow> socket_id \<Rightarrow> socket \<Rightarrow> tcp_header \<Rightarrow> net run" where
  "tcp_in_fin_wait2 n i s tcp_hdr =
     (if tcp_flags tcp_hdr AND FIN \<noteq> 0
      then put_and_ack n i (s\<lparr>sk_recv_seq := th_seq_num tcp_hdr + 1, sk_state := TimeWait\<rparr>)
      else Some n)"

definition tcp_in_last_ack :: "net \<Rightarrow> socket_id \<Rightarrow> socket \<Rightarrow> tcp_header \<Rightarrow> u64 \<Rightarrow> net run" where
  "tcp_in_last_ack n i s tcp_hdr now =
     (if tcp_flags tcp_hdr AND ACK \<noteq> 0
      then Some (put_socket n i (sock_no_retransmit (sock_acked (s\<lparr>sk_state := Closed, sk_active := False\<rparr>) (th_ack_num tcp_hdr) now)))
      else Some n)"

definition tcp_in_closing :: "net \<Rightarrow> socket_id \<Rightarrow> socket \<Rightarrow> tcp_header \<Rightarrow> u64 \<Rightarrow> net run" where
  "tcp_in_closing n i s tcp_hdr now =
     (if tcp_flags tcp_hdr AND ACK \<noteq> 0
      then Some (put_socket n i (sock_acked (s\<lparr>sk_state := TimeWait\<rparr>) (th_ack_num tcp_hdr) now))
      else Some n)"

definition tcp_state_machine :: "net \<Rightarrow> socket_id \<Rightarrow> tcp_header \<Rightarrow> bytes \<Rightarrow> u64 \<Rightarrow> net run" where
  "tcp_state_machine n i tcp_hdr payload now =
     (case get_socket n i of
        None \<Rightarrow> Some n
      | Some s \<Rightarrow>
          (case sk_state s of
             SynSent \<Rightarrow> tcp_in_syn_sent n i s tcp_hdr now
           | SynReceived \<Rightarrow> tcp_in_syn_received n i s tcp_hdr now
           | Established \<Rightarrow> tcp_in_established n i s tcp_hdr payload now
           | FinWait1 \<Rightarrow> tcp_in_fin_wait1 n i s tcp_hdr now
           | FinWait2 \<Rightarrow> tcp_in_fin_wait2 n i s tcp_hdr
           | CloseWait \<Rightarrow> Some n
           | LastAck \<Rightarrow> tcp_in_last_ack n i s tcp_hdr now
           | Closing \<Rightarrow> tcp_in_closing n i s tcp_hdr now
           | TimeWait \<Rightarrow> Some (put_socket n i (sock_no_retransmit (s\<lparr>sk_state := Closed, sk_active := False\<rparr>)))
           | _ \<Rightarrow> Some n))"

definition tcp_receive_packet :: "net \<Rightarrow> ipv4_header \<Rightarrow> bytes \<Rightarrow> u64 \<Rightarrow> net run" where
  "tcp_receive_packet n ip_hdr tcp_data now =
     (case tcp_from_bytes tcp_data of
        None \<Rightarrow> Some n
      | Some tcp_hdr \<Rightarrow>
          let src_addr = sa_new (ih_src_addr ip_hdr) (th_src_port tcp_hdr);
              dst_addr = sa_new (ih_dst_addr ip_hdr) (th_dst_port tcp_hdr);
              flags = tcp_flags tcp_hdr;
              payload = (if TCP_SIZE < length tcp_data then drop TCP_SIZE tcp_data else [])
          in case find_tcp_connection (net_sockets n) dst_addr src_addr of
               Some sock_id \<Rightarrow> tcp_state_machine n sock_id tcp_hdr payload now
             | None \<Rightarrow>
                 if flags AND SYN \<noteq> 0 \<and> flags AND ACK = 0
                 then (case find_listener (net_sockets n) (th_dst_port tcp_hdr) of
                         Some listener_id \<Rightarrow> handle_syn n listener_id tcp_hdr src_addr dst_addr
                       | None \<Rightarrow> Some n)
                 else Some n)"

end
