(* ===== verification/Net_Ops.thy ===== *)
theory Net_Ops
  imports Net_Stack
begin

text \<open>
  Delivery and the socket operations of the network stack: polling the card
  (\<^verbatim>\<open>kernel/src/network/nic_dispatch.rs\<close>), resolving addresses (\<^verbatim>\<open>arp.rs\<close>), the retransmission
  pass (\<^verbatim>\<open>tcp_timer.rs\<close>), and \<open>socket_*\<close>, \<open>deliver_*\<close> and \<open>poll\<close> (\<^verbatim>\<open>ops.rs\<close>). A loop that waits
  for the network takes the events of its iterations as a function of the iteration number.
\<close>

section \<open>Receiving from the card (\<^verbatim>\<open>nic_dispatch.rs\<close>)\<close>

text \<open>A DNS answer is copied to the capture buffer, at most 512 bytes of it.\<close>

definition capture_dns :: "dns_response \<Rightarrow> bytes \<Rightarrow> dns_response run" where
  "capture_dns d dns_data = do {
     let copy_len = min (length dns_data) (length (dr_data d));
     src \<leftarrow> slice_of dns_data 0 copy_len;
     buf \<leftarrow> copy_slice (dr_data d) 0 copy_len src;
     Some \<lparr>dr_data = buf, dr_len = copy_len, dr_ready = True\<rparr>
   }"

definition dispatch_ip :: "net \<Rightarrow> ipv4_header \<Rightarrow> bytes \<Rightarrow> u64 \<Rightarrow> net run" where
  "dispatch_ip n ip_hdr ip_payload now =
     (if ih_protocol ip_hdr = 6 then tcp_receive_packet n ip_hdr ip_payload now
      else if ih_protocol ip_hdr = 17 then do {
        t \<leftarrow> udp_receive_packet ip_hdr ip_payload (net_sockets n);
        Some (n\<lparr>net_sockets := t\<rparr>)
      } else Some n)"

definition receive_ip :: "net \<Rightarrow> bytes \<Rightarrow> u64 \<Rightarrow> net run" where
  "receive_ip n payload now =
     (case ip_from_bytes payload of
        None \<Rightarrow> Some n
      | Some ip_hdr \<Rightarrow>
          if IP_SIZE \<ge> length payload then Some n
          else let ip_payload = drop IP_SIZE payload in
            (case (if ih_protocol ip_hdr = 17 then udp_from_bytes ip_payload else None) of
               Some udp_hdr \<Rightarrow>
                 if uh_src_port udp_hdr = 53 then
                   (let udp_data_len = unat (uh_length udp_hdr) - UDP_SIZE
                    in if UDP_SIZE + udp_data_len \<le> length ip_payload then do {
                         dns_data \<leftarrow> slice_of ip_payload UDP_SIZE (UDP_SIZE + udp_data_len);
                         d \<leftarrow> capture_dns (net_dns n) dns_data;
                         Some (n\<lparr>net_dns := d\<rparr>)
                       } else Some n)
                 else dispatch_ip n ip_hdr ip_payload now
             | None \<Rightarrow> dispatch_ip n ip_hdr ip_payload now))"

definition nic_receive_one :: "net_event \<Rightarrow> net \<Rightarrow> (bool \<times> net) run" where
  "nic_receive_one ev n =
     (case net_nic n of
        None \<Rightarrow> Some (False, n)
      | Some _ \<Rightarrow>
          (case ev_frame ev of
             None \<Rightarrow> Some (False, n)
           | Some raw \<Rightarrow>
               (case eth_parse (take 1600 raw) of
                  None \<Rightarrow> Some (False, n)
                | Some eth \<Rightarrow>
                    if ef_ethertype eth = ETHERTYPE_ARP then Some (True, process_arp_frame n (ef_payload eth))
                    else if ef_ethertype eth = ETHERTYPE_IPV4 then do {
                      n' \<leftarrow> receive_ip n (ef_payload eth) (ev_now ev);
                      Some (True, n')
                    } else Some (True, n))))"

text \<open>\<open>arp_resolve\<close>: a look into the table, then a request and up to 50,000 polls of the card.\<close>

fun arp_poll :: "(nat \<Rightarrow> net_event) \<Rightarrow> ipv4_addr \<Rightarrow> nat \<Rightarrow> nat \<Rightarrow> net \<Rightarrow> (mac_addr option \<times> net) run" where
  "arp_poll env ip i 0 n = Some (None, n)"
| "arp_poll env ip i (Suc k) n = do {
     (_, n') \<leftarrow> nic_receive_one (env i) n;
     case arp_lookup n' ip of Some mac \<Rightarrow> Some (Some mac, n') | None \<Rightarrow> arp_poll env ip (Suc i) k n'
   }"

definition arp_resolve :: "(nat \<Rightarrow> net_event) \<Rightarrow> net \<Rightarrow> ipv4_addr \<Rightarrow> (mac_addr option \<times> net) run" where
  "arp_resolve env n target_ip =
     (case arp_lookup n target_ip of
        Some mac \<Rightarrow> Some (Some mac, n)
      | None \<Rightarrow> arp_poll env target_ip 0 50000 (arp_request n target_ip))"

section \<open>The retransmission pass (\<^verbatim>\<open>tcp_timer.rs\<close>)\<close>

text \<open>Over the slots from number \<open>slot\<close> on: the sockets with their timers checked, the packets to
  send again, and the slots whose retries are used up.\<close>

fun retransmit_scan :: "u64 \<Rightarrow> nat \<Rightarrow> socket list \<Rightarrow> socket list \<times> bytes list \<times> nat list" where
  "retransmit_scan now slot [] = ([], [], [])"
| "retransmit_scan now slot (s # ss) =
     (case retransmit_scan now (Suc slot) ss of (ss', packets, rst) \<Rightarrow>
        if \<not> sk_active s then (s # ss', packets, rst)
        else (case sk_retransmit s of
                None \<Rightarrow> (s # ss', packets, rst)
              | Some rq \<Rightarrow>
                  if rq_entries rq = [] then (s # ss', packets, rst)
                  else (case check_timeouts rq now of (resend, rq') \<Rightarrow>
                    (s\<lparr>sk_retransmit := Some rq'\<rparr> # ss', resend @ packets,
                     if has_max_retries rq' then slot # rst else rst))))"

definition reset_socket :: "nat \<Rightarrow> socket_table \<Rightarrow> socket_table" where
  "reset_socket slot t = t[slot := sock_no_retransmit ((t ! slot)\<lparr>sk_state := Closed, sk_active := False\<rparr>)]"

fun transmit_all :: "net \<Rightarrow> bytes list \<Rightarrow> net run" where
  "transmit_all n [] = Some n"
| "transmit_all n (p # ps) = do { n' \<leftarrow> transmit_ip n p; transmit_all n' ps }"

definition check_all_retransmits :: "u64 \<Rightarrow> net \<Rightarrow> net run" where
  "check_all_retransmits now n =
     (case retransmit_scan now 0 (net_sockets n) of (t, packets, rst) \<Rightarrow>
        transmit_all (n\<lparr>net_sockets := fold reset_socket rst t\<rparr>) packets)"

section \<open>Delivery (\<^verbatim>\<open>ops.rs\<close>)\<close>

text \<open>What happens to the packet taken off the loopback queue, or without one.\<close>

definition deliver_packet :: "net_event \<Rightarrow> net \<Rightarrow> (bytes \<times> nat) option \<Rightarrow> net run" where
  "deliver_packet ev n packet =
     (case packet of
        Some (pkt_buf, pkt_len) \<Rightarrow> do {
          pkt \<leftarrow> slice_of pkt_buf 0 pkt_len;
          case ip_from_bytes pkt of
            None \<Rightarrow> Some n
          | Some ip_hdr \<Rightarrow> do {
              ip_payload \<leftarrow> slice_of pkt_buf IP_SIZE pkt_len;
              dispatch_ip n ip_hdr ip_payload (ev_now ev)
            }
        }
      | None \<Rightarrow> do {
          (_, n') \<leftarrow> nic_receive_one ev n;
          check_all_retransmits (ev_timer ev) n'
        })"

definition deliver_one :: "net_event \<Rightarrow> net \<Rightarrow> net run" where
  "deliver_one ev n = do {
     (packet, lo) \<leftarrow> lo_dequeue (net_loopback n);
     deliver_packet ev (n\<lparr>net_loopback := lo\<rparr>) packet
   }"

fun deliver_times :: "(nat \<Rightarrow> net_event) \<Rightarrow> nat \<Rightarrow> nat \<Rightarrow> net \<Rightarrow> net run" where
  "deliver_times env i 0 n = Some n"
| "deliver_times env i (Suc k) n = do { n' \<leftarrow> deliver_one (env i) n; deliver_times env (Suc i) k n' }"

fun deliver_pending_loop :: "(nat \<Rightarrow> net_event) \<Rightarrow> nat \<Rightarrow> nat \<Rightarrow> net \<Rightarrow> net run" where
  "deliver_pending_loop env i 0 n = Some n"
| "deliver_pending_loop env i (Suc k) n =
     (if lo_is_empty (net_loopback n) then Some n
      else do { n' \<leftarrow> deliver_one (env i) n; deliver_pending_loop env (Suc i) k n' })"

definition deliver_pending :: "(nat \<Rightarrow> net_event) \<Rightarrow> net \<Rightarrow> net run" where
  "deliver_pending env n = deliver_pending_loop env 0 LOOPBACK_QUEUE_SIZE n"

section \<open>Socket operations (\<^verbatim>\<open>ops.rs\<close>)\<close>

type_synonym 'a sock_result = "((socket_error + 'a) \<times> net) run"

definition socket_create :: "net \<Rightarrow> socket_type \<Rightarrow> protocol \<Rightarrow> process_id \<Rightarrow> (socket_error + socket_id) \<times> net" where
  "socket_create n ty proto own =
     (case socket_alloc (net_sockets n) ty proto own of (r, t) \<Rightarrow> (r, n\<lparr>net_sockets := t\<rparr>))"

definition socket_bind :: "net \<Rightarrow> socket_id \<Rightarrow> socket_addr \<Rightarrow> (socket_error + unit) \<times> net" where
  "socket_bind n i addr =
     (case get_socket n i of
        None \<Rightarrow> (Inl NotFound, n)
      | Some s \<Rightarrow>
          if sa_port addr \<noteq> 0 \<and> port_in_use (net_sockets n) (sa_port addr) (sk_protocol s) \<and>
             sa_port (sk_local_addr s) \<noteq> sa_port addr then (Inl AddressInUse, n)
          else if sk_state s \<noteq> Closed then (Inl InvalidState, n)
          else (Inr (), put_socket n i (s\<lparr>sk_local_addr := addr, sk_state := Bound\<rparr>)))"

text \<open>The port counter and the port chosen: the first candidate that no socket uses, out of 1000.\<close>

fun ephemeral_loop :: "socket_table \<Rightarrow> nat \<Rightarrow> u16 \<Rightarrow> u16 \<times> u16" where
  "ephemeral_loop t 0 counter = (49152, counter)"
| "ephemeral_loop t (Suc k) counter =
     (let port = (if counter \<ge> 65535 then 49152 else counter)
      in if \<not> port_in_use t port Tcp \<and> \<not> port_in_use t port Udp then (port, counter + 1)
         else ephemeral_loop t k (counter + 1))"

definition allocate_ephemeral_port :: "net \<Rightarrow> u16 \<times> net" where
  "allocate_ephemeral_port n =
     (case ephemeral_loop (net_sockets n) 1000 (net_port n) of (port, counter) \<Rightarrow> (port, n\<lparr>net_port := counter\<rparr>))"

text \<open>The first phase of connecting over TCP: bind if necessary, and the SYN.\<close>

definition connect_setup :: "net \<Rightarrow> socket_id \<Rightarrow> socket \<Rightarrow> socket_addr \<Rightarrow> net run" where
  "connect_setup n i s remote =
     (let needs_port = sa_port (sk_local_addr s) = 0;
          needs_addr = ip_is_unspecified (sa_addr (sk_local_addr s));
          (ephemeral, n1) = (if needs_port then allocate_ephemeral_port n else (0, n));
          bind_addr = (if nic_is_loopback (sa_addr remote) then IP_LOOPBACK else GUEST_IP);
          s1 = (if needs_port then s\<lparr>sk_local_addr := sa_new bind_addr ephemeral\<rparr> else s);
          s2 = (if needs_addr then s1\<lparr>sk_local_addr := (sk_local_addr s1)\<lparr>sa_addr := bind_addr\<rparr>\<rparr> else s1);
          (isn, n2) = next_isn n1;
          s3 = s2\<lparr>sk_remote_addr := remote, sk_send_seq := isn, sk_state := SynSent\<rparr>
      in tcp_output (put_socket n2 i s3) (sk_local_addr s3) remote isn 0 SYN 4096 [])"

fun connect_loop :: "(nat \<Rightarrow> net_event) \<Rightarrow> socket_id \<Rightarrow> nat \<Rightarrow> nat \<Rightarrow> net \<Rightarrow> (bool \<times> net) run" where
  "connect_loop env sid i 0 n = Some (False, n)"
| "connect_loop env sid i (Suc k) n = do {
     n' \<leftarrow> deliver_one (env i) n;
     case get_socket n' sid of
       Some s \<Rightarrow> if sk_state s = Established then Some (True, n') else connect_loop env sid (Suc i) k n'
     | None \<Rightarrow> connect_loop env sid (Suc i) k n'
   }"

definition socket_connect :: "(nat \<Rightarrow> net_event) \<Rightarrow> net \<Rightarrow> socket_id \<Rightarrow> socket_addr \<Rightarrow> unit sock_result" where
  "socket_connect env n i remote =
     (case get_socket n i of
        None \<Rightarrow> Some (Inl NotFound, n)
      | Some s \<Rightarrow>
          if sk_protocol s = Udp then
            Some (Inr (), put_socket n i (s\<lparr>sk_remote_addr := remote,
              sk_state := (if sk_state s = Closed then Bound else sk_state s)\<rparr>))
          else if sk_state s \<noteq> Closed \<and> sk_state s \<noteq> Bound then Some (Inl InvalidState, n)
          else do {
            n1 \<leftarrow> connect_setup n i s remote;
            (ok, n2) \<leftarrow> connect_loop env i 0 (if nic_is_loopback (sa_addr remote) then 10 else 100000) n1;
            Some (if ok then Inr () else Inl ConnectionRefused, n2)
          })"

definition socket_listen :: "net \<Rightarrow> socket_id \<Rightarrow> (socket_error + unit) \<times> net" where
  "socket_listen n i =
     (case get_socket n i of
        None \<Rightarrow> (Inl NotFound, n)
      | Some s \<Rightarrow>
          if sk_protocol s \<noteq> Tcp then (Inl InvalidArgument, n)
          else if sk_state s \<noteq> Bound then (Inl NotBound, n)
          else (Inr (), put_socket n i (s\<lparr>sk_state := Listen, sk_backlog_count := 0\<rparr>)))"

text \<open>Taking the oldest entry out of the backlog; the others move up one place.\<close>

definition backlog_pop :: "socket \<Rightarrow> socket_id \<times> socket" where
  "backlog_pop s =
     (sk_backlog s ! 0,
      s\<lparr>sk_backlog := foldl (\<lambda>b i. b[i - 1 := b ! i]) (sk_backlog s) [1..<sk_backlog_count s],
        sk_backlog_count := sk_backlog_count s - 1\<rparr>)"

definition socket_accept :: "(nat \<Rightarrow> net_event) \<Rightarrow> net \<Rightarrow> socket_id \<Rightarrow> socket_id sock_result" where
  "socket_accept env n listener_id =
     (case get_socket n listener_id of
        None \<Rightarrow> Some (Inl NotFound, n)
      | Some listener \<Rightarrow>
          if sk_state listener \<noteq> Listen then Some (Inl InvalidState, n)
          else if sk_backlog_count listener = 0 then Some (Inl WouldBlock, n)
          else case backlog_pop listener of (conn_id, listener') \<Rightarrow> do {
            (_, n') \<leftarrow> connect_loop env conn_id 0 10 (put_socket n listener_id listener');
            Some (Inr conn_id, n')
          })"

definition transmit_and_deliver :: "(nat \<Rightarrow> net_event) \<Rightarrow> nat \<Rightarrow> net \<Rightarrow> nat \<times> bytes \<Rightarrow> net run" where
  "transmit_and_deliver env rounds n pkt =
     (case pkt of (pkt_len, pkt_buf) \<Rightarrow>
        if pkt_len > 0 then do {
          p \<leftarrow> slice_of pkt_buf 0 pkt_len;
          n' \<leftarrow> transmit_ip n p;
          deliver_times env 0 rounds n'
        } else Some n)"

definition socket_send :: "(nat \<Rightarrow> net_event) \<Rightarrow> net \<Rightarrow> socket_id \<Rightarrow> bytes \<Rightarrow> nat sock_result" where
  "socket_send env n i data =
     (case get_socket n i of
        None \<Rightarrow> Some (Inl NotFound, n)
      | Some s \<Rightarrow>
          (case sk_protocol s of
             Udp \<Rightarrow>
               if sa_is_unspecified (sk_remote_addr s) then Some (Inl NotConnected, n)
               else do {
                 pkt \<leftarrow> build_udp_packet (sk_local_addr s) (sk_remote_addr s) data (replicate LOOPBACK_MTU 0);
                 n' \<leftarrow> transmit_and_deliver env 1 n pkt;
                 Some (Inr (length data), n')
               }
           | Tcp \<Rightarrow>
               if sk_state s \<noteq> Established then Some (Inl NotConnected, n)
               else do {
                 pkt \<leftarrow> build_tcp_packet (sk_local_addr s) (sk_remote_addr s) (sk_send_seq s) (sk_recv_seq s) ACK 4096 data
                   (replicate LOOPBACK_MTU 0);
                 n' \<leftarrow> transmit_and_deliver env 1
                   (put_socket n i (s\<lparr>sk_send_seq := sk_send_seq s + of_nat (length data)\<rparr>)) pkt;
                 Some (Inr (length data), n')
               }))"

definition socket_sendto :: "(nat \<Rightarrow> net_event) \<Rightarrow> net \<Rightarrow> socket_id \<Rightarrow> bytes \<Rightarrow> socket_addr \<Rightarrow> nat sock_result" where
  "socket_sendto env n i data dst =
     (case get_socket n i of
        None \<Rightarrow> Some (Inl NotFound, n)
      | Some s \<Rightarrow>
          if sk_protocol s \<noteq> Udp then Some (Inl InvalidArgument, n)
          else do {
            pkt \<leftarrow> build_udp_packet (sk_local_addr s) dst data (replicate LOOPBACK_MTU 0);
            n' \<leftarrow> transmit_and_deliver env 1 n pkt;
            Some (Inr (length data), n')
          })"

text \<open>The two ways of reading: a datagram behind its 8-byte frame, and bytes of the stream. The
  result carries the new contents of the caller's buffer.\<close>

definition recv_udp :: "socket \<Rightarrow> bytes \<Rightarrow> ((socket_error + nat) \<times> bytes \<times> socket) run" where
  "recv_udp s out =
     (if rb_is_empty (sk_rx s) then Some (Inl WouldBlock, out, s)
      else do {
        (got, hdr, rx) \<leftarrow> rb_read (sk_rx s) (replicate 8 0);
        if got < 8 then Some (Inl WouldBlock, out, s\<lparr>sk_rx := rx\<rparr>)
        else do {
          let data_len = unat (from_be [hdr ! 6, hdr ! 7] :: u16);
          let to_read = min data_len (length out);
          (k, part, rx) \<leftarrow> rb_read rx (take to_read out);
          let rx = (if data_len > to_read then rb_discard rx (data_len - to_read) else rx);
          Some (Inr k, part @ drop to_read out, s\<lparr>sk_rx := rx\<rparr>)
        }
      })"

definition recv_tcp :: "socket \<Rightarrow> bytes \<Rightarrow> ((socket_error + nat) \<times> bytes \<times> socket) run" where
  "recv_tcp s out =
     (if rb_is_empty (sk_rx s) then
        Some (if sk_state s = CloseWait \<or> sk_state s = Closed \<or> sk_state s = TimeWait then Inr 0 else Inl WouldBlock, out, s)
      else do {
        (k, out', rx) \<leftarrow> rb_read (sk_rx s) out;
        Some (Inr k, out', s\<lparr>sk_rx := rx\<rparr>)
      })"

definition socket_recv :: "net_event \<Rightarrow> net \<Rightarrow> socket_id \<Rightarrow> bytes \<Rightarrow> ((socket_error + nat) \<times> bytes \<times> net) run" where
  "socket_recv ev n i out = do {
     n1 \<leftarrow> deliver_one ev n;
     case get_socket n1 i of
       None \<Rightarrow> Some (Inl NotFound, out, n1)
     | Some s \<Rightarrow> do {
         (r, out', s') \<leftarrow> (if sk_protocol s = Udp then recv_udp s out else recv_tcp s out);
         Some (r, out', put_socket n1 i s')
       }
   }"

text \<open>The FIN of a socket that leaves \<open>Established\<close> or \<open>CloseWait\<close>.\<close>

definition send_fin :: "(nat \<Rightarrow> net_event) \<Rightarrow> net \<Rightarrow> socket_id \<Rightarrow> socket \<Rightarrow> socket_state \<Rightarrow> unit sock_result" where
  "send_fin env n i s next_state = do {
     pkt \<leftarrow> build_tcp_packet (sk_local_addr s) (sk_remote_addr s) (sk_send_seq s) (sk_recv_seq s) (FIN OR ACK) 4096 []
       (replicate LOOPBACK_MTU 0);
     n' \<leftarrow> transmit_and_deliver env 10 (put_socket n i (s\<lparr>sk_send_seq := sk_send_seq s + 1, sk_state := next_state\<rparr>)) pkt;
     Some (Inr (), n')
   }"

definition socket_shutdown :: "(nat \<Rightarrow> net_event) \<Rightarrow> net \<Rightarrow> socket_id \<Rightarrow> unit sock_result" where
  "socket_shutdown env n i =
     (case get_socket n i of
        None \<Rightarrow> Some (Inl NotFound, n)
      | Some s \<Rightarrow>
          if sk_protocol s = Udp then Some (Inr (), put_socket n i (s\<lparr>sk_state := Closed\<rparr>))
          else if sk_state s = Established then send_fin env n i s FinWait1
          else if sk_state s = CloseWait then send_fin env n i s LastAck
          else Some (Inl InvalidState, n))"

definition socket_close :: "(nat \<Rightarrow> net_event) \<Rightarrow> net \<Rightarrow> socket_id \<Rightarrow> unit sock_result" where
  "socket_close env n i = do {
     n1 \<leftarrow> (case get_socket n i of
              Some s \<Rightarrow>
                if sk_protocol s = Tcp \<and> (sk_state s = Established \<or> sk_state s = CloseWait)
                then do { (_, n') \<leftarrow> socket_shutdown env n i; Some n' } else Some n
            | None \<Rightarrow> Some n);
     case socket_release (net_sockets n1) i of (r, t) \<Rightarrow> Some (r, n1\<lparr>net_sockets := t\<rparr>)
   }"

section \<open>Polling (\<^verbatim>\<open>ops.rs\<close>)\<close>

definition POLLIN :: u16 where "POLLIN = 1"
definition POLLOUT :: u16 where "POLLOUT = 4"
definition POLLERR :: u16 where "POLLERR = 8"
definition POLLHUP :: u16 where "POLLHUP = 16"

record poll_fd =
  pf_fd :: u32
  pf_events :: u16
  pf_revents :: u16

definition sock_revents :: "socket \<Rightarrow> u16 \<Rightarrow> u16" where
  "sock_revents s events =
     (if events AND POLLIN \<noteq> 0 \<and> (\<not> rb_is_empty (sk_rx s) \<or> sk_state s = CloseWait \<or> sk_state s = Closed \<or> sk_state s = TimeWait)
      then POLLIN else 0) OR
     (if events AND POLLOUT \<noteq> 0 \<and> sk_state s = Established then POLLOUT else 0) OR
     (if sk_active s \<and> sk_state s = Closed then POLLERR else 0) OR
     (if sk_state s = Closed \<or> sk_state s = CloseWait then POLLHUP else 0)"

definition poll_check :: "socket_table \<Rightarrow> poll_fd \<Rightarrow> poll_fd" where
  "poll_check t p =
     p\<lparr>pf_revents := (case sock_get t (pf_fd p) of Some s \<Rightarrow> sock_revents s (pf_events p) | None \<Rightarrow> POLLERR)\<rparr>"

text \<open>One round of the loop: the new state and descriptors, and the result if it returns. The
  number of ready descriptors is the number of those with events.\<close>

definition poll_round :: "net_event \<Rightarrow> u64 \<Rightarrow> 64 word \<Rightarrow> net \<Rightarrow> poll_fd list \<Rightarrow> (net \<times> poll_fd list \<times> nat option) run" where
  "poll_round ev start timeout_ms n fds = do {
     n' \<leftarrow> deliver_one ev n;
     let fds' = map (poll_check (net_sockets n')) fds;
     let ready = length (filter (\<lambda>p. pf_revents p \<noteq> 0) fds');
     Some (n', fds',
       if ready > 0 then Some ready
       else if timeout_ms = 0 then Some 0
       else if sint timeout_ms > 0 \<and> sint timeout_ms \<le> sint (saturating_sub (ev_clock ev) start) then Some 0
       else None)
   }"

partial_function (option) poll_loop ::
  "(nat \<Rightarrow> net_event) \<Rightarrow> nat \<Rightarrow> u64 \<Rightarrow> 64 word \<Rightarrow> net \<Rightarrow> poll_fd list \<Rightarrow> (nat \<times> poll_fd list \<times> net) run" where
  "poll_loop env i start timeout_ms n fds = do {
     (n', fds', r) \<leftarrow> poll_round (env i) start timeout_ms n fds;
     case r of Some k \<Rightarrow> Some (k, fds', n') | None \<Rightarrow> poll_loop env (Suc i) start timeout_ms n' fds'
   }"

definition socket_poll :: "(nat \<Rightarrow> net_event) \<Rightarrow> u64 \<Rightarrow> net \<Rightarrow> poll_fd list \<Rightarrow> 64 word \<Rightarrow> (nat \<times> poll_fd list \<times> net) run" where
  "socket_poll env start n fds timeout_ms = poll_loop env 0 start timeout_ms n fds"

end
