(* ===== verification/Net_Sound.thy ===== *)
theory Net_Sound
  imports Net_Ops
begin

text \<open>
  The network stack never panics: an invariant of its state that every operation keeps, whatever
  packets arrive and whatever the callers ask for. Along with it, every operation moves the state
  of a socket that it does not switch off only along the edges of the TCP state diagram, and bounds the
  number of new sockets.
\<close>

section \<open>The state diagram\<close>

text \<open>The edges that a TCP socket can take, by a call of its owner or by a segment of its peer.\<close>

inductive tcp_edge :: "socket_state \<Rightarrow> socket_state \<Rightarrow> bool" where
  bind: "tcp_edge Closed Bound"
| listen: "tcp_edge Bound Listen"
| connect_unbound: "tcp_edge Closed SynSent"
| connect: "tcp_edge Bound SynSent"
| syn_ack: "tcp_edge SynSent Established"
| handshake: "tcp_edge SynReceived Established"
| peer_closes: "tcp_edge Established CloseWait"
| close: "tcp_edge Established FinWait1"
| close_both: "tcp_edge CloseWait LastAck"
| fin_acked: "tcp_edge FinWait1 FinWait2"
| fin_and_ack: "tcp_edge FinWait1 TimeWait"
| simultaneous: "tcp_edge FinWait1 Closing"
| peer_fin: "tcp_edge FinWait2 TimeWait"
| closing_acked: "tcp_edge Closing TimeWait"
| incoming: "tcp_edge Closed SynReceived"

text \<open>What can become of a slot: the occupant stays and moves along an edge, or is switched off, or
  a free slot gets a new occupant of the next generation. The number is that of new occupants.\<close>

inductive slot_step :: "nat \<Rightarrow> socket \<Rightarrow> socket \<Rightarrow> bool" where
  move: "sk_generation s' = sk_generation s \<Longrightarrow> sk_protocol s' = sk_protocol s \<Longrightarrow> sk_active s' = sk_active s \<Longrightarrow>
    sk_protocol s = Tcp \<longrightarrow> sk_state s' = sk_state s \<or> tcp_edge (sk_state s) (sk_state s') \<Longrightarrow> slot_step 0 s s'"
| stop: "sk_generation s' = sk_generation s \<Longrightarrow> sk_protocol s' = sk_protocol s \<Longrightarrow> \<not> sk_active s' \<Longrightarrow>
    sk_state s' = sk_state s \<or> sk_state s' = Closed \<Longrightarrow> slot_step 0 s s'"
| fresh: "\<not> sk_active s \<Longrightarrow> slot_step 1 s (new_socket ty proto own (sk_generation s + 1))"

text \<open>A sequence of such steps, with the number of new occupants in it.\<close>

inductive slot_path :: "nat \<Rightarrow> socket \<Rightarrow> socket \<Rightarrow> bool" where
  start: "slot_path 0 s s"
| step: "slot_path i s u \<Longrightarrow> slot_step j u v \<Longrightarrow> slot_path (i + j) s v"

lemma slot_path_trans: "slot_path j u v \<Longrightarrow> slot_path i s u \<Longrightarrow> slot_path (i + j) s v"
  by (induction rule: slot_path.induct) (auto simp: add.assoc [symmetric] intro: slot_path.intros)

lemma slot_path_single: "slot_step j s v \<Longrightarrow> slot_path j s v"
  using slot_path.step [OF slot_path.start] by simp

text \<open>The generation counts the occupants, modulo its width, and without a new one an active socket
  has been active all along and has followed the diagram.\<close>

lemma slot_path_generation: "slot_path j s v \<Longrightarrow> sk_generation v = sk_generation s + of_nat j"
  by (induction rule: slot_path.induct) (auto elim!: slot_step.cases simp: new_socket_def)

lemma slot_path_same:
  "slot_path j s v \<Longrightarrow> j = 0 \<Longrightarrow> sk_active v \<Longrightarrow>
   sk_protocol v = sk_protocol s \<and> sk_active s \<and> (sk_protocol s = Tcp \<longrightarrow> tcp_edge\<^sup>*\<^sup>* (sk_state s) (sk_state v))"
proof (induction rule: slot_path.induct)
  case (step i s u j v)
  then show ?case
    by (cases rule: slot_step.cases [OF step.hyps(2)]) (auto intro: rtranclp.rtrancl_into_rtrancl)
qed simp

text \<open>Two tables with such sequences between their slots, of at most \<open>c\<close> new occupants each.\<close>

definition evolves :: "nat \<Rightarrow> socket_table \<Rightarrow> socket_table \<Rightarrow> bool" where
  "evolves c t t' \<longleftrightarrow> length t' = length t \<and> (\<forall>k < length t. \<exists>j \<le> c. slot_path j (t ! k) (t' ! k))"

lemma evolves_refl [simp]: "evolves c t t"
  by (auto simp: evolves_def intro: slot_path.start)

lemma evolves_trans: "evolves c t u \<Longrightarrow> evolves d u v \<Longrightarrow> evolves (c + d) t v"
  by (auto simp: evolves_def) (meson add_mono slot_path_trans)

lemma evolves_mono: "evolves c t u \<Longrightarrow> c \<le> d \<Longrightarrow> evolves d t u"
  by (auto simp: evolves_def) (meson order_trans)

lemma evolves_update: "slot_step j (t ! k) s \<Longrightarrow> j \<le> c \<Longrightarrow> evolves c t (t[k := s])"
  unfolding evolves_def
proof (intro conjI allI impI)
  fix i assume s: "slot_step j (t ! k) s" "j \<le> c" "i < length t"
  show "\<exists>j\<le>c. slot_path j (t ! i) (t[k := s] ! i)"
    using s slot_path_single [OF s(1)] slot_path.start [of "t ! i"] by (cases "i = k") auto
qed simp

lemmas slot_moveI = slot_step.move and slot_stopI = slot_step.stop

section \<open>The invariant\<close>

definition sock_ok :: "socket \<Rightarrow> bool" where
  "sock_ok s \<longleftrightarrow> rb_ok (sk_rx s) \<and> length (sk_backlog s) = MAX_BACKLOG \<and> sk_backlog_count s \<le> MAX_BACKLOG"

definition net_ok :: "net \<Rightarrow> bool" where
  "net_ok n \<longleftrightarrow> length (net_sockets n) = MAX_SOCKETS \<and> (\<forall>s \<in> set (net_sockets n). sock_ok s) \<and>
     lo_ok (net_loopback n) \<and> length (dr_data (net_dns n)) = 512"

text \<open>What every operation guarantees of the state it leaves.\<close>

definition good :: "nat \<Rightarrow> net \<Rightarrow> net \<Rightarrow> bool" where
  "good lim n n' \<longleftrightarrow> net_ok n' \<and> evolves lim (net_sockets n) (net_sockets n')"

lemma good_refl: "net_ok n \<Longrightarrow> good lim n n"
  by (simp add: good_def)

lemma good_add: "good d n m \<Longrightarrow> good e m k \<Longrightarrow> good (d + e) n k"
  by (auto simp: good_def intro: evolves_trans)

lemma good_mono: "good d n m \<Longrightarrow> d \<le> lim \<Longrightarrow> good lim n m"
  by (auto simp: good_def intro: evolves_mono)

lemmas good_trans = good_add [where d = 0, simplified] and good_trans_keep = good_add [where e = 0, simplified]

lemma good_ok: "good lim n m \<Longrightarrow> net_ok m"
  by (simp add: good_def)

text \<open>Sequencing: the guarantee of a call, then that of what follows it.\<close>

lemma run_good_add: "good d n m \<Longrightarrow> run_ok (good e m) r \<Longrightarrow> run_ok (good (d + e) n) r"
  by (meson good_add run_ok_mono)

lemma run_pair_add: "good d n m \<Longrightarrow> run_ok (\<lambda>(y, k). good e m k) r \<Longrightarrow> run_ok (\<lambda>(y, k). good (d + e) n k) r"
  by (auto simp: run_ok_def intro: good_add)

lemma run_good_bind_add:
  "run_ok (good d n) r \<Longrightarrow> (\<And>m. net_ok m \<Longrightarrow> run_ok (good e m) (f m)) \<Longrightarrow> run_ok (good (d + e) n) (r \<bind> f)"
  by (erule run_ok_bind) (meson good_ok run_good_add)

lemma run_good_pair_add:
  "run_ok (\<lambda>(x, m). good d n m) r \<Longrightarrow> (\<And>x m. net_ok m \<Longrightarrow> run_ok (good e m) (f x m)) \<Longrightarrow>
   run_ok (good (d + e) n) (r \<bind> (\<lambda>(x, m). f x m))"
  by (erule run_ok_bind) (auto intro: run_good_add dest: good_ok)

lemma run_good_pair2_add:
  "run_ok (\<lambda>(x, m). good d n m) r \<Longrightarrow> (\<And>x m. net_ok m \<Longrightarrow> run_ok (\<lambda>(y, k). good e m k) (f x m)) \<Longrightarrow>
   run_ok (\<lambda>(y, k). good (d + e) n k) (r \<bind> (\<lambda>(x, m). f x m))"
  by (erule run_ok_bind) (auto intro: run_pair_add dest: good_ok)

lemma run_good_to_pair_add:
  "run_ok (good d n) r \<Longrightarrow> (\<And>m. net_ok m \<Longrightarrow> run_ok (\<lambda>(y, k). good e m k) (f m)) \<Longrightarrow>
   run_ok (\<lambda>(y, k). good (d + e) n k) (r \<bind> f)"
  by (erule run_ok_bind) (auto intro: run_pair_add dest: good_ok)

lemmas run_good_mono = run_good_add [where d = 0, simplified] and run_pair_mono = run_pair_add [where d = 0, simplified]
lemmas run_good_bind = run_good_bind_add [where d = 0, simplified] and run_good_round = run_good_bind_add [where d = "Suc 0", simplified]
lemmas run_good_pair = run_good_pair_add [where e = 0, simplified]
lemmas run_good_pair_round = run_good_pair2_add [where d = "Suc 0", simplified]
lemmas run_good_to_pair = run_good_to_pair_add [where d = 0, simplified]
lemmas run_good_to_pair_round = run_good_to_pair_add [where d = "Suc 0", simplified]
lemmas run_good_to_pair_keep = run_good_to_pair_add [where e = 0, simplified]

section \<open>State changes\<close>

lemma sock_ok_empty [simp]: "sock_ok socket_empty" "sock_ok (new_socket ty proto own gen)"
  by (simp_all add: sock_ok_def new_socket_def socket_empty_def)

lemma new_socket_state [simp]: "sk_state (new_socket ty proto own gen) = Closed"
  by (simp add: new_socket_def socket_empty_def)

lemma net_ok_new: "net_ok net_new"
  by (simp add: net_ok_def net_new_def table_new_def dns_response_new_def)

lemma sock_ok_simps [simp]:
  "sock_ok (s\<lparr>sk_active := a\<rparr>) = sock_ok s" "sock_ok (s\<lparr>sk_local_addr := la\<rparr>) = sock_ok s"
  "sock_ok (s\<lparr>sk_remote_addr := la\<rparr>) = sock_ok s" "sock_ok (s\<lparr>sk_state := st\<rparr>) = sock_ok s"
  "sock_ok (s\<lparr>sk_send_seq := u\<rparr>) = sock_ok s" "sock_ok (s\<lparr>sk_send_ack := u\<rparr>) = sock_ok s"
  "sock_ok (s\<lparr>sk_recv_seq := u\<rparr>) = sock_ok s" "sock_ok (s\<lparr>sk_send_window := w\<rparr>) = sock_ok s"
  "sock_ok (s\<lparr>sk_retransmit := r\<rparr>) = sock_ok s" "sock_ok (sock_acked s u now) = sock_ok s"
  "sock_ok (sock_no_retransmit s) = sock_ok s" "sock_ok (syn_received s h sa da u) = sock_ok s"
  by (simp_all add: sock_ok_def sock_acked_def sock_no_retransmit_def syn_received_def)

lemma sock_fields [simp]:
  "sk_generation (sock_acked s u now) = sk_generation s" "sk_protocol (sock_acked s u now) = sk_protocol s"
  "sk_active (sock_acked s u now) = sk_active s" "sk_state (sock_acked s u now) = sk_state s"
  "sk_generation (sock_no_retransmit s) = sk_generation s" "sk_protocol (sock_no_retransmit s) = sk_protocol s"
  "sk_active (sock_no_retransmit s) = sk_active s" "sk_state (sock_no_retransmit s) = sk_state s"
  "sk_generation (add_to_backlog s c) = sk_generation s" "sk_protocol (add_to_backlog s c) = sk_protocol s"
  "sk_active (add_to_backlog s c) = sk_active s" "sk_state (add_to_backlog s c) = sk_state s"
  by (simp_all add: sock_acked_def sock_no_retransmit_def add_to_backlog_def)

lemma sock_ok_rx: "sock_ok s \<Longrightarrow> rb_ok rx \<Longrightarrow> sock_ok (s\<lparr>sk_rx := rx\<rparr>)"
  by (simp add: sock_ok_def)

lemma sock_ok_backlog: "sock_ok s \<Longrightarrow> sock_ok (add_to_backlog s c)"
  by (simp add: sock_ok_def add_to_backlog_def)

lemma sock_ok_pop: "sock_ok s \<Longrightarrow> sock_ok (snd (backlog_pop s))"
proof -
  assume "sock_ok s"
  moreover have "length (foldl (\<lambda>b i. b[i - 1 := b ! i]) b is) = length b" for b :: "socket_id list" and "is"
    by (induction "is" arbitrary: b) simp_all
  ultimately show ?thesis by (auto simp: sock_ok_def backlog_pop_def)
qed

lemma slot_keep [intro]: "slot_step 0 s (add_to_backlog s c)" "slot_step 0 s (snd (backlog_pop s))" "slot_step 0 s (s\<lparr>sk_rx := rx\<rparr>)"
  by (rule slot_moveI; simp add: backlog_pop_def)+

lemma slot_deactivate [intro]: "slot_step 0 s (s\<lparr>sk_active := False\<rparr>)"
  by (rule slot_stopI) simp_all

lemma get_socket_ok: "net_ok n \<Longrightarrow> get_socket n i = Some s \<Longrightarrow> sock_ok s"
  using sid_slot_less [of i] by (auto simp: net_ok_def get_socket_def sock_get_eq Let_def split: if_splits)

lemma get_socket_slot: "get_socket n i = Some s \<Longrightarrow> net_sockets n ! unat (sid_slot i) = s"
  by (auto simp: get_socket_def sock_get_eq Let_def split: if_splits)

lemma put_good:
  assumes "net_ok n" "get_socket n i = Some s" "sock_ok s'" "slot_step 0 s s'"
  shows "good lim n (put_socket n i s')"
  using assms evolves_update [of 0 "net_sockets n" "unat (sid_slot i)" s'] get_socket_slot [OF assms(2)]
  by (auto simp: good_def net_ok_def put_socket_def sock_put_def dest!: subsetD [OF set_update_subset_insert])

lemma modify_good:
  "net_ok n \<Longrightarrow> (\<And>s. sock_ok s \<Longrightarrow> get_socket n i = Some s \<Longrightarrow> sock_ok (f s) \<and> slot_step 0 s (f s)) \<Longrightarrow>
   good lim n (case get_socket n i of None \<Rightarrow> n | Some s \<Rightarrow> put_socket n i (f s))"
  using get_socket_ok [of n i] by (auto intro!: put_good good_refl split: option.split)

lemma good_fields [simp]:
  "good lim n (m\<lparr>net_isn := u\<rparr>) = good lim n m" "good lim n (m\<lparr>net_port := p\<rparr>) = good lim n m" "good lim n (m\<lparr>net_sent := fs\<rparr>) = good lim n m"
  "good lim n (m\<lparr>net_arp := ar\<rparr>) = good lim n m" "good lim n (m\<lparr>net_nic := c\<rparr>) = good lim n m"
  by (simp_all add: good_def net_ok_def)

lemma net_ok_fields [simp]:
  "net_ok (n\<lparr>net_isn := u\<rparr>) = net_ok n" "net_ok (n\<lparr>net_port := p\<rparr>) = net_ok n"
  by (simp_all add: net_ok_def)

lemma alloc_good:
  assumes "net_ok n" "socket_alloc (net_sockets n) ty proto own = (r, t)"
  shows "good (Suc 0) n (n\<lparr>net_sockets := t\<rparr>)"
proof -
  have "length (net_sockets n) = MAX_SOCKETS" using assms(1) by (simp add: net_ok_def)
  then show ?thesis
    using assms by (cases "net_sockets n" rule: socket_alloc_cases [where ty = ty and proto = proto and own = own])
      (auto simp: good_def net_ok_def intro!: evolves_update [OF slot_step.fresh] dest!: subsetD [OF set_update_subset_insert])
qed

lemma release_good: "net_ok n \<Longrightarrow> socket_release (net_sockets n) i = (r, t) \<Longrightarrow> good lim n (n\<lparr>net_sockets := t\<rparr>)"
  using sid_slot_less [of i]
  by (auto simp: good_def net_ok_def socket_release_def Let_def intro!: evolves_update
      dest!: subsetD [OF set_update_subset_insert] split: if_splits)

lemma cleanup_good: "net_ok n \<Longrightarrow> good lim n (cleanup_process_sockets n pid)"
  by (auto simp: good_def net_ok_def cleanup_process_sockets_def cleanup_by_owner_def evolves_def
      intro!: exI [of _ "0::nat"] slot_path.start slot_path_single slot_deactivate)

section \<open>Sending\<close>

lemma rb_write_ok: "rb_ok q \<Longrightarrow> run_ok (\<lambda>(k, q'). rb_ok q') (rb_write q xs)"
  using rb.write_law [of q xs] by (auto simp: run_ok_def)

lemma rb_read_ok: "rb_ok q \<Longrightarrow> run_ok (\<lambda>(k, out', q'). rb_ok q' \<and> length out' = length out) (rb_read q out)"
  using rb.read_law [of q out] by (auto simp: run_ok_def min_def)

lemma transmit_good: "net_ok n \<Longrightarrow> run_ok (good lim n) (transmit_ip n p)"
  using lo.push_total [of "net_loopback n" p]
  by (auto simp: run_ok_def transmit_ip_def good_def net_ok_def Let_def split: option.split)

lemma tcp_output_good: "net_ok n \<Longrightarrow> run_ok (good lim n) (tcp_output n src dst sq ak flags win data)"
  using build_tcp_packet_spec [of data "replicate LOOPBACK_MTU 0" src dst sq ak flags win]
    build_tcp_packet_small [of "replicate LOOPBACK_MTU 0" data src dst sq ak flags win]
  by (cases "40 + length data \<le> LOOPBACK_MTU") (auto simp: tcp_output_def transmit_good good_refl)

lemma put_and_ack_good:
  "net_ok n \<Longrightarrow> get_socket n i = Some s \<Longrightarrow> sock_ok s' \<Longrightarrow> slot_step 0 s s' \<Longrightarrow> run_ok (good lim n) (put_and_ack n i s')"
  unfolding put_and_ack_def by (rule run_good_mono [OF put_good]) (auto intro: tcp_output_good good_ok [OF put_good])

section \<open>Receiving\<close>

lemma handle_syn_good: "net_ok n \<Longrightarrow> run_ok (good (Suc 0) n) (handle_syn n l h src dst)"
proof (cases "get_socket n l")
  case (Some s)
  assume ok: "net_ok n"
  obtain r t where r: "socket_alloc (net_sockets n) Stream Tcp (sk_owner s) = (r, t)" by fastforce
  show ?thesis
  proof (cases r)
    case (Inr c)
    let ?n1 = "n\<lparr>net_sockets := t, net_isn := net_isn n + 1000\<rparr>"
    have 1: "good (Suc 0) n ?n1" using alloc_good [OF ok r] by simp
    let ?n2 = "case get_socket ?n1 c of None \<Rightarrow> ?n1 | Some conn \<Rightarrow> put_socket ?n1 c (syn_received conn h src dst (net_isn n))"
    have "get_socket ?n1 c = Some conn \<Longrightarrow> sk_state conn = Closed" for conn
    proof -
      have len: "length (net_sockets n) = MAX_SOCKETS" using ok by (simp add: net_ok_def)
      then show "get_socket ?n1 c = Some conn \<Longrightarrow> sk_state conn = Closed"
        using r Inr by (cases "net_sockets n" rule: socket_alloc_cases [where ty = Stream and proto = Tcp and own = "sk_owner s"])
          (auto simp: get_socket_def sock_get_eq Let_def len split: if_splits)
    qed
    then have 2: "good 0 ?n1 ?n2"
      by (intro modify_good [OF good_ok [OF 1]])
        (auto simp: syn_received_def sock_ok_def intro!: slot_moveI tcp_edge.incoming)
    let ?n3 = "case get_socket ?n2 l of None \<Rightarrow> ?n2 | Some s \<Rightarrow> put_socket ?n2 l (add_to_backlog s c)"
    have 3: "good 0 ?n2 ?n3" by (rule modify_good [OF good_ok [OF 2]]) (auto intro: sock_ok_backlog)
    have "good (Suc 0) n ?n3" using 1 2 3 good_trans_keep by blast
    from run_good_add [where e = 0, simplified, OF this tcp_output_good [OF good_ok [OF 3]]]
    show ?thesis using Some r Inr by (simp add: handle_syn_def next_isn_def Let_def)
  qed (simp add: handle_syn_def Some r ok good_refl)
qed (simp add: handle_syn_def good_refl)

lemma tcp_in_established_good:
  assumes "net_ok n" "get_socket n i = Some s" "sk_state s = Established"
  shows "run_ok (good lim n) (tcp_in_established n i s h payload now)"
proof -
  have ok: "sock_ok s" using get_socket_ok [OF assms(1,2)] .
  have "run_ok (good lim n) (rb_write (sk_rx s) payload \<bind> (\<lambda>(_, rx). put_and_ack n i (s\<lparr>sk_rx := rx, sk_recv_seq := q\<rparr>)))" for q
    by (rule run_ok_bind [OF rb_write_ok])
      (use assms ok in \<open>auto simp: sock_ok_def intro!: put_and_ack_good slot_moveI\<close>)
  then show ?thesis
    using assms ok
    by (auto simp: tcp_in_established_def Let_def good_refl intro!: put_and_ack_good put_good slot_moveI tcp_edge.intros)
qed

lemma tcp_state_machine_good: "net_ok n \<Longrightarrow> run_ok (good lim n) (tcp_state_machine n i h payload now)"
proof (cases "get_socket n i")
  case (Some s)
  assume ok: "net_ok n"
  have s: "sock_ok s" using get_socket_ok [OF ok Some] .
  have stop: "slot_step 0 s (sock_no_retransmit (s\<lparr>sk_state := Closed, sk_active := False\<rparr>))"
    "slot_step 0 s (sock_no_retransmit (sock_acked (s\<lparr>sk_state := Closed, sk_active := False\<rparr>) a now))" for a now
    by (rule slot_stopI; simp)+
  note facts = ok s Some
  show ?thesis
  proof (cases "sk_state s")
    case Established
    then show ?thesis using facts tcp_in_established_good by (simp add: tcp_state_machine_def)
  next
    case LastAck
    then show ?thesis
      using facts stop by (auto simp: tcp_state_machine_def tcp_in_last_ack_def good_refl intro!: put_good)
  next
    case TimeWait
    then show ?thesis using facts stop by (auto simp: tcp_state_machine_def intro!: put_good)
  qed (use facts in \<open>auto simp: tcp_state_machine_def tcp_in_syn_sent_def tcp_in_syn_received_def tcp_in_fin_wait1_def
        tcp_in_fin_wait2_def tcp_in_closing_def Let_def good_refl
        intro!: put_and_ack_good put_good slot_moveI tcp_edge.intros\<close>)
qed (simp add: tcp_state_machine_def good_refl)

lemma tcp_receive_good: "net_ok n \<Longrightarrow> run_ok (good (Suc 0) n) (tcp_receive_packet n ip data now)"
  by (auto simp: tcp_receive_packet_def Let_def good_refl intro!: tcp_state_machine_good handle_syn_good split: option.split)

lemma udp_receive_good:
  assumes "net_ok n"
  shows "run_ok (\<lambda>t. good lim n (n\<lparr>net_sockets := t\<rparr>)) (udp_receive_packet ip data (net_sockets n))"
proof -
  let ?P = "\<lambda>t. good lim n (n\<lparr>net_sockets := t\<rparr>)"
  have fill: "run_ok ?P (rb_write (sk_rx s) a \<bind> (\<lambda>(_, rx). rb_write rx b \<bind> (\<lambda>(_, rx). rb_write rx c \<bind>
      (\<lambda>(_, rx). rb_write rx d \<bind> (\<lambda>(_, rx). Some (sock_put (net_sockets n) i (s\<lparr>sk_rx := rx\<rparr>)))))))"
    if "sock_get (net_sockets n) i = Some s" for s i a b c d
  proof -
    have g: "get_socket n i = Some s" using that by (simp add: get_socket_def)
    have s: "sock_ok s" using get_socket_ok [OF assms g] .
    then have "rb_ok (sk_rx s)" by (simp add: sock_ok_def)
    then show ?thesis
      using put_good [OF assms g sock_ok_rx [OF s] slot_keep(3)]
      by (intro run_ok_bind [OF rb_write_ok]; clarsimp simp: put_socket_def)+
  qed
  show ?thesis
    using assms fill good_refl [OF assms]
    by (auto simp: udp_receive_packet_def Let_def slice_of_def split: option.split)
qed

lemma dispatch_good: "net_ok n \<Longrightarrow> run_ok (good (Suc 0) n) (dispatch_ip n ip data now)"
  by (auto simp: dispatch_ip_def good_refl intro!: tcp_receive_good run_ok_bind [OF udp_receive_good])

lemma capture_ok: "length (dr_data d) = 512 \<Longrightarrow> run_ok (\<lambda>d'. length (dr_data d') = 512) (capture_dns d data)"
  by (auto simp: capture_dns_def Let_def)

lemma receive_ip_good: "net_ok n \<Longrightarrow> run_ok (good (Suc 0) n) (receive_ip n payload now)"
proof -
  assume ok: "net_ok n"
  have "run_ok (good (Suc 0) n) (capture_dns (net_dns n) data \<bind> (\<lambda>d. Some (n\<lparr>net_dns := d\<rparr>)))" for data
    by (rule run_ok_bind [OF capture_ok]) (use ok in \<open>simp_all add: good_def net_ok_def\<close>)
  then show ?thesis
    using ok dispatch_good [OF ok] good_refl [OF ok]
    by (auto simp: receive_ip_def Let_def slice_of_def split: option.split)
qed

lemma nic_receive_good: "net_ok n \<Longrightarrow> run_ok (\<lambda>(b, n'). good (Suc 0) n n') (nic_receive_one ev n)"
  by (auto simp: nic_receive_one_def process_arp_frame_def handle_arp_reply_def good_refl
      intro!: run_ok_bind [OF receive_ip_good] split: option.split)

lemma arp_poll_good: "net_ok n \<Longrightarrow> run_ok (\<lambda>(r, n'). good k n n') (arp_poll env ip i k n)"
  by (induction k arbitrary: i n) (auto simp: good_refl intro!: run_good_pair_round [OF nic_receive_good] split: option.split)

section \<open>Timers and delivery\<close>

lemma retransmit_scan_good:
  "\<forall>s \<in> set ss. sock_ok s \<Longrightarrow> retransmit_scan now slot ss = (ss', packets, rst) \<Longrightarrow>
   evolves lim ss ss' \<and> (\<forall>s \<in> set ss'. sock_ok s)"
proof (induction ss arbitrary: slot ss' packets rst)
  case (Cons s ss)
  obtain us ps rs where us: "retransmit_scan now (Suc slot) ss = (us, ps, rs)" by (cases "retransmit_scan now (Suc slot) ss")
  then have IH: "evolves lim ss us" "\<forall>s \<in> set us. sock_ok s" using Cons.IH Cons.prems(1) by fastforce+
  have "\<exists>s'. ss' = s' # us \<and> sock_ok s' \<and> slot_step 0 s s'"
    using Cons.prems us by (auto split: if_splits option.splits prod.splits intro!: slot_moveI)
  then obtain s' where s': "ss' = s' # us" "sock_ok s'" "slot_step 0 s s'" by blast
  have "\<exists>j\<le>lim. slot_path j s s'" using slot_path_single [OF s'(3)] by blast
  then show ?case using IH s' by (auto simp: evolves_def nth_Cons split: nat.split)
qed simp

lemma reset_socket_good: "net_ok n \<Longrightarrow> good lim n (n\<lparr>net_sockets := reset_socket slot (net_sockets n)\<rparr>)"
proof -
  assume ok: "net_ok n"
  show ?thesis
  proof (cases "slot < length (net_sockets n)")
    case True
    then have "sock_ok (net_sockets n ! slot)" using ok by (simp add: net_ok_def)
    moreover have "evolves lim (net_sockets n) (reset_socket slot (net_sockets n))"
      unfolding reset_socket_def by (rule evolves_update, rule slot_stopI) simp_all
    ultimately show ?thesis
      using ok by (auto simp: good_def net_ok_def reset_socket_def dest!: subsetD [OF set_update_subset_insert])
  next
    case False
    then show ?thesis using ok by (simp add: reset_socket_def list_update_beyond good_refl)
  qed
qed

lemma reset_all_good: "net_ok n \<Longrightarrow> good lim n (n\<lparr>net_sockets := fold reset_socket rst (net_sockets n)\<rparr>)"
proof (induction rst arbitrary: n)
  case (Cons slot rst)
  note g = reset_socket_good [OF Cons.prems, of 0 slot]
  show ?case using good_trans [OF g Cons.IH [OF good_ok [OF g]]] by simp
qed (simp add: good_refl)

lemma transmit_all_good: "net_ok n \<Longrightarrow> run_ok (good lim n) (transmit_all n ps)"
  by (induction ps arbitrary: n) (auto simp: good_refl intro!: run_good_bind [OF transmit_good])

lemma retransmits_good: "net_ok n \<Longrightarrow> run_ok (good lim n) (check_all_retransmits now n)"
proof -
  assume ok: "net_ok n"
  obtain t ps rst where s: "retransmit_scan now 0 (net_sockets n) = (t, ps, rst)" by (cases "retransmit_scan now 0 (net_sockets n)")
  have 1: "good 0 n (n\<lparr>net_sockets := t\<rparr>)"
    using retransmit_scan_good [OF _ s] ok by (auto simp: good_def net_ok_def evolves_def)
  have 2: "good 0 (n\<lparr>net_sockets := t\<rparr>) (n\<lparr>net_sockets := fold reset_socket rst t\<rparr>)"
    using reset_all_good [OF good_ok [OF 1], of 0 rst] by simp
  show ?thesis
    using run_good_mono [OF good_trans [OF 1 2] transmit_all_good [OF good_ok [OF 2]]]
    by (simp add: check_all_retransmits_def s)
qed

lemma dequeue_ok:
  assumes "lo_ok lo"
  shows "run_ok (\<lambda>(r, lo'). lo_ok lo' \<and> (\<forall>buf k. r = Some (buf, k) \<longrightarrow> k \<le> length buf)) (lo_dequeue lo)"
proof -
  obtain r q where r: "lo_dequeue lo = Some (r, q)" "lo_ok q"
    using lo.pop_total [OF assms] by (auto simp: lo_next_def split: bind_splits)
  moreover have "k \<le> length buf" if "r = Some (buf, k)" for buf k
    using r that by (auto simp: lo_dequeue_def copy_slice_def split: if_splits bind_splits)
  ultimately show ?thesis by auto
qed

lemma deliver_packet_good:
  assumes "net_ok n" "\<And>buf k. r = Some (buf, k) \<Longrightarrow> k \<le> length buf"
  shows "run_ok (good (Suc 0) n) (deliver_packet ev n r)"
proof (cases r)
  case None
  then show ?thesis
    using assms(1) by (auto simp: deliver_packet_def intro!: run_good_pair [OF nic_receive_good] retransmits_good)
next
  case (Some p)
  obtain buf k where p: "p = (buf, k)" by (cases p)
  then have "k \<le> length buf" using assms(2) Some by simp
  then show ?thesis
    using assms(1) Some p
    by (auto simp: deliver_packet_def ip_from_bytes_def dispatch_good good_refl split: option.split)
qed

lemma deliver_good: "net_ok n \<Longrightarrow> run_ok (good (Suc 0) n) (deliver_one ev n)"
proof -
  assume ok: "net_ok n"
  have lo: "lo_ok lo' \<Longrightarrow> good 0 n (n\<lparr>net_loopback := lo'\<rparr>)" for lo' using ok by (simp add: good_def net_ok_def)
  have "lo_ok (net_loopback n)" using ok by (simp add: net_ok_def)
  then show ?thesis
    unfolding deliver_one_def
    by (rule run_ok_bind [OF dequeue_ok])
      (auto intro!: run_good_mono [OF lo] deliver_packet_good good_ok [OF lo])
qed

lemma deliver_times_good: "net_ok n \<Longrightarrow> run_ok (good k n) (deliver_times env i k n)"
  by (induction k arbitrary: i n) (auto simp: good_refl intro!: run_good_round [OF deliver_good])

lemma deliver_pending_good: "net_ok n \<Longrightarrow> run_ok (good k n) (deliver_pending_loop env i k n)"
  by (induction k arbitrary: i n) (auto simp: good_refl intro!: run_good_round [OF deliver_good])

section \<open>Socket operations\<close>

lemma connect_loop_good: "net_ok n \<Longrightarrow> run_ok (\<lambda>(r, n'). good k n n') (connect_loop env sid i k n)"
  by (induction k arbitrary: i n) (auto simp: good_refl intro!: run_good_to_pair_round [OF deliver_good] split: option.split)

lemma connect_setup_good:
  assumes "net_ok n" "get_socket n i = Some s" "sk_state s = Closed \<or> sk_state s = Bound"
  shows "run_ok (good lim n) (connect_setup n i s remote)"
proof -
  have s: "sock_ok s" using get_socket_ok [OF assms(1,2)] .
  have put: "run_ok (good lim n) (tcp_output (put_socket m i s') la remote isn 0 SYN 4096 [])"
    if "net_sockets m = net_sockets n" "net_loopback m = net_loopback n" "net_dns m = net_dns n" "sock_ok s'" "slot_step 0 s s'"
    for m s' la isn
  proof -
    have m: "net_ok m" "get_socket m i = Some s" using assms(1,2) that(1-3) by (simp_all add: net_ok_def get_socket_def)
    note g = put_good [OF m that(4,5)]
    have "good 0 n (put_socket m i s')" using g that(1) by (simp add: good_def)
    then show ?thesis by (rule run_good_mono) (rule tcp_output_good [OF good_ok [OF g]])
  qed
  show ?thesis
    using s assms(3)
    by (auto simp: connect_setup_def allocate_ephemeral_port_def next_isn_def Let_def split: prod.split
        intro!: put slot_moveI intro: tcp_edge.intros)
qed

lemma transmit_and_deliver_good:
  assumes "net_ok n" "pkt_len \<le> length buf"
  shows "run_ok (good k n) (transmit_and_deliver env k n (pkt_len, buf))"
  using assms by (auto simp: transmit_and_deliver_def good_refl intro!: run_good_bind [OF transmit_good] deliver_times_good)

lemma build_tcp_ok: "run_ok (\<lambda>(k, buf). k \<le> length buf) (build_tcp_packet src dst sq ak flags win data buf)"
  using build_tcp_packet_spec [of data buf src dst sq ak flags win] build_tcp_packet_small [of buf data src dst sq ak flags win]
  by (cases "40 + length data \<le> length buf") auto

lemma build_udp_ok:
  "length data < 65528 \<Longrightarrow> run_ok (\<lambda>(k, buf). k \<le> length buf) (build_udp_packet src dst data buf)"
  using build_udp_packet_spec [of data buf src dst] build_udp_packet_small [of buf data src dst]
  by (cases "28 + length data \<le> length buf") auto

text \<open>Storing a socket, sending a packet for it, and answering the caller.\<close>

lemma put_transmit_good:
  assumes "good 0 n m" "pkt_len \<le> length buf"
  shows "run_ok (\<lambda>(r, n'). good k n n') (transmit_and_deliver env k m (pkt_len, buf) \<bind> (\<lambda>n'. Some (r, n')))"
  by (rule run_ok_bind [OF run_good_mono [OF assms(1) transmit_and_deliver_good [OF good_ok [OF assms(1)] assms(2)]]]) simp

lemma send_fin_good:
  assumes "net_ok n" "get_socket n i = Some s" "tcp_edge (sk_state s) st"
  shows "run_ok (\<lambda>(r, n'). good 10 n n') (send_fin env n i s st)"
proof -
  have "good 0 n (put_socket n i (s\<lparr>sk_send_seq := u, sk_state := st\<rparr>))" for u
    using assms get_socket_ok [OF assms(1,2)] by (intro put_good [OF assms(1,2)] slot_moveI) auto
  then show ?thesis
    unfolding send_fin_def by (intro run_ok_bind [OF build_tcp_ok]) (auto intro!: put_transmit_good)
qed

lemma shutdown_good: "net_ok n \<Longrightarrow> run_ok (\<lambda>(r, n'). good 10 n n') (socket_shutdown env n i)"
  using get_socket_ok [of n i]
  by (auto simp: socket_shutdown_def good_refl intro!: send_fin_good put_good slot_moveI tcp_edge.intros split: option.split)

lemma close_good: "net_ok n \<Longrightarrow> run_ok (\<lambda>(r, n'). good 10 n n') (socket_close env n i)"
  unfolding socket_close_def
  by (rule run_good_to_pair_keep)
    (auto simp: good_refl intro!: run_ok_bind [OF shutdown_good] dest: release_good split: option.split prod.split)

lemma send_good: "net_ok n \<Longrightarrow> length data < 65528 \<Longrightarrow> run_ok (\<lambda>(r, n'). good (Suc 0) n n') (socket_send env n i data)"
  using get_socket_ok [of n i]
  by (auto simp: socket_send_def good_refl split: option.split protocol.split
      intro!: run_ok_bind [OF build_udp_ok] run_ok_bind [OF build_tcp_ok] put_transmit_good put_good slot_moveI)

lemma sendto_good: "net_ok n \<Longrightarrow> length data < 65528 \<Longrightarrow> run_ok (\<lambda>(r, n'). good (Suc 0) n n') (socket_sendto env n i data dst)"
  by (auto simp: socket_sendto_def good_refl split: option.split
      intro!: run_ok_bind [OF build_udp_ok] put_transmit_good)

lemma recv_udp_ok: "sock_ok s \<Longrightarrow> run_ok (\<lambda>(r, out', s'). sock_ok s' \<and> slot_step 0 s s') (recv_udp s out)"
  unfolding recv_udp_def
  by (auto simp: Let_def sock_ok_def rb.discard_law intro!: run_ok_bind [OF rb_read_ok] slot_moveI)

lemma recv_tcp_ok: "sock_ok s \<Longrightarrow> run_ok (\<lambda>(r, out', s'). sock_ok s' \<and> slot_step 0 s s') (recv_tcp s out)"
  unfolding recv_tcp_def by (auto simp: sock_ok_def intro!: run_ok_bind [OF rb_read_ok] slot_moveI)

lemma recv_good: "net_ok n \<Longrightarrow> run_ok (\<lambda>(r, out', n'). good (Suc 0) n n') (socket_recv ev n i out)"
  unfolding socket_recv_def
proof (rule run_ok_bind [OF deliver_good])
  fix n1 assume g: "good (Suc 0) n n1"
  note n1 = good_ok [OF g]
  show "run_ok (\<lambda>(r, out', n'). good (Suc 0) n n') (case get_socket n1 i of None \<Rightarrow> Some (Inl NotFound, out, n1)
     | Some s \<Rightarrow> (if sk_protocol s = Udp then recv_udp s out else recv_tcp s out) \<bind>
         (\<lambda>(r, out', s'). Some (r, out', put_socket n1 i s')))"
    using g get_socket_ok [OF n1, of i]
    by (auto split: option.split intro!: run_ok_bind [OF recv_udp_ok] run_ok_bind [OF recv_tcp_ok]
        good_trans_keep [OF g] put_good [OF n1])
qed

lemma accept_good: "net_ok n \<Longrightarrow> run_ok (\<lambda>(r, n'). good 10 n n') (socket_accept env n i)"
proof (cases "get_socket n i")
  case (Some s)
  assume ok: "net_ok n"
  have g: "good 0 n (put_socket n i (snd (backlog_pop s)))"
    using put_good [OF ok Some sock_ok_pop [OF get_socket_ok [OF ok Some]]] by blast
  have "run_ok (\<lambda>(r, n'). good 10 n n') (connect_loop env c 0 10 (put_socket n i (snd (backlog_pop s))) \<bind> (\<lambda>(x, n'). Some (r, n')))"
    for c and r :: "socket_error + socket_id"
    by (rule run_ok_bind [OF connect_loop_good [OF good_ok [OF g]]]) (auto intro: good_trans [OF g])
  then show ?thesis using Some ok by (simp add: socket_accept_def case_prod_beta good_refl)
qed (simp add: socket_accept_def good_refl)

lemma connect_good: "net_ok n \<Longrightarrow> run_ok (\<lambda>(r, n'). good (if nic_is_loopback (sa_addr remote) then 10 else 100000) n n') (socket_connect env n i remote)"
  using get_socket_ok [of n i]
  by (auto simp: socket_connect_def good_refl split: option.split
      intro!: run_good_to_pair [OF connect_setup_good] run_ok_bind [OF connect_loop_good] put_good slot_moveI)

lemma poll_round_good: "net_ok n \<Longrightarrow> run_ok (\<lambda>(n', fds', r). good (Suc 0) n n') (poll_round ev start timeout_ms n fds)"
  by (auto simp: poll_round_def Let_def intro!: run_ok_bind [OF deliver_good])

section \<open>Histories\<close>

datatype net_op =
    OpCreate socket_type protocol process_id | OpBind socket_id socket_addr | OpConnect socket_id socket_addr
  | OpListen socket_id | OpAccept socket_id | OpSend socket_id bytes | OpSendTo socket_id bytes socket_addr
  | OpRecv socket_id bytes | OpShutdown socket_id | OpClose socket_id | OpDeliver | OpDeliverPending
  | OpCleanup process_id | OpResolve ipv4_addr | OpRegister mac_addr | OpPollOnce "poll_fd list"

text \<open>A call, with the events that its deliveries meet.\<close>

fun net_step :: "(nat \<Rightarrow> net_event) \<Rightarrow> net_op \<Rightarrow> net \<Rightarrow> net run" where
  "net_step env (OpCreate ty proto own) n = Some (snd (socket_create n ty proto own))"
| "net_step env (OpBind i addr) n = Some (snd (socket_bind n i addr))"
| "net_step env (OpConnect i remote) n = map_option snd (socket_connect env n i remote)"
| "net_step env (OpListen i) n = Some (snd (socket_listen n i))"
| "net_step env (OpAccept i) n = map_option snd (socket_accept env n i)"
| "net_step env (OpSend i data) n = map_option snd (socket_send env n i data)"
| "net_step env (OpSendTo i data dst) n = map_option snd (socket_sendto env n i data dst)"
| "net_step env (OpRecv i out) n = map_option (\<lambda>(r, out', n'). n') (socket_recv (env 0) n i out)"
| "net_step env (OpShutdown i) n = map_option snd (socket_shutdown env n i)"
| "net_step env (OpClose i) n = map_option snd (socket_close env n i)"
| "net_step env OpDeliver n = deliver_one (env 0) n"
| "net_step env OpDeliverPending n = deliver_pending env n"
| "net_step env (OpCleanup pid) n = Some (cleanup_process_sockets n pid)"
| "net_step env (OpResolve ip) n = map_option snd (arp_resolve env n ip)"
| "net_step env (OpRegister mac) n = Some (register_nic n mac)"
| "net_step env (OpPollOnce fds) n = map_option fst (poll_round (env 0) 0 0 n fds)"

fun net_trace :: "net \<Rightarrow> ((nat \<Rightarrow> net_event) \<times> net_op) list \<Rightarrow> net run" where
  "net_trace n [] = Some n"
| "net_trace n ((env, c) # cs) = do { n' \<leftarrow> net_step env c n; net_trace n' cs }"

fun fits_datagram :: "net_op \<Rightarrow> bool" where
  "fits_datagram (OpSend i data) \<longleftrightarrow> length data < 65528"
| "fits_datagram (OpSendTo i data dst) \<longleftrightarrow> length data < 65528"
| "fits_datagram c \<longleftrightarrow> True"

text \<open>How many sockets one call can create: \<open>OpCreate\<close> makes one, and every delivery may take a SYN
  for a listener. The numbers are those of the deliveries that each call makes at most.\<close>

fun max_new :: "net_op \<Rightarrow> nat" where
  "max_new (OpCreate ty proto own) = 1"
| "max_new (OpConnect i remote) = (if nic_is_loopback (sa_addr remote) then 10 else 100000)"
| "max_new (OpAccept i) = 10"
| "max_new (OpSend i data) = 1"
| "max_new (OpSendTo i data dst) = 1"
| "max_new (OpRecv i out) = 1"
| "max_new (OpShutdown i) = 10"
| "max_new (OpClose i) = 10"
| "max_new OpDeliver = 1"
| "max_new OpDeliverPending = LOOPBACK_QUEUE_SIZE"
| "max_new (OpResolve ip) = 50000"
| "max_new (OpPollOnce fds) = 1"
| "max_new c = 0"

lemma create_good: "net_ok n \<Longrightarrow> good (Suc 0) n (snd (socket_create n ty proto own))"
  using alloc_good [of n ty proto own] by (simp add: socket_create_def split: prod.split)

lemma bind_good: "net_ok n \<Longrightarrow> good lim n (snd (socket_bind n i addr))"
  using get_socket_ok [of n i]
  by (auto simp: socket_bind_def good_refl intro!: put_good slot_moveI tcp_edge.intros split: option.split)

lemma listen_good: "net_ok n \<Longrightarrow> good lim n (snd (socket_listen n i))"
  using get_socket_ok [of n i]
  by (auto simp: socket_listen_def sock_ok_def good_refl intro!: put_good slot_moveI tcp_edge.intros split: option.split)

lemma resolve_good: "net_ok n \<Longrightarrow> run_ok (\<lambda>(r, n'). good 50000 n n') (arp_resolve env n ip)"
proof -
  assume ok: "net_ok n"
  have "good 0 n (arp_request n ip)" using ok by (simp add: arp_request_def good_refl split: option.split)
  from run_pair_mono [OF this arp_poll_good [OF good_ok [OF this]]] show ?thesis
    using ok by (auto simp: arp_resolve_def good_refl split: option.split)
qed

lemma run_ok_snd: "run_ok (\<lambda>(r, x). P x) r \<Longrightarrow> run_ok P (map_option snd r)"
  by (auto simp: run_ok_def)

lemma run_ok_fst: "run_ok (\<lambda>(x, y, z). P x) r \<Longrightarrow> run_ok P (map_option fst r)"
  by (auto simp: run_ok_def)

lemma run_ok_third: "run_ok (\<lambda>(r, y, x). P x) r \<Longrightarrow> run_ok P (map_option (\<lambda>(r, y, x). x) r)"
  by (auto simp: run_ok_def)

lemmas steps_good = create_good bind_good listen_good cleanup_good deliver_good run_ok_snd [OF connect_good] run_ok_snd [OF accept_good]
  run_ok_snd [OF send_good] run_ok_snd [OF sendto_good] run_ok_third [OF recv_good] run_ok_snd [OF shutdown_good]
  run_ok_snd [OF close_good] deliver_pending_good run_ok_snd [OF resolve_good] run_ok_fst [OF poll_round_good]

lemma net_step_good: "net_ok n \<Longrightarrow> fits_datagram c \<Longrightarrow> run_ok (good (max_new c) n) (net_step env c n)"
  by (cases c) (simp_all add: steps_good deliver_pending_def register_nic_def good_refl)

lemma net_trace_good:
  "net_ok n \<Longrightarrow> list_all (fits_datagram \<circ> snd) cs \<Longrightarrow> run_ok (good (\<Sum>c \<leftarrow> map snd cs. max_new c) n) (net_trace n cs)"
  by (induction cs arbitrary: n) (auto simp: good_refl intro!: run_good_bind_add [OF net_step_good])

text \<open>
  C17. Whatever sequence of socket calls processes make, whatever frames the card delivers and
  whatever the clock shows, no operation of the network stack panics, provided no single send is
  longer than 65527 bytes: every buffer access, table access and packet slice is in range, and the
  waiting loops end.
\<close>

theorem network_never_panics:
  assumes "list_all (fits_datagram \<circ> snd) cs"
  shows "\<exists>n. net_trace net_new cs = Some n \<and> net_ok n"
  using net_trace_good [OF net_ok_new assms] by (auto simp: run_ok_def good_def)

theorem network_never_panics_witness:
  "\<exists>n. net_trace net_new [(\<lambda>_. \<lparr>ev_frame = Some [1, 2], ev_now = 0, ev_timer = 0, ev_clock = 0\<rparr>, OpCreate Stream Tcp 3),
     (\<lambda>_. \<lparr>ev_frame = None, ev_now = 0, ev_timer = 0, ev_clock = 0\<rparr>, OpSendTo 256 [7] SA_UNSPECIFIED)] = Some n \<and> net_ok n"
  by (rule network_never_panics) simp

text \<open>
  C18. The sockets follow the TCP state diagram: take a socket identifier that is valid at some
  moment and still, or again, valid after any sequence of calls and any traffic. If the calls can
  have created fewer than 65536 sockets in between (a connection attempt to another host, which
  polls 100,000 times, is thereby excluded), then the identifier still names the same socket: it
  has the same protocol, and the state of a TCP socket has changed only along edges of the diagram.
  In particular a socket that has left \<open>Closed\<close> is not found there again, and a listener stays one.
\<close>

theorem sockets_follow_diagram:
  assumes "net_ok n" "list_all (fits_datagram \<circ> snd) cs" "(\<Sum>c \<leftarrow> map snd cs. max_new c) < 65536"
    "net_trace n cs = Some n'" "get_socket n i = Some s" "get_socket n' i = Some s'"
  shows "sk_protocol s' = sk_protocol s \<and> (sk_protocol s = Tcp \<longrightarrow> tcp_edge\<^sup>*\<^sup>* (sk_state s) (sk_state s'))"
proof -
  let ?k = "unat (sid_slot i)"
  have "good (\<Sum>c \<leftarrow> map snd cs. max_new c) n n'" using net_trace_good [OF assms(1,2)] assms(4) by simp
  then obtain j where j: "slot_path j (net_sockets n ! ?k) (net_sockets n' ! ?k)" "j < 65536"
    using assms(1,3) sid_slot_less [of i] unfolding good_def evolves_def net_ok_def by (metis order_le_less_trans)
  have s: "net_sockets n ! ?k = s" "net_sockets n' ! ?k = s'" using assms(5,6) get_socket_slot by blast+
  have "sk_generation s' = sk_generation s" "sk_active s'"
    using assms(5,6) by (auto simp: get_socket_def sock_get_eq Let_def split: if_splits)
  moreover have "sk_generation s' = sk_generation s + of_nat j" using slot_path_generation [OF j(1)] s by simp
  ultimately have "unat (of_nat j :: u16) = 0" by simp
  then have "j = 0" using j(2) by (simp add: unsigned_of_nat take_bit_nat_eq_self)
  then show ?thesis using slot_path_same [OF j(1)] s \<open>sk_active s'\<close> by simp
qed

theorem sockets_follow_diagram_witness:
  "\<exists>n n' s s'. get_socket n 256 = Some s \<and> sk_state s = Closed \<and> sk_protocol s = Tcp \<and>
     net_trace n [(\<lambda>_. \<lparr>ev_frame = None, ev_now = 0, ev_timer = 0, ev_clock = 0\<rparr>, OpBind 256 SA_UNSPECIFIED)] = Some n' \<and>
     get_socket n' 256 = Some s' \<and> sk_state s' = Bound \<and> tcp_edge\<^sup>*\<^sup>* (sk_state s) (sk_state s')"
proof -
  let ?s = "new_socket Stream Tcp 3 1"
  let ?s' = "?s\<lparr>sk_local_addr := SA_UNSPECIFIED, sk_state := Bound\<rparr>"
  let ?n = "net_new\<lparr>net_sockets := (net_sockets net_new)[0 := ?s]\<rparr>"
  let ?cs = "[(\<lambda>_. \<lparr>ev_frame = None, ev_now = 0, ev_timer = 0, ev_clock = 0\<rparr>, OpBind 256 SA_UNSPECIFIED)] :: ((nat \<Rightarrow> net_event) \<times> net_op) list"
  have len: "length (net_sockets net_new) = 256" by (simp add: net_new_def table_new_def MAX_SOCKETS_def)
  have id: "sid_slot 256 = 0" "sid_generation 256 = 1" by (simp_all add: sid_slot_def sid_generation_def)
  have fld: "sk_active ?s" "sk_generation ?s = 1" "sk_protocol ?s = Tcp" by (simp_all add: new_socket_def)
  have ok: "net_ok ?n" using net_ok_new by (auto simp: net_ok_def dest!: subsetD [OF set_update_subset_insert])
  have s: "get_socket ?n 256 = Some ?s" using id fld len by (simp add: get_socket_def sock_get_eq)
  let ?n' = "put_socket ?n 256 ?s'"
  have n': "net_trace ?n ?cs = Some ?n'"
    by (simp add: socket_bind_def s SA_UNSPECIFIED_def)
  have s': "get_socket ?n' 256 = Some ?s'"
    using id fld len by (simp add: get_socket_def put_socket_def sock_put_def sock_get_eq)
  show ?thesis
    using sockets_follow_diagram [OF ok _ _ n' s s'] s s' n' fld by (intro exI conjI) (assumption | simp)+
qed

text \<open>
  C20. Polling ends: with a timeout of zero always, at its first round, and with a positive one if at
  some iteration the clock has passed the limit, and not by more than the range of the signed
  comparison, whatever arrives. It returns the number of ready descriptors, with the events of the
  state it leaves.
\<close>

theorem poll_returns:
  assumes "net_ok n"
    "timeout_ms = 0 \<or> 0 < sint timeout_ms \<and> sint timeout_ms \<le> sint (saturating_sub (ev_clock (env k)) start)"
  shows "\<exists>r fds' n'. socket_poll env start n fds timeout_ms = Some (r, fds', n') \<and> net_ok n' \<and> r \<le> length fds \<and>
    r = length (filter (\<lambda>p. pf_revents p \<noteq> 0) fds') \<and> fds' = map (poll_check (net_sockets n')) fds \<and>
    (timeout_ms = 0 \<longrightarrow> deliver_one (env 0) n = Some n')"
proof -
  let ?result = "\<lambda>n fds (r, fds', n'). net_ok n' \<and> r = length (filter (\<lambda>p. pf_revents p \<noteq> 0) fds') \<and> fds' = map (poll_check (net_sockets n')) fds"
  have check: "poll_check t (poll_check u p) = poll_check t p" for t u p by (simp add: poll_check_def split: option.split)
  have "run_ok (?result n fds) (poll_loop env i start timeout_ms n fds)" if "net_ok n" "i + d = k" for i d n fds
    using that
  proof (induction d arbitrary: i n fds)
    case 0
    obtain n1 where n1: "deliver_one (env k) n = Some n1" "net_ok n1" using deliver_good [OF 0(1)] by (auto simp: run_ok_def good_def)
    show ?case
      using n1 assms(2) 0(2) by (subst poll_loop.simps) (auto simp: poll_round_def Let_def)
  next
    case (Suc d)
    obtain n1 where n1: "deliver_one (env i) n = Some n1" "net_ok n1" using deliver_good [OF Suc.prems(1)] by (auto simp: run_ok_def good_def)
    let ?fds = "map (poll_check (net_sockets n1)) fds"
    have "run_ok (?result n1 ?fds) (poll_loop env (Suc i) start timeout_ms n1 ?fds)"
      by (rule Suc.IH [OF n1(2)]) (use Suc.prems(2) in simp)
    then have "run_ok (?result n fds) (poll_loop env (Suc i) start timeout_ms n1 ?fds)"
      by (rule run_ok_mono) (auto simp: check)
    then show ?case
      using n1 assms(2) by (subst poll_loop.simps) (auto simp: poll_round_def Let_def)
  qed
  then obtain r fds' n' where p: "socket_poll env start n fds timeout_ms = Some (r, fds', n')" "?result n fds (r, fds', n')"
    using assms(1) by (force simp: run_ok_def socket_poll_def)
  moreover have "deliver_one (env 0) n = Some n'" if "timeout_ms = 0"
    using p(1) that by (subst (asm) socket_poll_def, subst (asm) poll_loop.simps)
      (auto simp: poll_round_def Let_def split: bind_splits if_splits)
  ultimately show ?thesis by (auto intro: order_trans [OF length_filter_le])
qed

theorem poll_returns_witness:
  "(\<exists>r fds' n'. socket_poll (\<lambda>i. \<lparr>ev_frame = None, ev_now = 0, ev_timer = 0, ev_clock = of_nat i\<rparr>) 0 net_new [] 5 = Some (r, fds', n')) \<and>
   (\<exists>r fds' n'. socket_poll (\<lambda>i. \<lparr>ev_frame = None, ev_now = 0, ev_timer = 0, ev_clock = 0\<rparr>) 0 net_new [] 0 = Some (r, fds', n'))"
  using poll_returns [OF net_ok_new, of 5 "\<lambda>i. \<lparr>ev_frame = None, ev_now = 0, ev_timer = 0, ev_clock = of_nat i\<rparr>" 7 0 "[]"]
    poll_returns [OF net_ok_new, of 0 "\<lambda>i. \<lparr>ev_frame = None, ev_now = 0, ev_timer = 0, ev_clock = 0\<rparr>" 0 0 "[]"]
  by (auto simp: saturating_sub_def)

end
