(* ===== verification/Net_Udp.thy ===== *)
theory Net_Udp
  imports Net_Sound
begin

text \<open>
  Datagrams over the loopback device, from \<open>sendto\<close> to \<open>recv\<close>: what one socket sends is what the
  socket bound to the destination reads, with its boundaries.
\<close>

section \<open>Finding the receiver\<close>

lemma find_by_local_live:
  assumes "length t = MAX_SOCKETS" "find_by_local t addr proto = Some j"
  shows "\<exists>s. sock_get t j = Some s \<and> sk_active s \<and> sk_protocol s = proto \<and> sa_port (sk_local_addr s) = sa_port addr"
proof -
  obtain k where k: "find_slot (\<lambda>s. sk_active s \<and> sk_protocol s = proto \<and>
       (sk_local_addr s = addr \<or> ip_is_unspecified (sa_addr (sk_local_addr s)) \<and> sa_port (sk_local_addr s) = sa_port addr)) t = Some k"
    "j = slot_id t k"
    using assms(2) by (auto simp: find_by_local_def)
  then show ?thesis using find_slot_SomeD [OF k(1)] assms(1) by auto
qed

section \<open>Loopback round\<close>

lemma enqueue_loopback:
  assumes "lo_ok (net_loopback n)" "lo_count (net_loopback n) < LOOPBACK_QUEUE_SIZE" "length p \<le> LOOPBACK_MTU"
    and "ip_from_bytes p = Some ip" "nic_is_loopback (ih_dst_addr ip)"
  shows "\<exists>lo'. transmit_ip n p = Some (n\<lparr>net_loopback := lo'\<rparr>) \<and> lo_ok lo' \<and> lo_list lo' = lo_list (net_loopback n) @ [p]"
  using lo_enqueue_room [OF assms(1-3)] assms(4,5) by (auto simp: transmit_ip_def)

lemma deliver_loopback:
  assumes "net_ok n" "lo_list (net_loopback n) = p # rest" "ip_from_bytes p = Some ip"
  shows "\<exists>lo'. deliver_one ev n = dispatch_ip (n\<lparr>net_loopback := lo'\<rparr>) ip (drop IP_SIZE p) (ev_now ev) \<and>
    lo_ok lo' \<and> lo_list lo' = rest"
proof -
  have "lo_ok (net_loopback n)" using assms(1) by (simp add: net_ok_def)
  from lo.pop_first [OF this assms(2)] obtain lo' where lo': "lo_next (net_loopback n) = Some (Some p, lo')" "lo_ok lo'" "lo_list lo' = rest"
    by blast
  then obtain buf k where d: "lo_dequeue (net_loopback n) = Some (Some (buf, k), lo')" "take k buf = p"
    by (auto simp: lo_next_def split: bind_splits)
  have k: "k \<le> length buf" using dequeue_ok [of "net_loopback n"] assms(1) d(1) by (auto simp: net_ok_def run_ok_def)
  then have len: "length p = k" using d(2) by auto
  have "IP_SIZE \<le> k" using assms(3) len by (auto simp: ip_from_bytes_def split: if_splits)
  moreover have "take (k - IP_SIZE) (drop IP_SIZE buf) = drop IP_SIZE p" using d(2) by (auto simp: drop_take)
  ultimately show ?thesis
    using d k lo'(2,3) assms(3) by (auto simp: deliver_one_def deliver_packet_def)
qed

section \<open>Framing\<close>

text \<open>What a datagram looks like in the buffer of its receiver.\<close>

definition framed :: "socket_addr \<Rightarrow> bytes \<Rightarrow> bytes" where
  "framed src data = be_bytes 2 (sa_port src) @ octets (sa_addr src) @ be_bytes 2 (of_nat (length data) :: u16) @ data"

lemma length_framed [simp]: "length (framed src data) = 8 + length data"
  by (simp add: framed_def del: be_bytes_2)

lemma fill_rx:
  assumes "rb_ok q" "rb_len q + length a + length b + length c + length d \<le> RING_BUF_SIZE"
  shows "\<exists>q'. rb_ok q' \<and> rb_list q' = rb_list q @ a @ b @ c @ d \<and>
    (\<forall>f :: byte_ring \<Rightarrow> socket_table run. rb_write q a \<bind> (\<lambda>(_, q). rb_write q b \<bind> (\<lambda>(_, q). rb_write q c \<bind> (\<lambda>(_, q). rb_write q d \<bind> (\<lambda>(_, q). f q)))) = f q')"
proof -
  obtain q1 where q1: "rb_write q a = Some (length a, q1)" "rb_ok q1" "rb_list q1 = rb_list q @ a"
    using rb.write_fits [OF assms(1), of a] assms(2) by auto
  have l1: "rb_len q1 = rb_len q + length a" using arg_cong [OF q1(3), of length] by simp
  obtain q2 where q2: "rb_write q1 b = Some (length b, q2)" "rb_ok q2" "rb_list q2 = rb_list q1 @ b"
    using rb.write_fits [OF q1(2), of b] assms(2) l1 by auto
  have l2: "rb_len q2 = rb_len q1 + length b" using arg_cong [OF q2(3), of length] by simp
  obtain q3 where q3: "rb_write q2 c = Some (length c, q3)" "rb_ok q3" "rb_list q3 = rb_list q2 @ c"
    using rb.write_fits [OF q2(2), of c] assms(2) l1 l2 by auto
  have l3: "rb_len q3 = rb_len q2 + length c" using arg_cong [OF q3(3), of length] by simp
  obtain q4 where q4: "rb_write q3 d = Some (length d, q4)" "rb_ok q4" "rb_list q4 = rb_list q3 @ d"
    using rb.write_fits [OF q3(2), of d] assms(2) l1 l2 l3 by auto
  show ?thesis using q1 q2 q3 q4 by (intro exI [of _ q4]) simp
qed

lemma udp_receive_spec:
  assumes "sock_get t j = Some r" "find_by_local t (sa_new (sa_addr dst) (sa_port dst)) Udp = Some j"
    and "rb_ok (sk_rx r)" "rb_len (sk_rx r) + 8 + length data \<le> RING_BUF_SIZE"
  shows "\<exists>rx. udp_receive_packet (ip_new (sa_addr src) (sa_addr dst) 17 len) (udp_segment src dst data) t =
      Some (sock_put t j (r\<lparr>sk_rx := rx\<rparr>)) \<and> rb_ok rx \<and> rb_list rx = rb_list (sk_rx r) @ framed src data"
proof -
  have n: "length data + 8 < 65536" using assms(4) by (simp add: RING_BUF_SIZE_def)
  have ul: "unat (of_nat UDP_SIZE + of_nat (length data) :: u16) = length data + 8"
    using unat_lengths [OF n] by (simp add: UDP_SIZE_def add.commute)
  have seg: "udp_from_bytes (udp_segment src dst data) = Some (udp_filled src dst data)" by (simp add: udp_segment_def)
  have sl: "slice_of (udp_segment src dst data) UDP_SIZE (UDP_SIZE + length data) = Some data"
    by (simp add: udp_segment_def)
  from fill_rx [OF assms(3), of "be_bytes 2 (sa_port src)" "octets (sa_addr src)" "be_bytes 2 (of_nat (length data) :: u16)" data] assms(4)
  obtain rx where rx: "rb_ok rx" "rb_list rx = rb_list (sk_rx r) @ framed src data"
    "\<And>f :: byte_ring \<Rightarrow> socket_table run. rb_write (sk_rx r) (be_bytes 2 (sa_port src)) \<bind> (\<lambda>(_, q). rb_write q (octets (sa_addr src)) \<bind>
        (\<lambda>(_, q). rb_write q (be_bytes 2 (of_nat (length data) :: u16)) \<bind> (\<lambda>(_, q). rb_write q data \<bind> (\<lambda>(_, q). f q)))) = f rx"
    by (auto simp: framed_def simp del: be_bytes_2)
  have "udp_receive_packet (ip_new (sa_addr src) (sa_addr dst) 17 len) (udp_segment src dst data) t =
      Some (sock_put t j (r\<lparr>sk_rx := rx\<rparr>))"
    using assms(1,2) ul rx(3) [of "\<lambda>rx. Some (sock_put t j (r\<lparr>sk_rx := rx\<rparr>))"] sl
    by (simp add: udp_receive_packet_def seg Let_def UDP_SIZE_def del: be_bytes_2)
  then show ?thesis using rx(1,2) by blast
qed

lemma recv_framed:
  assumes "rb_ok (sk_rx r)" "rb_list (sk_rx r) = framed src data @ rest" "length data \<le> length out" "length data < 65536"
  shows "\<exists>rx. recv_udp r out = Some (Inr (length data), data @ drop (length data) out, r\<lparr>sk_rx := rx\<rparr>) \<and>
    rb_ok rx \<and> rb_list rx = rest"
proof -
  let ?hdr = "be_bytes 2 (sa_port src) @ octets (sa_addr src) @ be_bytes 2 (of_nat (length data) :: u16)"
  obtain p q where pq: "?hdr ! 6 = ucast (drop_bit 8 (of_nat (length data) :: u16))" "?hdr ! 7 = ucast (of_nat (length data) :: u16)"
    by (cases "sa_addr src") simp
  have l: "length ?hdr = 8" by (simp del: be_bytes_2)
  obtain q1 where q1: "rb_read (sk_rx r) (replicate 8 0) = Some (8, ?hdr, q1)" "rb_ok q1" "rb_list q1 = data @ rest"
    using rb.read_exact [OF assms(1), of ?hdr "data @ rest" "replicate 8 0"] assms(2) l by (auto simp: framed_def simp del: be_bytes_2)
  obtain q2 where q2: "rb_read q1 (take (length data) out) = Some (length data, data, q2)" "rb_ok q2" "rb_list q2 = rest"
    using rb.read_exact [OF q1(2,3), of "take (length data) out"] assms(3) by auto
  have ne: "\<not> rb_is_empty (sk_rx r)"
    using arg_cong [OF assms(2), of length] by (simp add: rb_is_empty_def)
  have "unat (from_be [?hdr ! 6, ?hdr ! 7] :: u16) = length data"
    unfolding pq using unat_lengths [OF assms(4)] by simp
  then show ?thesis
    using q1(1) q2 ne assms(3) by (intro exI [of _ q2]) (simp add: recv_udp_def Let_def min_absorb1 del: be_bytes_2)
qed

section \<open>A round without traffic\<close>

text \<open>When no packet waits, a delivery only looks after the retransmission timers. It leaves a socket
  without such a timer as it is.\<close>

lemma retransmit_scan_slots: "retransmit_scan now slot ss = (ss', ps, rst) \<Longrightarrow> x \<in> set rst \<Longrightarrow> slot \<le> x"
proof (induction ss arbitrary: slot ss' ps rst)
  case (Cons s ss)
  obtain us qs rs where us: "retransmit_scan now (Suc slot) ss = (us, qs, rs)" by (cases "retransmit_scan now (Suc slot) ss")
  then have "x = slot \<or> x \<in> set rs" using Cons.prems by (auto split: if_splits option.splits prod.splits)
  then show ?case using Cons.IH [OF us] by auto
qed simp

lemma retransmit_scan_skips:
  "retransmit_scan now slot ss = (ss', ps, rst) \<Longrightarrow> k < length ss \<Longrightarrow> sk_retransmit (ss ! k) = None \<Longrightarrow>
   ss' ! k = ss ! k \<and> slot + k \<notin> set rst"
proof (induction ss arbitrary: slot ss' ps rst k)
  case (Cons s ss)
  obtain us qs rs where us: "retransmit_scan now (Suc slot) ss = (us, qs, rs)" by (cases "retransmit_scan now (Suc slot) ss")
  have r: "slot \<notin> set rs" using retransmit_scan_slots [OF us, of slot] by auto
  have "\<exists>s'. ss' = s' # us \<and> set rst \<subseteq> insert slot (set rs) \<and> (sk_retransmit s = None \<longrightarrow> s' = s \<and> rst = rs)"
    using Cons.prems(1) us by (auto split: if_splits option.splits prod.splits)
  then obtain s' where s': "ss' = s' # us" "set rst \<subseteq> insert slot (set rs)" "sk_retransmit s = None \<longrightarrow> s' = s \<and> rst = rs"
    by (elim exE conjE) (rule that)
  show ?case
  proof (cases k)
    case 0
    then show ?thesis using s' Cons.prems(3) r by auto
  next
    case (Suc j)
    then show ?thesis using Cons.IH [OF us, of j] Cons.prems(2,3) s' by auto
  qed
qed simp

lemma reset_all_skips: "k \<notin> set rst \<Longrightarrow> fold reset_socket rst t ! k = t ! k"
  by (induction rst arbitrary: t) (auto simp: reset_socket_def)

lemma transmit_all_sockets: "transmit_all n ps = Some n' \<Longrightarrow> net_sockets n' = net_sockets n"
  by (induction ps arbitrary: n) (auto simp: transmit_ip_def Let_def split: bind_splits option.splits if_splits)

lemma idle_round:
  assumes "net_ok n" "lo_list (net_loopback n) = []" "ev_frame ev = None" "get_socket n j = Some r" "sk_retransmit r = None"
  shows "\<exists>n1. deliver_one ev n = Some n1 \<and> net_ok n1 \<and> get_socket n1 j = Some r"
proof -
  obtain n1 where n1: "deliver_one ev n = Some n1" "net_ok n1"
    using deliver_good [OF assms(1)] by (auto simp: run_ok_def good_def)
  have "lo_next (net_loopback n) = Some (None, net_loopback n)" using assms(1,2) by (simp add: lo.pop_empty net_ok_def)
  then have "lo_dequeue (net_loopback n) = Some (None, net_loopback n)" by (auto simp: lo_next_def split: bind_splits)
  then have "check_all_retransmits (ev_timer ev) n = Some n1"
    using n1(1) assms(3) by (simp add: deliver_one_def deliver_packet_def nic_receive_one_def split: option.splits)
  moreover obtain t ps rst where s: "retransmit_scan (ev_timer ev) 0 (net_sockets n) = (t, ps, rst)"
    by (cases "retransmit_scan (ev_timer ev) 0 (net_sockets n)")
  ultimately have t: "net_sockets n1 = fold reset_socket rst t"
    using transmit_all_sockets by (fastforce simp: check_all_retransmits_def)
  have k: "unat (sid_slot j) < length (net_sockets n)" using assms(1) by (simp add: net_ok_def)
  have r: "net_sockets n ! unat (sid_slot j) = r" using get_socket_slot [OF assms(4)] .
  have "net_sockets n1 ! unat (sid_slot j) = r"
    using retransmit_scan_skips [OF s k] reset_all_skips [of "unat (sid_slot j)" rst t] assms(5) r t by simp
  then have "get_socket n1 j = Some r" using assms(4) r by (simp add: get_socket_def sock_get_eq Let_def split: if_splits)
  then show ?thesis using n1 by blast
qed

section \<open>End to end\<close>

lemma sendto_delivers:
  assumes "net_ok n" "lo_list (net_loopback n) = []" "get_socket n i = Some s" "sk_protocol s = Udp"
    and "find_by_local (net_sockets n) dst Udp = Some j" "get_socket n j = Some r" "nic_is_loopback (sa_addr dst)"
    and "length data \<le> 1472" "rb_len (sk_rx r) + 8 + length data \<le> RING_BUF_SIZE"
  shows "\<exists>n' rx. socket_sendto env n i data dst = Some (Inr (length data), n') \<and> net_ok n' \<and>
      get_socket n' j = Some (r\<lparr>sk_rx := rx\<rparr>) \<and> rb_list rx = rb_list (sk_rx r) @ framed (sk_local_addr s) data \<and>
      (\<forall>k. sid_slot k \<noteq> sid_slot j \<longrightarrow> get_socket n' k = get_socket n k) \<and> lo_list (net_loopback n') = []"
proof -
  let ?src = "sk_local_addr s"
  let ?p = "udp_packet ?src dst data"
  let ?ip = "ip_new (sa_addr ?src) (sa_addr dst) 17 (of_nat (UDP_SIZE + length data))"
  have len: "length (net_sockets n) = MAX_SOCKETS" using assms(1) by (simp add: net_ok_def)
  have ipp: "ip_from_bytes ?p = Some ?ip" "drop IP_SIZE ?p = udp_segment ?src dst data" by (simp_all add: udp_packet_def)
  have cnt: "lo_count (net_loopback n) < LOOPBACK_QUEUE_SIZE" using arg_cong [OF assms(2), of length] by (simp add: LOOPBACK_QUEUE_SIZE_def)
  have plen: "length ?p \<le> LOOPBACK_MTU" using assms(8) by (simp add: LOOPBACK_MTU_def)
  obtain lo1 where lo1: "transmit_ip n ?p = Some (n\<lparr>net_loopback := lo1\<rparr>)" "lo_ok lo1" "lo_list lo1 = [?p]"
    using enqueue_loopback [OF _ cnt plen ipp(1)] assms(1,2,7) by (auto simp: net_ok_def)
  have ok1: "net_ok (n\<lparr>net_loopback := lo1\<rparr>)" using assms(1) lo1(2) by (simp add: net_ok_def)
  obtain lo2 where lo2: "deliver_one (env 0) (n\<lparr>net_loopback := lo1\<rparr>) =
      dispatch_ip (n\<lparr>net_loopback := lo2\<rparr>) ?ip (udp_segment ?src dst data) (ev_now (env 0))" "lo_list lo2 = []"
    using deliver_loopback [OF ok1, of ?p "[]" ?ip "env 0"] lo1(3) ipp by auto
  have get: "sock_get (net_sockets n) j = Some r" using assms(6) by (simp add: get_socket_def)
  have rok: "rb_ok (sk_rx r)" using get_socket_ok [OF assms(1,6)] by (simp add: sock_ok_def)
  have "find_by_local (net_sockets n) (sa_new (sa_addr dst) (sa_port dst)) Udp = Some j"
    using assms(5) by (cases dst) (simp add: sa_new_def)
  from udp_receive_spec [OF get this rok assms(9), of ?src "of_nat (UDP_SIZE + length data)"] obtain rx where rx:
    "udp_receive_packet ?ip (udp_segment ?src dst data) (net_sockets n) = Some (sock_put (net_sockets n) j (r\<lparr>sk_rx := rx\<rparr>))"
    "rb_list rx = rb_list (sk_rx r) @ framed ?src data"
    by blast
  let ?n' = "n\<lparr>net_loopback := lo2, net_sockets := sock_put (net_sockets n) j (r\<lparr>sk_rx := rx\<rparr>)\<rparr>"
  have d: "deliver_one (env 0) (n\<lparr>net_loopback := lo1\<rparr>) = Some ?n'"
    using lo2(1) rx(1) by (simp add: dispatch_ip_def)
  have b: "build_udp_packet ?src dst data (replicate LOOPBACK_MTU 0) =
      Some (28 + length data, ?p @ drop (28 + length data) (replicate LOOPBACK_MTU 0))"
    using build_udp_packet_spec [of data "replicate LOOPBACK_MTU 0" ?src dst] assms(8) by (simp add: LOOPBACK_MTU_def)
  have send: "socket_sendto env n i data dst = Some (Inr (length data), ?n')"
    using assms(3,4,8) b lo1(1) d
    by (simp add: socket_sendto_def transmit_and_deliver_def LOOPBACK_MTU_def numeral_eq_Suc [symmetric])
  have live: "sk_active r \<and> sk_generation r = sid_generation j" using get by (auto simp: sock_get_eq Let_def split: if_splits)
  have "get_socket ?n' j = Some (r\<lparr>sk_rx := rx\<rparr>)" "\<forall>k. sid_slot k \<noteq> sid_slot j \<longrightarrow> get_socket ?n' k = get_socket n k"
    using sock_get_put [OF len, of j "r\<lparr>sk_rx := rx\<rparr>"] live by (simp_all add: get_socket_def)
  moreover have "net_ok ?n'" using sendto_good [OF assms(1), of data env i dst] send assms(8) by (simp add: run_ok_def good_def)
  ultimately show ?thesis using send rx(2) lo2(2) by (intro exI [of _ ?n'] exI [of _ rx]) simp
qed

text \<open>
  C19. A datagram of at most 1472 bytes, sent while the loopback queue is empty to a loopback
  address on which a UDP socket is bound, is delivered by the send itself: if the receiver's buffer
  has room for it and its 8-byte frame it ends up behind the data there, no socket in another slot
  changes and the queue is empty again. If the buffer was empty, the receiver's next \<open>recv\<close> (with no
  frame waiting at the card, and a buffer that is large enough) returns exactly the datagram, with
  its length, and leaves the receive buffer empty.
\<close>

theorem udp_datagram_arrives:
  assumes "net_ok n" "lo_list (net_loopback n) = []" "get_socket n i = Some s" "sk_protocol s = Udp"
    and "find_by_local (net_sockets n) dst Udp = Some j" "get_socket n j = Some r" "nic_is_loopback (sa_addr dst)"
    and "length data \<le> 1472" "rb_len (sk_rx r) + 8 + length data \<le> RING_BUF_SIZE"
  shows "\<exists>n' r'. socket_sendto env n i data dst = Some (Inr (length data), n') \<and> get_socket n' j = Some r' \<and>
      rb_list (sk_rx r') = rb_list (sk_rx r) @ framed (sk_local_addr s) data \<and>
      (\<forall>k. sid_slot k \<noteq> sid_slot j \<longrightarrow> get_socket n' k = get_socket n k) \<and> lo_list (net_loopback n') = [] \<and>
      (rb_list (sk_rx r) = [] \<and> sk_retransmit r = None \<and> ev_frame ev = None \<and> length data \<le> length out \<longrightarrow>
        (\<exists>n'' r''. socket_recv ev n' j out = Some (Inr (length data), data @ drop (length data) out, n'') \<and>
          get_socket n'' j = Some r'' \<and> rb_list (sk_rx r'') = []))"
proof -
  from sendto_delivers [OF assms, of env] obtain n' rx where
    n': "socket_sendto env n i data dst = Some (Inr (length data), n')" "net_ok n'" "get_socket n' j = Some (r\<lparr>sk_rx := rx\<rparr>)"
      "rb_list rx = rb_list (sk_rx r) @ framed (sk_local_addr s) data"
      "\<forall>k. sid_slot k \<noteq> sid_slot j \<longrightarrow> get_socket n' k = get_socket n k" "lo_list (net_loopback n') = []"
    by blast
  let ?r = "r\<lparr>sk_rx := rx\<rparr>"
  have udp: "sk_protocol r = Udp"
    using find_by_local_live [OF _ assms(5)] assms(1,6) by (auto simp: net_ok_def get_socket_def)
  have rok: "rb_ok rx" using get_socket_ok [OF n'(2,3)] by (simp add: sock_ok_def)
  have "\<exists>n'' r''. socket_recv ev n' j out = Some (Inr (length data), data @ drop (length data) out, n'') \<and>
      get_socket n'' j = Some r'' \<and> rb_list (sk_rx r'') = []"
    if c: "rb_list (sk_rx r) = []" "sk_retransmit r = None" "ev_frame ev = None" "length data \<le> length out"
  proof -
    have "sk_retransmit ?r = None" using c(2) by simp
    from idle_round [OF n'(2,6) c(3) n'(3) this] obtain n1 where
      n1: "deliver_one ev n' = Some n1" "net_ok n1" "get_socket n1 j = Some ?r"
      by blast
    obtain rx' where rx': "recv_udp ?r out = Some (Inr (length data), data @ drop (length data) out, ?r\<lparr>sk_rx := rx'\<rparr>)" "rb_list rx' = []"
      using recv_framed [of ?r "sk_local_addr s" data "[]" out] rok n'(4) c(1,4) assms(8) by auto
    have "socket_recv ev n' j out =
        Some (Inr (length data), data @ drop (length data) out, put_socket n1 j (?r\<lparr>sk_rx := rx'\<rparr>))"
      using n1(1,3) udp rx'(1) by (simp add: socket_recv_def)
    moreover have "get_socket (put_socket n1 j (?r\<lparr>sk_rx := rx'\<rparr>)) j = Some (?r\<lparr>sk_rx := rx'\<rparr>)"
      using n1(2,3) sid_slot_less [of j]
      by (auto simp: net_ok_def get_socket_def put_socket_def sock_put_def sock_get_eq Let_def split: if_splits)
    ultimately show ?thesis using rx'(2) by auto
  qed
  then show ?thesis using n' by (intro exI [of _ n'] exI [of _ ?r]) simp
qed

text \<open>An example: two sockets, the second bound to port 7 of the loopback address.\<close>

definition demo_server :: socket where
  "demo_server = (new_socket Datagram Udp 4 1)\<lparr>sk_local_addr := sa_new IP_LOOPBACK 7, sk_state := Bound\<rparr>"

definition demo_net :: net where
  "demo_net = net_new\<lparr>net_sockets := table_new[0 := new_socket Datagram Udp 3 1, 1 := demo_server]\<rparr>"

lemma demo_net_sockets:
  "length (net_sockets demo_net) = MAX_SOCKETS" "net_sockets demo_net ! 0 = new_socket Datagram Udp 3 1"
  "net_sockets demo_net ! 1 = demo_server" "net_sockets demo_net ! Suc 0 = demo_server"
  by (simp_all add: demo_net_def table_new_def MAX_SOCKETS_def)

theorem udp_datagram_arrives_witness:
  "\<exists>n' r'. socket_sendto (\<lambda>_. \<lparr>ev_frame = None, ev_now = 0, ev_timer = 0, ev_clock = 0\<rparr>) demo_net (sid_pack 0 1) [1, 2, 3]
      (sa_new IP_LOOPBACK 7) = Some (Inr 3, n') \<and> get_socket n' (sid_pack 1 1) = Some r' \<and>
      rb_list (sk_rx r') = framed SA_UNSPECIFIED [1, 2, 3] \<and>
      (\<exists>n''. socket_recv \<lparr>ev_frame = None, ev_now = 0, ev_timer = 0, ev_clock = 0\<rparr> n' (sid_pack 1 1) [0, 0, 0, 0] =
        Some (Inr 3, [1, 2, 3, 0], n''))"
proof -
  let ?env = "\<lambda>_. \<lparr>ev_frame = None, ev_now = 0, ev_timer = 0, ev_clock = 0\<rparr>"
  have ok: "net_ok demo_net"
    by (auto simp: net_ok_def demo_net_sockets(1) demo_net_def demo_server_def net_new_def table_new_def dns_response_new_def
        dest!: subsetD [OF set_update_subset_insert])
  have lo: "lo_list (net_loopback demo_net) = []" by (simp add: demo_net_def net_new_def)
  have g: "get_socket demo_net (sid_pack 0 1) = Some (new_socket Datagram Udp 3 1)"
    "get_socket demo_net (sid_pack 1 1) = Some demo_server"
    by (simp_all add: get_socket_def sock_get_eq demo_net_sockets) (simp add: demo_server_def)
  have s: "sk_protocol (new_socket Datagram Udp 3 1) = Udp" "sk_local_addr (new_socket Datagram Udp 3 1) = SA_UNSPECIFIED"
    "sk_rx demo_server = rb_new" "rb_len rb_new = 0"
    by (simp_all add: demo_server_def new_socket_def socket_empty_def rb_new_def)
  have "find_by_local (net_sockets demo_net) (sa_new IP_LOOPBACK 7) Udp = Some (slot_id (net_sockets demo_net) 1)"
    unfolding find_by_local_def map_option_eq_Some find_slot_Some
    by (intro exI [of _ 1])
      (simp add: demo_net_sockets demo_server_def new_socket_def socket_empty_def MAX_SOCKETS_def SA_UNSPECIFIED_def sa_new_def
        IP_LOOPBACK_def IP_UNSPECIFIED_def)
  then have f: "find_by_local (net_sockets demo_net) (sa_new IP_LOOPBACK 7) Udp = Some (sid_pack 1 1)"
    by (simp add: slot_id_def demo_net_sockets demo_server_def)
  have l: "nic_is_loopback (sa_addr (sa_new IP_LOOPBACK 7))" by (simp add: sa_new_def IP_LOOPBACK_def)
  have sz: "length [1, 2, 3 :: u8] \<le> 1472" "rb_len (sk_rx demo_server) + 8 + length [1, 2, 3 :: u8] \<le> RING_BUF_SIZE"
    using s by (simp_all add: RING_BUF_SIZE_def)
  have e: "rb_list rb_new = []" "sk_retransmit demo_server = None"
    by (simp_all add: rb_new_def rb_list_def demo_server_def new_socket_def socket_empty_def)
  have "length [1, 2, 3 :: u8] = 3" by simp
  then show ?thesis
    using udp_datagram_arrives [OF ok lo g(1) s(1) f g(2) l sz, of ?env "?env 0" "[0, 0, 0, 0]"] s(2,3) e by auto
qed

end
