(* ===== verification/Net_Tcp.thy ===== *)
theory Net_Tcp
  imports Net_Udp
begin

text \<open>
  TCP over the loopback device: the three-way handshake between a connecting socket and a
  listener, and the transfer of data between the two ends of a connection.
\<close>

section \<open>Segments on the loopback device\<close>

lemma sa_new_fields [simp]: "sa_new (sa_addr a) (sa_port a) = a"
  by (cases a) (simp add: sa_new_def)

lemma tcp_output_loopback:
  assumes "lo_ok (net_loopback n)" "lo_count (net_loopback n) < LOOPBACK_QUEUE_SIZE" "nic_is_loopback (sa_addr dst)" "length data \<le> 1460"
  shows "\<exists>lo'. tcp_output n src dst sq ak flags win data = Some (n\<lparr>net_loopback := lo'\<rparr>) \<and> lo_ok lo' \<and>
    lo_list lo' = lo_list (net_loopback n) @ [tcp_packet src dst sq ak flags win data]"
proof -
  let ?p = "tcp_packet src dst sq ak flags win data"
  let ?ip = "ip_new (sa_addr src) (sa_addr dst) 6 (of_nat (TCP_SIZE + length data))"
  have l: "length ?p \<le> LOOPBACK_MTU" using assms(4) by (simp add: LOOPBACK_MTU_def)
  have ip: "ip_from_bytes ?p = Some ?ip" by (simp add: tcp_packet_def)
  have "tcp_output n src dst sq ak flags win data = transmit_ip n ?p"
    using build_tcp_packet_spec [of data "replicate LOOPBACK_MTU 0" src dst sq ak flags win] assms(4)
    by (simp add: tcp_output_def LOOPBACK_MTU_def)
  then show ?thesis using enqueue_loopback [OF assms(1,2) l ip] assms(3) by auto
qed

lemma deliver_tcp:
  assumes "net_ok n" "lo_list (net_loopback n) = tcp_packet src dst sq ak flags win data # rest"
  shows "\<exists>lo' x. deliver_one ev n = tcp_receive_packet (n\<lparr>net_loopback := lo'\<rparr>) (ip_new (sa_addr src) (sa_addr dst) 6 x)
      (tcp_segment src dst sq ak flags win data) (ev_now ev) \<and> lo_ok lo' \<and> lo_list lo' = rest"
proof -
  let ?ip = "ip_new (sa_addr src) (sa_addr dst) 6 (of_nat (TCP_SIZE + length data))"
  have "ip_from_bytes (tcp_packet src dst sq ak flags win data) = Some ?ip"
    "drop IP_SIZE (tcp_packet src dst sq ak flags win data) = tcp_segment src dst sq ak flags win data"
    by (simp_all add: tcp_packet_def)
  with deliver_loopback [OF assms(1,2), of ?ip ev] obtain lo' where
    "deliver_one ev n = dispatch_ip (n\<lparr>net_loopback := lo'\<rparr>) ?ip (tcp_segment src dst sq ak flags win data) (ev_now ev)"
    "lo_ok lo'" "lo_list lo' = rest"
    by auto
  then show ?thesis by (intro exI [of _ lo'] exI [of _ "of_nat (TCP_SIZE + length data)"]) (simp add: dispatch_ip_def)
qed

lemma segment_parts:
  "tcp_from_bytes (tcp_segment src dst sq ak flags win data) = Some (tcp_filled src dst sq ak flags win data)"
  "(if TCP_SIZE < length (tcp_segment src dst sq ak flags win data) then drop TCP_SIZE (tcp_segment src dst sq ak flags win data) else []) = data"
  by (simp_all add: tcp_segment_def)

lemma tcp_receive_connected:
  assumes "find_tcp_connection (net_sockets n) dst src = Some j"
  shows "tcp_receive_packet n (ip_new (sa_addr src) (sa_addr dst) 6 x) (tcp_segment src dst sq ak flags win data) now =
    tcp_state_machine n j (tcp_filled src dst sq ak flags win data) data now"
  unfolding tcp_receive_packet_def segment_parts using assms by simp

lemma tcp_receive_syn:
  assumes "find_tcp_connection (net_sockets n) dst src = None" "find_listener (net_sockets n) (sa_port dst) = Some l"
  shows "tcp_receive_packet n (ip_new (sa_addr src) (sa_addr dst) 6 x) (tcp_segment src dst sq ak SYN win []) now =
    handle_syn n l (tcp_filled src dst sq ak SYN win []) src dst"
proof -
  have "tcp_flags (tcp_filled src dst sq ak SYN win []) = SYN" by (simp add: SYN_def)
  then show ?thesis
    unfolding tcp_receive_packet_def segment_parts using assms by (simp add: SYN_def ACK_def)
qed

section \<open>Finding the ends of a connection\<close>

definition conn_match :: "socket_addr \<Rightarrow> socket_addr \<Rightarrow> socket \<Rightarrow> bool" where
  "conn_match lcl rmt s \<longleftrightarrow> sk_active s \<and> sk_protocol s = Tcp \<and>
     (sk_local_addr s = lcl \<or> ip_is_unspecified (sa_addr (sk_local_addr s)) \<and> sa_port (sk_local_addr s) = sa_port lcl) \<and>
     sk_remote_addr s = rmt"

lemma find_tcp_connection_eq: "find_tcp_connection t lcl rmt = map_option (slot_id t) (find_slot (conn_match lcl rmt) t)"
  by (simp add: find_tcp_connection_def conn_match_def [abs_def])

lemma find_slot_unique:
  "i < length xs \<Longrightarrow> p (xs ! i) \<Longrightarrow> (\<And>j. j < length xs \<Longrightarrow> j \<noteq> i \<Longrightarrow> \<not> p (xs ! j)) \<Longrightarrow> find_slot p xs = Some i"
  by (auto simp: find_slot_Some)

lemma find_slot_update:
  assumes "i < length xs" "p (xs ! i) = p x"
  shows "find_slot p (xs[i := x]) = find_slot p xs"
proof (cases "find_slot p xs")
  case None
  then have "find_slot p (xs[i := x]) = None"
    using assms by (auto simp: find_slot_None all_set_conv_all_nth nth_list_update)
  then show ?thesis using None by simp
next
  case (Some k)
  then have "find_slot p (xs[i := x]) = Some k"
    using assms by (auto simp: find_slot_Some nth_list_update)
  then show ?thesis using Some by simp
qed

lemma slot_of_live: "sock_get t i = Some s \<Longrightarrow> t ! unat (sid_slot i) = s \<and> sk_active s \<and> slot_id t (unat (sid_slot i)) = sid_pack (sid_slot i) (sk_generation s)"
  by (auto simp: sock_get_eq Let_def slot_id_def split: if_splits)

section \<open>The handshake\<close>

text \<open>The address that \<open>connect\<close> gives to a socket, and the state of the socket once the SYN is sent.\<close>

definition connect_local :: "net \<Rightarrow> socket \<Rightarrow> socket_addr \<Rightarrow> socket_addr" where
  "connect_local n s remote =
     (let bind_addr = (if nic_is_loopback (sa_addr remote) then IP_LOOPBACK else GUEST_IP);
          needs_port = sa_port (sk_local_addr s) = 0
      in sa_new (if needs_port \<or> ip_is_unspecified (sa_addr (sk_local_addr s)) then bind_addr else sa_addr (sk_local_addr s))
           (if needs_port then fst (allocate_ephemeral_port n) else sa_port (sk_local_addr s)))"

definition syn_sent :: "net \<Rightarrow> socket \<Rightarrow> socket_addr \<Rightarrow> socket" where
  "syn_sent n s remote = s\<lparr>sk_local_addr := connect_local n s remote, sk_remote_addr := remote, sk_send_seq := net_isn n, sk_state := SynSent\<rparr>"

lemma syn_sent_simps [simp]:
  "sk_active (syn_sent n s remote) = sk_active s" "sk_generation (syn_sent n s remote) = sk_generation s"
  "sk_protocol (syn_sent n s remote) = sk_protocol s" "sk_state (syn_sent n s remote) = SynSent"
  "sk_local_addr (syn_sent n s remote) = connect_local n s remote" "sk_remote_addr (syn_sent n s remote) = remote"
  "sk_send_seq (syn_sent n s remote) = net_isn n" "sk_rx (syn_sent n s remote) = sk_rx s"
  by (simp_all add: syn_sent_def)

lemma allocate_port_frame: "\<exists>p. snd (allocate_ephemeral_port n) = n\<lparr>net_port := p\<rparr>"
  by (auto simp: allocate_ephemeral_port_def case_prod_beta)

lemma connect_setup_eq:
  "\<exists>p. connect_setup n i s remote = tcp_output (put_socket (n\<lparr>net_port := p, net_isn := net_isn n + 1000\<rparr>) i (syn_sent n s remote))
     (connect_local n s remote) remote (net_isn n) 0 SYN 4096 []"
proof (cases "sa_port (sk_local_addr s) = 0")
  case True
  obtain p where p: "snd (allocate_ephemeral_port n) = n\<lparr>net_port := p\<rparr>" using allocate_port_frame by blast
  then show ?thesis using True
    by (intro exI [of _ p])
      (auto simp: connect_setup_def syn_sent_def connect_local_def Let_def next_isn_def case_prod_beta sa_new_def)
next
  case False
  obtain a p where "sk_local_addr s = \<lparr>sa_addr = a, sa_port = p\<rparr>" by (cases "sk_local_addr s") auto
  then show ?thesis using False
    by (cases s, intro exI [of _ "net_port n"])
      (auto simp: connect_setup_def syn_sent_def connect_local_def Let_def next_isn_def case_prod_beta sa_new_def)
qed

lemma syn_step:
  assumes "net_ok n" "lo_list (net_loopback n) = []" "nic_is_loopback (sa_addr remote)"
  shows "\<exists>n1. connect_setup n i s remote = Some n1 \<and> net_sockets n1 = sock_put (net_sockets n) i (syn_sent n s remote) \<and>
    lo_list (net_loopback n1) = [tcp_packet (connect_local n s remote) remote (net_isn n) 0 SYN 4096 []] \<and>
    net_isn n1 = net_isn n + 1000"
proof -
  obtain p where p: "connect_setup n i s remote =
      tcp_output (put_socket (n\<lparr>net_port := p, net_isn := net_isn n + 1000\<rparr>) i (syn_sent n s remote))
        (connect_local n s remote) remote (net_isn n) 0 SYN 4096 []"
    using connect_setup_eq by blast
  let ?m = "put_socket (n\<lparr>net_port := p, net_isn := net_isn n + 1000\<rparr>) i (syn_sent n s remote)"
  have "lo_ok (net_loopback ?m)" "lo_count (net_loopback ?m) < LOOPBACK_QUEUE_SIZE"
    using assms(1) arg_cong [OF assms(2), of length] by (simp_all add: put_socket_def net_ok_def LOOPBACK_QUEUE_SIZE_def)
  from tcp_output_loopback [OF this assms(3), of "[]" "connect_local n s remote" "net_isn n" 0 SYN 4096]
  show ?thesis using p assms(2) by (auto simp: put_socket_def)
qed

lemma handle_syn_spec:
  fixes n :: net
  defines "t \<equiv> net_sockets n"
  assumes "net_ok n" "get_socket n l = Some ls" "find_slot (\<lambda>s. \<not> sk_active s) t = Some k"
    and "lo_list (net_loopback n) = []" "nic_is_loopback (sa_addr src)"
  shows "\<exists>lo'. handle_syn n l h src dst = Some (n\<lparr>net_isn := net_isn n + 1000,
      net_sockets := t[k := syn_received (new_socket Stream Tcp (sk_owner ls) (sk_generation (t ! k) + 1)) h src dst (net_isn n),
        unat (sid_slot l) := add_to_backlog ls (sid_pack (of_nat k) (sk_generation (t ! k) + 1))], net_loopback := lo'\<rparr>) \<and>
    lo_list lo' = [tcp_packet dst src (net_isn n) (th_seq_num h + 1) (SYN OR ACK) 4096 []]"
proof -
  let ?gen = "sk_generation (t ! k) + 1"
  let ?c = "new_socket Stream Tcp (sk_owner ls) ?gen" and ?cid = "sid_pack (of_nat k) ?gen :: socket_id"
  let ?t = "t[k := syn_received ?c h src dst (net_isn n), unat (sid_slot l) := add_to_backlog ls ?cid]"
  let ?m = "n\<lparr>net_isn := net_isn n + 1000, net_sockets := ?t\<rparr>"
  have len: "length t = MAX_SOCKETS" using assms(2) by (simp add: t_def net_ok_def)
  have k: "k < MAX_SOCKETS" "\<not> sk_active (t ! k)" using find_slot_SomeD [OF assms(4)] len by auto
  have ls: "t ! unat (sid_slot l) = ls" "sk_active ls" "sk_generation ls = sid_generation l"
    using assms(3) by (auto simp: t_def get_socket_def sock_get_eq Let_def split: if_splits)
  have kl: "unat (sid_slot l) \<noteq> k" using ls k by auto
  have al: "socket_alloc (net_sockets n) Stream Tcp (sk_owner ls) = (Inr ?cid, t[k := ?c])"
    using assms(4) by (simp add: socket_alloc_def t_def Let_def)
  have g1: "sock_get (t[k := ?c]) ?cid = Some ?c" using k(1) len by (simp add: sock_get_eq)
  have g2: "sock_get (t[k := s]) l = Some ls" for s using kl ls by (simp add: sock_get_eq Let_def)
  have "handle_syn n l h src dst = tcp_output ?m dst src (net_isn n) (th_seq_num h + 1) (SYN OR ACK) 4096 []"
    using assms(3) al g1 g2 k(1) by (simp add: handle_syn_def next_isn_def get_socket_def put_socket_def sock_put_def)
  moreover have "lo_ok (net_loopback ?m)" "lo_count (net_loopback ?m) < LOOPBACK_QUEUE_SIZE"
    using assms(2) arg_cong [OF assms(5), of length] by (simp_all add: net_ok_def LOOPBACK_QUEUE_SIZE_def)
  ultimately show ?thesis
    using tcp_output_loopback [of ?m src "[]" dst "net_isn n" "th_seq_num h + 1" "SYN OR ACK" 4096] assms(5,6) by auto
qed

lemma syn_delivered:
  fixes n :: net
  defines "t \<equiv> net_sockets n"
  assumes "net_ok n" "lo_list (net_loopback n) = [tcp_packet src dst sq 0 SYN win []]"
    and "find_tcp_connection t dst src = None" "find_listener t (sa_port dst) = Some l" "get_socket n l = Some ls"
    and "find_slot (\<lambda>s. \<not> sk_active s) t = Some k" "nic_is_loopback (sa_addr src)"
  shows "\<exists>n' h. deliver_one ev n = Some n' \<and> th_seq_num h = sq \<and> th_window h = win \<and>
    net_sockets n' = t[k := syn_received (new_socket Stream Tcp (sk_owner ls) (sk_generation (t ! k) + 1)) h src dst (net_isn n),
        unat (sid_slot l) := add_to_backlog ls (sid_pack (of_nat k) (sk_generation (t ! k) + 1))] \<and>
    lo_list (net_loopback n') = [tcp_packet dst src (net_isn n) (sq + 1) (SYN OR ACK) 4096 []]"
proof -
  let ?h = "tcp_filled src dst sq 0 SYN win []"
  obtain lo' x where d: "deliver_one ev n = tcp_receive_packet (n\<lparr>net_loopback := lo'\<rparr>) (ip_new (sa_addr src) (sa_addr dst) 6 x)
      (tcp_segment src dst sq 0 SYN win []) (ev_now ev)" "lo_ok lo'" "lo_list lo' = []"
    using deliver_tcp [OF assms(2,3), of ev] by blast
  let ?m = "n\<lparr>net_loopback := lo'\<rparr>"
  have m: "net_ok ?m" "get_socket ?m l = Some ls" using assms(2,6) d(2) by (simp_all add: net_ok_def get_socket_def)
  have "deliver_one ev n = handle_syn ?m l ?h src dst"
    using d(1) tcp_receive_syn [of ?m dst src l x sq 0 win "ev_now ev"] assms(4,5) by (simp add: t_def)
  with handle_syn_spec [OF m, of k src ?h dst] d(3) assms(7,8) show ?thesis
    by (auto simp: t_def intro!: exI [of _ ?h])
qed

lemma flag_bits [simp]:
  "SYN \<noteq> 0" "ACK \<noteq> 0" "ACK AND FIN = 0" "ACK AND SYN = 0" "SYN OR ACK < 64" "ACK < 64"
  by (simp_all add: SYN_def ACK_def FIN_def)

text \<open>A segment for the socket in a given slot.\<close>

lemma segment_delivered:
  assumes "net_ok n" "lo_list (net_loopback n) = tcp_packet src dst sq ak flags win data # rest"
    and "find_slot (conn_match dst src) (net_sockets n) = Some k"
  shows "\<exists>lo'. deliver_one ev n = tcp_state_machine (n\<lparr>net_loopback := lo'\<rparr>) (slot_id (net_sockets n) k)
      (tcp_filled src dst sq ak flags win data) data (ev_now ev) \<and> lo_ok lo' \<and> lo_list lo' = rest \<and>
      get_socket (n\<lparr>net_loopback := lo'\<rparr>) (slot_id (net_sockets n) k) = Some (net_sockets n ! k) \<and> k < MAX_SOCKETS"
proof -
  obtain lo' x where d: "deliver_one ev n = tcp_receive_packet (n\<lparr>net_loopback := lo'\<rparr>) (ip_new (sa_addr src) (sa_addr dst) 6 x)
      (tcp_segment src dst sq ak flags win data) (ev_now ev)" "lo_ok lo'" "lo_list lo' = rest"
    using deliver_tcp [OF assms(1,2), of ev] by blast
  have f: "find_tcp_connection (net_sockets (n\<lparr>net_loopback := lo'\<rparr>)) dst src = Some (slot_id (net_sockets n) k)"
    using assms(3) by (simp add: find_tcp_connection_eq)
  have k: "k < MAX_SOCKETS" "sk_active (net_sockets n ! k)"
    using find_slot_SomeD [OF assms(3)] assms(1) by (auto simp: net_ok_def conn_match_def)
  then show ?thesis
    using d tcp_receive_connected [OF f, of x sq ak flags win data "ev_now ev"] by (intro exI [of _ lo']) (simp add: get_socket_def)
qed

lemma put_slot: "k < MAX_SOCKETS \<Longrightarrow> put_socket n (slot_id t k) s = n\<lparr>net_sockets := (net_sockets n)[k := s]\<rparr>"
  by (simp add: put_socket_def sock_put_def slot_id_def)

lemma put_and_ack_spec:
  assumes "lo_ok (net_loopback n)" "lo_list (net_loopback n) = []" "nic_is_loopback (sa_addr (sk_remote_addr s))" "k < MAX_SOCKETS"
  shows "\<exists>n'. put_and_ack n (slot_id t k) s = Some n' \<and> net_sockets n' = (net_sockets n)[k := s] \<and>
    lo_list (net_loopback n') = [tcp_packet (sk_local_addr s) (sk_remote_addr s) (sk_send_seq s) (sk_recv_seq s) ACK 4096 []]"
proof -
  let ?m = "n\<lparr>net_sockets := (net_sockets n)[k := s]\<rparr>"
  have "lo_ok (net_loopback ?m)" "lo_count (net_loopback ?m) < LOOPBACK_QUEUE_SIZE"
    using assms(1) arg_cong [OF assms(2), of length] by (simp_all add: LOOPBACK_QUEUE_SIZE_def)
  from tcp_output_loopback [OF this assms(3), of "[]" "sk_local_addr s" "sk_send_seq s" "sk_recv_seq s" ACK 4096]
  show ?thesis using assms(2,4) by (auto simp: put_and_ack_def put_slot)
qed

lemma syn_ack_delivered:
  assumes "net_ok n" "lo_list (net_loopback n) = [tcp_packet src dst sq ak (SYN OR ACK) win []]"
    and "find_slot (conn_match dst src) (net_sockets n) = Some k" "net_sockets n ! k = c" "sk_state c = SynSent"
    and "sk_local_addr c = dst" "sk_remote_addr c = src" "nic_is_loopback (sa_addr src)"
  shows "\<exists>n'. deliver_one ev n = Some n' \<and>
    net_sockets n' = (net_sockets n)[k := sock_acked (c\<lparr>sk_recv_seq := sq + 1, sk_send_ack := sq + 1, sk_send_window := win,
      sk_state := Established\<rparr>) ak (ev_now ev)] \<and>
    lo_list (net_loopback n') = [tcp_packet dst src (sk_send_seq c) (sq + 1) ACK 4096 []]"
proof -
  let ?c = "sock_acked (c\<lparr>sk_recv_seq := sq + 1, sk_send_ack := sq + 1, sk_send_window := win, sk_state := Established\<rparr>) ak (ev_now ev)"
  obtain lo' where d: "deliver_one ev n = tcp_state_machine (n\<lparr>net_loopback := lo'\<rparr>) (slot_id (net_sockets n) k)
      (tcp_filled src dst sq ak (SYN OR ACK) win []) [] (ev_now ev)" "lo_ok lo'" "lo_list lo' = []"
    "get_socket (n\<lparr>net_loopback := lo'\<rparr>) (slot_id (net_sockets n) k) = Some c" "k < MAX_SOCKETS"
    using segment_delivered [OF assms(1-3), of ev] assms(4) by auto
  have "deliver_one ev n = put_and_ack (n\<lparr>net_loopback := lo'\<rparr>) (slot_id (net_sockets n) k) ?c"
    using d(1,4) assms(5) by (simp add: tcp_state_machine_def tcp_in_syn_sent_def Let_def)
  then show ?thesis
    using put_and_ack_spec [of "n\<lparr>net_loopback := lo'\<rparr>" ?c k "net_sockets n"] d(2,3,5) assms(6-8) by (simp add: sock_acked_def)
qed

lemma ack_delivered:
  assumes "net_ok n" "lo_list (net_loopback n) = [tcp_packet src dst sq ak ACK win []]"
    and "find_slot (conn_match dst src) (net_sockets n) = Some k" "net_sockets n ! k = s" "sk_state s = SynReceived"
  shows "\<exists>n'. deliver_one ev n = Some n' \<and> lo_list (net_loopback n') = [] \<and>
    net_sockets n' = (net_sockets n)[k := sock_acked (s\<lparr>sk_send_seq := sk_send_seq s + 1, sk_state := Established\<rparr>) ak (ev_now ev)]"
proof -
  obtain lo' where d: "deliver_one ev n = tcp_state_machine (n\<lparr>net_loopback := lo'\<rparr>) (slot_id (net_sockets n) k)
      (tcp_filled src dst sq ak ACK win []) [] (ev_now ev)" "lo_list lo' = []"
    "get_socket (n\<lparr>net_loopback := lo'\<rparr>) (slot_id (net_sockets n) k) = Some s" "k < MAX_SOCKETS"
    using segment_delivered [OF assms(1-3), of ev] assms(4) by auto
  then show ?thesis
    using assms(5) by (simp add: tcp_state_machine_def tcp_in_syn_received_def put_slot)
qed

text \<open>A socket that connects, and the listener at the other end: what the handshake needs.\<close>

definition can_connect :: "net \<Rightarrow> socket_id \<Rightarrow> socket \<Rightarrow> socket_addr \<Rightarrow> socket_id \<Rightarrow> socket \<Rightarrow> bool" where
  "can_connect n i c rmt l ls \<longleftrightarrow>
     net_ok n \<and> lo_list (net_loopback n) = [] \<and>
     get_socket n i = Some c \<and> sk_protocol c = Tcp \<and> (sk_state c = Closed \<or> sk_state c = Bound) \<and>
     find_listener (net_sockets n) (sa_port rmt) = Some l \<and> get_socket n l = Some ls \<and>
     (\<exists>s \<in> set (net_sockets n). \<not> sk_active s) \<and>
     (let lcl = connect_local n c rmt
      in nic_is_loopback (sa_addr rmt) \<and> nic_is_loopback (sa_addr lcl) \<and> lcl \<noteq> rmt \<and>
         (\<forall>s \<in> set (net_sockets n). \<not> conn_match rmt lcl s) \<and>
         (\<forall>k < MAX_SOCKETS. k \<noteq> unat (sid_slot i) \<longrightarrow> \<not> conn_match lcl rmt (net_sockets n ! k)))"

lemma update_behind: "a \<noteq> b \<Longrightarrow> a \<noteq> c \<Longrightarrow> xs[a := x, b := y, c := z, a := x'] = xs[a := x', b := y, c := z]"
  by (metis list_update_overwrite list_update_swap)

lemma find_listener_slotE:
  assumes "length t = MAX_SOCKETS" "find_listener t port = Some l" "sock_get t l = Some ls"
  shows "find_slot (\<lambda>s. sk_active s \<and> sk_protocol s = Tcp \<and> sk_state s = Listen \<and> sa_port (sk_local_addr s) = port) t = Some (unat (sid_slot l))"
    "t ! unat (sid_slot l) = ls" "sk_state ls = Listen" "sk_active ls" "l = slot_id t (unat (sid_slot l))"
proof -
  obtain k where k: "find_slot (\<lambda>s. sk_active s \<and> sk_protocol s = Tcp \<and> sk_state s = Listen \<and> sa_port (sk_local_addr s) = port) t = Some k"
    "l = slot_id t k"
    using assms(2) by (auto simp: find_listener_def)
  have kl: "k < MAX_SOCKETS" using find_slot_SomeD [OF k(1)] assms(1) by simp
  then have "unat (sid_slot l) = k" by (simp add: k(2) slot_id_def)
  then show "find_slot (\<lambda>s. sk_active s \<and> sk_protocol s = Tcp \<and> sk_state s = Listen \<and> sa_port (sk_local_addr s) = port) t = Some (unat (sid_slot l))"
    "t ! unat (sid_slot l) = ls" "sk_state ls = Listen" "sk_active ls" "l = slot_id t (unat (sid_slot l))"
    using k kl find_slot_SomeD [OF k(1)] assms(3) by (auto simp: sock_get_eq Let_def split: if_splits)
qed

lemma connect_completes:
  fixes n :: net
  defines "t \<equiv> net_sockets n"
  assumes can: "can_connect n i c rmt l ls" and lcl: "lcl = connect_local n c rmt"
  shows "\<exists>n' k c' s. socket_connect env n i rmt = Some (Inr (), n') \<and> net_ok n' \<and> k < MAX_SOCKETS \<and> \<not> sk_active (t ! k) \<and>
    net_sockets n' = t[unat (sid_slot i) := c', k := s,
      unat (sid_slot l) := add_to_backlog ls (sid_pack (of_nat k) (sk_generation s))] \<and>
    sk_active c' \<and> sk_generation c' = sk_generation c \<and> sk_state c' = Established \<and> sk_protocol c' = Tcp \<and>
    sk_local_addr c' = lcl \<and> sk_remote_addr c' = rmt \<and> sk_rx c' = sk_rx c \<and> sk_send_seq c' = net_isn n \<and>
    sk_recv_seq c' = sk_send_seq s + 1 \<and>
    sk_active s \<and> sk_generation s = sk_generation (t ! k) + 1 \<and> sk_state s = SynReceived \<and> sk_protocol s = Tcp \<and>
    sk_local_addr s = rmt \<and> sk_remote_addr s = lcl \<and> sk_rx s = rb_new \<and> sk_recv_seq s = net_isn n + 1 \<and>
    lo_list (net_loopback n') = [tcp_packet lcl rmt (net_isn n) (sk_send_seq s + 1) ACK 4096 []]"
proof -
  let ?ci = "unat (sid_slot i)" and ?li = "unat (sid_slot l)" and ?c1 = "syn_sent n c rmt"
  note can = can [unfolded can_connect_def Let_def, folded t_def lcl]
  have ok: "net_ok n" and len: "length t = MAX_SOCKETS" using can by (auto simp: net_ok_def t_def)
  have c: "t ! ?ci = c" "sk_active c" "sk_generation c = sid_generation i" "sk_protocol c = Tcp" "sk_state c \<noteq> Listen"
    using can by (auto simp: get_socket_def sock_get_eq Let_def t_def split: if_splits)
  have "sock_get t l = Some ls" using can by (simp add: get_socket_def t_def)
  note li = find_listener_slotE [OF len _ this, of "sa_port rmt"]
  have li: "find_slot (\<lambda>s. sk_active s \<and> sk_protocol s = Tcp \<and> sk_state s = Listen \<and> sa_port (sk_local_addr s) = sa_port rmt) t = Some ?li"
    "t ! ?li = ls" "sk_state ls = Listen" "sk_active ls" "l = slot_id t ?li"
    using li can by blast+
  obtain k where k: "find_slot (\<lambda>s. \<not> sk_active s) t = Some k"
    using can by (cases "find_slot (\<lambda>s. \<not> sk_active s) t") (auto simp: find_slot_None)
  have k': "k < MAX_SOCKETS" "\<not> sk_active (t ! k)" using find_slot_SomeD [OF k] len by auto
  have ne: "?li \<noteq> ?ci" "k \<noteq> ?ci" "k \<noteq> ?li" using c li k' by auto
  obtain n1 where n1: "connect_setup n i c rmt = Some n1" "net_sockets n1 = t[?ci := ?c1]"
    "lo_list (net_loopback n1) = [tcp_packet lcl rmt (net_isn n) 0 SYN 4096 []]"
    using syn_step [OF ok, of rmt i c] can by (auto simp: t_def lcl sock_put_def)
  have ok1: "net_ok n1" using connect_setup_good [OF ok, of i c _ rmt] can n1(1) by (auto simp: good_def)
  have f1: "find_tcp_connection (net_sockets n1) rmt lcl = None"
    unfolding find_tcp_connection_eq option.map_disc_iff n1(2) find_slot_None
  proof (intro ballI)
    fix x assume "x \<in> set (t[?ci := ?c1])"
    then have "x \<in> set t \<or> x = ?c1" using set_update_subset_insert by fastforce
    then show "\<not> conn_match rmt lcl x" using can by (auto simp: conn_match_def)
  qed
  have f2: "find_listener (net_sockets n1) (sa_port rmt) = Some l"
    unfolding find_listener_def n1(2) using li ne c len by (simp add: find_slot_update slot_id_def)
  have f3: "find_slot (\<lambda>s. \<not> sk_active s) (net_sockets n1) = Some k"
    unfolding n1(2) using k c len by (simp add: find_slot_update)
  have g1: "get_socket n1 l = Some ls"
    using n1(2) ne(1) can by (simp add: get_socket_def sock_get_eq t_def Let_def)
  have lo: "nic_is_loopback (sa_addr lcl)" using can by simp
  from syn_delivered [OF ok1 n1(3) f1 f2 g1 f3 lo, of "env 0"] obtain n2 h where n2: "deliver_one (env 0) n1 = Some n2"
    "th_seq_num h = net_isn n"
    "net_sockets n2 = t[?ci := ?c1, k := syn_received (new_socket Stream Tcp (sk_owner ls) (sk_generation (t ! k) + 1)) h lcl rmt (net_isn n1),
        ?li := add_to_backlog ls (sid_pack (of_nat k) (sk_generation (t ! k) + 1))]"
    "lo_list (net_loopback n2) = [tcp_packet rmt lcl (net_isn n1) (net_isn n + 1) (SYN OR ACK) 4096 []]"
    using n1(2) ne(2) by auto
  let ?s = "syn_received (new_socket Stream Tcp (sk_owner ls) (sk_generation (t ! k) + 1)) h lcl rmt (net_isn n1)"
  have ok2: "net_ok n2" using deliver_good [OF ok1, of "env 0"] n2(1) by (simp add: good_def)
  have c1: "net_sockets n2 ! ?ci = ?c1" using n2(3) ne len by simp
  have f4: "find_slot (conn_match lcl rmt) (net_sockets n2) = Some ?ci"
  proof (rule find_slot_unique)
    show "?ci < length (net_sockets n2)" using n2(3) len by simp
    show "conn_match lcl rmt (net_sockets n2 ! ?ci)" using c1 c by (simp add: conn_match_def lcl)
    fix j assume j: "j < length (net_sockets n2)" "j \<noteq> ?ci"
    then have "\<not> conn_match lcl rmt (t ! j)" using can len n2(3) by simp
    moreover have "\<not> conn_match lcl rmt ?s" using can by (auto simp: conn_match_def syn_received_def)
    moreover have "conn_match lcl rmt (add_to_backlog ls x) = conn_match lcl rmt ls" for x
      by (simp add: conn_match_def add_to_backlog_def)
    ultimately show "\<not> conn_match lcl rmt (net_sockets n2 ! j)"
      using j len n2(3) li(2) k'(1) by (auto simp: nth_list_update)
  qed
  let ?c2 = "sock_acked (?c1\<lparr>sk_recv_seq := net_isn n1 + 1, sk_send_ack := net_isn n1 + 1, sk_send_window := 4096,
      sk_state := Established\<rparr>) (net_isn n + 1) (ev_now (env 1))"
  have "nic_is_loopback (sa_addr rmt)" using can by simp
  from syn_ack_delivered [OF ok2 n2(4) f4 c1 _ _ _ this, of "env 1"] obtain n3 where n3: "deliver_one (env 1) n2 = Some n3"
    "net_sockets n3 = (net_sockets n2)[?ci := ?c2]"
    "lo_list (net_loopback n3) = [tcp_packet lcl rmt (net_isn n) (net_isn n1 + 1) ACK 4096 []]"
    by (auto simp: lcl)
  have ok3: "net_ok n3" using deliver_good [OF ok2, of "env 1"] n3(1) by (simp add: good_def)
  have c2: "sk_active ?c2" "sk_generation ?c2 = sid_generation i" "sk_state ?c2 = Established" using c by simp_all
  have t3: "net_sockets n3 = t[?ci := ?c2, k := ?s, ?li := add_to_backlog ls (sid_pack (of_nat k) (sk_generation ?s))]"
    using n3(2) n2(3) ne update_behind [of ?ci k ?li] by (simp add: syn_received_def)
  have "get_socket n2 i = Some ?c1" using c1 c by (simp add: get_socket_def sock_get_eq)
  moreover have "get_socket n3 i = Some ?c2" using t3 ne len c2 by (simp add: get_socket_def sock_get_eq del: sock_fields)
  ultimately have "connect_loop env i 0 10 n1 = Some (True, n3)"
    using n2(1) n3(1) c2(3) by (simp add: numeral_eq_Suc del: sock_fields)
  then have "socket_connect env n i rmt = Some (Inr (), n3)"
    using can c n1(1) by (auto simp: socket_connect_def t_def)
  then show ?thesis
    using ok3 k' t3 n3(3) c n2(2)
    by (intro exI [of _ n3] exI [of _ k] exI [of _ ?c2] exI [of _ ?s]) (simp add: syn_received_def sock_acked_def lcl new_socket_def socket_empty_def)
qed

lemma accept_completes:
  assumes "net_ok n" "lo_list (net_loopback n) = [tcp_packet src dst sq ak ACK win []]"
    and "get_socket n l = Some ls" "sk_state ls = Listen" "sk_backlog_count ls > 0" "sk_backlog ls ! 0 = slot_id (net_sockets n) k"
    and "find_slot (conn_match dst src) (net_sockets n) = Some k" "net_sockets n ! k = s" "sk_state s = SynReceived"
  shows "\<exists>n'. socket_accept env n l = Some (Inr (slot_id (net_sockets n) k), n') \<and> net_ok n' \<and> lo_list (net_loopback n') = [] \<and>
    net_sockets n' = (net_sockets n)[unat (sid_slot l) := snd (backlog_pop ls), k := sock_acked (s\<lparr>sk_send_seq := sk_send_seq s + 1, sk_state := Established\<rparr>) ak (ev_now (env 0))]"
proof -
  let ?ls = "snd (backlog_pop ls)" and ?m = "put_socket n l (snd (backlog_pop ls))" and ?l = "unat (sid_slot l)"
  let ?s = "sock_acked (s\<lparr>sk_send_seq := sk_send_seq s + 1, sk_state := Established\<rparr>) ak (ev_now (env 0))"
  have len: "length (net_sockets n) = MAX_SOCKETS" using assms(1) by (simp add: net_ok_def)
  have ls: "net_sockets n ! ?l = ls" using get_socket_slot [OF assms(3)] .
  have k: "k < MAX_SOCKETS" "sk_active s" using find_slot_SomeD [OF assms(7)] len assms(8) by (auto simp: conn_match_def)
  have kl: "k \<noteq> ?l" using ls assms(4,8,9) by auto
  have okm: "net_ok ?m"
    using put_good [OF assms(1,3) sock_ok_pop [OF get_socket_ok [OF assms(1,3)]]] by (auto intro: good_ok)
  have m: "net_sockets ?m = (net_sockets n)[?l := ?ls]" "net_loopback ?m = net_loopback n"
    by (simp_all add: put_socket_def sock_put_def)
  have "conn_match dst src ?ls = conn_match dst src ls" by (simp add: conn_match_def backlog_pop_def)
  then have f: "find_slot (conn_match dst src) (net_sockets ?m) = Some k"
    using find_slot_update [of ?l "net_sockets n" "conn_match dst src" ?ls] assms(7) len ls m(1) by simp
  have sk: "net_sockets ?m ! k = s" using m(1) kl assms(8) by simp
  have "lo_list (net_loopback ?m) = [tcp_packet src dst sq ak ACK win []]" using assms(2) m(2) by simp
  from ack_delivered [OF okm this f sk assms(9), of "env 0"] obtain n' where n': "deliver_one (env 0) ?m = Some n'"
    "lo_list (net_loopback n') = []" "net_sockets n' = (net_sockets n)[?l := ?ls, k := ?s]"
    using m(1) by auto
  have ok: "net_ok n'" using deliver_good [OF okm, of "env 0"] n'(1) by (simp add: good_def)
  have "get_socket n' (slot_id (net_sockets n) k) = Some ?s"
    using n'(3) k len assms(8) by (simp add: get_socket_def sock_get_eq slot_id_def)
  then have "connect_loop env (slot_id (net_sockets n) k) 0 10 ?m = Some (True, n')"
    using n'(1) by (simp add: numeral_eq_Suc)
  moreover have "fst (backlog_pop ls) = slot_id (net_sockets n) k" using assms(6) by (simp add: backlog_pop_def)
  ultimately have "socket_accept env n l = Some (Inr (slot_id (net_sockets n) k), n')"
    using assms(3-5) by (simp add: socket_accept_def case_prod_beta)
  then show ?thesis using ok n'(2,3) by blast
qed

text \<open>The two ends of an established connection over the loopback device: each has the other's
  address, and a segment for either address pair finds the socket that it belongs to.\<close>

definition connected :: "net \<Rightarrow> socket_id \<Rightarrow> socket_id \<Rightarrow> bool" where
  "connected n i j \<longleftrightarrow>
     (case (get_socket n i, get_socket n j) of
        (Some s, Some r) \<Rightarrow>
          sid_slot i \<noteq> sid_slot j \<and> sk_protocol s = Tcp \<and> sk_protocol r = Tcp \<and>
          sk_state s = Established \<and> sk_state r = Established \<and>
          sk_local_addr r = sk_remote_addr s \<and> sk_remote_addr r = sk_local_addr s \<and>
          nic_is_loopback (sa_addr (sk_local_addr s)) \<and> nic_is_loopback (sa_addr (sk_remote_addr s)) \<and>
          find_slot (conn_match (sk_local_addr s) (sk_remote_addr s)) (net_sockets n) = Some (unat (sid_slot i)) \<and>
          find_slot (conn_match (sk_local_addr r) (sk_remote_addr r)) (net_sockets n) = Some (unat (sid_slot j))
      | _ \<Rightarrow> False)"

lemma conn_match_backlog [simp]:
  "conn_match lcl rmt (add_to_backlog s x) = conn_match lcl rmt s" "conn_match lcl rmt (snd (backlog_pop s)) = conn_match lcl rmt s"
  by (simp_all add: conn_match_def add_to_backlog_def backlog_pop_def)

lemma connected_new:
  fixes n :: net
  defines "t \<equiv> net_sockets n"
  assumes len: "length t = MAX_SOCKETS" and k: "k < MAX_SOCKETS" "k \<noteq> unat (sid_slot i)"
    and c: "get_socket n i = Some c" "sk_protocol c = Tcp" "sk_state c = Established" "sk_local_addr c = lcl" "sk_remote_addr c = rmt"
    and s: "get_socket n (sid_pack (of_nat k) g) = Some s" "sk_protocol s = Tcp" "sk_state s = Established"
      "sk_local_addr s = rmt" "sk_remote_addr s = lcl"
    and addr: "nic_is_loopback (sa_addr rmt)" "nic_is_loopback (sa_addr lcl)" "lcl \<noteq> rmt"
    and other: "\<And>j. j < MAX_SOCKETS \<Longrightarrow> j \<noteq> unat (sid_slot i) \<Longrightarrow> j \<noteq> k \<Longrightarrow> \<not> conn_match lcl rmt (t ! j) \<and> \<not> conn_match rmt lcl (t ! j)"
  shows "connected n i (sid_pack (of_nat k) g)"
proof -
  let ?i = "unat (sid_slot i)"
  have slot: "unat (sid_slot (sid_pack (of_nat k) g)) = k" using k(1) by simp
  have t: "t ! ?i = c" "t ! k = s" "sk_active c" "sk_active s"
    using c(1) s(1) slot by (auto simp: t_def get_socket_def sock_get_eq Let_def split: if_splits)
  have "find_slot (conn_match lcl rmt) t = Some ?i" "find_slot (conn_match rmt lcl) t = Some k"
  proof -
    have m: "conn_match lcl rmt (t ! ?i)" "\<not> conn_match rmt lcl (t ! ?i)" "conn_match rmt lcl (t ! k)" "\<not> conn_match lcl rmt (t ! k)"
      using t c s addr by (auto simp: conn_match_def)
    have o: "j = ?i \<or> j = k \<or> \<not> conn_match lcl rmt (t ! j) \<and> \<not> conn_match rmt lcl (t ! j)" if "j < MAX_SOCKETS" for j
      using other that by blast
    show "find_slot (conn_match lcl rmt) t = Some ?i" "find_slot (conn_match rmt lcl) t = Some k"
      by (rule find_slot_unique; use len k m o in auto)+
  qed
  then show ?thesis
    using c s addr slot k(2) by (auto simp: connected_def t_def)
qed

text \<open>
  C21. A TCP connection over the loopback device: when the loopback queue is empty, a listener with
  an empty backlog waits at the remote port, a slot is free and no other socket uses the pair of
  addresses, then connecting and accepting right afterwards both succeed. The two sockets are
  connected with each other, the server's buffer is new and the client's is the one it had, and
  each end expects the other's numbers, except that the client still counts its first byte with
  the number its SYN has used up: the server expects one more. The queue is empty again.
\<close>

theorem handshake_completes:
  assumes "can_connect n i c rmt l ls" "sk_backlog_count ls = 0"
  shows "\<exists>n1 n2 conn c' s. socket_connect env n i rmt = Some (Inr (), n1) \<and> socket_accept env' n1 l = Some (Inr conn, n2) \<and>
    get_socket n conn = None \<and> get_socket n2 i = Some c' \<and> get_socket n2 conn = Some s \<and> connected n2 i conn \<and>
    sk_state c' = Established \<and> sk_state s = Established \<and>
    sk_local_addr c' = connect_local n c rmt \<and> sk_remote_addr c' = rmt \<and> sk_local_addr s = rmt \<and> sk_remote_addr s = connect_local n c rmt \<and>
    sk_rx c' = sk_rx c \<and> sk_rx s = rb_new \<and>
    sk_recv_seq c' = sk_send_seq s \<and> sk_recv_seq s = sk_send_seq c' + 1 \<and> net_ok n2 \<and> lo_list (net_loopback n2) = []"
proof -
  let ?lcl = "connect_local n c rmt" and ?ci = "unat (sid_slot i)" and ?li = "unat (sid_slot l)" and ?t = "net_sockets n"
  note can = assms(1) [unfolded can_connect_def Let_def]
  from connect_completes [OF assms(1) refl, of env] obtain n1 k c' s where
    n1: "socket_connect env n i rmt = Some (Inr (), n1)" "net_ok n1" "k < MAX_SOCKETS" "\<not> sk_active (?t ! k)"
      "net_sockets n1 = ?t[?ci := c', k := s, ?li := add_to_backlog ls (sid_pack (of_nat k) (sk_generation s))]"
      "lo_list (net_loopback n1) = [tcp_packet ?lcl rmt (net_isn n) (sk_send_seq s + 1) ACK 4096 []]"
    and c': "sk_active c'" "sk_generation c' = sk_generation c" "sk_state c' = Established" "sk_protocol c' = Tcp"
      "sk_local_addr c' = ?lcl" "sk_remote_addr c' = rmt" "sk_rx c' = sk_rx c" "sk_send_seq c' = net_isn n"
      "sk_recv_seq c' = sk_send_seq s + 1"
    and s: "sk_active s" "sk_generation s = sk_generation (?t ! k) + 1" "sk_state s = SynReceived" "sk_protocol s = Tcp"
      "sk_local_addr s = rmt" "sk_remote_addr s = ?lcl" "sk_rx s = rb_new" "sk_recv_seq s = net_isn n + 1"
    by auto
  let ?conn = "sid_pack (of_nat k) (sk_generation s)" and ?ls = "add_to_backlog ls (sid_pack (of_nat k) (sk_generation s))"
  have len: "length ?t = MAX_SOCKETS" using can by (simp add: net_ok_def)
  have c: "?t ! ?ci = c" "sk_active c" "sk_generation c = sid_generation i"
    using can by (auto simp: get_socket_def sock_get_eq Let_def split: if_splits)
  have "sock_get ?t l = Some ls" using can by (simp add: get_socket_def)
  note li = find_listener_slotE [OF len _ this, of "sa_port rmt"]
  have ls: "?t ! ?li = ls" "sk_state ls = Listen" "sk_active ls" "sk_generation ls = sid_generation l"
    using li can by (auto simp: get_socket_def sock_get_eq Let_def split: if_splits)
  have ne: "?li \<noteq> ?ci" "k \<noteq> ?ci" "k \<noteq> ?li" using c ls n1(4) can by auto
  have t1: "net_sockets n1 ! k = s" "net_sockets n1 ! ?ci = c'" "net_sockets n1 ! ?li = ?ls" "length (net_sockets n1) = MAX_SOCKETS"
    using n1(3,5) ne len by simp_all
  have cid: "slot_id (net_sockets n1) k = ?conn" using t1 by (simp add: slot_id_def)
  have bl: "sk_backlog_count ?ls > 0" "sk_backlog ?ls ! 0 = slot_id (net_sockets n1) k" "sk_state ?ls = Listen"
    using assms(2) get_socket_ok [of n l ls] can cid ls(2) by (auto simp: add_to_backlog_def sock_ok_def MAX_BACKLOG_def)
  have gl: "get_socket n1 l = Some ?ls" using t1 ls by (simp add: get_socket_def sock_get_eq)
  have "find_slot (conn_match rmt ?lcl) (net_sockets n1) = Some k"
  proof (rule find_slot_unique)
    fix j assume j: "j < length (net_sockets n1)" "j \<noteq> k"
    then have "\<not> conn_match rmt ?lcl (?t ! j)" "\<not> conn_match rmt ?lcl c'" using can t1(4) len c'(6) by (auto simp: conn_match_def)
    moreover have "conn_match rmt ?lcl ?ls = conn_match rmt ?lcl ls" by (simp add: conn_match_def add_to_backlog_def)
    ultimately show "\<not> conn_match rmt ?lcl (net_sockets n1 ! j)"
      using j len n1(5) ls(1) by (auto simp: nth_list_update)
  qed (use t1 n1(3) s in \<open>simp_all add: conn_match_def\<close>)
  from accept_completes [OF n1(2,6) gl bl(3,1,2) this t1(1) s(3), of env'] obtain n2 where
    n2: "socket_accept env' n1 l = Some (Inr ?conn, n2)" "net_ok n2" "lo_list (net_loopback n2) = []"
      "net_sockets n2 = (net_sockets n1)[?li := snd (backlog_pop ?ls), k := sock_acked (s\<lparr>sk_send_seq := sk_send_seq s + 1, sk_state := Established\<rparr>)
         (sk_send_seq s + 1) (ev_now (env' 0))]"
    using cid by auto
  have g: "get_socket n2 i = Some c'" using n2(4) t1 ne c c' by (simp add: get_socket_def sock_get_eq)
  have g': "get_socket n2 ?conn = Some (sock_acked (s\<lparr>sk_send_seq := sk_send_seq s + 1, sk_state := Established\<rparr>)
      (sk_send_seq s + 1) (ev_now (env' 0)))"
    using n2(4) n1(3) t1(4) s by (simp add: get_socket_def sock_get_eq)
  have "connected n2 i ?conn"
  proof (rule connected_new [OF _ n1(3) ne(2) g c'(4,3,5,6) g'])
    fix j assume j: "j < MAX_SOCKETS" "j \<noteq> ?ci" "j \<noteq> k"
    then have "\<not> conn_match ?lcl rmt (?t ! j) \<and> \<not> conn_match rmt ?lcl (?t ! j)" using can len by auto
    moreover have "conn_match a b (net_sockets n2 ! j) = conn_match a b (?t ! j)" for a b
      using j n2(4) n1(5) ls(1) len by (cases "j = ?li") simp_all
    ultimately show "\<not> conn_match ?lcl rmt (net_sockets n2 ! j) \<and> \<not> conn_match rmt ?lcl (net_sockets n2 ! j)" by simp
  qed (use can s n2(2) in \<open>simp_all add: net_ok_def sock_acked_def\<close>)
  moreover note g g'
  moreover have "get_socket n ?conn = None" using n1(3,4) by (simp add: get_socket_def sock_get_eq)
  ultimately show ?thesis
    using n1(1) n2(1-3) c' s by (intro exI [of _ n1] exI [of _ n2] exI [of _ ?conn] exI [of _ c'] exI) (auto simp: sock_acked_def)
qed

text \<open>An example: a client bound to port 5000 and a listener at port 80.\<close>

definition demo_client :: socket where
  "demo_client = (new_socket Stream Tcp 3 1)\<lparr>sk_local_addr := sa_new IP_LOOPBACK 5000, sk_state := Bound\<rparr>"

definition demo_listener :: socket where
  "demo_listener = (new_socket Stream Tcp 4 1)\<lparr>sk_local_addr := sa_new IP_LOOPBACK 80, sk_state := Listen\<rparr>"

definition demo_tcp :: net where
  "demo_tcp = net_new\<lparr>net_sockets := table_new[0 := demo_client, 1 := demo_listener]\<rparr>"

lemma demo_tcp_sockets:
  "length (net_sockets demo_tcp) = MAX_SOCKETS" "net_sockets demo_tcp ! 0 = demo_client" "net_sockets demo_tcp ! Suc 0 = demo_listener"
  "k < MAX_SOCKETS \<Longrightarrow> Suc 0 < k \<Longrightarrow> net_sockets demo_tcp ! k = socket_empty"
  by (simp_all add: demo_tcp_def table_new_def MAX_SOCKETS_def)

lemma demo_tcp_cases:
  assumes "k < MAX_SOCKETS" obtains "k = 0" | "k = Suc 0" | "Suc 0 < k" "net_sockets demo_tcp ! k = socket_empty"
  using assms demo_tcp_sockets(4) [of k] by (cases k; cases "k - 1") auto

lemmas demo_simps = demo_client_def demo_listener_def new_socket_def socket_empty_def sa_new_def IP_LOOPBACK_def IP_UNSPECIFIED_def
  SA_UNSPECIFIED_def

lemma demo_can_connect: "can_connect demo_tcp (sid_pack 0 1) demo_client (sa_new IP_LOOPBACK 80) (sid_pack 1 1) demo_listener"
proof -
  let ?t = "net_sockets demo_tcp" and ?r = "sa_new IP_LOOPBACK 80" and ?l = "sa_new IP_LOOPBACK 5000"
  have "net_ok demo_tcp"
    by (auto simp: net_ok_def demo_tcp_sockets(1) demo_tcp_def demo_client_def demo_listener_def net_new_def table_new_def dns_response_new_def
        dest!: subsetD [OF set_update_subset_insert])
  moreover have "connect_local demo_tcp demo_client ?r = ?l" by (simp add: connect_local_def demo_simps)
  moreover have "find_listener ?t 80 = Some (sid_pack 1 1)"
  proof -
    have "find_slot (\<lambda>s. sk_active s \<and> sk_protocol s = Tcp \<and> sk_state s = Listen \<and> sa_port (sk_local_addr s) = 80) ?t = Some (Suc 0)"
      by (auto simp: find_slot_Some demo_tcp_sockets MAX_SOCKETS_def demo_simps)
    then show ?thesis by (simp add: find_listener_def slot_id_def demo_tcp_sockets demo_listener_def)
  qed
  moreover have "\<exists>s \<in> set ?t. \<not> sk_active s"
    using demo_tcp_sockets(4) [of 2] nth_mem [of 2 ?t] demo_tcp_sockets(1)
    by (intro bexI [of _ "?t ! 2"]) (simp_all add: MAX_SOCKETS_def socket_empty_def)
  moreover have "\<forall>s \<in> set ?t. \<not> conn_match ?r ?l s" "\<forall>k < MAX_SOCKETS. k \<noteq> 0 \<longrightarrow> \<not> conn_match ?l ?r (?t ! k)"
    by (auto simp: all_set_conv_all_nth demo_tcp_sockets(1-3) conn_match_def elim!: demo_tcp_cases) (simp_all add: demo_simps)
  moreover have "get_socket demo_tcp (sid_pack 0 1) = Some demo_client" "get_socket demo_tcp (sid_pack 1 1) = Some demo_listener"
    by (simp_all add: get_socket_def sock_get_eq demo_tcp_sockets) (simp_all add: demo_client_def demo_listener_def)
  moreover have "lo_list (net_loopback demo_tcp) = []" by (simp add: demo_tcp_def net_new_def)
  ultimately show ?thesis by (simp add: can_connect_def Let_def) (simp add: demo_simps)
qed

theorem handshake_completes_witness:
  "\<exists>n1 n2 conn c' s. socket_connect (\<lambda>_. \<lparr>ev_frame = None, ev_now = 0, ev_timer = 0, ev_clock = 0\<rparr>) demo_tcp (sid_pack 0 1) (sa_new IP_LOOPBACK 80) =
      Some (Inr (), n1) \<and>
    socket_accept (\<lambda>_. \<lparr>ev_frame = None, ev_now = 0, ev_timer = 0, ev_clock = 0\<rparr>) n1 (sid_pack 1 1) = Some (Inr conn, n2) \<and>
    get_socket n2 (sid_pack 0 1) = Some c' \<and> get_socket n2 conn = Some s \<and> sk_state c' = Established \<and> sk_state s = Established"
proof -
  have "sk_backlog_count demo_listener = 0" by (simp add: demo_simps)
  from handshake_completes [OF demo_can_connect this] show ?thesis by blast
qed

section \<open>Data\<close>

lemma tcp_send_delivers:
  assumes "net_ok n" "lo_list (net_loopback n) = []" "get_socket n i = Some s" "sk_protocol s = Tcp" "sk_state s = Established"
    and "find_slot (conn_match (sk_remote_addr s) (sk_local_addr s)) (net_sockets n) = Some k" "k \<noteq> unat (sid_slot i)"
    and "net_sockets n ! k = r" "sk_state r = Established" "sk_local_addr r = sk_remote_addr s"
    and "nic_is_loopback (sa_addr (sk_remote_addr s))" "nic_is_loopback (sa_addr (sk_local_addr s))"
    and "data \<noteq> []" "length data \<le> 1460" "rb_len (sk_rx r) + length data \<le> RING_BUF_SIZE"
  shows "\<exists>n' rx. socket_send env n i data = Some (Inr (length data), n') \<and> net_ok n' \<and> rb_list rx = rb_list (sk_rx r) @ data \<and>
    net_sockets n' = (net_sockets n)[unat (sid_slot i) := s\<lparr>sk_send_seq := sk_send_seq s + of_nat (length data)\<rparr>,
      k := r\<lparr>sk_rx := rx, sk_recv_seq := sk_send_seq s + of_nat (length data)\<rparr>] \<and>
    lo_list (net_loopback n') =
      [tcp_packet (sk_local_addr r) (sk_remote_addr r) (sk_send_seq r) (sk_send_seq s + of_nat (length data)) ACK 4096 []]"
proof -
  let ?src = "sk_local_addr s" and ?dst = "sk_remote_addr s" and ?i = "unat (sid_slot i)" and ?t = "net_sockets n"
  let ?s = "s\<lparr>sk_send_seq := sk_send_seq s + of_nat (length data)\<rparr>"
  let ?p = "tcp_packet ?src ?dst (sk_send_seq s) (sk_recv_seq s) ACK 4096 data"
  let ?m = "put_socket n i ?s"
  have len: "length ?t = MAX_SOCKETS" using assms(1) by (simp add: net_ok_def)
  have s: "?t ! ?i = s" "sk_active s" "sk_generation s = sid_generation i"
    using assms(3) by (auto simp: get_socket_def sock_get_eq Let_def split: if_splits)
  have r: "sk_active r" "sk_remote_addr r = ?src" "k < MAX_SOCKETS" using find_slot_SomeD [OF assms(6)] assms(8) len by (auto simp: conn_match_def)
  have m: "net_sockets ?m = ?t[?i := ?s]" "net_loopback ?m = net_loopback n" by (simp_all add: put_socket_def sock_put_def)
  have okm: "net_ok ?m"
    using get_socket_ok [OF assms(1,3)] by (intro good_ok [OF put_good [OF assms(1,3)]] slot_moveI) simp_all
  have b: "build_tcp_packet ?src ?dst (sk_send_seq s) (sk_recv_seq s) ACK 4096 data (replicate LOOPBACK_MTU 0) =
      Some (40 + length data, ?p @ drop (40 + length data) (replicate LOOPBACK_MTU 0))"
    using assms(14) by (intro build_tcp_packet_spec) (simp add: LOOPBACK_MTU_def)
  have pl: "length ?p \<le> LOOPBACK_MTU" using assms(14) by (simp add: LOOPBACK_MTU_def)
  have cnt: "lo_ok (net_loopback ?m)" "lo_count (net_loopback ?m) < LOOPBACK_QUEUE_SIZE"
    using okm arg_cong [OF assms(2), of length] by (simp_all add: net_ok_def LOOPBACK_QUEUE_SIZE_def m(2))
  have ip: "ip_from_bytes ?p = Some (ip_new (sa_addr ?src) (sa_addr ?dst) 6 (of_nat (TCP_SIZE + length data)))" by (simp add: tcp_packet_def)
  obtain lo1 where lo1: "transmit_ip ?m ?p = Some (?m\<lparr>net_loopback := lo1\<rparr>)" "lo_ok lo1" "lo_list lo1 = [?p]"
    using enqueue_loopback [OF cnt pl ip] assms(2,11) m(2) by auto
  have ok1: "net_ok (?m\<lparr>net_loopback := lo1\<rparr>)" using okm lo1(2) by (simp add: net_ok_def)
  have "conn_match ?dst ?src ?s = conn_match ?dst ?src s" by (simp add: conn_match_def)
  then have f: "find_slot (conn_match ?dst ?src) (net_sockets (?m\<lparr>net_loopback := lo1\<rparr>)) = Some k"
    using find_slot_update [of ?i ?t "conn_match ?dst ?src" ?s] assms(6) len s(1) m(1) by simp
  obtain lo2 where d: "deliver_one (env 0) (?m\<lparr>net_loopback := lo1\<rparr>) =
      tcp_state_machine (?m\<lparr>net_loopback := lo2\<rparr>) (slot_id (?t[?i := ?s]) k) (tcp_filled ?src ?dst (sk_send_seq s) (sk_recv_seq s) ACK 4096 data)
        data (ev_now (env 0))" "lo_ok lo2" "lo_list lo2 = []" "get_socket (?m\<lparr>net_loopback := lo2\<rparr>) (slot_id (?t[?i := ?s]) k) = Some r"
    using segment_delivered [OF ok1 _ f, of "sk_send_seq s" "sk_recv_seq s" ACK 4096 data "[]" "env 0"] lo1(3) m(1) assms(7,8) by auto
  have "rb_ok (sk_rx r)" using assms(1,8) r(3) len by (auto simp: net_ok_def sock_ok_def)
  then obtain rx where rx: "rb_write (sk_rx r) data = Some (length data, rx)" "rb_list rx = rb_list (sk_rx r) @ data"
    using rb.write_fits [of "sk_rx r" data] assms(15) by auto
  let ?r = "r\<lparr>sk_rx := rx, sk_recv_seq := sk_send_seq s + of_nat (length data)\<rparr>"
  have "deliver_one (env 0) (?m\<lparr>net_loopback := lo1\<rparr>) = put_and_ack (?m\<lparr>net_loopback := lo2\<rparr>) (slot_id (?t[?i := ?s]) k) ?r"
    using d(1,4) rx(1) assms(9,13) by (simp add: tcp_state_machine_def tcp_in_established_def Let_def)
  moreover have "nic_is_loopback (sa_addr (sk_remote_addr ?r))" using assms(12) r(2) by simp
  ultimately obtain n' where n': "deliver_one (env 0) (?m\<lparr>net_loopback := lo1\<rparr>) = Some n'" "net_sockets n' = ?t[?i := ?s, k := ?r]"
    "lo_list (net_loopback n') = [tcp_packet (sk_local_addr r) (sk_remote_addr r) (sk_send_seq r) (sk_send_seq s + of_nat (length data)) ACK 4096 []]"
    using put_and_ack_spec [of "?m\<lparr>net_loopback := lo2\<rparr>" ?r k "?t[?i := ?s]"] d(2,3) r(3) m(1) by auto
  have ok': "net_ok n'" using deliver_good [OF ok1, of "env 0"] n'(1) by (simp add: good_def)
  have "socket_send env n i data = Some (Inr (length data), n')"
    using assms(3-5,14) b lo1(1) n'(1)
    by (simp add: socket_send_def transmit_and_deliver_def LOOPBACK_MTU_def numeral_eq_Suc [symmetric])
  then show ?thesis using ok' n'(2,3) rx(2) by (intro exI [of _ n'] exI [of _ rx]) simp
qed

lemma established_ack_delivered:
  assumes "net_ok n" "lo_list (net_loopback n) = [tcp_packet src dst sq ak ACK win []]"
    and "find_slot (conn_match dst src) (net_sockets n) = Some k" "net_sockets n ! k = s" "sk_state s = Established"
  shows "\<exists>n'. deliver_one ev n = Some n' \<and> lo_list (net_loopback n') = [] \<and>
    net_sockets n' = (net_sockets n)[k := sock_acked (s\<lparr>sk_send_ack := ak\<rparr>) ak (ev_now ev)]"
proof -
  obtain lo' where d: "deliver_one ev n = tcp_state_machine (n\<lparr>net_loopback := lo'\<rparr>) (slot_id (net_sockets n) k)
      (tcp_filled src dst sq ak ACK win []) [] (ev_now ev)" "lo_list lo' = []"
    "get_socket (n\<lparr>net_loopback := lo'\<rparr>) (slot_id (net_sockets n) k) = Some s" "k < MAX_SOCKETS"
    using segment_delivered [OF assms(1-3), of ev] assms(4) by auto
  then show ?thesis
    using assms(5) by (simp add: tcp_state_machine_def tcp_in_established_def Let_def put_slot)
qed

lemma recv_tcp_stream:
  assumes "rb_ok (sk_rx r)" "rb_list (sk_rx r) = xs" "xs \<noteq> []"
  shows "\<exists>rx. recv_tcp r out = Some (Inr (min (length out) (length xs)), take (length out) xs @ drop (length xs) out, r\<lparr>sk_rx := rx\<rparr>) \<and>
    rb_ok rx \<and> rb_list rx = drop (length out) xs"
proof -
  have "\<not> rb_is_empty (sk_rx r)" using arg_cong [OF assms(2), of length] assms(3) by (simp add: rb_is_empty_def)
  then show ?thesis using rb.read_law [OF assms(1), of out] assms(2) by (auto simp: recv_tcp_def)
qed

text \<open>Storing sockets that match the same segments as before does not change who is found.\<close>

lemma find_slot_two:
  assumes "a < length t" "b < length t" "a \<noteq> b" "p (t ! a) = p x" "p (t ! b) = p y"
  shows "find_slot p (t[a := x, b := y]) = find_slot p t"
  using assms find_slot_update [of b "t[a := x]" p y] find_slot_update [of a t p x] by simp

text \<open>
  C22. Data on a connection over the loopback device. The ends are connected, the loopback queue is
  empty, and one end sends 1 to 1460 bytes for which the other end has room in its buffer. Then the
  send reports them all as sent, and the other end's next \<open>recv\<close> returns what its buffer held before
  followed by those bytes, as far as the caller's buffer reaches, and keeps the rest. The sockets
  are then still connected and the queue, whose acknowledgement that \<open>recv\<close> has delivered, is
  empty, so that the next transfer in either direction can follow.
\<close>

theorem tcp_data_arrives:
  assumes "net_ok n" "lo_list (net_loopback n) = []" "connected n i j" "get_socket n i = Some s" "get_socket n j = Some r"
    and "data \<noteq> []" "length data \<le> 1460" "rb_len (sk_rx r) + length data \<le> RING_BUF_SIZE"
    and "stream = rb_list (sk_rx r) @ data"
  shows "\<exists>n1 n2 s' r'. socket_send env n i data = Some (Inr (length data), n1) \<and>
    socket_recv ev n1 j out = Some (Inr (min (length out) (length stream)), take (length out) stream @ drop (length stream) out, n2) \<and>
    net_ok n2 \<and> lo_list (net_loopback n2) = [] \<and> connected n2 i j \<and> get_socket n2 i = Some s' \<and> get_socket n2 j = Some r' \<and>
    sk_send_seq s' = sk_send_seq s + of_nat (length data) \<and> sk_recv_seq r' = sk_send_seq s' \<and>
    sk_rx s' = sk_rx s \<and> rb_list (sk_rx r') = drop (length out) stream"
proof -
  let ?t = "net_sockets n" and ?i = "unat (sid_slot i)" and ?j = "unat (sid_slot j)"
  let ?sq = "sk_send_seq s + of_nat (length data)"
  let ?s = "s\<lparr>sk_send_seq := ?sq\<rparr>" and ?s' = "sock_acked (s\<lparr>sk_send_seq := ?sq, sk_send_ack := ?sq\<rparr>) ?sq (ev_now ev)"
  note con = assms(3) [unfolded connected_def assms(4,5) prod.case option.case]
  have len: "length ?t = MAX_SOCKETS" using assms(1) by (simp add: net_ok_def)
  have ij: "?i < length ?t" "?j < length ?t" "?i \<noteq> ?j" using con len by (auto simp: word_unat_eq_iff [symmetric])
  have s: "?t ! ?i = s" "sk_active s" "sk_generation s = sid_generation i"
    and r: "?t ! ?j = r" "sk_active r" "sk_generation r = sid_generation j"
    using assms(4,5) by (auto simp: get_socket_def sock_get_eq Let_def split: if_splits)
  obtain n1 rx where n1: "socket_send env n i data = Some (Inr (length data), n1)" "net_ok n1" "rb_list rx = stream"
    "net_sockets n1 = ?t[?i := ?s, ?j := r\<lparr>sk_rx := rx, sk_recv_seq := ?sq\<rparr>]"
    "lo_list (net_loopback n1) = [tcp_packet (sk_local_addr r) (sk_remote_addr r) (sk_send_seq r) ?sq ACK 4096 []]"
    using tcp_send_delivers [OF assms(1,2,4), of ?j r data env] con ij(3) r(1) assms(6-9) by auto
  have same: "find_slot (conn_match a b) (?t[?i := x, ?j := y]) = find_slot (conn_match a b) ?t"
    if "sk_active x" "sk_protocol x = Tcp" "sk_local_addr x = sk_local_addr s" "sk_remote_addr x = sk_remote_addr s"
      "sk_active y" "sk_protocol y = Tcp" "sk_local_addr y = sk_local_addr r" "sk_remote_addr y = sk_remote_addr r" for a b x y
    using that con s r by (intro find_slot_two ij) (simp_all add: conn_match_def)
  have f: "find_slot (conn_match (sk_remote_addr r) (sk_local_addr r)) (net_sockets n1) = Some ?i"
    unfolding n1(4) using con s r by (subst same) auto
  have g: "net_sockets n1 ! ?i = ?s" "sk_state ?s = Established" using n1(4) ij con by simp_all
  from established_ack_delivered [OF n1(2,5) f g, of ev] obtain n2 where n2: "deliver_one ev n1 = Some n2" "lo_list (net_loopback n2) = []"
    "net_sockets n2 = ?t[?i := ?s', ?j := r\<lparr>sk_rx := rx, sk_recv_seq := ?sq\<rparr>]"
    using n1(4) ij(3) by (auto simp: list_update_swap [of ?j ?i])
  have ok2: "net_ok n2" using deliver_good [OF n1(2), of ev] n2(1) by (simp add: good_def)
  let ?r = "r\<lparr>sk_rx := rx, sk_recv_seq := ?sq\<rparr>"
  have gr: "get_socket n2 j = Some ?r" using n2(3) ij r by (simp add: get_socket_def sock_get_eq)
  have "rb_ok rx" using get_socket_ok [OF ok2 gr] by (simp add: sock_ok_def)
  then obtain rx' where rx': "recv_tcp ?r out = Some (Inr (min (length out) (length stream)), take (length out) stream @ drop (length stream) out,
      ?r\<lparr>sk_rx := rx'\<rparr>)" "rb_ok rx'" "rb_list rx' = drop (length out) stream"
    using recv_tcp_stream [of ?r stream out] n1(3) assms(6,9) by auto
  let ?r' = "?r\<lparr>sk_rx := rx'\<rparr>" and ?n2 = "put_socket n2 j (?r\<lparr>sk_rx := rx'\<rparr>)"
  have recv: "socket_recv ev n1 j out =
      Some (Inr (min (length out) (length stream)), take (length out) stream @ drop (length stream) out, ?n2)"
    using n2(1) gr rx'(1) con by (simp add: socket_recv_def)
  have ok: "net_ok ?n2" using recv_good [OF n1(2), of ev j out] recv by (simp add: good_def)
  have t2: "net_sockets ?n2 = ?t[?i := ?s', ?j := ?r']" using n2(3) by (simp add: put_socket_def sock_put_def)
  have g2: "get_socket ?n2 i = Some ?s'" "get_socket ?n2 j = Some ?r'"
    using t2 ij s r by (simp_all add: get_socket_def sock_get_eq sock_acked_def)
  have addr: "sk_local_addr ?s' = sk_local_addr s" "sk_remote_addr ?s' = sk_remote_addr s" "sk_send_seq ?s' = ?sq" "sk_rx ?s' = sk_rx s"
    by (simp_all add: sock_acked_def)
  have "connected ?n2 i j"
    unfolding connected_def g2 prod.case option.case t2 using con s r addr by (subst same, simp, simp, simp, simp, simp, simp, simp, simp)+ auto
  moreover have "lo_list (net_loopback ?n2) = []" using n2(2) by (simp add: put_socket_def)
  ultimately show ?thesis
    using n1(1) recv ok g2 addr rx'(3) by (intro exI [of _ n1] exI [of _ ?n2] exI [of _ ?s'] exI [of _ ?r']) simp
qed

definition demo_end :: "u16 \<Rightarrow> u16 \<Rightarrow> socket" where
  "demo_end lcl rmt = (new_socket Stream Tcp 3 1)\<lparr>sk_local_addr := sa_new IP_LOOPBACK lcl, sk_remote_addr := sa_new IP_LOOPBACK rmt,
     sk_state := Established\<rparr>"

definition demo_pair :: net where
  "demo_pair = net_new\<lparr>net_sockets := table_new[0 := demo_end 5000 80, 1 := demo_end 80 5000]\<rparr>"

theorem tcp_data_arrives_witness:
  "\<exists>n1 n2. socket_send (\<lambda>_. \<lparr>ev_frame = None, ev_now = 0, ev_timer = 0, ev_clock = 0\<rparr>) demo_pair (sid_pack 0 1) [1, 2, 3] = Some (Inr 3, n1) \<and>
     socket_recv \<lparr>ev_frame = None, ev_now = 0, ev_timer = 0, ev_clock = 0\<rparr> n1 (sid_pack 1 1) [0, 0, 0, 0] = Some (Inr 3, [1, 2, 3, 0], n2) \<and>
     connected n2 (sid_pack 0 1) (sid_pack 1 1)"
proof -
  let ?env = "\<lambda>_. \<lparr>ev_frame = None, ev_now = 0, ev_timer = 0, ev_clock = 0\<rparr>" and ?t = "net_sockets demo_pair"
  let ?s = "demo_end 5000 80" and ?r = "demo_end 80 5000"
  have t: "length ?t = MAX_SOCKETS" "?t ! 0 = ?s" "?t ! Suc 0 = ?r" "1 < k \<Longrightarrow> k < MAX_SOCKETS \<Longrightarrow> ?t ! k = socket_empty" for k
    by (simp_all add: demo_pair_def table_new_def MAX_SOCKETS_def)
  have ok: "net_ok demo_pair"
    by (auto simp: net_ok_def t(1) demo_pair_def demo_end_def net_new_def table_new_def dns_response_new_def
        dest!: subsetD [OF set_update_subset_insert])
  have lo: "lo_list (net_loopback demo_pair) = []" by (simp add: demo_pair_def net_new_def)
  have g: "get_socket demo_pair (sid_pack 0 1) = Some ?s" "get_socket demo_pair (sid_pack (of_nat 1) 1) = Some ?r"
    by (simp_all add: get_socket_def sock_get_eq t) (simp_all add: demo_end_def)
  note simps = demo_end_def new_socket_def socket_empty_def sa_new_def IP_LOOPBACK_def
  have con: "connected demo_pair (sid_pack 0 1) (sid_pack (of_nat 1) 1)"
  proof (rule connected_new [OF t(1) _ _ g(1) _ _ refl refl g(2)])
    fix j assume "j < MAX_SOCKETS" "j \<noteq> unat (sid_slot (sid_pack 0 1))" "j \<noteq> 1"
    then have "?t ! j = socket_empty" using t(4) [of j] by simp
    then show "\<not> conn_match (sk_local_addr ?s) (sk_remote_addr ?s) (?t ! j) \<and> \<not> conn_match (sk_remote_addr ?s) (sk_local_addr ?s) (?t ! j)"
      by (simp add: conn_match_def socket_empty_def)
  qed (simp_all add: simps MAX_SOCKETS_def)
  have e: "rb_len (sk_rx ?r) = 0" "rb_list (sk_rx ?r) = []" by (simp_all add: simps rb_new_def rb_list_def)
  show ?thesis
    using tcp_data_arrives [OF ok lo con g, of "[1, 2, 3]" "[1, 2, 3]" ?env "?env 0" "[0, 0, 0, 0]"] e by (auto simp: RING_BUF_SIZE_def)
qed

end
