(* ===== verification/Frame_Alloc.thy ===== *)
theory Frame_Alloc
  imports Ring_Buffer
begin

text \<open>
  The physical frame allocator (\<^verbatim>\<open>kernel/src/memory/frame.rs\<close>): a buddy allocator over the first
  gigabyte with a bitmap of the frames and one intrusive free list per order. The link of a free
  block is stored in the block itself, through the direct map of physical memory
  (\<^verbatim>\<open>kernel/src/memory/mod.rs\<close>). Memory is therefore part of the state: the 64-bit word at each
  virtual address of the direct map. The consistency check of debug builds and its canary words
  are not part of the release build.
\<close>

section \<open>Addresses (\<^verbatim>\<open>memory/mod.rs\<close>)\<close>

definition PAGE_SIZE :: nat where "PAGE_SIZE = 4096"

type_synonym phys_addr = u64
type_synonym virt_addr = u64

definition to_virt :: "u64 \<Rightarrow> phys_addr \<Rightarrow> virt_addr" where
  "to_virt hhdm_offset p = p + hhdm_offset"

definition to_phys :: "u64 \<Rightarrow> virt_addr \<Rightarrow> phys_addr" where
  "to_phys hhdm_offset v = v - hhdm_offset"

section \<open>State\<close>

definition MAX_ORDER :: nat where "MAX_ORDER = 10"
definition MAX_PHYS_ADDR :: u64 where "MAX_PHYS_ADDR = 0x40000000"
definition MAX_FRAMES :: nat where "MAX_FRAMES = 262144"
definition BITMAP_SIZE :: nat where "BITMAP_SIZE = 32768"

type_synonym free_block_ptr = u64

definition fbp_null :: free_block_ptr where "fbp_null = 0"

definition fbp_from_frame :: "nat \<Rightarrow> free_block_ptr" where
  "fbp_from_frame frame = of_nat (frame * PAGE_SIZE)"

definition fbp_is_null :: "free_block_ptr \<Rightarrow> bool" where
  "fbp_is_null p \<longleftrightarrow> p = 0"

definition fbp_to_frame :: "free_block_ptr \<Rightarrow> nat" where
  "fbp_to_frame p = unat p div PAGE_SIZE"

record buddy_allocator =
  ba_free_lists :: "free_block_ptr list"
  ba_bitmap :: "u8 list"
  ba_total :: u64
  ba_free :: u64
  ba_max_order :: nat
  ba_initialized :: bool
  ba_hhdm :: u64
  ba_mem :: "virt_addr \<Rightarrow> u64"

definition buddy_new :: "u64 \<Rightarrow> (virt_addr \<Rightarrow> u64) \<Rightarrow> buddy_allocator" where
  "buddy_new hhdm mem = \<lparr>ba_free_lists = replicate (MAX_ORDER + 1) fbp_null, ba_bitmap = replicate BITMAP_SIZE 0xFF,
     ba_total = 0, ba_free = 0, ba_max_order = 0, ba_initialized = False, ba_hhdm = hhdm, ba_mem = mem\<rparr>"

definition read_next :: "buddy_allocator \<Rightarrow> free_block_ptr \<Rightarrow> free_block_ptr" where
  "read_next b p = ba_mem b (to_virt (ba_hhdm b) p)"

definition write_next :: "buddy_allocator \<Rightarrow> free_block_ptr \<Rightarrow> free_block_ptr \<Rightarrow> buddy_allocator" where
  "write_next b p nxt = b\<lparr>ba_mem := (ba_mem b)(to_virt (ba_hhdm b) p := nxt)\<rparr>"

section \<open>Bitmap operations\<close>

definition set_bit_at :: "nat \<Rightarrow> buddy_allocator \<Rightarrow> buddy_allocator run" where
  "set_bit_at frame b = do {
     x \<leftarrow> index (ba_bitmap b) (frame div 8);
     bm \<leftarrow> store_at (ba_bitmap b) (frame div 8) (x OR push_bit (frame mod 8) 1);
     Some (b\<lparr>ba_bitmap := bm\<rparr>)
   }"

definition clear_bit_at :: "nat \<Rightarrow> buddy_allocator \<Rightarrow> buddy_allocator run" where
  "clear_bit_at frame b = do {
     x \<leftarrow> index (ba_bitmap b) (frame div 8);
     bm \<leftarrow> store_at (ba_bitmap b) (frame div 8) (x AND NOT (push_bit (frame mod 8) 1));
     Some (b\<lparr>ba_bitmap := bm\<rparr>)
   }"

definition is_free :: "buddy_allocator \<Rightarrow> nat \<Rightarrow> bool" where
  "is_free b frame \<longleftrightarrow> frame < MAX_FRAMES \<and> (ba_bitmap b ! (frame div 8)) AND push_bit (frame mod 8) 1 = 0"

text \<open>The loops that mark or test \<open>count\<close> frames from \<open>frame\<close> on.\<close>

primrec set_range :: "nat \<Rightarrow> nat \<Rightarrow> buddy_allocator \<Rightarrow> buddy_allocator run" where
  "set_range frame 0 b = Some b"
| "set_range frame (Suc i) b = do { b' \<leftarrow> set_range frame i b; set_bit_at (frame + i) b' }"

primrec clear_range :: "nat \<Rightarrow> nat \<Rightarrow> buddy_allocator \<Rightarrow> buddy_allocator run" where
  "clear_range frame 0 b = Some b"
| "clear_range frame (Suc i) b = do { b' \<leftarrow> clear_range frame i b; clear_bit_at (frame + i) b' }"

definition range_free :: "buddy_allocator \<Rightarrow> nat \<Rightarrow> nat \<Rightarrow> nat \<Rightarrow> bool" where
  "range_free b frame lo hi \<longleftrightarrow> list_all (\<lambda>i. frame + i < MAX_FRAMES \<and> is_free b (frame + i)) [lo..<hi]"

section \<open>Free lists\<close>

definition push_free_list :: "nat \<Rightarrow> nat \<Rightarrow> buddy_allocator \<Rightarrow> buddy_allocator run" where
  "push_free_list frame order b = do {
     let ptr = fbp_from_frame frame;
     head \<leftarrow> index (ba_free_lists b) order;
     let b = write_next b ptr head;
     lists \<leftarrow> store_at (ba_free_lists b) order ptr;
     Some (b\<lparr>ba_free_lists := lists\<rparr>)
   }"

definition pop_free_list :: "nat \<Rightarrow> buddy_allocator \<Rightarrow> (nat option \<times> buddy_allocator) run" where
  "pop_free_list order b = do {
     head \<leftarrow> index (ba_free_lists b) order;
     if fbp_is_null head then Some (None, b)
     else do {
       lists \<leftarrow> store_at (ba_free_lists b) order (read_next b head);
       Some (Some (fbp_to_frame head), b\<lparr>ba_free_lists := lists\<rparr>)
     }
   }"

text \<open>The walk along a list, with the iterations that are left before it panics.\<close>

fun remove_walk :: "free_block_ptr \<Rightarrow> free_block_ptr \<Rightarrow> nat \<Rightarrow> buddy_allocator \<Rightarrow> (bool \<times> buddy_allocator) run" where
  "remove_walk target current iterations b =
     (if fbp_is_null current then Some (False, b)
      else case iterations of
        0 \<Rightarrow> None
      | Suc k \<Rightarrow>
          (let nxt = read_next b current
           in if nxt = target then Some (True, write_next b current (read_next b target))
              else remove_walk target nxt k b))"

declare remove_walk.simps [simp del]

definition remove_from_free_list :: "nat \<Rightarrow> nat \<Rightarrow> buddy_allocator \<Rightarrow> (bool \<times> buddy_allocator) run" where
  "remove_from_free_list frame order b = do {
     let target = fbp_from_frame frame;
     head \<leftarrow> index (ba_free_lists b) order;
     if fbp_is_null head then Some (False, b)
     else if head = target then do {
       lists \<leftarrow> store_at (ba_free_lists b) order (read_next b target);
       Some (True, b\<lparr>ba_free_lists := lists\<rparr>)
     }
     else remove_walk target head MAX_FRAMES b
   }"

section \<open>Initialisation\<close>

definition ceil_div :: "u64 \<Rightarrow> u64 \<Rightarrow> u64" where
  "ceil_div a d = (a + d - 1) div d"

text \<open>The frames \<open>frame\<close> to \<open>frame + count - 1\<close> of a region, as far as they exist.\<close>

primrec add_frames :: "nat \<Rightarrow> nat \<Rightarrow> buddy_allocator \<Rightarrow> buddy_allocator run" where
  "add_frames frame 0 b = Some b"
| "add_frames frame (Suc i) b = do {
     b' \<leftarrow> add_frames frame i b;
     if frame + i < MAX_FRAMES then do {
       b' \<leftarrow> clear_bit_at (frame + i) b';
       Some (b'\<lparr>ba_total := ba_total b' + 1, ba_free := ba_free b' + 1\<rparr>)
     } else Some b'
   }"

definition region_start :: "u64 \<times> u64 \<Rightarrow> nat" where
  "region_start r = unat (ceil_div (fst r) (of_nat PAGE_SIZE))"

definition region_end :: "u64 \<times> u64 \<Rightarrow> nat" where
  "region_end r = unat ((fst r + snd r) div of_nat PAGE_SIZE)"

primrec add_regions :: "(u64 \<times> u64) list \<Rightarrow> buddy_allocator \<Rightarrow> buddy_allocator run" where
  "add_regions [] b = Some b"
| "add_regions (r # rs) b = do {
     b' \<leftarrow> add_frames (region_start r) (region_end r - region_start r) b;
     add_regions rs b'
   }"

text \<open>The largest aligned block of free frames at \<open>frame\<close>, from order \<open>order\<close> on.\<close>

function max_block_order_from :: "buddy_allocator \<Rightarrow> nat \<Rightarrow> nat \<Rightarrow> nat" where
  "max_block_order_from b frame order =
     (if order < MAX_ORDER \<and> frame mod 2 ^ (order + 1) = 0 \<and> range_free b frame (2 ^ order) (2 ^ (order + 1))
      then max_block_order_from b frame (order + 1) else order)"
  by pat_completeness auto

termination by (relation "measure (\<lambda>(b, frame, order). MAX_ORDER - order)") auto

declare max_block_order_from.simps [simp del]

definition max_block_order :: "buddy_allocator \<Rightarrow> nat \<Rightarrow> nat" where
  "max_block_order b frame = max_block_order_from b frame 0"

function build_loop :: "nat \<Rightarrow> buddy_allocator \<Rightarrow> buddy_allocator run" where
  "build_loop frame b =
     (if frame < MAX_FRAMES then
        if \<not> is_free b frame then build_loop (frame + 1) b
        else
          (let order = max_block_order b frame
           in push_free_list frame order (b\<lparr>ba_max_order := max (ba_max_order b) order\<rparr>) \<bind>
                build_loop (frame + 2 ^ order))
      else Some b)"
  by pat_completeness auto

termination
  by (relation "measure (\<lambda>(frame, b). MAX_FRAMES - frame)") (auto simp: diff_less_mono2)

declare build_loop.simps [simp del]

definition init_from_regions :: "(u64 \<times> u64) list \<Rightarrow> buddy_allocator \<Rightarrow> buddy_allocator run" where
  "init_from_regions regions b = do {
     b \<leftarrow> add_regions regions b;
     b \<leftarrow> build_loop 0 b;
     Some (b\<lparr>ba_initialized := True\<rparr>)
   }"

section \<open>Allocation\<close>

text \<open>Splitting the block at \<open>frame\<close> down to \<open>order\<close>: the upper halves go to their lists.\<close>

primrec split_down :: "nat \<Rightarrow> nat \<Rightarrow> nat \<Rightarrow> buddy_allocator \<Rightarrow> buddy_allocator run" where
  "split_down frame order 0 b = Some b"
| "split_down frame order (Suc avail) b =
     (if Suc avail > order then do {
        b' \<leftarrow> push_free_list (frame + 2 ^ avail) avail b;
        split_down frame order avail b'
      } else Some b)"

definition available_order :: "buddy_allocator \<Rightarrow> nat \<Rightarrow> nat option" where
  "available_order b order = List.find (\<lambda>k. \<not> fbp_is_null (ba_free_lists b ! k)) [order..<MAX_ORDER + 1]"

definition allocate :: "nat \<Rightarrow> buddy_allocator \<Rightarrow> (phys_addr option \<times> buddy_allocator) run" where
  "allocate order b =
     (if \<not> ba_initialized b \<or> order > MAX_ORDER then Some (None, b)
      else case available_order b order of
        None \<Rightarrow> Some (None, b)
      | Some avail \<Rightarrow> do {
          (popped, b) \<leftarrow> pop_free_list avail b;
          case popped of
            None \<Rightarrow> Some (None, b)
          | Some frame \<Rightarrow> do {
              b \<leftarrow> split_down frame order avail b;
              b \<leftarrow> set_range frame (2 ^ order) b;
              Some (Some (fbp_from_frame frame), b\<lparr>ba_free := ba_free b - of_nat (2 ^ order)\<rparr>)
            }
        })"

section \<open>Deallocation\<close>

function merge_up :: "nat \<Rightarrow> nat \<Rightarrow> buddy_allocator \<Rightarrow> (nat \<times> nat \<times> buddy_allocator) run" where
  "merge_up frame order b =
     (if order < MAX_ORDER then
        (let buddy_frame = frame XOR 2 ^ order
         in if \<not> range_free b buddy_frame 0 (2 ^ order) then Some (frame, order, b)
            else remove_from_free_list buddy_frame order b \<bind> (\<lambda>(removed, b').
              if \<not> removed then Some (frame, order, b')
              else merge_up (min frame buddy_frame) (order + 1) b'))
      else Some (frame, order, b))"
  by pat_completeness auto

termination by (relation "measure (\<lambda>(frame, order, b). MAX_ORDER - order)") auto

declare merge_up.simps [simp del]

definition deallocate :: "phys_addr \<Rightarrow> nat \<Rightarrow> buddy_allocator \<Rightarrow> buddy_allocator run" where
  "deallocate addr order b = do {
     let frame = unat addr div PAGE_SIZE;
     let cnt = 2 ^ (order mod 64);
     b \<leftarrow> clear_range frame cnt b;
     (frame', order', b) \<leftarrow> merge_up frame order (b\<lparr>ba_free := ba_free b + of_nat cnt\<rparr>);
     push_free_list frame' order' b
   }"

definition available_frames :: "buddy_allocator \<Rightarrow> u64" where
  "available_frames b = ba_free b"

definition used_frames :: "buddy_allocator \<Rightarrow> u64" where
  "used_frames b = ba_total b - ba_free b"

definition allocate_frame :: "buddy_allocator \<Rightarrow> (phys_addr option \<times> buddy_allocator) run" where
  "allocate_frame b = allocate 0 b"

definition deallocate_frame :: "phys_addr \<Rightarrow> buddy_allocator \<Rightarrow> buddy_allocator run" where
  "deallocate_frame addr b = deallocate addr 0 b"

end
