(* ===== verification/Frame_Blocks.thy ===== *)
theory Frame_Blocks
  imports Frame_Alloc
begin

text \<open>
  The geometry of buddy blocks: a block is a start frame and an order, its buddy is the other half
  of the block of the next order, and a set of blocks tiles a set of frames. If no block of a
  tiling has its buddy next to it, then every aligned run of free frames lies in one block.
\<close>

type_synonym frame_block = "nat \<times> nat"

definition frames_of :: "frame_block \<Rightarrow> nat set" where
  "frames_of x = {fst x..<fst x + 2 ^ snd x}"

definition aligned :: "frame_block \<Rightarrow> bool" where
  "aligned x \<longleftrightarrow> 2 ^ snd x dvd fst x"

definition buddy_of :: "frame_block \<Rightarrow> frame_block" where
  "buddy_of x = (fst x XOR 2 ^ snd x, snd x)"

text \<open>The block that a block and its buddy make up.\<close>

definition merged_block :: "frame_block \<Rightarrow> frame_block" where
  "merged_block x = (min (fst x) (fst x XOR 2 ^ snd x), snd x + 1)"

lemma frames_of_nonempty [simp]: "fst x \<in> frames_of x"
  by (simp add: frames_of_def)

lemma card_frames_of [simp]: "card (frames_of x) = 2 ^ snd x" "finite (frames_of x)"
  by (simp_all add: frames_of_def)

lemma xor_pow2:
  assumes "2 ^ k dvd (f :: nat)"
  shows "f XOR 2 ^ k = (if even (f div 2 ^ k) then f + 2 ^ k else f - 2 ^ k)"
proof -
  obtain q where q: "f = 2 ^ k * q" using assms by (elim dvdE)
  have "f XOR 2 ^ k = push_bit k (q XOR 1)" unfolding push_bit_xor by (simp add: q push_bit_eq_mult mult.commute)
  also have "q XOR 1 = (if even q then q + 1 else q - 1)" using xor_one_eq [of q] by simp
  finally show ?thesis by (simp add: q push_bit_eq_mult algebra_simps)
qed

lemma buddy_cases:
  assumes "aligned x"
  obtains (lower) "fst (buddy_of x) = fst x + 2 ^ snd x" "merged_block x = (fst x, snd x + 1)" "aligned (merged_block x)"
  | (upper) "fst x = fst (buddy_of x) + 2 ^ snd x" "merged_block x = (fst (buddy_of x), snd x + 1)" "aligned (merged_block x)"
proof -
  obtain q where q: "fst x = 2 ^ snd x * q" using assms unfolding aligned_def by (elim dvdE)
  have x: "fst x XOR 2 ^ snd x = (if even q then fst x + 2 ^ snd x else fst x - 2 ^ snd x)"
    using xor_pow2 [of "snd x" "fst x"] assms q by (simp add: aligned_def)
  show ?thesis
  proof (cases "even q")
    case True
    then obtain r where "q = 2 * r" by (elim evenE)
    then have "2 ^ snd x * 2 dvd fst x" using q by simp
    then show ?thesis using True x by (intro lower) (simp_all add: aligned_def buddy_of_def merged_block_def mult.commute)
  next
    case False
    then obtain r where r: "q = 2 * r + 1" by (elim oddE)
    have "fst x = 2 ^ snd x * 2 * r + 2 ^ snd x" using q r by (simp add: algebra_simps)
    then show ?thesis using False x by (intro upper) (simp_all add: aligned_def buddy_of_def merged_block_def)
  qed
qed

lemma two_halves: "{a..<a + (p + p)} = {a..<a + p} \<union> {a + p..<a + p + p}" "{a..<a + p} \<inter> {a + p..<a + p + p} = {}" for a p :: nat
  by auto

lemma buddy_props:
  assumes "aligned x"
  shows "aligned (merged_block x)" "aligned (buddy_of x)" "frames_of (merged_block x) = frames_of x \<union> frames_of (buddy_of x)"
    "frames_of x \<inter> frames_of (buddy_of x) = {}" "snd (buddy_of x) = snd x" "snd (merged_block x) = snd x + 1"
    "buddy_of (buddy_of x) = x"
proof -
  show sn: "snd (buddy_of x) = snd x" "snd (merged_block x) = snd x + 1" and bb: "buddy_of (buddy_of x) = x"
    by (simp_all add: buddy_of_def merged_block_def xor.assoc prod_eq_iff)
  have "2 ^ snd x dvd fst (buddy_of x) \<and> aligned (merged_block x) \<and> frames_of x \<inter> frames_of (buddy_of x) = {} \<and>
      {fst (merged_block x)..<fst (merged_block x) + (2 ^ snd x + 2 ^ snd x)} = frames_of x \<union> frames_of (buddy_of x)"
    using assms
  proof (cases rule: buddy_cases)
    case lower
    have "frames_of (buddy_of x) = {fst x + 2 ^ snd x..<fst x + 2 ^ snd x + 2 ^ snd x}" "frames_of x = {fst x..<fst x + 2 ^ snd x}"
      using lower(1) by (simp_all add: frames_of_def sn)
    then show ?thesis using assms lower two_halves [of "fst x" "2 ^ snd x"] by (simp add: aligned_def [of x])
  next
    case upper
    have d: "2 ^ snd x dvd fst (buddy_of x)"
      using assms dvd_add_left_iff [of "2 ^ snd x" "2 ^ snd x" "fst (buddy_of x)"] upper(1) by (simp add: aligned_def)
    have "frames_of x = {fst (buddy_of x) + 2 ^ snd x..<fst (buddy_of x) + 2 ^ snd x + 2 ^ snd x}"
      "frames_of (buddy_of x) = {fst (buddy_of x)..<fst (buddy_of x) + 2 ^ snd x}"
      using upper(1) by (simp_all add: frames_of_def sn)
    then show ?thesis using d upper(2,3) two_halves [of "fst (buddy_of x)" "2 ^ snd x"] by (simp add: Int_commute Un_commute)
  qed
  then show "aligned (merged_block x)" "aligned (buddy_of x)" "frames_of (merged_block x) = frames_of x \<union> frames_of (buddy_of x)"
    "frames_of x \<inter> frames_of (buddy_of x) = {}"
    by (simp_all add: aligned_def [of "buddy_of x"] sn frames_of_def [of "merged_block x"] mult_2)
qed

lemma dvd_gap: "(m :: nat) dvd p \<Longrightarrow> m dvd q \<Longrightarrow> p < q \<Longrightarrow> p + m \<le> q"
  using dvd_imp_le [of m "q - p"] by (auto simp: dvd_diff_nat)

lemma frames_nested:
  assumes "aligned x" "aligned y" "snd x \<le> snd y" "z \<in> frames_of x" "z \<in> frames_of y"
  shows "frames_of x \<subseteq> frames_of y"
proof -
  have d: "2 ^ snd x dvd fst x" "2 ^ snd x dvd fst y" "2 ^ snd x dvd fst y + 2 ^ snd y"
    using assms(1-3) by (auto simp: aligned_def le_imp_power_dvd intro: dvd_trans)
  have "\<not> fst x < fst y" using dvd_gap [OF d(1,2)] assms(4,5) by (auto simp: frames_of_def)
  moreover have "fst x + 2 ^ snd x \<le> fst y + 2 ^ snd y" using dvd_gap [OF d(1,3)] assms(4,5) by (auto simp: frames_of_def)
  ultimately show ?thesis by (auto simp: frames_of_def)
qed

lemma frames_same_order:
  assumes "aligned x" "aligned y" "snd x = snd y" "z \<in> frames_of x" "z \<in> frames_of y"
  shows "x = y"
proof -
  have "frames_of x = frames_of y" using frames_nested [of x y z] frames_nested [of y x z] assms by auto
  then have "fst x = fst y" by (simp add: frames_of_def assms(3) atLeastLessThan_eq_iff)
  then show ?thesis using assms(3) by (simp add: prod_eq_iff)
qed

section \<open>Tilings\<close>

definition tiles :: "nat set \<Rightarrow> frame_block set \<Rightarrow> bool" where
  "tiles F B \<longleftrightarrow> (\<forall>x \<in> B. aligned x \<and> snd x \<le> MAX_ORDER \<and> frames_of x \<subseteq> F) \<and>
     (\<forall>x \<in> B. \<forall>y \<in> B. \<forall>z. z \<in> frames_of x \<longrightarrow> z \<in> frames_of y \<longrightarrow> x = y) \<and> F \<subseteq> \<Union> (frames_of ` B)"

definition coalesced :: "frame_block set \<Rightarrow> bool" where
  "coalesced B \<longleftrightarrow> (\<forall>x \<in> B. snd x < MAX_ORDER \<longrightarrow> buddy_of x \<notin> B)"

lemma tilesD:
  assumes "tiles F B" "x \<in> B" shows "aligned x" "snd x \<le> MAX_ORDER" "frames_of x \<subseteq> F" "fst x \<in> F"
  using assms frames_of_nonempty [of x] unfolding tiles_def by blast+

lemma tiles_disjoint: "tiles F B \<Longrightarrow> x \<in> B \<Longrightarrow> y \<in> B \<Longrightarrow> z \<in> frames_of x \<Longrightarrow> z \<in> frames_of y \<Longrightarrow> x = y"
  unfolding tiles_def by blast

lemma tiles_cover: "tiles F B \<Longrightarrow> z \<in> F \<Longrightarrow> \<exists>x \<in> B. z \<in> frames_of x"
  by (auto simp: tiles_def)

lemma tiles_empty [simp]: "tiles {} {}"
  by (simp add: tiles_def)

lemma tiles_insert:
  assumes "tiles (F - frames_of x) B" "aligned x" "snd x \<le> MAX_ORDER" "frames_of x \<subseteq> F"
  shows "tiles F (insert x B)"
proof -
  have "z \<notin> frames_of x" "z \<in> F" if "y \<in> B" "z \<in> frames_of y" for y z using tilesD(3) [OF assms(1) that(1)] that(2) by auto
  then show ?thesis using assms unfolding tiles_def by blast
qed

lemma tiles_remove:
  assumes "tiles F B" "x \<in> B" shows "tiles (F - frames_of x) (B - {x})"
  using assms unfolding tiles_def by blast

lemma tiles_not_member: "tiles (F - frames_of x) B \<Longrightarrow> x \<notin> B"
  using tilesD(4) [of "F - frames_of x" B x] by auto

text \<open>Every aligned run of the frames of a coalesced tiling lies in a block at least as large.\<close>

lemma coalesced_complete:
  assumes "tiles F B" "coalesced B" "aligned a" "snd a \<le> MAX_ORDER" "frames_of a \<subseteq> F"
  shows "\<exists>x \<in> B. snd a \<le> snd x"
proof (rule ccontr)
  assume "\<not> ?thesis"
  then have small: "snd x < snd a" if "x \<in> B" for x using that by (auto simp: not_le)
  define S where "S = {x \<in> B. frames_of x \<inter> frames_of a \<noteq> {}}"
  have touch: "\<exists>w \<in> S. z \<in> frames_of w" if "z \<in> frames_of a" for z
    using tiles_cover [OF assms(1)] assms(5) that by (fastforce simp: S_def)
  then obtain x0 where "x0 \<in> S" using frames_of_nonempty by blast
  then obtain x where x: "x \<in> S" "\<And>y. y \<in> S \<Longrightarrow> snd x \<le> snd y"
    using ex_has_least_nat [of "\<lambda>x. x \<in> S" x0 snd] by blast
  have xB: "x \<in> B" "aligned x" using x(1) tilesD(1) [OF assms(1)] by (auto simp: S_def)
  note bp = buddy_props [OF xB(2)]
  have sx: "snd x < snd a" using small xB(1) .
  obtain z where z: "z \<in> frames_of x" "z \<in> frames_of a" using x(1) by (auto simp: S_def)
  have "frames_of (merged_block x) \<subseteq> frames_of a"
    using frames_nested [of "merged_block x" a z] bp sx z assms(3) by auto
  then have y: "fst (buddy_of x) \<in> frames_of a" using bp(3) frames_of_nonempty [of "buddy_of x"] by auto
  then obtain w where w: "w \<in> S" "fst (buddy_of x) \<in> frames_of w" using touch by blast
  have wB: "w \<in> B" "aligned w" "snd x \<le> snd w" using w(1) tilesD(1) [OF assms(1)] x(2) by (auto simp: S_def)
  show False
  proof (cases "snd w = snd x")
    case True
    then have "w = buddy_of x" using frames_same_order [OF bp(2) wB(2) _ frames_of_nonempty w(2)] bp(5) by simp
    then show False using assms(2,4) xB(1) wB(1) sx by (auto simp: coalesced_def)
  next
    case False
    then have "frames_of (merged_block x) \<subseteq> frames_of w"
      using frames_nested [of "merged_block x" w "fst (buddy_of x)"] bp wB w(2) by auto
    then have "fst x \<in> frames_of w" using bp(3) frames_of_nonempty [of x] by auto
    then have "w = x" using tiles_disjoint [OF assms(1) wB(1) xB(1)] by auto
    then show False using False by simp
  qed
qed

section \<open>Splitting\<close>

text \<open>The halves that are given back when the block at \<open>f\<close> of order \<open>a\<close> is split down to order \<open>k\<close>.\<close>

definition halves :: "nat \<Rightarrow> nat \<Rightarrow> nat \<Rightarrow> frame_block set" where
  "halves f k a = (\<lambda>j. (f + 2 ^ j, j)) ` {k..<a}"

lemma halves_Suc: "k \<le> a \<Longrightarrow> halves f k (Suc a) = insert (f + 2 ^ a, a) (halves f k a)"
  by (auto simp: halves_def atLeastLessThanSuc)

lemma halves_same [simp]: "halves f k k = {}"
  by (simp add: halves_def)

lemma tiles_half:
  assumes "tiles (F - frames_of (f, Suc a)) B" "aligned (f, Suc a)" "Suc a \<le> MAX_ORDER" "frames_of (f, Suc a) \<subseteq> F"
  shows "tiles (F - frames_of (f, a)) (insert (f + 2 ^ a, a) B)" "aligned (f, a)" "frames_of (f, a) \<subseteq> F"
    "f + 2 ^ a \<in> frames_of (f, Suc a)"
proof -
  have d: "2 ^ a * 2 dvd f" using assms(2) by (simp add: aligned_def mult.commute)
  then have al: "aligned (f, a)" "aligned (f + 2 ^ a, a)" using dvd_mult_left [OF d] by (simp_all add: aligned_def)
  have fr: "frames_of (f, Suc a) = frames_of (f, a) \<union> frames_of (f + 2 ^ a, a)" "frames_of (f, a) \<inter> frames_of (f + 2 ^ a, a) = {}"
    using two_halves [of f "2 ^ a"] by (simp_all add: frames_of_def mult_2)
  show "aligned (f, a)" by (rule al)
  show "frames_of (f, a) \<subseteq> F" "f + 2 ^ a \<in> frames_of (f, Suc a)" using fr(1) assms(4) by (auto simp: frames_of_def [of "(f, Suc a)"])
  have "F - frames_of (f, Suc a) = F - frames_of (f, a) - frames_of (f + 2 ^ a, a)" using fr(1) by auto
  then show "tiles (F - frames_of (f, a)) (insert (f + 2 ^ a, a) B)"
    using assms al fr by (intro tiles_insert) auto
qed

lemma coalesced_split:
  assumes "coalesced B" "aligned (f, a)" "\<And>x. x \<in> B \<Longrightarrow> snd x \<notin> {k..<a}"
  shows "coalesced (B \<union> halves f k a)"
proof -
  have half: "buddy_of (f + 2 ^ j, j) = (f, j)" if "j \<in> {k..<a}" for j
  proof -
    have "2 ^ Suc j dvd f" using assms(2) that by (intro power_le_dvd [of 2 a f "Suc j"]) (auto simp: aligned_def)
    then obtain q where "f = 2 ^ j * (2 * q)" by (auto simp: mult.assoc elim!: dvdE)
    then show ?thesis using xor_pow2 [of j "f + 2 ^ j"] by (simp add: buddy_of_def)
  qed
  show ?thesis
    unfolding coalesced_def
  proof (intro ballI impI notI)
    fix x assume x: "x \<in> B \<union> halves f k a" "snd x < MAX_ORDER" "buddy_of x \<in> B \<union> halves f k a"
    have sn: "snd (buddy_of x) = snd x" by (simp add: buddy_of_def)
    show False
    proof (cases "x \<in> B")
      case True
      then have "buddy_of x \<in> halves f k a" using x assms(1) by (auto simp: coalesced_def)
      then show False using assms(3) [OF True] sn by (auto simp: halves_def)
    next
      case False
      then obtain j where j: "x = (f + 2 ^ j, j)" "j \<in> {k..<a}" using x(1) by (auto simp: halves_def)
      then show False using x(3) half [OF j(2)] assms(3) [of "(f, j)"] by (auto simp: halves_def)
    qed
  qed
qed

lemma coalesced_subset: "coalesced B \<Longrightarrow> A \<subseteq> B \<Longrightarrow> coalesced A"
  by (auto simp: coalesced_def)

lemma coalesced_insert:
  assumes "coalesced B" "aligned x" "snd x < MAX_ORDER \<Longrightarrow> buddy_of x \<notin> B"
  shows "coalesced (insert x B)"
proof -
  have bb: "buddy_of (buddy_of y) = y" "snd (buddy_of y) = snd y" for y by (simp_all add: buddy_of_def xor.assoc)
  have ne: "buddy_of x \<noteq> x" using buddy_props(4) [OF assms(2)] frames_of_nonempty [of x] by fastforce
  show ?thesis
    unfolding coalesced_def
  proof (intro ballI impI notI)
    fix y assume y: "y \<in> insert x B" "snd y < MAX_ORDER" "buddy_of y \<in> insert x B"
    then consider "y = x" "buddy_of x \<in> B" | "y \<in> B" "buddy_of y = x" using assms(1) ne by (auto simp: coalesced_def)
    then show False
    proof cases
      case 1
      then show False using assms(3) y(2) by simp
    next
      case 2
      then have "buddy_of x = y" "snd x = snd y" using bb [of y] by simp_all
      then show False using assms(3) 2(1) y(2) by simp
    qed
  qed
qed

section \<open>Maximal blocks\<close>

text \<open>A block that cannot be extended to the next order within the frames.\<close>

definition maximal :: "nat set \<Rightarrow> frame_block \<Rightarrow> bool" where
  "maximal F x \<longleftrightarrow> snd x = MAX_ORDER \<or> \<not> 2 ^ (snd x + 1) dvd fst x \<or> \<not> {fst x + 2 ^ snd x..<fst x + 2 ^ (snd x + 1)} \<subseteq> F"

lemma maximal_coalesced:
  assumes "tiles G B" "G \<subseteq> F" "\<forall>x \<in> B. maximal F x"
  shows "coalesced B"
  unfolding coalesced_def
proof (intro ballI impI notI)
  fix x assume x: "x \<in> B" "snd x < MAX_ORDER" "buddy_of x \<in> B"
  have al: "aligned x" using tilesD(1) [OF assms(1) x(1)] .
  have no: False if "y \<in> B" "z \<in> B" "fst z = fst y + 2 ^ snd y" "snd z = snd y" "snd y < MAX_ORDER" "aligned (fst y, snd y + 1)" for y z
  proof -
    have "frames_of z \<subseteq> F" using tilesD(3) [OF assms(1) that(2)] assms(2) by blast
    moreover have "frames_of z = {fst y + 2 ^ snd y..<fst y + 2 ^ (snd y + 1)}" using that(3,4) by (simp add: frames_of_def mult_2 add.assoc)
    moreover have "2 ^ (snd y + 1) dvd fst y" using that(6) unfolding aligned_def by simp
    moreover have "maximal F y" using assms(3) that(1) by blast
    ultimately show False using that(5) unfolding maximal_def by simp
  qed
  show False
    using al
  proof (cases rule: buddy_cases)
    case lower
    then have "aligned (fst x, snd x + 1)" by simp
    then show False by (rule no [OF x(1,3) lower(1) buddy_props(5) [OF al] x(2)])
  next
    case upper
    then have "aligned (fst (buddy_of x), snd (buddy_of x) + 1)" using buddy_props(5) [OF al] by simp
    moreover have "fst x = fst (buddy_of x) + 2 ^ snd (buddy_of x)" using upper(1) unfolding buddy_props(5) [OF al] .
    moreover have "snd (buddy_of x) < MAX_ORDER" unfolding buddy_props(5) [OF al] by (rule x(2))
    ultimately show False by (intro no [OF x(3,1)]) (simp_all add: buddy_props(5) [OF al])
  qed
qed

end
