(* ===== verification/Frame_Lists.thy ===== *)
theory Frame_Lists
  imports Frame_Blocks
begin

text \<open>
  What the bitmap and the intrusive lists of the frame allocator stand for: the set of free frames,
  and one list of block starts per order, linked through the blocks themselves.
\<close>

section \<open>The bitmap\<close>

definition free_set :: "buddy_allocator \<Rightarrow> nat set" where
  "free_set b = {f. is_free b f}"

lemma free_set_bound: "free_set b \<subseteq> {..<MAX_FRAMES}"
  by (auto simp: free_set_def is_free_def)

lemma finite_free_set [simp]: "finite (free_set b)"
  using finite_subset [OF free_set_bound] by simp

lemma bit_byte: "(x :: u8) AND 2 ^ k = 0 \<longleftrightarrow> \<not> bit x k"
  by (rule and_exp_eq_0_iff_not_bit)

lemma frame_split: "f div 8 = g div 8 \<Longrightarrow> f mod 8 = g mod 8 \<longleftrightarrow> f = (g :: nat)"
  by (metis div_mod_decomp)

lemma byte_of_frame: "f < MAX_FRAMES \<Longrightarrow> length (ba_bitmap b) = BITMAP_SIZE \<Longrightarrow> f div 8 < length (ba_bitmap b)"
  by (simp add: MAX_FRAMES_def BITMAP_SIZE_def)

lemma bit_set_byte: "k < 8 \<Longrightarrow> bit ((x :: u8) OR 2 ^ j) k \<longleftrightarrow> bit x k \<or> k = j"
  "k < 8 \<Longrightarrow> bit (x AND NOT (2 ^ j)) k \<longleftrightarrow> bit x k \<and> k \<noteq> j"
  by (auto simp: bit_simps)

lemma set_bit_at_spec:
  assumes "f < MAX_FRAMES" "length (ba_bitmap b) = BITMAP_SIZE"
  shows "\<exists>bm. set_bit_at f b = Some (b\<lparr>ba_bitmap := bm\<rparr>) \<and> length bm = BITMAP_SIZE \<and>
    free_set (b\<lparr>ba_bitmap := bm\<rparr>) = free_set b - {f}"
proof -
  let ?i = "f div 8"
  let ?bm = "(ba_bitmap b)[?i := (ba_bitmap b ! ?i) OR push_bit (f mod 8) 1]"
  have i: "?i < length (ba_bitmap b)" using byte_of_frame assms by blast
  have "is_free (b\<lparr>ba_bitmap := ?bm\<rparr>) g \<longleftrightarrow> is_free b g \<and> g \<noteq> f" for g
    using i frame_split [of g f] byte_of_frame [of g b] assms(2)
    by (cases "g div 8 = ?i") (auto simp: is_free_def bit_byte bit_set_byte)
  then show ?thesis
    using i assms(2) by (intro exI [of _ ?bm]) (auto simp: set_bit_at_def free_set_def)
qed

lemma clear_bit_at_spec:
  assumes "f < MAX_FRAMES" "length (ba_bitmap b) = BITMAP_SIZE"
  shows "\<exists>bm. clear_bit_at f b = Some (b\<lparr>ba_bitmap := bm\<rparr>) \<and> length bm = BITMAP_SIZE \<and>
    free_set (b\<lparr>ba_bitmap := bm\<rparr>) = insert f (free_set b)"
proof -
  let ?i = "f div 8"
  let ?bm = "(ba_bitmap b)[?i := (ba_bitmap b ! ?i) AND NOT (push_bit (f mod 8) 1)]"
  have i: "?i < length (ba_bitmap b)" using byte_of_frame assms by blast
  have "is_free (b\<lparr>ba_bitmap := ?bm\<rparr>) g \<longleftrightarrow> is_free b g \<or> g = f" for g
    using i frame_split [of g f] byte_of_frame [of g b] assms
    by (cases "g div 8 = ?i") (auto simp: is_free_def bit_byte bit_set_byte)
  then show ?thesis
    using i assms(2) by (intro exI [of _ ?bm]) (auto simp: clear_bit_at_def free_set_def)
qed

lemma set_range_spec:
  assumes "f + n \<le> MAX_FRAMES" "length (ba_bitmap b) = BITMAP_SIZE"
  shows "\<exists>bm. set_range f n b = Some (b\<lparr>ba_bitmap := bm\<rparr>) \<and> length bm = BITMAP_SIZE \<and>
    free_set (b\<lparr>ba_bitmap := bm\<rparr>) = free_set b - {f..<f + n}"
  using assms(1)
proof (induction n)
  case 0
  then show ?case using assms(2) by (intro exI [of _ "ba_bitmap b"]) simp
next
  case (Suc n)
  then obtain bm where bm: "set_range f n b = Some (b\<lparr>ba_bitmap := bm\<rparr>)" "length bm = BITMAP_SIZE"
    "free_set (b\<lparr>ba_bitmap := bm\<rparr>) = free_set b - {f..<f + n}"
    by auto
  then show ?case
    using set_bit_at_spec [of "f + n" "b\<lparr>ba_bitmap := bm\<rparr>"] Suc.prems by (auto simp: atLeastLessThanSuc)
qed

lemma clear_range_spec:
  assumes "f + n \<le> MAX_FRAMES" "length (ba_bitmap b) = BITMAP_SIZE"
  shows "\<exists>bm. clear_range f n b = Some (b\<lparr>ba_bitmap := bm\<rparr>) \<and> length bm = BITMAP_SIZE \<and>
    free_set (b\<lparr>ba_bitmap := bm\<rparr>) = free_set b \<union> {f..<f + n}"
  using assms(1)
proof (induction n)
  case 0
  then show ?case using assms(2) by (intro exI [of _ "ba_bitmap b"]) simp
next
  case (Suc n)
  then obtain bm where bm: "clear_range f n b = Some (b\<lparr>ba_bitmap := bm\<rparr>)" "length bm = BITMAP_SIZE"
    "free_set (b\<lparr>ba_bitmap := bm\<rparr>) = free_set b \<union> {f..<f + n}"
    by auto
  then show ?case
    using clear_bit_at_spec [of "f + n" "b\<lparr>ba_bitmap := bm\<rparr>"] Suc.prems by (auto simp: atLeastLessThanSuc)
qed

lemma range_free_iff: "range_free b f lo hi \<longleftrightarrow> {f + lo..<f + hi} \<subseteq> free_set b"
proof
  assume r: "range_free b f lo hi"
  show "{f + lo..<f + hi} \<subseteq> free_set b"
  proof
    fix x assume "x \<in> {f + lo..<f + hi}"
    then have "x - f \<in> set [lo..<hi]" "f + (x - f) = x" by auto
    then show "x \<in> free_set b" using r by (metis free_set_def list_all_iff mem_Collect_eq range_free_def)
  qed
next
  assume s: "{f + lo..<f + hi} \<subseteq> free_set b"
  show "range_free b f lo hi"
    unfolding range_free_def list_all_iff
  proof (intro ballI)
    fix i assume "i \<in> set [lo..<hi]"
    then have "f + i \<in> free_set b" using s by auto
    then show "f + i < MAX_FRAMES \<and> is_free b (f + i)" using free_set_bound by (auto simp: free_set_def)
  qed
qed

section \<open>Linked lists\<close>

lemma unat_ptr: "f < MAX_FRAMES \<Longrightarrow> unat (fbp_from_frame f) = f * PAGE_SIZE"
  by (simp only: fbp_from_frame_def unat_of_nat) (simp add: MAX_FRAMES_def PAGE_SIZE_def)

lemma ptr_to_frame [simp]: "f < MAX_FRAMES \<Longrightarrow> fbp_to_frame (fbp_from_frame f) = f"
  by (simp add: fbp_to_frame_def unat_ptr PAGE_SIZE_def)

lemma ptr_inj [simp]: "f < MAX_FRAMES \<Longrightarrow> g < MAX_FRAMES \<Longrightarrow> fbp_from_frame f = fbp_from_frame g \<longleftrightarrow> f = g"
  by (metis ptr_to_frame)

lemma ptr_null [simp]: "f < MAX_FRAMES \<Longrightarrow> fbp_from_frame f = 0 \<longleftrightarrow> f = 0"
  using unat_ptr [of f] by (auto simp: unat_eq_0 [symmetric] PAGE_SIZE_def)

fun linked :: "buddy_allocator \<Rightarrow> free_block_ptr \<Rightarrow> nat list \<Rightarrow> bool" where
  "linked b p [] \<longleftrightarrow> p = 0"
| "linked b p (f # fs) \<longleftrightarrow> p = fbp_from_frame f \<and> 0 < f \<and> f < MAX_FRAMES \<and> linked b (read_next b p) fs"

text \<open>Everything but the lists and the memory, which the list operations leave alone.\<close>

definition same_frames :: "buddy_allocator \<Rightarrow> buddy_allocator \<Rightarrow> bool" where
  "same_frames b b' \<longleftrightarrow> ba_bitmap b' = ba_bitmap b \<and> ba_total b' = ba_total b \<and> ba_free b' = ba_free b \<and>
     ba_initialized b' = ba_initialized b \<and> ba_hhdm b' = ba_hhdm b"

lemma same_frames_refl [simp]: "same_frames b b"
  by (simp add: same_frames_def)

lemma same_frames_trans: "same_frames b c \<Longrightarrow> same_frames c d \<Longrightarrow> same_frames b d"
  by (simp add: same_frames_def)

lemma same_free_set: "same_frames b b' \<Longrightarrow> free_set b' = free_set b"
  by (simp add: same_frames_def free_set_def is_free_def)

lemma linked_cong:
  "(\<And>f. f \<in> set fs \<Longrightarrow> read_next b' (fbp_from_frame f) = read_next b (fbp_from_frame f)) \<Longrightarrow> linked b' p fs = linked b p fs"
  by (induction fs arbitrary: p) auto

lemma linked_bound: "linked b p fs \<Longrightarrow> f \<in> set fs \<Longrightarrow> 0 < f \<and> f < MAX_FRAMES"
  by (induction fs arbitrary: p) auto

lemma read_write [simp]: "read_next (write_next b p x) q = (if q = p then x else read_next b q)"
  by (simp add: read_next_def write_next_def to_virt_def)

lemma read_lists [simp]: "read_next (b\<lparr>ba_free_lists := l\<rparr>) q = read_next b q" "read_next (b\<lparr>ba_max_order := m\<rparr>) q = read_next b q"
  "read_next (b\<lparr>ba_bitmap := bm\<rparr>) q = read_next b q" "read_next (b\<lparr>ba_free := u\<rparr>) q = read_next b q"
  "read_next (b\<lparr>ba_total := u\<rparr>) q = read_next b q" "read_next (b\<lparr>ba_initialized := i\<rparr>) q = read_next b q"
  by (simp_all add: read_next_def)

lemma linked_write_other:
  assumes "linked b p fs" "g \<notin> set fs" "g < MAX_FRAMES" shows "linked (write_next b (fbp_from_frame g) x) p fs"
proof -
  have "fbp_from_frame f \<noteq> fbp_from_frame g" if "f \<in> set fs" for f
    using that linked_bound [OF assms(1) that] assms(2,3) by auto
  then have "linked (write_next b (fbp_from_frame g) x) p fs = linked b p fs" by (intro linked_cong) auto
  then show ?thesis using assms(1) by simp
qed

lemma linked_fields [simp]: "linked (b\<lparr>ba_free_lists := l\<rparr>) p fs = linked b p fs" "linked (b\<lparr>ba_max_order := m\<rparr>) p fs = linked b p fs"
  "linked (b\<lparr>ba_bitmap := bm\<rparr>) p fs = linked b p fs" "linked (b\<lparr>ba_free := u\<rparr>) p fs = linked b p fs"
  "linked (b\<lparr>ba_total := u\<rparr>) p fs = linked b p fs" "linked (b\<lparr>ba_initialized := i\<rparr>) p fs = linked b p fs"
  by (intro linked_cong; simp)+

lemma unlink_absent:
  assumes "linked b p fs" "f \<notin> set (tl fs)" "f < MAX_FRAMES" "0 < f" "length fs \<le> k"
  shows "remove_walk (fbp_from_frame f) p k b = Some (False, b)"
  using assms
proof (induction fs arbitrary: p k)
  case Nil
  then show ?case by (subst remove_walk.simps) (simp add: fbp_is_null_def)
next
  case (Cons g gs)
  then obtain k' where k: "k = Suc k'" by (cases k) auto
  have ne: "read_next b p \<noteq> fbp_from_frame f"
    using Cons.prems by (cases gs) auto
  have "remove_walk (fbp_from_frame f) (read_next b p) k' b = Some (False, b)"
  proof (rule Cons.IH)
    show "linked b (read_next b p) gs" using Cons.prems(1) by auto
    show "f \<notin> set (tl gs)" using Cons.prems(2) by (cases gs) auto
  qed (use Cons.prems k in auto)
  then show ?case using Cons.prems k ne by (subst remove_walk.simps) (simp add: fbp_is_null_def Let_def)
qed

lemma unlink_present:
  assumes "linked b p (g # gs)" "f \<in> set gs" "distinct (g # gs)" "length (g # gs) \<le> k"
  shows "\<exists>h x. h \<in> set (g # gs) \<and> remove_walk (fbp_from_frame f) p k b = Some (True, write_next b (fbp_from_frame h) x) \<and>
    linked (write_next b (fbp_from_frame h) x) p (g # remove1 f gs)"
  using assms
proof (induction gs arbitrary: p g k)
  case (Cons h hs)
  then obtain k' where k: "k = Suc k'" by (cases k) auto
  have p: "p = fbp_from_frame g" "read_next b p = fbp_from_frame h" "0 < g" "g < MAX_FRAMES" "h < MAX_FRAMES"
    using Cons.prems(1) by auto
  show ?case
  proof (cases "h = f")
    case True
    let ?b = "write_next b (fbp_from_frame g) (read_next b (fbp_from_frame f))"
    have "linked b (read_next b (fbp_from_frame f)) hs" using Cons.prems(1) True p(2) by auto
    then have "linked ?b (read_next b (fbp_from_frame f)) hs" using linked_write_other Cons.prems(3) p(4) by simp
    then show ?thesis
      using p k True by (intro exI [of _ g] exI [of _ "read_next b (fbp_from_frame f)"], subst remove_walk.simps) (simp add: fbp_is_null_def)
  next
    case False
    have f: "f < MAX_FRAMES" using linked_bound [OF Cons.prems(1), of f] Cons.prems(2) by auto
    have "linked b (read_next b p) (h # hs)" "f \<in> set hs" "distinct (h # hs)" "length (h # hs) \<le> k'"
      using Cons.prems k False by auto
    from Cons.IH [OF this] obtain i x where ix: "i \<in> set (h # hs)"
      "remove_walk (fbp_from_frame f) (read_next b p) k' b = Some (True, write_next b (fbp_from_frame i) x)"
      "linked (write_next b (fbp_from_frame i) x) (read_next b p) (h # remove1 f hs)"
      by blast
    have i: "i \<noteq> g" "i < MAX_FRAMES" using ix(1) Cons.prems(3) linked_bound [OF Cons.prems(1), of i] by auto
    have "remove_walk (fbp_from_frame f) p k b = Some (True, write_next b (fbp_from_frame i) x)"
      using ix(2) p k False f by (subst remove_walk.simps) (simp add: fbp_is_null_def)
    moreover have "linked (write_next b (fbp_from_frame i) x) p (g # h # remove1 f hs)"
      using ix(3) p i by (auto split: if_splits)
    ultimately show ?thesis using ix(1) False by (intro exI [of _ i] exI [of _ x]) (simp del: linked.simps)
  qed
qed simp

section \<open>All lists\<close>

text \<open>The lists of all orders: linked, without repetition, and no block in two of them.\<close>

definition lists_ok :: "buddy_allocator \<Rightarrow> (nat \<Rightarrow> nat list) \<Rightarrow> bool" where
  "lists_ok b fl \<longleftrightarrow> length (ba_free_lists b) = MAX_ORDER + 1 \<and>
     (\<forall>k \<le> MAX_ORDER. linked b (ba_free_lists b ! k) (fl k) \<and> distinct (fl k)) \<and>
     (\<forall>j \<le> MAX_ORDER. \<forall>k \<le> MAX_ORDER. \<forall>f. f \<in> set (fl j) \<longrightarrow> f \<in> set (fl k) \<longrightarrow> j = k)"

definition blocks :: "(nat \<Rightarrow> nat list) \<Rightarrow> frame_block set" where
  "blocks fl = {x. snd x \<le> MAX_ORDER \<and> fst x \<in> set (fl (snd x))}"

lemma blocks_iff: "(f, k) \<in> blocks fl \<longleftrightarrow> k \<le> MAX_ORDER \<and> f \<in> set (fl k)"
  by (simp add: blocks_def)

lemma blocks_push: "k \<le> MAX_ORDER \<Longrightarrow> blocks (fl(k := f # fl k)) = insert (f, k) (blocks fl)"
  by (auto simp: blocks_def)

lemma blocks_drop:
  assumes "set fs = set (fl k) - {f}" shows "blocks (fl(k := fs)) = blocks fl - {(f, k)}"
proof (rule set_eqI)
  fix x show "x \<in> blocks (fl(k := fs)) \<longleftrightarrow> x \<in> blocks fl - {(f, k)}"
    using assms by (cases x; cases "snd x = k") (simp_all add: blocks_def conj_ac)
qed

lemma lists_okD:
  assumes "lists_ok b fl" "k \<le> MAX_ORDER"
  shows "k < length (ba_free_lists b)" "linked b (ba_free_lists b ! k) (fl k)" "distinct (fl k)"
  using assms by (auto simp: lists_ok_def)

lemma list_length:
  assumes "lists_ok b fl" "k \<le> MAX_ORDER" shows "length (fl k) \<le> MAX_FRAMES"
proof -
  have "set (fl k) \<subseteq> {..<MAX_FRAMES}" using linked_bound lists_okD(2) [OF assms] by blast
  then have "card (set (fl k)) \<le> MAX_FRAMES" using card_mono [of "{..<MAX_FRAMES}"] by simp
  then show ?thesis using lists_okD(3) [OF assms] by (simp add: distinct_card)
qed

lemma not_listed: "tiles F (blocks fl) \<Longrightarrow> f \<notin> F \<Longrightarrow> k \<le> MAX_ORDER \<Longrightarrow> f \<notin> set (fl k)"
  using tilesD(4) [of F "blocks fl" "(f, k)"] by (auto simp: blocks_iff)

lemma linked_update_other:
  "lists_ok b fl \<Longrightarrow> j \<le> MAX_ORDER \<Longrightarrow> g < MAX_FRAMES \<Longrightarrow> g \<notin> set (fl j) \<Longrightarrow>
   linked (write_next b (fbp_from_frame g) x) (ba_free_lists b ! j) (fl j)"
  by (rule linked_write_other [OF lists_okD(2)])

lemma push_ok:
  assumes "lists_ok b fl" "k \<le> MAX_ORDER" "0 < f" "f < MAX_FRAMES" "\<And>j. j \<le> MAX_ORDER \<Longrightarrow> f \<notin> set (fl j)"
  shows "\<exists>b'. push_free_list f k b = Some b' \<and> lists_ok b' (fl(k := f # fl k)) \<and> same_frames b b' \<and> ba_max_order b' = ba_max_order b"
proof -
  let ?b = "write_next b (fbp_from_frame f) (ba_free_lists b ! k)"
  let ?b' = "?b\<lparr>ba_free_lists := (ba_free_lists b)[k := fbp_from_frame f]\<rparr>"
  have len: "length (ba_free_lists b) = MAX_ORDER + 1" "k < length (ba_free_lists b)" using assms(1,2) by (simp_all add: lists_ok_def)
  have "ba_free_lists ?b = ba_free_lists b" by (simp add: write_next_def)
  then have r: "push_free_list f k b = Some ?b'" using len by (simp add: push_free_list_def Let_def)
  have ch: "linked ?b (ba_free_lists b ! j) (fl j)" if "j \<le> MAX_ORDER" for j
    using linked_update_other [OF assms(1) that assms(4)] assms(5) that by blast
  have "linked ?b' (ba_free_lists ?b' ! j) ((fl(k := f # fl k)) j) \<and> distinct ((fl(k := f # fl k)) j)" if "j \<le> MAX_ORDER" for j
    using ch [OF that] that len assms lists_okD(3) [OF assms(1)] by (cases "j = k") auto
  moreover have "j = i" if "j \<le> MAX_ORDER" "i \<le> MAX_ORDER" "g \<in> set ((fl(k := f # fl k)) j)" "g \<in> set ((fl(k := f # fl k)) i)" for i j g
    using that assms(1,5) by (auto simp: lists_ok_def split: if_splits)
  moreover have "length (ba_free_lists ?b') = MAX_ORDER + 1" using len by simp
  ultimately have "lists_ok ?b' (fl(k := f # fl k))" unfolding lists_ok_def by blast
  then show ?thesis using r by (auto simp: same_frames_def write_next_def)
qed

lemma drop_ok:
  assumes "lists_ok b fl" "k \<le> MAX_ORDER" "f \<in> set (fl k)" "set fs = set (fl k) - {f}" "distinct fs"
    and "length (ba_free_lists b') = MAX_ORDER + 1" "linked b' (ba_free_lists b' ! k) fs"
    and "\<And>j. j \<le> MAX_ORDER \<Longrightarrow> j \<noteq> k \<Longrightarrow> linked b' (ba_free_lists b' ! j) (fl j)"
  shows "lists_ok b' (fl(k := fs))"
proof -
  have "linked b' (ba_free_lists b' ! j) ((fl(k := fs)) j) \<and> distinct ((fl(k := fs)) j)" if "j \<le> MAX_ORDER" for j
    using assms(5,7,8) that lists_okD(3) [OF assms(1)] by (cases "j = k") auto
  moreover have "j = i" if "j \<le> MAX_ORDER" "i \<le> MAX_ORDER" "g \<in> set ((fl(k := fs)) j)" "g \<in> set ((fl(k := fs)) i)" for i j g
    using that assms(1,2,4) by (auto simp: lists_ok_def split: if_splits)
  ultimately show ?thesis using assms(6) unfolding lists_ok_def by blast
qed

lemma pop_ok:
  assumes "lists_ok b fl" "k \<le> MAX_ORDER" "\<not> fbp_is_null (ba_free_lists b ! k)"
  shows "\<exists>f b' fl'. pop_free_list k b = Some (Some f, b') \<and> f \<in> set (fl k) \<and> lists_ok b' fl' \<and> blocks fl' = blocks fl - {(f, k)} \<and> same_frames b b'"
proof -
  note l = lists_okD [OF assms(1,2)]
  obtain f fs where f: "fl k = f # fs" using l(2) assms(3) by (cases "fl k") (auto simp: fbp_is_null_def)
  let ?b = "b\<lparr>ba_free_lists := (ba_free_lists b)[k := read_next b (ba_free_lists b ! k)]\<rparr>"
  have p: "ba_free_lists b ! k = fbp_from_frame f" "f < MAX_FRAMES" "0 < f" "linked b (read_next b (ba_free_lists b ! k)) fs"
    using l(2) f by auto
  have r: "pop_free_list k b = Some (Some f, ?b)" using l(1) p assms(3) by (simp add: pop_free_list_def)
  have "lists_ok ?b (fl(k := fs))"
    using assms(1,2) l f p(4) lists_okD(2) [OF assms(1)]
    by (intro drop_ok [of b fl k f]) (auto simp: lists_ok_def)
  moreover have "blocks (fl(k := fs)) = blocks fl - {(f, k)}" using l(3) f by (intro blocks_drop) auto
  ultimately show ?thesis using r f by (intro exI [of _ f] exI [of _ ?b] exI [of _ "fl(k := fs)"]) (simp add: same_frames_def)
qed

lemma remove_ok:
  assumes "lists_ok b fl" "k \<le> MAX_ORDER" "f < MAX_FRAMES" "0 < f"
  shows "\<exists>b' fl'. remove_from_free_list f k b = Some (f \<in> set (fl k), b') \<and> lists_ok b' fl' \<and> blocks fl' = blocks fl - {(f, k)} \<and> same_frames b b'"
proof -
  note l = lists_okD [OF assms(1,2)] and len = list_length [OF assms(1,2)]
  show ?thesis
  proof (cases "fl k")
    case Nil
    then show ?thesis
      using l assms(1) by (intro exI [of _ b] exI [of _ fl]) (auto simp: remove_from_free_list_def fbp_is_null_def blocks_def)
  next
    case (Cons g gs)
    have p: "ba_free_lists b ! k = fbp_from_frame g" "g < MAX_FRAMES" "0 < g" "linked b (read_next b (ba_free_lists b ! k)) gs"
      using l(2) Cons by auto
    consider "g = f" | "g \<noteq> f" "f \<notin> set gs" | "g \<noteq> f" "f \<in> set gs" by blast
    then show ?thesis
    proof cases
      case 1
      let ?b = "b\<lparr>ba_free_lists := (ba_free_lists b)[k := read_next b (fbp_from_frame f)]\<rparr>"
      have "lists_ok ?b (fl(k := gs))"
        using assms(1,2) l Cons p 1 lists_okD(2) [OF assms(1)] by (intro drop_ok [of b fl k f]) (auto simp: lists_ok_def)
      moreover have "blocks (fl(k := gs)) = blocks fl - {(f, k)}" using l(3) Cons 1 by (intro blocks_drop) auto
      moreover have "remove_from_free_list f k b = Some (True, ?b)"
        using l(1) p 1 by (simp add: remove_from_free_list_def fbp_is_null_def)
      ultimately show ?thesis using Cons 1 by (intro exI [of _ ?b] exI [of _ "fl(k := gs)"]) (simp add: same_frames_def)
    next
      case 2
      have "remove_from_free_list f k b = Some (False, b)"
        using l(1) p 2 assms(3,4) unlink_absent [OF l(2), of f MAX_FRAMES] len Cons
        by (simp add: remove_from_free_list_def fbp_is_null_def)
      then show ?thesis using 2 Cons assms(1) by (intro exI [of _ b] exI [of _ fl]) (auto simp: blocks_def)
    next
      case 3
      have "linked b (ba_free_lists b ! k) (g # gs)" "distinct (g # gs)" "length (g # gs) \<le> MAX_FRAMES"
        using l Cons len by (simp_all del: linked.simps)
      from unlink_present [OF this(1) 3(2) this(2,3)] obtain h x where h: "h \<in> set (fl k)"
        "remove_walk (fbp_from_frame f) (ba_free_lists b ! k) MAX_FRAMES b = Some (True, write_next b (fbp_from_frame h) x)"
        "linked (write_next b (fbp_from_frame h) x) (ba_free_lists b ! k) (g # remove1 f gs)"
        unfolding Cons by blast
      let ?b = "write_next b (fbp_from_frame h) x"
      have hm: "h < MAX_FRAMES" using linked_bound [OF l(2) h(1)] by simp
      have fb: "ba_free_lists ?b = ba_free_lists b" by (simp add: write_next_def)
      have "lists_ok ?b (fl(k := g # remove1 f gs))"
      proof (rule drop_ok [OF assms(1,2), of f])
        show "linked ?b (ba_free_lists ?b ! j) (fl j)" if "j \<le> MAX_ORDER" "j \<noteq> k" for j
        proof -
          have "h \<notin> set (fl j)" using h(1) that assms(1,2) unfolding lists_ok_def by blast
          then show ?thesis using linked_update_other [OF assms(1) that(1) hm] fb by simp
        qed
        show "f \<in> set (fl k)" "set (g # remove1 f gs) = set (fl k) - {f}" "distinct (g # remove1 f gs)"
          using Cons 3 l(3) by auto
        show "length (ba_free_lists ?b) = MAX_ORDER + 1" using fb assms(1) by (simp add: lists_ok_def)
        show "linked ?b (ba_free_lists ?b ! k) (g # remove1 f gs)" using h(3) fb by (simp del: linked.simps)
      qed
      moreover have "blocks (fl(k := g # remove1 f gs)) = blocks fl - {(f, k)}" using l(3) Cons 3 by (intro blocks_drop) auto
      moreover have "remove_from_free_list f k b = Some (True, ?b)"
        using l(1) p 3 h(2) assms(3) by (simp add: remove_from_free_list_def fbp_is_null_def)
      ultimately show ?thesis
        using 3 Cons by (intro exI [of _ ?b] exI [of _ "fl(k := g # remove1 f gs)"]) (simp add: same_frames_def write_next_def)
    qed
  qed
qed

end
