(* ===== verification/Frame_Sound.thy ===== *)
theory Frame_Sound
  imports Frame_Lists
begin

text \<open>
  The invariant of the frame allocator and its operations: the free lists tile the free frames
  with aligned blocks of which no two are buddies, and initialisation, allocation and deallocation
  keep it so and change the free frames by exactly one block.
\<close>

section \<open>The invariant\<close>

definition frames_ok :: "buddy_allocator \<Rightarrow> bool" where
  "frames_ok b \<longleftrightarrow> (\<exists>fl. lists_ok b fl \<and> tiles (free_set b) (blocks fl) \<and> coalesced (blocks fl)) \<and>
     length (ba_bitmap b) = BITMAP_SIZE \<and> 0 \<notin> free_set b \<and> unat (ba_free b) = card (free_set b) \<and> ba_initialized b"

lemma lists_fields [simp]:
  "lists_ok (b\<lparr>ba_bitmap := bm\<rparr>) fl = lists_ok b fl" "lists_ok (b\<lparr>ba_free := u\<rparr>) fl = lists_ok b fl"
  "lists_ok (b\<lparr>ba_initialized := i\<rparr>) fl = lists_ok b fl" "lists_ok (b\<lparr>ba_max_order := m\<rparr>) fl = lists_ok b fl"
  "lists_ok (b\<lparr>ba_total := u\<rparr>) fl = lists_ok b fl"
  by (simp_all add: lists_ok_def)

lemma free_set_fields [simp]:
  "free_set (b\<lparr>ba_free := u\<rparr>) = free_set b" "free_set (b\<lparr>ba_initialized := i\<rparr>) = free_set b"
  "free_set (b\<lparr>ba_max_order := m\<rparr>) = free_set b" "free_set (b\<lparr>ba_total := u\<rparr>) = free_set b"
  by (simp_all add: free_set_def is_free_def)

lemma frames_top:
  assumes "frames_of (f, k) \<subseteq> {0<..<m}" shows "f + 2 ^ k \<le> m" "0 < f" "f < m"
proof -
  have "0 < (2 :: nat) ^ k" by simp
  then have "f + 2 ^ k - 1 \<in> frames_of (f, k)" "f \<in> frames_of (f, k)" unfolding frames_of_def by (simp_all, linarith)
  then have "f + 2 ^ k - 1 < m" "0 < f" "f < m" using assms by auto
  then show "f + 2 ^ k \<le> m" "0 < f" "f < m" by simp_all
qed

lemma unat_block_size: "k \<le> MAX_ORDER \<Longrightarrow> unat (2 ^ k :: u64) = 2 ^ k"
proof -
  assume "k \<le> MAX_ORDER"
  then have "(2 :: nat) ^ k < 2 ^ 64" by (intro power_strict_increasing) (simp_all add: MAX_ORDER_def)
  then have "unat (of_nat (2 ^ k) :: u64) = 2 ^ k" unfolding unat_of_nat by simp
  then show ?thesis by simp
qed

section \<open>Allocation\<close>

lemma split_ok:
  assumes "lists_ok b fl" "tiles (F - frames_of (f, a)) (blocks fl)" "aligned (f, a)" "a \<le> MAX_ORDER" "frames_of (f, a) \<subseteq> F"
    and "F \<subseteq> {0<..<MAX_FRAMES}" "k \<le> a"
  shows "\<exists>b' fl'. split_down f k a b = Some b' \<and> lists_ok b' fl' \<and> blocks fl' = blocks fl \<union> halves f k a \<and> same_frames b b' \<and>
    tiles (F - frames_of (f, k)) (blocks fl')"
  using assms
proof (induction a arbitrary: b fl)
  case 0
  then show ?case by (intro exI [of _ b] exI [of _ fl]) simp
next
  case (Suc a)
  show ?case
  proof (cases "k = Suc a")
    case True
    then show ?thesis using Suc.prems by (intro exI [of _ b] exI [of _ fl]) simp
  next
    case False
    note half = tiles_half [OF Suc.prems(2,3,4,5)]
    let ?g = "f + 2 ^ a"
    have g: "0 < ?g" "?g < MAX_FRAMES" using half(4) Suc.prems(5,6) by auto
    have nl: "?g \<notin> set (fl j)" if "j \<le> MAX_ORDER" for j
      using not_listed [OF Suc.prems(2) _ that] half(4) by blast
    have a: "a \<le> MAX_ORDER" using Suc.prems(4) by simp
    obtain b1 where b1: "push_free_list ?g a b = Some b1" "lists_ok b1 (fl(a := ?g # fl a))" "same_frames b b1"
      using push_ok [OF Suc.prems(1) a g nl] by blast
    have bl: "blocks (fl(a := ?g # fl a)) = insert (?g, a) (blocks fl)" using a by (rule blocks_push)
    have "tiles (F - frames_of (f, a)) (blocks (fl(a := ?g # fl a)))" unfolding bl by (rule half(1))
    from Suc.IH [OF b1(2) this half(2) a half(3) Suc.prems(6)] False Suc.prems(7)
    obtain b' fl' where b': "split_down f k a b1 = Some b'" "lists_ok b' fl'" "blocks fl' = insert (?g, a) (blocks fl) \<union> halves f k a"
      "same_frames b1 b'" "tiles (F - frames_of (f, k)) (blocks fl')"
      unfolding bl by auto
    have "split_down f k (Suc a) b = Some b'" using b1(1) b'(1) False Suc.prems(7) by simp
    moreover have "blocks fl' = blocks fl \<union> halves f k (Suc a)" using b'(3) False Suc.prems(7) by (simp add: halves_Suc)
    ultimately show ?thesis using b' same_frames_trans [OF b1(3) b'(4)] by blast
  qed
qed

lemma available_order_cases:
  assumes "lists_ok b fl" "k \<le> MAX_ORDER"
  obtains (none) "available_order b k = None" "\<And>x. x \<in> blocks fl \<Longrightarrow> snd x < k"
  | (some) a where "available_order b k = Some a" "k \<le> a" "a \<le> MAX_ORDER" "\<not> fbp_is_null (ba_free_lists b ! a)"
      "\<And>x. x \<in> blocks fl \<Longrightarrow> snd x \<notin> {k..<a}"
proof (cases "available_order b k")
  case None
  then have nul: "fbp_is_null (ba_free_lists b ! j)" if "k \<le> j" "j \<le> MAX_ORDER" for j
    using that by (auto simp: available_order_def find_None_iff)
  have "snd x < k" if x: "x \<in> blocks fl" for x
  proof (rule ccontr)
    assume "\<not> snd x < k"
    then have "fbp_is_null (ba_free_lists b ! snd x)" "fst x \<in> set (fl (snd x))" "snd x \<le> MAX_ORDER" using nul x by (auto simp: blocks_def)
    then show False using lists_okD(2) [OF assms(1), of "snd x"] by (cases "fl (snd x)") (auto simp: fbp_is_null_def)
  qed
  then show ?thesis using none None by blast
next
  case (Some a)
  then obtain i where i: "i < length [k..<MAX_ORDER + 1]" "\<not> fbp_is_null (ba_free_lists b ! ([k..<MAX_ORDER + 1] ! i))"
      "a = [k..<MAX_ORDER + 1] ! i" "\<forall>j < i. fbp_is_null (ba_free_lists b ! ([k..<MAX_ORDER + 1] ! j))"
    by (auto simp: available_order_def find_Some_iff simp del: upt_Suc)
  have a: "a = k + i" "a \<le> MAX_ORDER" using i(1,3) by (simp_all del: upt_Suc)
  have nul: "fbp_is_null (ba_free_lists b ! j)" if "k \<le> j" "j < a" for j
    using i(4) [rule_format, of "j - k"] that a by (simp del: upt_Suc)
  have "snd x \<notin> {k..<a}" if x: "x \<in> blocks fl" for x
  proof
    assume "snd x \<in> {k..<a}"
    then have "fbp_is_null (ba_free_lists b ! snd x)" "fst x \<in> set (fl (snd x))" "snd x \<le> MAX_ORDER" using nul x by (auto simp: blocks_def)
    then show False using lists_okD(2) [OF assms(1), of "snd x"] by (cases "fl (snd x)") (auto simp: fbp_is_null_def)
  qed
  then show ?thesis using some [of a] Some a i(2,3) by simp
qed

lemma allocate_ok:
  assumes ok: "frames_ok b" and k: "k \<le> MAX_ORDER"
  shows "(\<exists>f b'. allocate k b = Some (Some (fbp_from_frame f), b') \<and> frames_ok b' \<and> aligned (f, k) \<and> frames_of (f, k) \<subseteq> free_set b \<and>
      free_set b' = free_set b - frames_of (f, k) \<and> ba_total b' = ba_total b \<and> ba_hhdm b' = ba_hhdm b) \<or>
    (allocate k b = Some (None, b) \<and> (\<forall>f. aligned (f, k) \<longrightarrow> \<not> frames_of (f, k) \<subseteq> free_set b))"
proof -
  let ?F = "free_set b"
  obtain fl where fl: "lists_ok b fl" "tiles ?F (blocks fl)" "coalesced (blocks fl)" using ok by (auto simp: frames_ok_def)
  have b: "length (ba_bitmap b) = BITMAP_SIZE" "0 \<notin> ?F" "unat (ba_free b) = card ?F" "ba_initialized b" using ok by (auto simp: frames_ok_def)
  have F: "?F \<subseteq> {0<..<MAX_FRAMES}" using free_set_bound [of b] b(2) by (auto intro: gr0I)
  show ?thesis
    using fl(1) k
  proof (cases rule: available_order_cases)
    case none
    have "\<not> frames_of (f, k) \<subseteq> ?F" if al: "aligned (f, k)" for f
    proof
      assume "frames_of (f, k) \<subseteq> ?F"
      then obtain x where "x \<in> blocks fl" "k \<le> snd x" using coalesced_complete [OF fl(2,3) al] k by auto
      then show False using none(2) by fastforce
    qed
    then show ?thesis using none(1) b(4) k by (simp add: allocate_def)
  next
    case (some a)
    obtain f b1 fl1 where pop: "pop_free_list a b = Some (Some f, b1)" "f \<in> set (fl a)" "lists_ok b1 fl1"
      "blocks fl1 = blocks fl - {(f, a)}" "same_frames b b1"
      using pop_ok [OF fl(1) some(3,4)] by blast
    have x: "(f, a) \<in> blocks fl" using pop(2) some(3) by (simp add: blocks_iff)
    note al = tilesD [OF fl(2) x]
    have t1: "tiles (?F - frames_of (f, a)) (blocks fl1)" unfolding pop(4) by (rule tiles_remove [OF fl(2) x])
    obtain b2 fl2 where b2: "split_down f k a b1 = Some b2" "lists_ok b2 fl2" "blocks fl2 = blocks fl1 \<union> halves f k a" "same_frames b1 b2"
      "tiles (?F - frames_of (f, k)) (blocks fl2)"
      using split_ok [OF pop(3) t1 al(1) some(3) al(3) F some(2)] by blast
    have same: "same_frames b b2" using same_frames_trans [OF pop(5) b2(4)] .
    have F2: "free_set b2 = ?F" using same_free_set [OF same] .
    have "2 ^ k \<le> (2 ^ a :: nat)" using some(2) by (simp add: power_increasing)
    then have sub: "frames_of (f, k) \<subseteq> frames_of (f, a)" by (auto simp: frames_of_def)
    then have inF: "frames_of (f, k) \<subseteq> ?F" using al(3) by blast
    then have top: "f + 2 ^ k \<le> MAX_FRAMES" using frames_top [of f k MAX_FRAMES] F by blast
    have alk: "aligned (f, k)" using al(1) some(2) power_le_dvd [of 2 a f k] by (simp add: aligned_def)
    obtain bm where bm: "set_range f (2 ^ k) b2 = Some (b2\<lparr>ba_bitmap := bm\<rparr>)" "length bm = BITMAP_SIZE"
      "free_set (b2\<lparr>ba_bitmap := bm\<rparr>) = ?F - frames_of (f, k)"
      using set_range_spec [OF top, of b2] same b(1) F2 by (auto simp: same_frames_def frames_of_def)
    let ?b = "b2\<lparr>ba_bitmap := bm, ba_free := ba_free b2 - of_nat (2 ^ k)\<rparr>"
    have r: "allocate k b = Some (Some (fbp_from_frame f), ?b)"
      using b(4) k some(1) pop(1) b2(1) bm(1) by (simp add: allocate_def)
    have "card ?F \<le> MAX_FRAMES" using card_mono [OF _ free_set_bound [of b]] by simp
    moreover have "2 ^ k \<le> card ?F" using card_mono [OF _ inF] by simp
    ultimately have "unat (ba_free b2 - of_nat (2 ^ k)) = card ?F - 2 ^ k"
      using b(3) same unat_block_size [OF k] by (simp add: same_frames_def unat_sub word_le_nat_alt)
    also have "\<dots> = card (free_set ?b)" using bm(3) card_Diff_subset [OF _ inF] by simp
    finally have cnt: "unat (ba_free ?b) = card (free_set ?b)" by simp
    have "coalesced (blocks fl2)"
      unfolding b2(3) pop(4) using fl(3) al(1) some(5) by (intro coalesced_split coalesced_subset [OF fl(3)]) auto
    then have "frames_ok ?b"
      using b2(2,5) bm cnt b(2,4) same unfolding frames_ok_def
      by (intro conjI exI [of _ fl2]) (auto simp: same_frames_def)
    then show ?thesis using r bm(3) inF alk same by (intro disjI1 exI [of _ f] exI [of _ ?b]) (simp add: same_frames_def)
  qed
qed

section \<open>Deallocation\<close>

lemma merge_ok:
  assumes "lists_ok b fl" "tiles (free_set b - frames_of (f, k)) (blocks fl)" "aligned (f, k)" "k \<le> MAX_ORDER"
    and "frames_of (f, k) \<subseteq> free_set b" "0 \<notin> free_set b" "coalesced (blocks fl)"
  shows "\<exists>f' k' b' fl'. merge_up f k b = Some (f', k', b') \<and> lists_ok b' fl' \<and> same_frames b b' \<and>
    tiles (free_set b - frames_of (f', k')) (blocks fl') \<and> aligned (f', k') \<and> k' \<le> MAX_ORDER \<and> frames_of (f', k') \<subseteq> free_set b \<and>
    coalesced (insert (f', k') (blocks fl'))"
  using assms
proof (induction "MAX_ORDER - k" arbitrary: f k b fl rule: less_induct)
  case less
  let ?x = "(f, k)"
  let ?g = "f XOR 2 ^ k"
  have bo: "buddy_of ?x = (?g, k)" by (simp add: buddy_of_def)
  note bp = buddy_props [OF less.prems(3)]
  have stop: "\<exists>f' k' b' fl'. Some (f, k, b) = Some (f', k', b') \<and> lists_ok b' fl' \<and> same_frames b b' \<and>
      tiles (free_set b - frames_of (f', k')) (blocks fl') \<and> aligned (f', k') \<and> k' \<le> MAX_ORDER \<and> frames_of (f', k') \<subseteq> free_set b \<and>
      coalesced (insert (f', k') (blocks fl'))" if "k < MAX_ORDER \<Longrightarrow> buddy_of ?x \<notin> blocks fl"
    using coalesced_insert [OF less.prems(7,3)] that less.prems(1-5) by (intro exI [of _ f] exI [of _ k] exI [of _ b] exI [of _ fl]) simp
  show ?case
  proof (cases "k < MAX_ORDER")
    case False
    then show ?thesis using stop by (subst merge_up.simps) simp
  next
    case True
    show ?thesis
    proof (cases "range_free b ?g 0 (2 ^ k)")
      case False
      then have "\<not> frames_of (buddy_of ?x) \<subseteq> free_set b" by (simp add: range_free_iff bo frames_of_def)
      then have "buddy_of ?x \<notin> blocks fl" using tilesD(3) [OF less.prems(2)] by blast
      then show ?thesis using stop True False by (subst merge_up.simps) simp
    next
      case free: True
      then have gF: "frames_of (buddy_of ?x) \<subseteq> free_set b" by (simp add: range_free_iff bo frames_of_def)
      have "frames_of (?g, k) \<subseteq> {0<..<MAX_FRAMES}"
        using gF free_set_bound [of b] less.prems(6) by (fastforce simp: bo intro: gr0I)
      note g = frames_top [OF this]
      from remove_ok [OF less.prems(1,4) g(3,2)] obtain b1 fl1 where rm: "remove_from_free_list ?g k b = Some (?g \<in> set (fl k), b1)"
        "lists_ok b1 fl1" "blocks fl1 = blocks fl - {(?g, k)}" "same_frames b b1"
        by blast
      show ?thesis
      proof (cases "?g \<in> set (fl k)")
        case False
        have nb: "buddy_of ?x \<notin> blocks fl" using False by (simp add: bo blocks_iff)
        then have e: "blocks fl1 = blocks fl" using rm(3) bo by auto
        have "merge_up f k b = Some (f, k, b1)" using True free rm(1) False by (subst merge_up.simps) simp
        moreover have "coalesced (insert (f, k) (blocks fl1))" unfolding e using coalesced_insert [OF less.prems(7,3)] nb by blast
        ultimately show ?thesis using rm(2,4) less.prems(2-5) e by (intro exI [of _ f] exI [of _ k] exI [of _ b1] exI [of _ fl1]) simp
      next
        case mem: True
        have F1: "free_set b1 = free_set b" using same_free_set [OF rm(4)] .
        have y: "buddy_of ?x \<in> blocks fl" using mem less.prems(4) by (simp add: bo blocks_iff)
        have pa: "merged_block ?x = (min f ?g, k + 1)" by (simp add: merged_block_def)
        have "free_set b1 - frames_of (min f ?g, k + 1) = free_set b - frames_of ?x - frames_of (buddy_of ?x)"
          unfolding F1 using bp(3) pa by auto
        then have t: "tiles (free_set b1 - frames_of (min f ?g, k + 1)) (blocks fl1)"
          using tiles_remove [OF less.prems(2) y] rm(3) bo by simp
        have p: "aligned (min f ?g, k + 1)" "k + 1 \<le> MAX_ORDER" "frames_of (min f ?g, k + 1) \<subseteq> free_set b1" "0 \<notin> free_set b1"
          "coalesced (blocks fl1)"
          using bp(1,3) pa True gF less.prems(5,6) F1 coalesced_subset [OF less.prems(7), of "blocks fl1"] rm(3) by auto
        have "MAX_ORDER - (k + 1) < MAX_ORDER - k" using True by simp
        from less.hyps [OF this rm(2) t p] obtain f' k' b' fl' where b': "merge_up (min f ?g) (k + 1) b1 = Some (f', k', b')" "lists_ok b' fl'" "same_frames b1 b'"
          "tiles (free_set b - frames_of (f', k')) (blocks fl')" "aligned (f', k')" "k' \<le> MAX_ORDER" "frames_of (f', k') \<subseteq> free_set b"
          "coalesced (insert (f', k') (blocks fl'))"
          unfolding F1 by blast
        have "merge_up f k b = Some (f', k', b')" using True free rm(1) mem b'(1) by (subst merge_up.simps) simp
        then show ?thesis using b' same_frames_trans [OF rm(4) b'(3)] by blast
      qed
    qed
  qed
qed

lemma deallocate_ok:
  assumes ok: "frames_ok b" and "aligned (f, k)" "k \<le> MAX_ORDER" "frames_of (f, k) \<subseteq> {0<..<MAX_FRAMES}" "frames_of (f, k) \<inter> free_set b = {}"
  shows "\<exists>b'. deallocate (fbp_from_frame f) k b = Some b' \<and> frames_ok b' \<and> free_set b' = free_set b \<union> frames_of (f, k) \<and>
    ba_total b' = ba_total b \<and> ba_hhdm b' = ba_hhdm b"
proof -
  obtain fl where fl: "lists_ok b fl" "tiles (free_set b) (blocks fl)" "coalesced (blocks fl)" using ok by (auto simp: frames_ok_def)
  have b: "length (ba_bitmap b) = BITMAP_SIZE" "0 \<notin> free_set b" "unat (ba_free b) = card (free_set b)" "ba_initialized b"
    using ok by (auto simp: frames_ok_def)
  note top = frames_top [OF assms(4)]
  have k: "k mod 64 = k" using assms(3) by (simp add: MAX_ORDER_def)
  have fr: "unat (fbp_from_frame f) div PAGE_SIZE = f" using ptr_to_frame [OF top(3)] by (simp add: fbp_to_frame_def)
  obtain bm where bm: "clear_range f (2 ^ k) b = Some (b\<lparr>ba_bitmap := bm\<rparr>)" "length bm = BITMAP_SIZE"
    "free_set (b\<lparr>ba_bitmap := bm\<rparr>) = free_set b \<union> frames_of (f, k)"
    using clear_range_spec [OF top(1) b(1)] by (auto simp: frames_of_def)
  let ?b = "b\<lparr>ba_bitmap := bm, ba_free := ba_free b + of_nat (2 ^ k)\<rparr>"
  have F: "free_set ?b = free_set b \<union> frames_of (f, k)" using bm(3) by simp
  have "free_set ?b - frames_of (f, k) = free_set b" using F assms(5) by auto
  then have t: "tiles (free_set ?b - frames_of (f, k)) (blocks fl)" using fl(2) by simp
  have z: "0 \<notin> free_set ?b" "frames_of (f, k) \<subseteq> free_set ?b" using F b(2) assms(4) by auto
  have l: "lists_ok ?b fl" using fl(1) by simp
  obtain f' k' b1 fl1 where m: "merge_up f k ?b = Some (f', k', b1)" "lists_ok b1 fl1" "same_frames ?b b1"
    "tiles (free_set ?b - frames_of (f', k')) (blocks fl1)" "aligned (f', k')" "k' \<le> MAX_ORDER" "frames_of (f', k') \<subseteq> free_set ?b"
    "coalesced (insert (f', k') (blocks fl1))"
    using merge_ok [OF l t assms(2,3) z(2,1) fl(3)] by blast
  have "frames_of (f', k') \<subseteq> {0<..<MAX_FRAMES}" using m(7) free_set_bound [of ?b] z(1) by (fastforce intro: gr0I)
  note top' = frames_top [OF this]
  have nl: "f' \<notin> set (fl1 j)" if "j \<le> MAX_ORDER" for j
    using not_listed [OF m(4) _ that] frames_of_nonempty [of "(f', k')"] by auto
  obtain b2 where b2: "push_free_list f' k' b1 = Some b2" "lists_ok b2 (fl1(k' := f' # fl1 k'))" "same_frames b1 b2"
    using push_ok [OF m(2,6) top'(2,3) nl] by blast
  have same: "same_frames ?b b2" using same_frames_trans [OF m(3) b2(3)] .
  have F2: "free_set b2 = free_set b \<union> frames_of (f, k)" using same_free_set [OF same] F by simp
  have bl: "blocks (fl1(k' := f' # fl1 k')) = insert (f', k') (blocks fl1)" using m(6) by (rule blocks_push)
  have t2: "tiles (free_set b2) (blocks (fl1(k' := f' # fl1 k')))"
    unfolding bl using tiles_insert [OF m(4,5)] m(6,7) same_free_set [OF same] by simp
  have "card (free_set b2) = card (free_set b) + 2 ^ k"
    using card_Un_disjoint [of "free_set b" "frames_of (f, k)"] assms(5) by (simp add: F2 Int_commute)
  moreover have "card (free_set b2) \<le> MAX_FRAMES" using card_mono [OF _ free_set_bound [of b2]] by simp
  ultimately have "unat (ba_free b + of_nat (2 ^ k)) = card (free_set b2)"
    using b(3) unat_block_size [OF assms(3)] by (simp add: unat_word_ariths MAX_FRAMES_def)
  then have "frames_ok b2"
    using b2(2) t2 m(8) bl bm(2) b(4) same z(1) same_free_set [OF same] unfolding frames_ok_def
    by (intro conjI exI [of _ "fl1(k' := f' # fl1 k')"]) (simp_all add: same_frames_def)
  moreover have "deallocate (fbp_from_frame f) k b = Some b2"
    using bm(1) m(1) b2(1) k fr by (simp add: deallocate_def)
  ultimately show ?thesis using F2 same by (intro exI [of _ b2]) (simp add: same_frames_def)
qed

section \<open>Initialisation\<close>

lemma add_frames_ok:
  assumes "length (ba_bitmap b) = BITMAP_SIZE" "{p..<p + n} \<inter> free_set b = {}" "unat (ba_free b) = card (free_set b)" "ba_total b = ba_free b"
  shows "\<exists>bm u. add_frames p n b = Some (b\<lparr>ba_bitmap := bm, ba_total := u, ba_free := u\<rparr>) \<and> length bm = BITMAP_SIZE \<and>
    free_set (b\<lparr>ba_bitmap := bm\<rparr>) = free_set b \<union> ({p..<p + n} \<inter> {..<MAX_FRAMES}) \<and> unat u = card (free_set (b\<lparr>ba_bitmap := bm\<rparr>))"
  using assms(2)
proof (induction n)
  case 0
  then show ?case using assms by (intro exI [of _ "ba_bitmap b"] exI [of _ "ba_free b"]) (cases b; simp)
next
  case (Suc n)
  have "{p..<p + n} \<inter> free_set b = {}" using Suc.prems by (auto simp: disjoint_iff)
  then obtain bm u where n: "add_frames p n b = Some (b\<lparr>ba_bitmap := bm, ba_total := u, ba_free := u\<rparr>)" "length bm = BITMAP_SIZE"
    "free_set (b\<lparr>ba_bitmap := bm\<rparr>) = free_set b \<union> ({p..<p + n} \<inter> {..<MAX_FRAMES})" "unat u = card (free_set (b\<lparr>ba_bitmap := bm\<rparr>))"
    using Suc.IH by blast
  have step: "{p..<p + Suc n} = insert (p + n) {p..<p + n}" by auto
  show ?case
  proof (cases "p + n < MAX_FRAMES")
    case False
    then show ?thesis using n step by (intro exI [of _ bm] exI [of _ u]) auto
  next
    case True
    let ?b = "b\<lparr>ba_bitmap := bm, ba_total := u, ba_free := u\<rparr>"
    have F: "free_set ?b = free_set (b\<lparr>ba_bitmap := bm\<rparr>)" by (simp add: free_set_def is_free_def)
    obtain bm' where c: "clear_bit_at (p + n) ?b = Some (?b\<lparr>ba_bitmap := bm'\<rparr>)" "length bm' = BITMAP_SIZE"
      "free_set (?b\<lparr>ba_bitmap := bm'\<rparr>) = insert (p + n) (free_set ?b)"
      using clear_bit_at_spec [OF True, of ?b] n(2) by auto
    have F': "free_set (b\<lparr>ba_bitmap := bm'\<rparr>) = insert (p + n) (free_set (b\<lparr>ba_bitmap := bm\<rparr>))"
      using c(3) F by (simp add: free_set_def is_free_def)
    have new: "p + n \<notin> free_set (b\<lparr>ba_bitmap := bm\<rparr>)" using n(3) Suc.prems by (auto simp: disjoint_iff)
    have "card (free_set (b\<lparr>ba_bitmap := bm\<rparr>)) \<le> MAX_FRAMES" using card_mono [OF _ free_set_bound] by fastforce
    then have "unat (u + 1) = Suc (unat u)" using n(4) by (intro unat_Suc_word [of _ "MAX_FRAMES + 1"]) (simp_all add: MAX_FRAMES_def)
    then have "unat (u + 1) = card (free_set (b\<lparr>ba_bitmap := bm'\<rparr>))" unfolding F' using new n(4) by simp
    moreover have "free_set (b\<lparr>ba_bitmap := bm'\<rparr>) = free_set b \<union> ({p..<p + Suc n} \<inter> {..<MAX_FRAMES})"
      unfolding F' n(3) step using True by auto
    moreover have "add_frames p (Suc n) b = Some (b\<lparr>ba_bitmap := bm', ba_total := u + 1, ba_free := u + 1\<rparr>)"
      using n(1) c(1) True by simp
    ultimately show ?thesis using c(2) by blast
  qed
qed

definition region_frames :: "u64 \<times> u64 \<Rightarrow> nat set" where
  "region_frames r = {region_start r..<region_end r} \<inter> {..<MAX_FRAMES}"

text \<open>The frames of the regions: what the allocator manages. The boot loader reports regions that
  do not overlap and do not contain the first page.\<close>

definition usable :: "(u64 \<times> u64) list \<Rightarrow> nat set" where
  "usable rs = (\<Union>r \<in> set rs. region_frames r)"

definition regions_ok :: "(u64 \<times> u64) list \<Rightarrow> bool" where
  "regions_ok rs \<longleftrightarrow> sorted_wrt (\<lambda>r s. region_frames r \<inter> region_frames s = {}) rs \<and> (\<forall>r \<in> set rs. 0 \<notin> region_frames r)"

lemma add_regions_ok:
  assumes "length (ba_bitmap b) = BITMAP_SIZE" "usable rs \<inter> free_set b = {}" "sorted_wrt (\<lambda>r s. region_frames r \<inter> region_frames s = {}) rs"
    and "unat (ba_free b) = card (free_set b)" "ba_total b = ba_free b"
  shows "\<exists>bm u. add_regions rs b = Some (b\<lparr>ba_bitmap := bm, ba_total := u, ba_free := u\<rparr>) \<and> length bm = BITMAP_SIZE \<and>
    free_set (b\<lparr>ba_bitmap := bm\<rparr>) = free_set b \<union> usable rs \<and> unat u = card (free_set (b\<lparr>ba_bitmap := bm\<rparr>))"
  using assms
proof (induction rs arbitrary: b)
  case Nil
  then show ?case by (intro exI [of _ "ba_bitmap b"] exI [of _ "ba_free b"]) (cases b; simp add: usable_def)
next
  case (Cons r rs)
  let ?p = "region_start r" and ?n = "region_end r - region_start r"
  have rf: "{?p..<?p + ?n} \<inter> {..<MAX_FRAMES} = region_frames r" by (auto simp: region_frames_def)
  have "{?p..<?p + ?n} \<inter> free_set b = {}"
    using Cons.prems(2) rf free_set_bound [of b] by (auto simp: usable_def)
  from add_frames_ok [OF Cons.prems(1) this Cons.prems(4,5), unfolded rf] obtain bm u where
    n: "add_frames ?p ?n b = Some (b\<lparr>ba_bitmap := bm, ba_total := u, ba_free := u\<rparr>)" "length bm = BITMAP_SIZE"
      "free_set (b\<lparr>ba_bitmap := bm\<rparr>) = free_set b \<union> region_frames r" "unat u = card (free_set (b\<lparr>ba_bitmap := bm\<rparr>))"
    by blast
  let ?b = "b\<lparr>ba_bitmap := bm, ba_total := u, ba_free := u\<rparr>"
  have F: "free_set ?b = free_set b \<union> region_frames r" using n(3) by (simp add: free_set_def is_free_def)
  have "usable rs \<inter> free_set ?b = {}" using Cons.prems(2,3) F by (auto simp: usable_def)
  then obtain bm' u' where m: "add_regions rs ?b = Some (?b\<lparr>ba_bitmap := bm', ba_total := u', ba_free := u'\<rparr>)" "length bm' = BITMAP_SIZE"
      "free_set (?b\<lparr>ba_bitmap := bm'\<rparr>) = free_set ?b \<union> usable rs" "unat u' = card (free_set (?b\<lparr>ba_bitmap := bm'\<rparr>))"
    using Cons.IH [of ?b] n(2,4) Cons.prems(3) F n(3) by auto
  have F': "free_set (?b\<lparr>ba_bitmap := bm'\<rparr>) = free_set (b\<lparr>ba_bitmap := bm'\<rparr>)" by (simp add: free_set_def is_free_def)
  have "usable (r # rs) = region_frames r \<union> usable rs" by (simp add: usable_def)
  then show ?case using n(1) m F F' by (intro exI [of _ bm'] exI [of _ u']) auto
qed

lemma max_block_order_ok:
  assumes "aligned (p, k)" "k \<le> MAX_ORDER" "frames_of (p, k) \<subseteq> free_set b"
  shows "aligned (p, max_block_order_from b p k) \<and> max_block_order_from b p k \<le> MAX_ORDER \<and>
    frames_of (p, max_block_order_from b p k) \<subseteq> free_set b \<and> maximal (free_set b) (p, max_block_order_from b p k)"
  using assms
proof (induction "MAX_ORDER - k" arbitrary: k rule: less_induct)
  case less
  let ?next = "k < MAX_ORDER \<and> p mod 2 ^ (k + 1) = 0 \<and> range_free b p (2 ^ k) (2 ^ (k + 1))"
  show ?case
  proof (cases ?next)
    case False
    then have "maximal (free_set b) (p, k)" using less.prems(2) by (auto simp: maximal_def range_free_iff dvd_eq_mod_eq_0)
    moreover have "max_block_order_from b p k = k" using False by (subst max_block_order_from.simps) auto
    ultimately show ?thesis using less.prems by simp
  next
    case True
    have "frames_of (p, k + 1) = frames_of (p, k) \<union> {p + 2 ^ k..<p + 2 ^ (k + 1)}"
      using two_halves(1) [of p "2 ^ k"] by (simp add: frames_of_def mult_2 add.assoc)
    then have "frames_of (p, k + 1) \<subseteq> free_set b" using True less.prems(3) by (auto simp: range_free_iff)
    moreover have "max_block_order_from b p k = max_block_order_from b p (k + 1)" using True by (subst max_block_order_from.simps) simp
    moreover have "MAX_ORDER - (k + 1) < MAX_ORDER - k" "k + 1 \<le> MAX_ORDER" "aligned (p, k + 1)"
      using True by (auto simp: aligned_def dvd_eq_mod_eq_0)
    ultimately show ?thesis using less.hyps [of "k + 1"] by simp
  qed
qed

lemma build_ok:
  assumes "lists_ok b fl" "tiles (free_set b \<inter> {..<p}) (blocks fl)" "\<forall>x \<in> blocks fl. maximal (free_set b) x" "0 \<notin> free_set b"
  shows "\<exists>b' fl'. build_loop p b = Some b' \<and> lists_ok b' fl' \<and> tiles (free_set b) (blocks fl') \<and> (\<forall>x \<in> blocks fl'. maximal (free_set b) x) \<and>
    same_frames b b'"
  using assms
proof (induction "MAX_FRAMES - p" arbitrary: p b fl rule: less_induct)
  case less
  show ?case
  proof (cases "p < MAX_FRAMES")
    case False
    then have "free_set b \<inter> {..<p} = free_set b" using free_set_bound [of b] by auto
    then show ?thesis using False less.prems by (intro exI [of _ b] exI [of _ fl], subst build_loop.simps) simp
  next
    case True
    show ?thesis
    proof (cases "is_free b p")
      case False
      have "free_set b \<inter> {..<p + 1} = free_set b \<inter> {..<p}" using False by (auto simp: free_set_def less_Suc_eq)
      moreover have "build_loop p b = build_loop (p + 1) b" using True False by (subst build_loop.simps) simp
      ultimately show ?thesis using less.hyps [of "p + 1" b fl] less.prems True by auto
    next
      case free: True
      let ?k = "max_block_order b p"
      have p: "p \<in> free_set b" "0 < p" using free less.prems(4) by (auto simp: free_set_def intro: gr0I)
      have k: "aligned (p, ?k)" "?k \<le> MAX_ORDER" "frames_of (p, ?k) \<subseteq> free_set b" "maximal (free_set b) (p, ?k)"
        using max_block_order_ok [of p 0 b] p(1) by (auto simp: max_block_order_def aligned_def frames_of_def)
      let ?b = "b\<lparr>ba_max_order := max (ba_max_order b) ?k\<rparr>"
      have "p \<notin> set (fl j)" if "j \<le> MAX_ORDER" for j using not_listed [OF less.prems(2) _ that] by simp
      then obtain b1 where b1: "push_free_list p ?k ?b = Some b1" "lists_ok b1 (fl(?k := p # fl ?k))" "same_frames ?b b1"
        using push_ok [of ?b fl ?k p] less.prems(1) k(2) p(2) True by auto
      have same: "same_frames b b1" using b1(3) by (simp add: same_frames_def)
      have F: "free_set b1 = free_set b" using same_free_set [OF same] .
      have bl: "blocks (fl(?k := p # fl ?k)) = insert (p, ?k) (blocks fl)" using k(2) by (rule blocks_push)
      have "free_set b \<inter> {..<p + 2 ^ ?k} - frames_of (p, ?k) = free_set b \<inter> {..<p}" by (auto simp: frames_of_def)
      moreover have "frames_of (p, ?k) \<subseteq> free_set b \<inter> {..<p + 2 ^ ?k}" using k(3) by (auto simp: frames_of_def)
      ultimately have t: "tiles (free_set b1 \<inter> {..<p + 2 ^ ?k}) (blocks (fl(?k := p # fl ?k)))"
        unfolding bl F using tiles_insert [of "free_set b \<inter> {..<p + 2 ^ ?k}" "(p, ?k)" "blocks fl"] less.prems(2) k(1,2) by simp
      have mx: "\<forall>x \<in> blocks (fl(?k := p # fl ?k)). maximal (free_set b1) x" unfolding bl F using less.prems(3) k(4) by blast
      have lt: "MAX_FRAMES - (p + 2 ^ ?k) < MAX_FRAMES - p" using True by (intro diff_less_mono2) simp_all
      have z: "0 \<notin> free_set b1" using less.prems(4) F by simp
      from less.hyps [OF lt b1(2) t mx z] obtain b' fl' where b': "build_loop (p + 2 ^ ?k) b1 = Some b'" "lists_ok b' fl'"
        "tiles (free_set b) (blocks fl')" "\<forall>x \<in> blocks fl'. maximal (free_set b) x" "same_frames b1 b'"
        unfolding F by blast
      have "build_loop p b = Some b'" using True free b1(1) b'(1) by (subst build_loop.simps) (simp add: Let_def)
      then show ?thesis using b' same_frames_trans [OF same b'(5)] by blast
    qed
  qed
qed

lemma init_ok:
  assumes "regions_ok rs"
  shows "\<exists>b. init_from_regions rs (buddy_new hhdm mem) = Some b \<and> frames_ok b \<and> free_set b = usable rs \<and> ba_hhdm b = hhdm \<and>
    ba_total b = ba_free b"
proof -
  let ?b = "buddy_new hhdm mem"
  have "(0xFF :: u8) = - 1" by simp
  then have ff: "bit (0xFF :: u8) j" if "j < 8" for j using that by (simp only: bit_minus_1_iff) simp
  have "\<not> is_free ?b f" for f
    using ff [of "f mod 8"] by (simp add: is_free_def buddy_new_def BITMAP_SIZE_def MAX_FRAMES_def bit_byte)
  then have F0: "free_set ?b = {}" by (simp add: free_set_def)
  have "length (ba_bitmap ?b) = BITMAP_SIZE" "unat (ba_free ?b) = card (free_set ?b)" "ba_total ?b = ba_free ?b"
    by (simp_all add: F0) (simp_all add: buddy_new_def)
  then obtain bm u where a: "add_regions rs ?b = Some (?b\<lparr>ba_bitmap := bm, ba_total := u, ba_free := u\<rparr>)" "length bm = BITMAP_SIZE"
    "free_set (?b\<lparr>ba_bitmap := bm\<rparr>) = usable rs" "unat u = card (usable rs)"
    using add_regions_ok [of ?b rs] assms F0 by (auto simp: regions_ok_def)
  let ?a = "?b\<lparr>ba_bitmap := bm, ba_total := u, ba_free := u\<rparr>"
  have F: "free_set ?a = usable rs" using a(3) by (simp add: free_set_def is_free_def)
  have l: "lists_ok ?a (\<lambda>_. [])" by (simp add: lists_ok_def buddy_new_def fbp_null_def del: replicate_Suc)
  have e: "blocks (\<lambda>_. []) = {}" "0 \<notin> free_set ?a" using assms F by (auto simp: blocks_def usable_def regions_ok_def)
  obtain b fl where b: "build_loop 0 ?a = Some b" "lists_ok b fl" "tiles (usable rs) (blocks fl)"
    "\<forall>x \<in> blocks fl. maximal (usable rs) x" "same_frames ?a b"
    using build_ok [OF l, of 0] e F by auto
  have "coalesced (blocks fl)" using maximal_coalesced [OF b(3) _ b(4)] by simp
  moreover have "free_set b = usable rs" using same_free_set [OF b(5)] F by simp
  ultimately have "frames_ok (b\<lparr>ba_initialized := True\<rparr>)"
    using b(2,3,5) a(2,4) e(2) F unfolding frames_ok_def by (auto simp: same_frames_def)
  then show ?thesis
    using a(1) b(1,5) \<open>free_set b = usable rs\<close>
    by (intro exI [of _ "b\<lparr>ba_initialized := True\<rparr>"]) (simp add: init_from_regions_def same_frames_def buddy_new_def)
qed

end
