(* ===== verification/Frame_History.thy ===== *)
theory Frame_History
  imports Frame_Sound
begin

text \<open>
  Histories of the frame allocator: any sequence of allocations, deallocations of blocks that are
  held, and writes to memory outside the free frames.
\<close>

section \<open>Histories\<close>

text \<open>
  The kernel allocates, gives back what it holds, and writes to memory outside the free frames,
  in any order. The second component of the state lists the blocks it holds.
\<close>

datatype frame_op = FAlloc nat | FFree phys_addr nat | FWrite virt_addr u64

fun frame_step :: "frame_op \<Rightarrow> buddy_allocator \<times> (phys_addr \<times> nat) list \<Rightarrow> (buddy_allocator \<times> (phys_addr \<times> nat) list) run" where
  "frame_step (FAlloc k) (b, held) = do {
     (r, b') \<leftarrow> allocate k b;
     Some (b', case r of None \<Rightarrow> held | Some a \<Rightarrow> (a, k) # held)
   }"
| "frame_step (FFree a k) (b, held) =
     (if (a, k) \<in> set held then do { b' \<leftarrow> deallocate a k b; Some (b', remove1 (a, k) held) } else Some (b, held))"
| "frame_step (FWrite v x) (b, held) =
     (if is_free b (unat (to_phys (ba_hhdm b) v) div PAGE_SIZE) then Some (b, held)
      else Some (b\<lparr>ba_mem := (ba_mem b)(v := x)\<rparr>, held))"

fun frame_run :: "frame_op list \<Rightarrow> buddy_allocator \<times> (phys_addr \<times> nat) list \<Rightarrow> (buddy_allocator \<times> (phys_addr \<times> nat) list) run" where
  "frame_run [] s = Some s"
| "frame_run (c # cs) s = frame_step c s \<bind> frame_run cs"

definition block_at :: "phys_addr \<times> nat \<Rightarrow> frame_block" where
  "block_at x = (fbp_to_frame (fst x), snd x)"

text \<open>The blocks held: aligned, disjoint from each other and from the free frames, and together
  with these exactly the frames \<open>U\<close>.\<close>

definition block_held :: "nat set \<Rightarrow> phys_addr \<times> nat \<Rightarrow> bool" where
  "block_held F x \<longleftrightarrow> fst x = fbp_from_frame (fst (block_at x)) \<and> aligned (block_at x) \<and> snd x \<le> MAX_ORDER \<and>
     frames_of (block_at x) \<inter> F = {}"

definition held_ok :: "nat set \<Rightarrow> nat set \<Rightarrow> (phys_addr \<times> nat) list \<Rightarrow> bool" where
  "held_ok U F held \<longleftrightarrow> (\<forall>x \<in> set held. block_held F x) \<and>
     sorted_wrt (\<lambda>x y. frames_of (block_at x) \<inter> frames_of (block_at y) = {}) held \<and>
     F \<union> (\<Union>x \<in> set held. frames_of (block_at x)) = U"

lemma held_alloc:
  assumes "held_ok U F held" "block_held {} x" "frames_of (block_at x) \<subseteq> F"
  shows "held_ok U (F - frames_of (block_at x)) (x # held)"
proof -
  let ?X = "frames_of (block_at x)"
  note h = assms(1) [unfolded held_ok_def]
  have "block_held (F - ?X) y" if "y \<in> set (x # held)" for y
    using that h assms(2) by (cases "y = x") (auto simp: block_held_def)
  moreover have "?X \<inter> frames_of (block_at y) = {}" if "y \<in> set held" for y
    using that h assms(3) unfolding block_held_def by blast
  moreover have "F - ?X \<union> (?X \<union> (\<Union>y \<in> set held. frames_of (block_at y))) = U" using h assms(3) by blast
  ultimately show ?thesis using h unfolding held_ok_def by simp
qed

lemma sorted_wrt_remove1: "sorted_wrt P xs \<Longrightarrow> sorted_wrt P (remove1 x xs)"
  by (induction xs) (auto dest: notin_set_remove1 intro: set_remove1_subset [THEN subsetD])

lemma sorted_wrt_remove1_rest:
  assumes "sorted_wrt P xs" "x \<in> set xs" "symp P" shows "\<forall>y \<in> set (remove1 x xs). P x y"
  using assms by (induction xs) (auto dest: sympD)

lemma union_remove1: "x \<in> set xs \<Longrightarrow> f x \<union> (\<Union>y \<in> set (remove1 x xs). f y) = (\<Union>y \<in> set xs. f y)"
  by (induction xs) auto

lemma held_free:
  assumes "held_ok U F held" "x \<in> set held"
  shows "held_ok U (F \<union> frames_of (block_at x)) (remove1 x held)"
proof -
  let ?X = "frames_of (block_at x)"
  note h = assms(1) [unfolded held_ok_def]
  have rest: "\<forall>y \<in> set (remove1 x held). ?X \<inter> frames_of (block_at y) = {}"
    using h assms(2) by (intro sorted_wrt_remove1_rest) (auto simp: symp_def)
  have "block_held (F \<union> ?X) y" if "y \<in> set (remove1 x held)" for y
  proof -
    have "block_held F y" "?X \<inter> frames_of (block_at y) = {}" using that h rest set_remove1_subset by fast+
    then show ?thesis unfolding block_held_def by blast
  qed
  moreover have "F \<union> ?X \<union> (\<Union>y \<in> set (remove1 x held). frames_of (block_at y)) = U"
    using union_remove1 [OF assms(2), of "\<lambda>x. frames_of (block_at x)"] h by blast
  moreover have "sorted_wrt (\<lambda>x y. frames_of (block_at x) \<inter> frames_of (block_at y) = {}) (remove1 x held)"
    using h by (intro sorted_wrt_remove1) simp
  ultimately show ?thesis unfolding held_ok_def by blast
qed

lemma allocate_large: "k > MAX_ORDER \<Longrightarrow> allocate k b = Some (None, b)"
  by (simp add: allocate_def)

lemma frames_ok_write:
  assumes "frames_ok b" "\<not> is_free b (unat (to_phys (ba_hhdm b) v) div PAGE_SIZE)"
  shows "frames_ok (b\<lparr>ba_mem := (ba_mem b)(v := x)\<rparr>)" "free_set (b\<lparr>ba_mem := (ba_mem b)(v := x)\<rparr>) = free_set b"
proof -
  let ?b = "b\<lparr>ba_mem := (ba_mem b)(v := x)\<rparr>"
  show F: "free_set ?b = free_set b" by (simp add: free_set_def is_free_def)
  obtain fl where fl: "lists_ok b fl" "tiles (free_set b) (blocks fl)" "coalesced (blocks fl)" using assms(1) by (auto simp: frames_ok_def)
  have "linked ?b p (fl k) = linked b p (fl k)" if k: "k \<le> MAX_ORDER" for k p
  proof (rule linked_cong)
    fix f assume f: "f \<in> set (fl k)"
    have "f \<in> free_set b" using tilesD(4) [OF fl(2), of "(f, k)"] f k by (simp add: blocks_iff)
    moreover have "f < MAX_FRAMES" using linked_bound [OF lists_okD(2) [OF fl(1) k] f] by simp
    ultimately have "fbp_from_frame f + ba_hhdm b \<noteq> v"
      using assms(2) ptr_to_frame [of f] by (auto simp: to_phys_def free_set_def fbp_to_frame_def)
    then show "read_next ?b (fbp_from_frame f) = read_next b (fbp_from_frame f)" by (simp add: read_next_def to_virt_def)
  qed
  then have "lists_ok ?b fl" using fl(1) by (simp add: lists_ok_def)
  then show "frames_ok ?b" using assms(1) fl(2,3) F unfolding frames_ok_def by auto
qed

lemma frame_step_ok:
  assumes "frames_ok b" "held_ok U (free_set b) held" "U \<subseteq> {0<..<MAX_FRAMES}"
  shows "\<exists>b' held'. frame_step c (b, held) = Some (b', held') \<and> frames_ok b' \<and> held_ok U (free_set b') held'"
proof (cases c)
  case (FAlloc k)
  show ?thesis
  proof (cases "k \<le> MAX_ORDER")
    case False
    then show ?thesis using FAlloc assms allocate_large [of k b] by simp
  next
    case True
    from allocate_ok [OF assms(1) True] show ?thesis
    proof (elim disjE exE conjE)
      fix f b' assume r: "allocate k b = Some (Some (fbp_from_frame f), b')" "frames_ok b'" "aligned (f, k)" "frames_of (f, k) \<subseteq> free_set b"
        "free_set b' = free_set b - frames_of (f, k)"
      have "f < MAX_FRAMES" using r(4) free_set_bound [of b] frames_of_nonempty [of "(f, k)"] by auto
      then have e: "block_at (fbp_from_frame f, k) = (f, k)" by (simp add: block_at_def)
      have "block_held {} (fbp_from_frame f, k)" unfolding block_held_def e using r(3) True by simp
      from held_alloc [OF assms(2) this] have "held_ok U (free_set b') ((fbp_from_frame f, k) # held)" using r(4,5) e by simp
      then show ?thesis using FAlloc r(1,2) by simp
    qed (use FAlloc assms in simp)
  qed
next
  case (FFree a k)
  show ?thesis
  proof (cases "(a, k) \<in> set held")
    case False
    then show ?thesis using FFree assms by simp
  next
    case True
    define f where "f = fbp_to_frame a"
    have blk: "block_at (a, k) = (f, k)" by (simp add: block_at_def f_def)
    have "block_held (free_set b) (a, k)" using assms(2) True unfolding held_ok_def by blast
    then have h: "a = fbp_from_frame f" "aligned (f, k)" "k \<le> MAX_ORDER" "frames_of (f, k) \<inter> free_set b = {}"
      unfolding block_held_def blk by simp_all
    have "(\<Union>x \<in> set held. frames_of (block_at x)) \<subseteq> U" using assms(2) unfolding held_ok_def by blast
    moreover have "frames_of (block_at (a, k)) \<subseteq> (\<Union>x \<in> set held. frames_of (block_at x))" using True by (rule UN_upper)
    ultimately have "frames_of (f, k) \<subseteq> U" unfolding blk by (rule subset_trans [rotated])
    then have "frames_of (f, k) \<subseteq> {0<..<MAX_FRAMES}" using assms(3) by (rule subset_trans)
    from deallocate_ok [OF assms(1) h(2,3) this h(4)] obtain b' where b': "deallocate a k b = Some b'" "frames_ok b'"
      "free_set b' = free_set b \<union> frames_of (f, k)"
      unfolding h(1) [symmetric] by blast
    have "held_ok U (free_set b') (remove1 (a, k) held)" using held_free [OF assms(2) True] b'(3) blk by simp
    then show ?thesis using FFree True b' by simp
  qed
next
  case (FWrite v x)
  then show ?thesis using assms frames_ok_write [OF assms(1), of v x] by simp
qed

lemma frame_run_ok:
  "frames_ok b \<Longrightarrow> held_ok U (free_set b) held \<Longrightarrow> U \<subseteq> {0<..<MAX_FRAMES} \<Longrightarrow>
   \<exists>b' held'. frame_run ops (b, held) = Some (b', held') \<and> frames_ok b' \<and> held_ok U (free_set b') held'"
proof (induction ops arbitrary: b held)
  case (Cons c ops)
  from frame_step_ok [OF Cons.prems, of c] obtain b1 held1 where "frame_step c (b, held) = Some (b1, held1)" "frames_ok b1" "held_ok U (free_set b1) held1"
    by blast
  then show ?case using Cons.IH Cons.prems(3) by simp
qed simp

lemma usable_range: "regions_ok rs \<Longrightarrow> usable rs \<subseteq> {0<..<MAX_FRAMES}"
  by (auto simp: usable_def regions_ok_def region_frames_def intro!: gr0I)

text \<open>
  C23. Whatever the kernel does with it, the frame allocator never panics, and at every moment the
  blocks that are held are aligned to their size, disjoint from one another and from the free
  frames, and every frame of the memory map is free or held: nothing is handed out twice, and
  nothing is lost. The free count is the number of free frames. This holds although the links of
  the lists are stored in the free frames and the holders write to their blocks at will.
\<close>

theorem frame_allocator_sound:
  assumes "regions_ok rs"
  shows "\<exists>b0 b held. init_from_regions rs (buddy_new hhdm mem) = Some b0 \<and> frame_run ops (b0, []) = Some (b, held) \<and>
    (\<forall>x \<in> set held. aligned (block_at x) \<and> fst x = fbp_from_frame (fst (block_at x)) \<and> frames_of (block_at x) \<inter> free_set b = {}) \<and>
    sorted_wrt (\<lambda>x y. frames_of (block_at x) \<inter> frames_of (block_at y) = {}) held \<and>
    free_set b \<union> (\<Union>x \<in> set held. frames_of (block_at x)) = usable rs \<and> unat (available_frames b) = card (free_set b)"
proof -
  obtain b0 where b0: "init_from_regions rs (buddy_new hhdm mem) = Some b0" "frames_ok b0" "free_set b0 = usable rs"
    using init_ok [OF assms] by blast
  have "held_ok (usable rs) (free_set b0) []" using b0(3) by (simp add: held_ok_def)
  from frame_run_ok [OF b0(2) this usable_range [OF assms], of ops] show ?thesis
    using b0(1) by (auto simp: held_ok_def block_held_def frames_ok_def available_frames_def)
qed

text \<open>
  C24. A request for an aligned block of \<open>2 ^ k\<close> frames is refused exactly if the free frames contain
  no such block: whatever was allocated and given back before, memory is never lost to
  fragments that could be merged.
\<close>

theorem allocate_complete:
  assumes "regions_ok rs" "init_from_regions rs (buddy_new hhdm mem) = Some b0" "frame_run ops (b0, []) = Some (b, held)" "k \<le> MAX_ORDER"
  shows "(\<exists>b'. allocate k b = Some (None, b')) \<longleftrightarrow> \<not> (\<exists>f. aligned (f, k) \<and> frames_of (f, k) \<subseteq> free_set b)"
proof -
  have b0: "frames_ok b0" "free_set b0 = usable rs" using init_ok [OF assms(1), of hhdm mem] assms(2) by auto
  then have "held_ok (usable rs) (free_set b0) []" by (simp add: held_ok_def)
  from frame_run_ok [OF b0(1) this usable_range [OF assms(1)], of ops] have "frames_ok b" using assms(3) by auto
  from allocate_ok [OF this assms(4)] show ?thesis by auto
qed

text \<open>An example: two small regions, the second not aligned to pages.\<close>

definition demo_regions :: "(u64 \<times> u64) list" where
  "demo_regions = [(0x1000, 0x8000), (0x20100, 0x2000)]"

lemma demo_region_frames: "map region_frames demo_regions = [{1..<9}, {33..<34}]"
  by (simp add: demo_regions_def region_frames_def region_start_def region_end_def ceil_div_def PAGE_SIZE_def MAX_FRAMES_def) auto

lemma demo_regions_ok: "regions_ok demo_regions" "usable demo_regions = {1..<9} \<union> {33}"
proof -
  have "sorted_wrt (\<lambda>A B. A \<inter> B = {}) (map region_frames demo_regions)" "\<forall>A \<in> set (map region_frames demo_regions). 0 \<notin> A"
    "\<Union> (set (map region_frames demo_regions)) = {1..<9} \<union> {33}"
    unfolding demo_region_frames by auto
  then show "regions_ok demo_regions" "usable demo_regions = {1..<9} \<union> {33}"
    by (simp_all add: regions_ok_def usable_def sorted_wrt_map)
qed

theorem frame_allocator_sound_witness:
  "regions_ok demo_regions \<and> (\<exists>b0 b held. init_from_regions demo_regions (buddy_new 0xFFFF800000000000 (\<lambda>_. 0)) = Some b0 \<and>
     frame_run [FAlloc 2, FWrite 0xFFFF800000004000 7, FAlloc 0, FFree 0x4000 2, FAlloc 3] (b0, []) = Some (b, held) \<and>
     free_set b \<union> (\<Union>x \<in> set held. frames_of (block_at x)) = {1..<9} \<union> {33})"
proof -
  let ?ops = "[FAlloc 2, FWrite 0xFFFF800000004000 7, FAlloc 0, FFree 0x4000 2, FAlloc 3]"
  obtain b0 b held where "init_from_regions demo_regions (buddy_new 0xFFFF800000000000 (\<lambda>_. 0)) = Some b0" "frame_run ?ops (b0, []) = Some (b, held)"
    "free_set b \<union> (\<Union>x \<in> set held. frames_of (block_at x)) = usable demo_regions"
    using frame_allocator_sound [OF demo_regions_ok(1), of "0xFFFF800000000000" "\<lambda>_. 0" ?ops] by blast
  then show ?thesis using demo_regions_ok by blast
qed

theorem allocate_complete_witness:
  "\<exists>b0 b'. init_from_regions demo_regions (buddy_new 0 (\<lambda>_. 0)) = Some b0 \<and> (\<nexists>b'. allocate 2 b0 = Some (None, b')) \<and>
     allocate 3 b0 = Some (None, b')"
proof -
  obtain b0 where b0: "init_from_regions demo_regions (buddy_new 0 (\<lambda>_. 0)) = Some b0" "free_set b0 = {1..<9} \<union> {33}"
    using init_ok [OF demo_regions_ok(1), of 0 "\<lambda>_. 0"] unfolding demo_regions_ok(2) by blast
  have k: "(2 :: nat) \<le> MAX_ORDER" "(3 :: nat) \<le> MAX_ORDER" by (simp_all add: MAX_ORDER_def)
  have "frames_of (4, 2) = {4..<8}" by (simp add: frames_of_def)
  then have "aligned (4, 2)" "frames_of (4, 2) \<subseteq> free_set b0" using b0(2) by (auto simp: aligned_def)
  moreover have "\<not> frames_of (f, 3) \<subseteq> free_set b0" if "aligned (f, 3)" for f
  proof
    assume "frames_of (f, 3) \<subseteq> free_set b0"
    moreover have "f \<in> frames_of (f, 3)" "f + 7 \<in> frames_of (f, 3)" by (simp_all add: frames_of_def)
    ultimately have "f \<in> {1..<9} \<union> {33}" "f + 7 \<in> {1..<9} \<union> {33}" using b0(2) by blast+
    then have "f = 1" by auto
    then show False using that by (simp add: aligned_def)
  qed
  ultimately have "\<nexists>b'. allocate 2 b0 = Some (None, b')" "\<exists>b'. allocate 3 b0 = Some (None, b')"
    using allocate_complete [OF demo_regions_ok(1) b0(1), of "[]" b0 "[]"] k by auto
  then show ?thesis using b0(1) by blast
qed

end
