(* ===== verification/Handle_Table.thy ===== *)
theory Handle_Table
  imports Fabric_Types
begin

text \<open>
  The handle table of a process (\<^verbatim>\<open>kernel/src/handle/table.rs\<close>): 256 slots that map handles, which
  carry a slot and a generation (\<^verbatim>\<open>fabric_types/src/process.rs\<close>), to capability identifiers.
\<close>

section \<open>Handles\<close>

type_synonym handle_id = u64

definition HANDLE_INVALID :: handle_id where "HANDLE_INVALID = 0xFFFFFFFFFFFFFFFF"

definition handle_slot :: "handle_id \<Rightarrow> u8" where
  "handle_slot h = ucast (h AND 0xFF)"

definition handle_generation :: "handle_id \<Rightarrow> u16" where
  "handle_generation h = ucast (drop_bit 8 h AND 0xFFFF)"

definition handle_pack :: "u8 \<Rightarrow> u16 \<Rightarrow> handle_id" where
  "handle_pack slot gen = ucast slot OR push_bit 8 (ucast gen)"

section \<open>The table\<close>

definition MAX_HANDLES :: nat where "MAX_HANDLES = 256"

datatype handle_error = HandleTableFull | InvalidIndex | StaleGeneration | NotActive

record handle_entry =
  he_cap_id :: u64
  he_active :: bool
  he_generation :: u16

definition handle_entry_empty :: handle_entry where
  "handle_entry_empty = \<lparr>he_cap_id = 0, he_active = False, he_generation = 0\<rparr>"

record handle_table =
  ht_entries :: "handle_entry list"
  ht_count :: nat

definition handle_table_new :: handle_table where
  "handle_table_new = \<lparr>ht_entries = replicate MAX_HANDLES handle_entry_empty, ht_count = 0\<rparr>"

definition handle_alloc :: "handle_table \<Rightarrow> u64 \<Rightarrow> (handle_error + handle_id) \<times> handle_table" where
  "handle_alloc t cap_id =
     (case find_slot (\<lambda>e. \<not> he_active e) (ht_entries t) of
        None \<Rightarrow> (Inl HandleTableFull, t)
      | Some i \<Rightarrow>
          let e = ht_entries t ! i
          in (Inr (handle_pack (of_nat i) (he_generation e)),
              t\<lparr>ht_entries := (ht_entries t)[i := e\<lparr>he_cap_id := cap_id, he_active := True\<rparr>], ht_count := ht_count t + 1\<rparr>))"

text \<open>The checks that \<open>resolve\<close> and \<open>release\<close> share.\<close>

definition handle_check :: "handle_table \<Rightarrow> handle_id \<Rightarrow> handle_error + handle_entry" where
  "handle_check t h =
     (let slot = unat (handle_slot h)
      in if slot \<ge> MAX_HANDLES then Inl InvalidIndex
         else let e = ht_entries t ! slot
              in if \<not> he_active e then Inl NotActive
                 else if he_generation e \<noteq> handle_generation h then Inl StaleGeneration
                 else Inr e)"

definition handle_resolve :: "handle_table \<Rightarrow> handle_id \<Rightarrow> handle_error + u64" where
  "handle_resolve t h = (case handle_check t h of Inl err \<Rightarrow> Inl err | Inr e \<Rightarrow> Inr (he_cap_id e))"

definition handle_release :: "handle_table \<Rightarrow> handle_id \<Rightarrow> (handle_error + unit) \<times> handle_table" where
  "handle_release t h =
     (case handle_check t h of
        Inl err \<Rightarrow> (Inl err, t)
      | Inr e \<Rightarrow> (Inr (), t\<lparr>ht_entries := (ht_entries t)[unat (handle_slot h) :=
            e\<lparr>he_active := False, he_cap_id := 0, he_generation := he_generation e + 1\<rparr>], ht_count := ht_count t - 1\<rparr>))"

definition handle_is_active :: "handle_table \<Rightarrow> u8 \<Rightarrow> bool" where
  "handle_is_active t slot \<longleftrightarrow> unat slot < MAX_HANDLES \<and> he_active (ht_entries t ! unat slot)"

definition handle_clear :: "handle_table \<Rightarrow> handle_table" where
  "handle_clear t = \<lparr>ht_entries = map (\<lambda>_. handle_entry_empty) (ht_entries t), ht_count = 0\<rparr>"

section \<open>Slots with generations as a map\<close>

text \<open>
  The contract of a table of slots with generations, seen as a partial map from its live keys: an
  allocation adds a key that was not live, a release removes exactly one, and the table refuses to
  allocate only when it is full.
\<close>

locale key_store =
  fixes ok :: "'t \<Rightarrow> bool"
    and look :: "'t \<Rightarrow> 'k \<rightharpoonup> 'v"
    and alloc :: "'t \<Rightarrow> 'v \<Rightarrow> ('k \<times> 't) option"
    and free :: "'t \<Rightarrow> 'k \<Rightarrow> 't"
    and capacity :: nat
  assumes alloc_law: "ok t \<Longrightarrow> alloc t v = Some (k, t') \<Longrightarrow> ok t' \<and> look t k = None \<and> look t' = (look t)(k \<mapsto> v)"
    and alloc_full: "ok t \<Longrightarrow> alloc t v = None \<longleftrightarrow> card (dom (look t)) = capacity"
    and free_law: "ok t \<Longrightarrow> look t k = Some v \<Longrightarrow> ok (free t k) \<and> look (free t k) = (look t)(k := None)"
begin

lemma alloc_keeps: "ok t \<Longrightarrow> alloc t v = Some (k, t') \<Longrightarrow> look t j = Some w \<Longrightarrow> look t' j = Some w"
  using alloc_law [of t v k t'] by auto

lemma alloc_then_free: "ok t \<Longrightarrow> alloc t v = Some (k, t') \<Longrightarrow> look (free t' k) = look t"
  using alloc_law [of t v k t'] free_law [of t' k v] by (auto simp: fun_eq_iff)

lemma free_dead: "ok t \<Longrightarrow> look t k = Some v \<Longrightarrow> look (free t k) k = None"
  using free_law [of t k v] by simp

end

lemma take_bytes: "w AND 0xFF = take_bit 8 (w :: 'a::len word)" "w AND 0xFFFF = take_bit 16 (w :: 'a::len word)"
  by (simp_all add: take_bit_eq_mask mask_eq_exp_minus_1)

lemma handle_pack_simps [simp]: "handle_slot (handle_pack slot gen) = slot" "handle_generation (handle_pack slot gen) = gen"
  unfolding handle_slot_def handle_generation_def handle_pack_def take_bytes
  by (rule bit_word_eqI; auto simp: bit_simps dest: bit_imp_le_length)+

lemma handle_slot_less [simp]: "unat (handle_slot h) < MAX_HANDLES"
  using unat_bound [of "handle_slot h"] by (simp add: MAX_HANDLES_def)

text \<open>The live keys of a table, and the capability behind each.\<close>

type_synonym live_key = "nat \<times> u16"

definition handle_key :: "handle_id \<Rightarrow> live_key" where
  "handle_key h = (unat (handle_slot h), handle_generation h)"

definition handle_map :: "handle_table \<Rightarrow> live_key \<rightharpoonup> u64" where
  "handle_map t k =
     (if fst k < length (ht_entries t) \<and> he_active (ht_entries t ! fst k) \<and> he_generation (ht_entries t ! fst k) = snd k
      then Some (he_cap_id (ht_entries t ! fst k)) else None)"

definition handles_ok :: "handle_table \<Rightarrow> bool" where
  "handles_ok t \<longleftrightarrow> length (ht_entries t) = MAX_HANDLES \<and> ht_count t = length (filter he_active (ht_entries t))"

lemma handles_ok_new: "handles_ok handle_table_new" "handle_map handle_table_new = Map.empty"
  by (auto simp: handles_ok_def handle_table_new_def handle_entry_empty_def handle_map_def fun_eq_iff)

lemma dom_handle_map:
  "dom (handle_map t) = (\<lambda>i. (i, he_generation (ht_entries t ! i))) ` {i. i < length (ht_entries t) \<and> he_active (ht_entries t ! i)}"
  by (auto simp: handle_map_def image_iff split: if_splits)

lemma card_handle_map: "card (dom (handle_map t)) = length (filter he_active (ht_entries t))"
  unfolding dom_handle_map length_filter_conv_card by (rule card_image) (auto simp: inj_on_def)

lemma handle_map_update:
  "handle_map (t\<lparr>ht_entries := (ht_entries t)[i := e], ht_count := n\<rparr>) k =
     (if i < length (ht_entries t) \<and> fst k = i then (if he_active e \<and> he_generation e = snd k then Some (he_cap_id e) else None)
      else handle_map t k)"
  by (cases "fst k = i"; cases "i < length (ht_entries t)") (simp_all add: handle_map_def)

lemma handle_check_map:
  assumes "length (ht_entries t) = MAX_HANDLES"
  shows "handle_check t h =
    (let e = ht_entries t ! unat (handle_slot h)
     in if \<not> he_active e then Inl NotActive else if he_generation e \<noteq> handle_generation h then Inl StaleGeneration else Inr e)"
  using handle_slot_less [of h] by (simp add: handle_check_def Let_def not_le [symmetric])

lemma resolve_is_lookup:
  assumes "handles_ok t" shows "handle_resolve t h = Inr c \<longleftrightarrow> handle_map t (handle_key h) = Some c"
  using assms by (auto simp: handle_resolve_def handle_check_map handles_ok_def handle_map_def handle_key_def Let_def)

lemma handle_alloc_law:
  assumes "handles_ok t"
  shows "case handle_alloc t c of
      (Inl e, t') \<Rightarrow> e = HandleTableFull \<and> t' = t \<and> card (dom (handle_map t)) = MAX_HANDLES
    | (Inr h, t') \<Rightarrow> handles_ok t' \<and> handle_map t (handle_key h) = None \<and> handle_map t' = (handle_map t)(handle_key h \<mapsto> c) \<and>
        card (dom (handle_map t)) < MAX_HANDLES"
proof (cases "find_slot (\<lambda>e. \<not> he_active e) (ht_entries t)")
  case None
  then have "filter he_active (ht_entries t) = ht_entries t" by (simp add: find_slot_None)
  then show ?thesis using None assms by (simp add: handle_alloc_def card_handle_map handles_ok_def)
next
  case (Some i)
  let ?e = "ht_entries t ! i"
  have i: "i < length (ht_entries t)" "\<not> he_active ?e" using find_slot_SomeD [OF Some] by auto
  then have u: "unat (of_nat i :: u8) = i" using assms by (simp add: handles_ok_def MAX_HANDLES_def unat_of_nat)
  have "length (filter he_active ((ht_entries t)[i := ?e\<lparr>he_cap_id := c, he_active := True\<rparr>])) = Suc (length (filter he_active (ht_entries t)))"
    using i by (intro filter_update_absent) simp_all
  moreover have "length (filter he_active (ht_entries t)) < length (ht_entries t)"
    using i by (intro length_filter_less [of ?e]) simp_all
  ultimately show ?thesis
    using Some assms i u
    by (auto simp: handle_alloc_def Let_def handles_ok_def handle_map_update handle_key_def card_handle_map fun_eq_iff)
       (auto simp: handle_map_def)
qed

lemma handle_release_law:
  assumes "handles_ok t"
  shows "case handle_release t h of
      (Inl e, t') \<Rightarrow> t' = t \<and> handle_map t (handle_key h) = None
    | (Inr _, t') \<Rightarrow> handles_ok t' \<and> handle_map t (handle_key h) \<noteq> None \<and> handle_map t' = (handle_map t)(handle_key h := None)"
proof (cases "handle_map t (handle_key h)")
  case None
  then show ?thesis
    using assms by (auto simp: handle_release_def handle_check_map handles_ok_def handle_map_def handle_key_def Let_def split: if_splits)
next
  case (Some c)
  let ?i = "unat (handle_slot h)"
  let ?e = "ht_entries t ! ?i"
  have i: "?i < length (ht_entries t)" "he_active ?e" "he_generation ?e = handle_generation h"
    using Some by (auto simp: handle_map_def handle_key_def split: if_splits)
  have "Suc (length (filter he_active ((ht_entries t)[?i := ?e\<lparr>he_active := False, he_cap_id := 0, he_generation := he_generation ?e + 1\<rparr>]))) =
      length (filter he_active (ht_entries t))"
    using i by (intro filter_update_present) simp_all
  then have cnt: "length (filter he_active ((ht_entries t)[?i := ?e\<lparr>he_active := False, he_cap_id := 0, he_generation := he_generation ?e + 1\<rparr>])) =
      length (filter he_active (ht_entries t)) - 1"
    by linarith
  have "handle_release t h = (Inr (), t\<lparr>ht_entries := (ht_entries t)[?i :=
      ?e\<lparr>he_active := False, he_cap_id := 0, he_generation := he_generation ?e + 1\<rparr>], ht_count := ht_count t - 1\<rparr>)"
    using assms i by (simp add: handle_release_def handle_check_map handles_ok_def Let_def)
  moreover have "handle_map (t\<lparr>ht_entries := (ht_entries t)[?i :=
      ?e\<lparr>he_active := False, he_cap_id := 0, he_generation := he_generation ?e + 1\<rparr>], ht_count := ht_count t - 1\<rparr>) =
      (handle_map t)(handle_key h := None)"
  proof
    fix k show "handle_map (t\<lparr>ht_entries := (ht_entries t)[?i :=
      ?e\<lparr>he_active := False, he_cap_id := 0, he_generation := he_generation ?e + 1\<rparr>], ht_count := ht_count t - 1\<rparr>) k =
      ((handle_map t)(handle_key h := None)) k"
      unfolding handle_map_update using i by (cases k) (auto simp: handle_key_def handle_map_def)
  qed
  ultimately show ?thesis using assms cnt Some by (simp add: handles_ok_def)
qed

text \<open>The operations of the kernel on keys instead of handles, for the interpretation.\<close>

definition key_handle :: "live_key \<Rightarrow> handle_id" where
  "key_handle k = handle_pack (of_nat (fst k)) (snd k)"

definition alloc_key :: "handle_table \<Rightarrow> u64 \<Rightarrow> (live_key \<times> handle_table) option" where
  "alloc_key t c = (case handle_alloc t c of (Inl _, _) \<Rightarrow> None | (Inr h, t') \<Rightarrow> Some (handle_key h, t'))"

definition free_key :: "handle_table \<Rightarrow> live_key \<Rightarrow> handle_table" where
  "free_key t k = snd (handle_release t (key_handle k))"

lemma handle_key_inverse: "handle_map t k = Some v \<Longrightarrow> handles_ok t \<Longrightarrow> handle_key (key_handle k) = k"
  by (cases k) (auto simp: handle_key_def key_handle_def handle_map_def handles_ok_def MAX_HANDLES_def unat_of_nat split: if_splits)

interpretation hs: key_store handles_ok handle_map alloc_key free_key MAX_HANDLES
proof unfold_locales
  fix t v k t' assume "handles_ok t" "alloc_key t v = Some (k, t')"
  then show "handles_ok t' \<and> handle_map t k = None \<and> handle_map t' = (handle_map t)(k \<mapsto> v)"
    using handle_alloc_law [of t v] by (auto simp: alloc_key_def split: prod.splits sum.splits)
next
  fix t v assume "handles_ok t"
  then show "alloc_key t v = None \<longleftrightarrow> card (dom (handle_map t)) = MAX_HANDLES"
    using handle_alloc_law [of t v] by (auto simp: alloc_key_def split: prod.splits sum.splits)
next
  fix t k v assume a: "handles_ok t" "handle_map t k = Some v"
  then have "handle_key (key_handle k) = k" by (intro handle_key_inverse)
  then show "handles_ok (free_key t k) \<and> handle_map (free_key t k) = (handle_map t)(k := None)"
    using handle_release_law [OF a(1), of "key_handle k"] a(2) by (auto simp: free_key_def split: prod.splits sum.splits)
qed

text \<open>A handle opened and closed again leaves every other handle as it was, and is itself refused afterwards.\<close>

lemma handle_open_close:
  assumes "handles_ok t" "alloc_key t c = Some (k, t')"
  shows "handle_map (free_key t' k) = handle_map t" "handle_resolve (free_key t' k) (key_handle k) \<noteq> Inr v"
proof -
  have k: "handle_map t' k = Some c" "handles_ok t'" using hs.alloc_law [OF assms] by simp_all
  show "handle_map (free_key t' k) = handle_map t" by (rule hs.alloc_then_free [OF assms])
  show "handle_resolve (free_key t' k) (key_handle k) \<noteq> Inr v"
    using hs.free_law [OF k(2,1)] hs.free_dead [OF k(2,1)] resolve_is_lookup handle_key_inverse [OF k] by simp
qed

text \<open>
  A handle table is a map from live handles to capabilities. Allocation fails exactly when all
  256 slots are taken; otherwise it returns a handle that was not live and adds just that one.
  Releasing removes just that handle and fails for one that is not live, and a handle resolves
  exactly if it is live. The count is the number of live handles.
\<close>

theorem handle_table_is_map:
  assumes "handles_ok t"
  shows "(case handle_alloc t c of
        (Inl e, t') \<Rightarrow> e = HandleTableFull \<and> t' = t \<and> ht_count t = MAX_HANDLES
      | (Inr h, t') \<Rightarrow> handles_ok t' \<and> handle_map t (handle_key h) = None \<and> handle_map t' = (handle_map t)(handle_key h \<mapsto> c)) \<and>
    (case handle_release t h of
        (Inl e, t') \<Rightarrow> t' = t \<and> handle_map t (handle_key h) = None
      | (Inr _, t') \<Rightarrow> handles_ok t' \<and> handle_map t (handle_key h) \<noteq> None \<and> handle_map t' = (handle_map t)(handle_key h := None)) \<and>
    (handle_resolve t h = Inr v \<longleftrightarrow> handle_map t (handle_key h) = Some v) \<and>
    ht_count t = card (dom (handle_map t))"
proof -
  have n: "ht_count t = card (dom (handle_map t))" using assms by (simp add: card_handle_map handles_ok_def)
  then have "case handle_alloc t c of
        (Inl e, t') \<Rightarrow> e = HandleTableFull \<and> t' = t \<and> ht_count t = MAX_HANDLES
      | (Inr h, t') \<Rightarrow> handles_ok t' \<and> handle_map t (handle_key h) = None \<and> handle_map t' = (handle_map t)(handle_key h \<mapsto> c)"
    using handle_alloc_law [OF assms, of c] by (auto split: prod.splits sum.splits)
  then show ?thesis by (intro conjI n handle_release_law [OF assms] resolve_is_lookup [OF assms])
qed

text \<open>Slot 0 of a fresh table: the capability is found through the first handle, whose bits above the 24 used ones do not matter.\<close>

theorem handle_table_is_map_witness:
  "handles_ok (snd (handle_alloc handle_table_new 7)) \<and> handle_resolve (snd (handle_alloc handle_table_new 7)) 0x1000000 = Inr 7"
proof -
  have ok: "handles_ok (snd (handle_alloc handle_table_new 7))" by code_simp
  have "handle_map (snd (handle_alloc handle_table_new 7)) (handle_key 0x1000000) = Some 7" by code_simp
  then show ?thesis using ok handle_table_is_map [OF ok, of 0 "0x1000000" 7] by blast
qed

section \<open>Stale handles\<close>

datatype handle_op = OpenHandle u64 | CloseHandle handle_id

fun handle_step :: "handle_op \<Rightarrow> handle_table \<Rightarrow> handle_table" where
  "handle_step (OpenHandle c) t = snd (handle_alloc t c)"
| "handle_step (CloseHandle h) t = snd (handle_release t h)"

fun is_close :: "handle_op \<Rightarrow> bool" where
  "is_close (OpenHandle c) = False"
| "is_close (CloseHandle h) = True"

text \<open>A slot whose generation has been raised \<open>k\<close> times.\<close>

definition aged :: "u16 \<Rightarrow> nat \<Rightarrow> nat \<Rightarrow> handle_table \<Rightarrow> bool" where
  "aged gen slot k t \<longleftrightarrow> length (ht_entries t) = MAX_HANDLES \<and> he_generation (ht_entries t ! slot) = gen + of_nat k"

lemma aged_step:
  assumes "aged gen slot k t" "slot < MAX_HANDLES"
  shows "\<exists>k'. aged gen slot k' (handle_step c t) \<and> k \<le> k' \<and> k' \<le> k + (if is_close c then 1 else 0)"
proof (cases c)
  case (OpenHandle cap)
  then show ?thesis
    using assms by (intro exI [of _ k])
      (auto simp: aged_def handle_alloc_def Let_def nth_list_update split: option.split dest: find_slot_SomeD)
next
  case (CloseHandle h)
  show ?thesis
  proof (cases "\<exists>e. handle_check t h = Inr e \<and> unat (handle_slot h) = slot")
    case True
    then show ?thesis
      using assms CloseHandle by (intro exI [of _ "Suc k"])
        (auto simp: aged_def handle_release_def handle_check_map Let_def algebra_simps split: if_splits)
  next
    case False
    then show ?thesis
      using assms CloseHandle by (intro exI [of _ k]) (auto simp: aged_def handle_release_def nth_list_update split: sum.split)
  qed
qed

lemma aged_run:
  "aged gen slot k t \<Longrightarrow> slot < MAX_HANDLES \<Longrightarrow>
   \<exists>k'. aged gen slot k' (fold handle_step ops t) \<and> k \<le> k' \<and> k' \<le> k + length (filter is_close ops)"
proof (induction ops arbitrary: t k)
  case (Cons c ops)
  obtain k1 where k1: "aged gen slot k1 (handle_step c t)" "k \<le> k1" "k1 \<le> k + (if is_close c then 1 else 0)"
    using aged_step [OF Cons.prems, of c] by blast
  obtain k2 where "aged gen slot k2 (fold handle_step ops (handle_step c t))" "k1 \<le> k2" "k2 \<le> k1 + length (filter is_close ops)"
    using Cons.IH [OF k1(1) Cons.prems(2)] by blast
  then show ?case using k1(2,3) by (intro exI [of _ k2]) (auto split: if_splits)
qed auto

text \<open>
  C25. A handle that was released is refused ever after, whatever handles are opened and closed in
  the meantime, as long as fewer than 65535 of them are closed: its slot may be in use again, for
  another capability, but under another generation.
\<close>

theorem released_handle_stays_dead:
  assumes "handles_ok t" "handle_release t h = (Inr (), t1)" "length (filter is_close ops) < 65535"
  shows "handle_resolve (fold handle_step ops t1) h \<in> {Inl NotActive, Inl StaleGeneration}"
proof -
  let ?slot = "unat (handle_slot h)"
  have len: "length (ht_entries t) = MAX_HANDLES" using assms(1) by (simp add: handles_ok_def)
  then have "aged (handle_generation h) ?slot 1 t1"
    using assms(2) by (auto simp: handle_release_def handle_check_map aged_def Let_def split: if_splits)
  then obtain k where k: "aged (handle_generation h) ?slot k (fold handle_step ops t1)" "1 \<le> k" "k < 65536"
    using aged_run [of _ ?slot 1 t1 ops] assms(3) by fastforce
  have "unat (of_nat k :: u16) = k" using k(3) by (simp add: unat_of_nat)
  then have "of_nat k \<noteq> (0 :: u16)" using k(2) by (cases "of_nat k = (0 :: u16)") simp_all
  then show ?thesis using k(1) by (auto simp: aged_def handle_resolve_def handle_check_map Let_def)
qed

theorem released_handle_stays_dead_witness:
  "handle_resolve (fold handle_step [OpenHandle 8, OpenHandle 9, CloseHandle 1]
     (snd (handle_release (snd (handle_alloc handle_table_new 7)) 0))) 0 \<in> {Inl NotActive, Inl StaleGeneration}"
proof -
  have ok: "handles_ok (snd (handle_alloc handle_table_new 7))" by code_simp
  have "fst (handle_release (snd (handle_alloc handle_table_new 7)) 0) = Inr ()" by code_simp
  then have "handle_release (snd (handle_alloc handle_table_new 7)) 0 =
      (Inr (), snd (handle_release (snd (handle_alloc handle_table_new 7)) 0))"
    by (metis prod.collapse)
  then show ?thesis by (intro released_handle_stays_dead [OF ok]) simp_all
qed

end
