(* ===== verification/Process_Table.thy ===== *)
theory Process_Table
  imports Handle_Table Frame_Alloc "HOL-Library.Finite_Map"
begin

text \<open>
  Process control blocks and the process table (\<^verbatim>\<open>kernel/src/process/pcb.rs\<close>, \<^verbatim>\<open>table.rs\<close>), with the
  types of \<^verbatim>\<open>fabric_types/src/process.rs\<close> that they use and the restart tracker of
  \<^verbatim>\<open>supervisor.rs\<close>. A \<open>BTreeMap\<close> is a finite map; changing an entry that \<open>get_mut\<close> returned is
  \<open>pt_modify\<close>.
\<close>

section \<open>Intents and states\<close>

datatype intent_category = Compute | Io | Network | Storage | Display | Ai

datatype priority = Background | Low | Normal | High | Critical

fun priority_u8 :: "priority \<Rightarrow> u8" where
  "priority_u8 Background = 0"
| "priority_u8 Low = 1"
| "priority_u8 Normal = 2"
| "priority_u8 High = 3"
| "priority_u8 Critical = 4"

definition priority_from_u8 :: "u8 \<Rightarrow> priority" where
  "priority_from_u8 v = (if v = 0 then Background else if v = 1 then Low else if v = 2 then Normal else if v = 3 then High else Critical)"

datatype process_state = Ready | Running | Blocked | Suspended | Terminated

datatype energy_class = Battery | Balanced | Performance

datatype supervision_strategy = OneForOne | OneForAll | RestForOne

record intent =
  in_category :: intent_category
  in_priority :: priority
  in_energy_class :: energy_class
  in_deadline :: u64

definition intent_default :: intent where
  "intent_default = \<lparr>in_category = Compute, in_priority = Normal, in_energy_class = Balanced, in_deadline = 0\<rparr>"

lemma priority_from_to_u8: "priority_from_u8 (priority_u8 p) = p"
  by (cases p) (simp_all add: priority_from_u8_def)

lemma priority_u8_le: "priority_u8 p \<le> 4"
  by (cases p) simp_all

section \<open>Restart tracker\<close>

definition DEFAULT_MAX_RESTARTS :: u32 where "DEFAULT_MAX_RESTARTS = 5"
definition DEFAULT_INTENSITY_WINDOW :: u64 where "DEFAULT_INTENSITY_WINDOW = 60"

record restart_tracker =
  rt_max_restarts :: u32
  rt_window_ticks :: u64
  rt_timestamps :: "u64 list"

definition tracker_new :: "u32 \<Rightarrow> u64 \<Rightarrow> restart_tracker" where
  "tracker_new max_restarts window_ticks = \<lparr>rt_max_restarts = max_restarts, rt_window_ticks = window_ticks, rt_timestamps = []\<rparr>"

definition tracker_default :: restart_tracker where
  "tracker_default = tracker_new DEFAULT_MAX_RESTARTS DEFAULT_INTENSITY_WINDOW"

text \<open>The flag says whether the intensity has been exceeded.\<close>

definition record_restart :: "restart_tracker \<Rightarrow> u64 \<Rightarrow> bool \<times> restart_tracker" where
  "record_restart r now =
     (let stamps = filter (\<lambda>ts. saturating_sub now ts < rt_window_ticks r) (rt_timestamps r) @ [now]
      in (length stamps > unat (rt_max_restarts r), r\<lparr>rt_timestamps := stamps\<rparr>))"

definition recent_count :: "restart_tracker \<Rightarrow> u64 \<Rightarrow> u32" where
  "recent_count r now = of_nat (length (filter (\<lambda>ts. saturating_sub now ts < rt_window_ticks r) (rt_timestamps r)))"

definition tracker_clear :: "restart_tracker \<Rightarrow> restart_tracker" where
  "tracker_clear r = r\<lparr>rt_timestamps := []\<rparr>"

section \<open>Process control blocks\<close>

datatype exit_reason = ExitNormal | ExitCrash | ExitKilled | ExitIntensityExceeded

record behavioral_profile =
  bp_total_ticks_run :: u64
  bp_total_bursts :: u64
  bp_avg_burst_ticks :: u32
  bp_total_messages_sent :: u64
  bp_total_memory_allocated :: u64
  bp_anomaly_score :: u32
  bp_last_updated :: u64

definition profile_new :: behavioral_profile where
  "profile_new = \<lparr>bp_total_ticks_run = 0, bp_total_bursts = 0, bp_avg_burst_ticks = 0, bp_total_messages_sent = 0,
     bp_total_memory_allocated = 0, bp_anomaly_score = 0, bp_last_updated = 0\<rparr>"

record address_space =
  as_pml4_phys :: phys_addr
  as_pml4_virt :: virt_addr
  as_user_page_count :: nat
  as_active :: bool

record pcb =
  pcb_pid :: process_id
  pcb_intent :: intent
  pcb_description :: string
  pcb_state :: process_state
  pcb_effective_priority :: u8
  pcb_base_priority :: u8
  pcb_time_slice_remaining :: u32
  pcb_total_ticks_run :: u64
  pcb_blocked_on :: "process_id option"
  pcb_last_scheduled :: u64
  pcb_wake_tick :: u64
  pcb_capabilities :: "u64 list"
  pcb_supervisor :: process_id
  pcb_children :: "process_id list"
  pcb_strategy :: supervision_strategy
  pcb_spawn_order :: u32
  pcb_restart_tracker :: restart_tracker
  pcb_profile :: behavioral_profile
  pcb_exit_reason :: "exit_reason option"
  pcb_created_at :: u64
  pcb_handle_table :: handle_table
  pcb_address_space :: "address_space option"
  pcb_saved_rsp :: u64
  pcb_kernel_stack_base :: "virt_addr option"
  pcb_kernel_stack_top :: u64
  pcb_has_run :: bool
  pcb_is_user :: bool
  pcb_exit_code :: u64

definition pcb_new ::
  "process_id \<Rightarrow> intent \<Rightarrow> string \<Rightarrow> process_id \<Rightarrow> supervision_strategy \<Rightarrow> u32 \<Rightarrow> u64 \<Rightarrow> pcb" where
  "pcb_new pid intent description supervisor strategy spawn_order created_at =
     \<lparr>pcb_pid = pid, pcb_intent = intent, pcb_description = description, pcb_state = Ready,
      pcb_effective_priority = priority_u8 (in_priority intent), pcb_base_priority = priority_u8 (in_priority intent),
      pcb_time_slice_remaining = 0, pcb_total_ticks_run = 0, pcb_blocked_on = None, pcb_last_scheduled = 0,
      pcb_wake_tick = 0, pcb_capabilities = [], pcb_supervisor = supervisor, pcb_children = [],
      pcb_strategy = strategy, pcb_spawn_order = spawn_order, pcb_restart_tracker = tracker_default,
      pcb_profile = profile_new, pcb_exit_reason = None, pcb_created_at = created_at,
      pcb_handle_table = handle_table_new, pcb_address_space = None, pcb_saved_rsp = 0,
      pcb_kernel_stack_base = None, pcb_kernel_stack_top = 0, pcb_has_run = False, pcb_is_user = False,
      pcb_exit_code = 0\<rparr>"

definition reset_for_restart :: "u64 \<Rightarrow> pcb \<Rightarrow> pcb" where
  "reset_for_restart now p =
     p\<lparr>pcb_state := Ready, pcb_effective_priority := pcb_base_priority p, pcb_time_slice_remaining := 0,
       pcb_blocked_on := None, pcb_last_scheduled := 0, pcb_wake_tick := 0, pcb_profile := profile_new,
       pcb_exit_reason := None, pcb_created_at := now, pcb_handle_table := handle_clear (pcb_handle_table p),
       pcb_saved_rsp := 0, pcb_has_run := False\<rparr>"

section \<open>The process table\<close>

definition TABLE_MAX_PROCESSES :: nat where "TABLE_MAX_PROCESSES = 1024"

datatype process_error = ProcTableFull | ProcNotFound | ProcAlreadyExists | ProcInvalidState | ProcSupervisorNotFound
  | ProcMaxChildrenReached | ProcIntensityExceeded | ProcNotSupervisor | ProcInvalidPid | ProcBusRegistrationFailed

record process_table =
  pt_processes :: "(process_id, pcb) fmap"
  pt_next_pid :: process_id

definition pt_new :: process_table where
  "pt_new = \<lparr>pt_processes = fmempty, pt_next_pid = 1\<rparr>"

definition alloc_pid :: "process_table \<Rightarrow> process_id \<times> process_table" where
  "alloc_pid t = (pt_next_pid t, t\<lparr>pt_next_pid := pt_next_pid t + 1\<rparr>)"

abbreviation pt_get :: "process_table \<Rightarrow> process_id \<Rightarrow> pcb option" where
  "pt_get t \<equiv> fmlookup (pt_processes t)"

definition pt_count :: "process_table \<Rightarrow> nat" where
  "pt_count t = fcard (fmdom (pt_processes t))"

definition pt_contains :: "process_table \<Rightarrow> process_id \<Rightarrow> bool" where
  "pt_contains t pid \<longleftrightarrow> pt_get t pid \<noteq> None"

definition pt_insert :: "process_table \<Rightarrow> pcb \<Rightarrow> (process_error + unit) \<times> process_table" where
  "pt_insert t p =
     (if pt_count t \<ge> TABLE_MAX_PROCESSES then (Inl ProcTableFull, t)
      else if pt_contains t (pcb_pid p) then (Inl ProcAlreadyExists, t)
      else (Inr (), t\<lparr>pt_processes := fmupd (pcb_pid p) p (pt_processes t)\<rparr>))"

definition pt_modify :: "process_id \<Rightarrow> (pcb \<Rightarrow> pcb) \<Rightarrow> process_table \<Rightarrow> process_table" where
  "pt_modify pid f t =
     (case pt_get t pid of None \<Rightarrow> t | Some p \<Rightarrow> t\<lparr>pt_processes := fmupd pid (f p) (pt_processes t)\<rparr>)"

definition pt_remove :: "process_table \<Rightarrow> process_id \<Rightarrow> pcb option \<times> process_table" where
  "pt_remove t pid = (pt_get t pid, t\<lparr>pt_processes := fmdrop pid (pt_processes t)\<rparr>)"

definition pt_clear :: "process_table \<Rightarrow> process_table" where
  "pt_clear t = pt_new"

lemma pt_get_modify:
  "pt_get (pt_modify pid f t) q = (if q = pid then map_option f (pt_get t q) else pt_get t q)"
  by (simp add: pt_modify_def split: option.split)

lemma pt_modify_next [simp]: "pt_next_pid (pt_modify pid f t) = pt_next_pid t"
  by (simp add: pt_modify_def split: option.split)

section \<open>Handles of a process (\<^verbatim>\<open>handle/mod.rs\<close>)\<close>

definition alloc_handle :: "process_table \<Rightarrow> process_id \<Rightarrow> u64 \<Rightarrow> (handle_error + handle_id) \<times> process_table" where
  "alloc_handle t pid cap_id =
     (case pt_get t pid of
        None \<Rightarrow> (Inl NotActive, t)
      | Some p \<Rightarrow> let (r, ht) = handle_alloc (pcb_handle_table p) cap_id
                  in (r, pt_modify pid (\<lambda>p. p\<lparr>pcb_handle_table := ht\<rparr>) t))"

definition resolve_handle :: "process_table \<Rightarrow> process_id \<Rightarrow> handle_id \<Rightarrow> handle_error + u64" where
  "resolve_handle t pid h = (case pt_get t pid of None \<Rightarrow> Inl NotActive | Some p \<Rightarrow> handle_resolve (pcb_handle_table p) h)"

definition release_handle :: "process_table \<Rightarrow> process_id \<Rightarrow> handle_id \<Rightarrow> (handle_error + unit) \<times> process_table" where
  "release_handle t pid h =
     (case pt_get t pid of
        None \<Rightarrow> (Inl NotActive, t)
      | Some p \<Rightarrow> let (r, ht) = handle_release (pcb_handle_table p) h
                  in (r, pt_modify pid (\<lambda>p. p\<lparr>pcb_handle_table := ht\<rparr>) t))"

definition handle_count :: "process_table \<Rightarrow> process_id \<Rightarrow> nat" where
  "handle_count t pid = (case pt_get t pid of None \<Rightarrow> 0 | Some p \<Rightarrow> ht_count (pcb_handle_table p))"

end
