(* ===== verification/Scheduler.thy ===== *)
theory Scheduler
  imports Process_Table
begin

text \<open>
  The scheduler (\<^verbatim>\<open>kernel/src/process/scheduler.rs\<close>): five run queues, the current process, and the
  rules for choosing, aging and boosting processes.
\<close>

definition SLICE_CRITICAL :: u32 where "SLICE_CRITICAL = 20"
definition SLICE_HIGH :: u32 where "SLICE_HIGH = 15"
definition SLICE_NORMAL :: u32 where "SLICE_NORMAL = 10"
definition SLICE_LOW :: u32 where "SLICE_LOW = 5"
definition SLICE_BACKGROUND :: u32 where "SLICE_BACKGROUND = 2"
definition AGING_INTERVAL :: u64 where "AGING_INTERVAL = 100"
definition DEADLINE_URGENCY :: u64 where "DEADLINE_URGENCY = 10"
definition NUM_LEVELS :: nat where "NUM_LEVELS = 5"

definition slice_for_priority :: "u8 \<Rightarrow> u32" where
  "slice_for_priority p =
     (if p = 4 then SLICE_CRITICAL else if p = 3 then SLICE_HIGH else if p = 2 then SLICE_NORMAL
      else if p = 1 then SLICE_LOW else SLICE_BACKGROUND)"

record scheduler =
  sc_queues :: "process_id list list"
  sc_current :: "process_id option"
  sc_tick :: u64
  sc_total_decisions :: u64

definition sched_new :: scheduler where
  "sched_new = \<lparr>sc_queues = [[], [], [], [], []], sc_current = None, sc_tick = 0, sc_total_decisions = 0\<rparr>"

definition sched_tick :: "scheduler \<Rightarrow> scheduler" where
  "sched_tick s = s\<lparr>sc_tick := sc_tick s + 1\<rparr>"

definition sched_advance_ticks :: "scheduler \<Rightarrow> u64 \<Rightarrow> scheduler" where
  "sched_advance_ticks s n = s\<lparr>sc_tick := sc_tick s + n\<rparr>"

definition level_of :: "u8 \<Rightarrow> nat" where
  "level_of effective_priority = min (unat effective_priority) (NUM_LEVELS - 1)"

definition enqueue :: "process_id \<Rightarrow> u8 \<Rightarrow> scheduler \<Rightarrow> scheduler" where
  "enqueue pid effective_priority s =
     (let level = level_of effective_priority
      in if pid \<in> set (sc_queues s ! level) then s
         else s\<lparr>sc_queues := (sc_queues s)[level := sc_queues s ! level @ [pid]]\<rparr>)"

definition dequeue :: "process_id \<Rightarrow> scheduler \<Rightarrow> scheduler" where
  "dequeue pid s =
     (let s' = s\<lparr>sc_queues := map (filter (\<lambda>p. p \<noteq> pid)) (sc_queues s)\<rparr>
      in if sc_current s' = Some pid then s'\<lparr>sc_current := None\<rparr> else s')"

section \<open>Choosing a process\<close>

text \<open>The current process that is to go on.\<close>

definition keeps_running :: "scheduler \<Rightarrow> process_table \<Rightarrow> process_id option" where
  "keeps_running s t =
     (case sc_current s of
        None \<Rightarrow> None
      | Some pid \<Rightarrow> (case pt_get t pid of
           None \<Rightarrow> None
         | Some p \<Rightarrow> if pcb_state p = Running \<and> pcb_time_slice_remaining p > 0 then Some pid else None))"

definition put_back :: "scheduler \<Rightarrow> process_table \<Rightarrow> scheduler \<times> process_table" where
  "put_back s t =
     (case sc_current s of
        None \<Rightarrow> (s, t)
      | Some pid \<Rightarrow>
          let s1 = s\<lparr>sc_current := None\<rparr>
          in (case pt_get t pid of
                None \<Rightarrow> (s1, t)
              | Some p \<Rightarrow>
                  if pcb_state p = Running
                  then (enqueue pid (pcb_effective_priority p) s1, pt_modify pid (\<lambda>p. p\<lparr>pcb_state := Ready\<rparr>) t)
                  else (s1, t)))"

definition set_running :: "u64 \<Rightarrow> pcb \<Rightarrow> pcb" where
  "set_running now p =
     p\<lparr>pcb_state := Running, pcb_time_slice_remaining := slice_for_priority (pcb_effective_priority p),
       pcb_last_scheduled := now\<rparr>"

text \<open>The levels below the given one, from the highest down.\<close>

fun pick_level :: "nat \<Rightarrow> scheduler \<Rightarrow> process_table \<Rightarrow> process_id option \<times> scheduler \<times> process_table" where
  "pick_level 0 s t = (None, s, t)"
| "pick_level (Suc level) s t =
     (case sc_queues s ! level of
        [] \<Rightarrow> pick_level level s t
      | pid # rest \<Rightarrow>
          let s1 = s\<lparr>sc_queues := (sc_queues s)[level := rest]\<rparr>
          in (case pt_get t pid of
                None \<Rightarrow> pick_level level s1 t
              | Some p \<Rightarrow>
                  (Some pid, s1\<lparr>sc_current := Some pid, sc_total_decisions := sc_total_decisions s1 + 1\<rparr>,
                   pt_modify pid (set_running (sc_tick s1)) t)))"

definition sched_next :: "scheduler \<Rightarrow> process_table \<Rightarrow> process_id option \<times> scheduler \<times> process_table" where
  "sched_next s t =
     (case keeps_running s t of
        Some pid \<Rightarrow> (Some pid, s, t)
      | None \<Rightarrow> (let (s1, t1) = put_back s t in pick_level NUM_LEVELS s1 t1))"

section \<open>Aging, boosts and time slices\<close>

definition starved :: "u64 \<Rightarrow> pcb \<Rightarrow> bool" where
  "starved now p \<longleftrightarrow> pcb_state p = Ready \<and> saturating_sub now (pcb_last_scheduled p) \<ge> AGING_INTERVAL \<and>
     unat (pcb_effective_priority p) < NUM_LEVELS - 1"

definition aging_at :: "scheduler \<Rightarrow> process_table \<Rightarrow> nat \<Rightarrow> (process_id \<times> nat \<times> u8) list" where
  "aging_at s t level =
     List.map_filter (\<lambda>pid. case pt_get t pid of
         None \<Rightarrow> None
       | Some p \<Rightarrow> if starved (sc_tick s) p then Some (pid, level, pcb_effective_priority p + 1) else None)
       (sc_queues s ! level)"

definition aging_candidates :: "scheduler \<Rightarrow> process_table \<Rightarrow> (process_id \<times> nat \<times> u8) list" where
  "aging_candidates s t = concat (map (aging_at s t) [0..<NUM_LEVELS - 1])"

fun age_one :: "process_id \<times> nat \<times> u8 \<Rightarrow> scheduler \<times> process_table \<Rightarrow> scheduler \<times> process_table" where
  "age_one (pid, old_level, new_priority) (s, t) =
     (let s1 = s\<lparr>sc_queues := (sc_queues s)[old_level := filter (\<lambda>p. p \<noteq> pid) (sc_queues s ! old_level)]\<rparr>;
          new_level = level_of new_priority
      in (s1\<lparr>sc_queues := (sc_queues s1)[new_level := sc_queues s1 ! new_level @ [pid]]\<rparr>,
          pt_modify pid (\<lambda>p. p\<lparr>pcb_effective_priority := new_priority\<rparr>) t))"

definition run_aging :: "scheduler \<Rightarrow> process_table \<Rightarrow> scheduler \<times> process_table" where
  "run_aging s t = fold age_one (aging_candidates s t) (s, t)"

definition background_cap :: "pcb \<Rightarrow> pcb" where
  "background_cap p =
     (if in_category (pcb_intent p) = Compute \<and> in_priority (pcb_intent p) = Background
      then p\<lparr>pcb_effective_priority := min (pcb_effective_priority p) (priority_u8 Low)\<rparr> else p)"

definition raise_by_one :: "pcb \<Rightarrow> pcb" where
  "raise_by_one p = p\<lparr>pcb_effective_priority := min (pcb_effective_priority p + 1) (priority_u8 Critical)\<rparr>"

definition io_boost :: "u64 \<Rightarrow> pcb \<Rightarrow> pcb" where
  "io_boost now p = (if in_category (pcb_intent p) \<in> {Io, Network, Storage} \<and> pcb_wake_tick p = now then raise_by_one p else p)"

definition display_boost :: "u64 \<Rightarrow> pcb \<Rightarrow> pcb" where
  "display_boost now p =
     (if in_category (pcb_intent p) = Display \<and> saturating_sub now (pcb_wake_tick p) < 5 then raise_by_one p else p)"

definition deadline_boost :: "u64 \<Rightarrow> pcb \<Rightarrow> pcb" where
  "deadline_boost now p =
     (if in_deadline (pcb_intent p) > 0 \<and> saturating_sub (in_deadline (pcb_intent p)) now \<le> DEADLINE_URGENCY
      then p\<lparr>pcb_effective_priority := priority_u8 Critical\<rparr> else p)"

definition apply_intent_boost :: "scheduler \<Rightarrow> pcb \<Rightarrow> pcb" where
  "apply_intent_boost s p = deadline_boost (sc_tick s) (display_boost (sc_tick s) (io_boost (sc_tick s) (background_cap p)))"

definition use_tick :: "pcb \<Rightarrow> pcb" where
  "use_tick p =
     p\<lparr>pcb_time_slice_remaining := pcb_time_slice_remaining p - 1, pcb_total_ticks_run := pcb_total_ticks_run p + 1,
       pcb_profile := (pcb_profile p)\<lparr>bp_total_ticks_run := bp_total_ticks_run (pcb_profile p) + 1\<rparr>\<rparr>"

definition consume_tick :: "scheduler \<Rightarrow> process_table \<Rightarrow> bool \<times> process_table" where
  "consume_tick s t =
     (case sc_current s of
        None \<Rightarrow> (False, t)
      | Some pid \<Rightarrow> (case pt_get t pid of
           None \<Rightarrow> (False, t)
         | Some p \<Rightarrow> if pcb_time_slice_remaining p > 0
                     then (pcb_time_slice_remaining p - 1 > 0, pt_modify pid use_tick t) else (False, t)))"

definition sched_clear :: "scheduler \<Rightarrow> scheduler" where
  "sched_clear s = s\<lparr>sc_queues := map (\<lambda>_. []) (sc_queues s), sc_current := None, sc_tick := 0, sc_total_decisions := 0\<rparr>"

definition queued_count :: "scheduler \<Rightarrow> nat" where
  "queued_count s = sum_list (map length (sc_queues s))"

definition queue_at :: "scheduler \<Rightarrow> u8 \<Rightarrow> process_id list" where
  "queue_at s level = sc_queues s ! level_of level"

end
