(* ===== verification/Supervisor.thy ===== *)
theory Supervisor
  imports Scheduler
begin

text \<open>
  The supervision tree (\<^verbatim>\<open>kernel/src/process/supervisor.rs\<close>): what happens to the children of a
  supervisor when one of them crashes, and the escalation to the supervisor's own supervisor when
  there were too many restarts.
\<close>

definition restart_process :: "u64 \<Rightarrow> process_id \<Rightarrow> process_table \<times> scheduler \<Rightarrow> process_table \<times> scheduler" where
  "restart_process now pid ts =
     (case pt_get (fst ts) pid of
        None \<Rightarrow> ts
      | Some p \<Rightarrow> (pt_modify pid (reset_for_restart now) (fst ts),
          enqueue pid (pcb_effective_priority (reset_for_restart now p)) (snd ts)))"

definition kill_child :: "process_id \<Rightarrow> process_table \<times> scheduler \<Rightarrow> process_table \<times> scheduler" where
  "kill_child pid ts =
     (case pt_get (fst ts) pid of
        None \<Rightarrow> ts
      | Some p \<Rightarrow>
          if pcb_state p \<noteq> Terminated
          then (pt_modify pid (\<lambda>p. p\<lparr>pcb_state := Terminated, pcb_exit_reason := Some ExitKilled\<rparr>) (fst ts), dequeue pid (snd ts))
          else ts)"

text \<open>Both loops over the affected children.\<close>

definition restart_all :: "u64 \<Rightarrow> process_id list \<Rightarrow> process_table \<times> scheduler \<Rightarrow> process_table \<times> scheduler" where
  "restart_all now pids ts = fold (restart_process now) pids (fold kill_child pids ts)"

definition rest_of :: "process_table \<Rightarrow> process_id list \<Rightarrow> process_id \<Rightarrow> process_id list" where
  "rest_of t children crashed_pid =
     (let crashed_order = (case pt_get t crashed_pid of None \<Rightarrow> 0 | Some p \<Rightarrow> pcb_spawn_order p)
      in filter (\<lambda>c. case pt_get t c of None \<Rightarrow> False | Some p \<Rightarrow> pcb_spawn_order p \<ge> crashed_order) children)"

definition apply_strategy ::
  "pcb \<Rightarrow> process_id \<Rightarrow> u64 \<Rightarrow> process_table \<times> scheduler \<Rightarrow> u32 \<times> process_table \<times> scheduler" where
  "apply_strategy sv crashed_pid now ts =
     (case pcb_strategy sv of
        OneForOne \<Rightarrow> (1, restart_process now crashed_pid ts)
      | OneForAll \<Rightarrow> (of_nat (length (pcb_children sv)), restart_all now (pcb_children sv) ts)
      | RestForOne \<Rightarrow>
          (let to_restart = rest_of (fst ts) (pcb_children sv) crashed_pid
           in (of_nat (length to_restart), restart_all now to_restart ts)))"

text \<open>
  Following the supervisor links upwards may not end if they are cyclic; then the kernel runs out
  of stack, the value \<open>None\<close>.
\<close>

partial_function (option) handle_child_crash ::
  "process_id \<Rightarrow> process_id \<Rightarrow> u64 \<Rightarrow> process_table \<Rightarrow> scheduler \<Rightarrow> ((process_error + u32) \<times> process_table \<times> scheduler) option" where
  "handle_child_crash supervisor_pid crashed_pid now t s =
     (case pt_get t supervisor_pid of
        None \<Rightarrow> Some (Inl ProcSupervisorNotFound, t, s)
      | Some sv \<Rightarrow>
          (let r = record_restart (pcb_restart_tracker sv) now;
               t1 = pt_modify supervisor_pid (\<lambda>p. p\<lparr>pcb_restart_tracker := snd r\<rparr>) t
           in if fst r
              then
                (let t2 = pt_modify supervisor_pid (\<lambda>p. p\<lparr>pcb_state := Terminated, pcb_exit_reason := Some ExitIntensityExceeded\<rparr>) t1;
                     s2 = dequeue supervisor_pid s
                 in if pcb_supervisor sv \<noteq> PID_KERNEL
                    then Option.bind (handle_child_crash (pcb_supervisor sv) supervisor_pid now t2 s2)
                      (\<lambda>(_, t3, s3). Some (Inl ProcIntensityExceeded, t3, s3))
                    else Some (Inl ProcIntensityExceeded, t2, s2))
              else
                (let (n, t2, s2) = apply_strategy sv crashed_pid now (t1, s) in Some (Inr n, t2, s2))))"

end
