(* ===== verification/Dispatch.thy ===== *)
theory Dispatch
  imports Supervisor
begin

text \<open>
  The context switch of the timer interrupt (\<^verbatim>\<open>kernel/src/x86/idt.rs\<close>) and the system calls that end
  or yield a time slice (\<^verbatim>\<open>x86/syscall.rs\<close>). Of the processor the model has what these functions set:
  the stack for entries from user mode, the one of the system call entry, the page table root, and
  the two words that the interrupt stub reads: the context to resume and the saved idle context.
\<close>

record cpu =
  cpu_tick_count :: u64
  cpu_rsp0 :: u64
  cpu_syscall_rsp :: u64
  cpu_cr3 :: phys_addr
  cpu_kernel_cr3 :: phys_addr
  cpu_switch_rsp :: u64
  cpu_idle_rsp :: u64

definition switch_to_process :: "process_id \<Rightarrow> process_table \<Rightarrow> cpu \<Rightarrow> bool \<times> cpu" where
  "switch_to_process pid t c =
     (case pt_get t pid of
        None \<Rightarrow> (False, c)
      | Some p \<Rightarrow>
          if pcb_kernel_stack_base p \<noteq> None \<and> pcb_saved_rsp p \<noteq> 0
          then (True, c\<lparr>cpu_rsp0 := pcb_kernel_stack_top p, cpu_syscall_rsp := pcb_kernel_stack_top p,
                 cpu_cr3 := (case pcb_address_space p of None \<Rightarrow> cpu_cr3 c | Some a \<Rightarrow> as_pml4_phys a),
                 cpu_switch_rsp := pcb_saved_rsp p\<rparr>)
          else (False, c))"

definition switch_to_idle :: "cpu \<Rightarrow> cpu" where
  "switch_to_idle c =
     (if cpu_idle_rsp c \<noteq> 0
      then c\<lparr>cpu_cr3 := cpu_kernel_cr3 c, cpu_switch_rsp := cpu_idle_rsp c, cpu_idle_rsp := 0\<rparr> else c)"

definition enqueue_all :: "(process_id \<times> u8) list \<Rightarrow> scheduler \<Rightarrow> scheduler" where
  "enqueue_all skipped s = fold (\<lambda>(pid, prio). enqueue pid prio) skipped s"

text \<open>The loop, with the number of rounds left; the flag says whether a process was found.\<close>

fun switch_loop ::
  "nat \<Rightarrow> (process_id \<times> u8) list \<Rightarrow> cpu \<Rightarrow> scheduler \<Rightarrow> process_table \<Rightarrow>
   bool \<times> (process_id \<times> u8) list \<times> cpu \<times> scheduler \<times> process_table" where
  "switch_loop 0 skipped c s t = (False, skipped, c, s, t)"
| "switch_loop (Suc n) skipped c s t =
     (case sched_next s t of
        (None, s1, t1) \<Rightarrow> (False, skipped, c, s1, t1)
      | (Some pid, s1, t1) \<Rightarrow>
          (case switch_to_process pid t1 c of
             (True, c1) \<Rightarrow> (True, skipped, c1, s1, t1)
           | (False, c1) \<Rightarrow>
               let prio = (case pt_get t1 pid of None \<Rightarrow> 0 | Some p \<Rightarrow> pcb_effective_priority p);
                   s2 = dequeue pid s1;
                   t2 = pt_modify pid (\<lambda>p. p\<lparr>pcb_state := Ready\<rparr>) t1
               in switch_loop n (if length skipped < 8 then skipped @ [(pid, prio)] else skipped) c1 s2 t2))"

definition try_switch_next :: "cpu \<Rightarrow> scheduler \<Rightarrow> process_table \<Rightarrow> cpu \<times> scheduler \<times> process_table" where
  "try_switch_next c s t =
     (case switch_loop 8 [] c s t of
        (found, skipped, c1, s1, t1) \<Rightarrow>
          (if found then c1 else if cpu_idle_rsp c1 \<noteq> 0 then switch_to_idle c1 else c1, enqueue_all skipped s1, t1))"

definition save_context :: "u64 \<Rightarrow> pcb \<Rightarrow> pcb" where
  "save_context frame_rsp p = (if pcb_kernel_stack_base p \<noteq> None then p\<lparr>pcb_saved_rsp := frame_rsp\<rparr> else p)"

text \<open>The first two arguments say whether the locks of the scheduler and of the table are free.\<close>

definition timer_handler ::
  "bool \<Rightarrow> bool \<Rightarrow> u64 \<Rightarrow> cpu \<Rightarrow> scheduler \<Rightarrow> process_table \<Rightarrow> cpu \<times> scheduler \<times> process_table" where
  "timer_handler sched_free table_free frame_rsp c0 s0 t =
     (let c = c0\<lparr>cpu_tick_count := cpu_tick_count c0 + 1\<rparr>
      in if \<not> sched_free \<or> \<not> table_free then (c, s0, t)
         else
           let s = sched_tick s0
           in (case sc_current s of
                 None \<Rightarrow> try_switch_next (if cpu_idle_rsp c = 0 then c\<lparr>cpu_idle_rsp := frame_rsp\<rparr> else c) s t
               | Some pid \<Rightarrow>
                   if map_option pcb_state (pt_get t pid) = Some Terminated then try_switch_next c s t
                   else
                     let (has_remaining, t1) = consume_tick s t
                     in if has_remaining then (c, s, t1)
                        else try_switch_next c s (pt_modify pid (save_context frame_rsp) t1)))"

text \<open>What the interrupt stub does with the context to resume.\<close>

definition take_switch :: "cpu \<Rightarrow> u64 option \<times> cpu" where
  "take_switch c =
     (if cpu_switch_rsp c \<noteq> 0 then (Some (cpu_switch_rsp c), c\<lparr>cpu_switch_rsp := 0\<rparr>) else (None, c))"

text \<open>The system calls, when both locks are free.\<close>

definition sys_exit :: "u64 \<Rightarrow> scheduler \<Rightarrow> process_table \<Rightarrow> scheduler \<times> process_table" where
  "sys_exit exit_code s t =
     (case sc_current s of
        None \<Rightarrow> (s, t)
      | Some pid \<Rightarrow>
          (dequeue pid s,
           pt_modify pid (\<lambda>p. p\<lparr>pcb_state := Terminated, pcb_exit_reason := Some ExitNormal, pcb_exit_code := exit_code\<rparr>) t))"

definition sys_yield :: "scheduler \<Rightarrow> process_table \<Rightarrow> process_table" where
  "sys_yield s t =
     (case sc_current s of None \<Rightarrow> t | Some pid \<Rightarrow> pt_modify pid (\<lambda>p. p\<lparr>pcb_time_slice_remaining := 0\<rparr>) t)"

end
