(* ===== verification/Process_Ops.thy ===== *)
theory Process_Ops
  imports Dispatch Net_Stack Bus_Router Capability
begin

text \<open>
  The process interface of the kernel (\<^verbatim>\<open>kernel/src/process/mod.rs\<close>, \<^verbatim>\<open>butler.rs\<close>) on the state of
  the subsystems it touches: the process table and the scheduler, the sockets, the bus and the
  capability store. The locks \<open>TABLE\<close> and \<open>SCHEDULER\<close> are held throughout each operation.
\<close>

record kernel =
  k_table :: process_table
  k_sched :: scheduler
  k_cpu :: cpu
  k_net :: net
  k_bus :: bus_router
  k_caps :: cap_store

section \<open>Start\<close>

definition BUTLER_MAX_RESTARTS :: u32 where "BUTLER_MAX_RESTARTS = 1000"
definition BUTLER_INTENSITY_WINDOW :: u64 where "BUTLER_INTENSITY_WINDOW = 60"

text \<open>The call of \<open>expect\<close> panics if the table refuses the butler.\<close>

definition butler_init :: "process_table \<Rightarrow> scheduler \<Rightarrow> (process_table \<times> scheduler) run" where
  "butler_init t s =
     (let (_, t1) = alloc_pid t;
          p = (pcb_new PID_BUTLER \<lparr>in_category = Compute, in_priority = Critical, in_energy_class = Balanced, in_deadline = 0\<rparr>
                 ''Butler'' PID_KERNEL OneForOne 0 (sc_tick s))
               \<lparr>pcb_restart_tracker := tracker_new BUTLER_MAX_RESTARTS BUTLER_INTENSITY_WINDOW\<rparr>
      in (case pt_insert t1 p of
            (Inl _, _) \<Rightarrow> None
          | (Inr _, t2) \<Rightarrow> Some (t2, enqueue PID_BUTLER (priority_u8 Critical) s)))"

definition process_init :: "kernel \<Rightarrow> kernel run" where
  "process_init k = do {
     (t, s) \<leftarrow> butler_init (k_table k) (k_sched k);
     let (_, bus) = register_process (k_bus k) PID_BUTLER;
     Some (k\<lparr>k_table := t, k_sched := s, k_bus := bus\<rparr>)
   }"

section \<open>Life of a process\<close>

definition spawn ::
  "process_id \<Rightarrow> intent \<Rightarrow> string \<Rightarrow> supervision_strategy option \<Rightarrow> kernel \<Rightarrow> (process_error + process_id) \<times> kernel" where
  "spawn supervisor_pid intent description strategy k =
     (if \<not> pt_contains (k_table k) supervisor_pid then (Inl ProcSupervisorNotFound, k)
      else
        let now = sc_tick (k_sched k);
            (pid, t1) = alloc_pid (k_table k);
            spawn_order = (case pt_get t1 supervisor_pid of None \<Rightarrow> 0 | Some sv \<Rightarrow> of_nat (length (pcb_children sv)));
            p = pcb_new pid intent description supervisor_pid (case strategy of None \<Rightarrow> OneForOne | Some st \<Rightarrow> st) spawn_order now
        in (case pt_insert t1 p of
              (Inl err, t2) \<Rightarrow> (Inl err, k\<lparr>k_table := t2\<rparr>)
            | (Inr _, t2) \<Rightarrow>
                let t3 = pt_modify supervisor_pid (\<lambda>sv. sv\<lparr>pcb_children := pcb_children sv @ [pid]\<rparr>) t2;
                    s' = enqueue pid (pcb_effective_priority p) (k_sched k);
                    (_, bus) = register_process (k_bus k) pid
                in (Inr pid, k\<lparr>k_table := t3, k_sched := s', k_bus := bus\<rparr>)))"

definition terminate :: "process_id \<Rightarrow> kernel \<Rightarrow> (process_error + unit) \<times> kernel" where
  "terminate pid k0 =
     (let k = k0\<lparr>k_net := cleanup_process_sockets (k_net k0) pid\<rparr>
      in (case pt_get (k_table k) pid of
            None \<Rightarrow> (Inl ProcNotFound, k)
          | Some p \<Rightarrow>
              let t1 = pt_modify pid (\<lambda>p. p\<lparr>pcb_state := Terminated, pcb_exit_reason := Some ExitNormal\<rparr>) (k_table k);
                  s' = dequeue pid (k_sched k);
                  t2 = pt_modify (pcb_supervisor p) (\<lambda>sv. sv\<lparr>pcb_children := filter (\<lambda>c. c \<noteq> pid) (pcb_children sv)\<rparr>) t1;
                  (_, bus) = unregister_process (k_bus k) pid
              in (Inr (), k\<lparr>k_table := t2, k_sched := s', k_bus := bus\<rparr>)))"

definition MAX_INHERITANCE_DEPTH :: nat where "MAX_INHERITANCE_DEPTH = 4"

text \<open>The first argument is what is left of the depth.\<close>

fun apply_priority_inheritance :: "nat \<Rightarrow> process_id \<Rightarrow> u8 \<Rightarrow> process_table \<Rightarrow> scheduler \<Rightarrow> process_table \<times> scheduler" where
  "apply_priority_inheritance 0 target_pid boost t s = (t, s)"
| "apply_priority_inheritance (Suc d) target_pid boost t s =
     (case pt_get t target_pid of
        None \<Rightarrow> (t, s)
      | Some target \<Rightarrow>
          if pcb_effective_priority target < boost
          then
            let t1 = pt_modify target_pid (\<lambda>p. p\<lparr>pcb_effective_priority := boost\<rparr>) t;
                s1 = dequeue target_pid s;
                s2 = (if pcb_state target = Ready \<or> pcb_state target = Running then enqueue target_pid boost s1 else s1)
            in (case pcb_blocked_on target of
                  None \<Rightarrow> (t1, s2)
                | Some next_target \<Rightarrow> apply_priority_inheritance d next_target boost t1 s2)
          else (t, s))"

definition block :: "process_id \<Rightarrow> process_id option \<Rightarrow> kernel \<Rightarrow> (process_error + unit) \<times> kernel" where
  "block pid waiting_on k =
     (case pt_get (k_table k) pid of
        None \<Rightarrow> (Inl ProcNotFound, k)
      | Some p \<Rightarrow>
          if pcb_state p \<noteq> Running \<and> pcb_state p \<noteq> Ready then (Inl ProcInvalidState, k)
          else
            let t1 = pt_modify pid (\<lambda>p. p\<lparr>pcb_state := Blocked, pcb_blocked_on := waiting_on\<rparr>) (k_table k);
                s1 = dequeue pid (k_sched k);
                (t2, s2) = (case waiting_on of
                    None \<Rightarrow> (t1, s1)
                  | Some target_pid \<Rightarrow>
                      apply_priority_inheritance MAX_INHERITANCE_DEPTH target_pid (pcb_effective_priority p) t1 s1)
            in (Inr (), k\<lparr>k_table := t2, k_sched := s2\<rparr>))"

definition revert_priority_inheritance :: "process_id \<Rightarrow> process_table \<Rightarrow> scheduler \<Rightarrow> process_table \<times> scheduler" where
  "revert_priority_inheritance target_pid t s =
     (case pt_get t target_pid of
        None \<Rightarrow> (t, s)
      | Some target \<Rightarrow>
          if pcb_effective_priority target \<noteq> pcb_base_priority target
          then
            let t1 = pt_modify target_pid (\<lambda>p. p\<lparr>pcb_effective_priority := pcb_base_priority p\<rparr>) t;
                s1 = dequeue target_pid s
            in (t1, if pcb_state target = Ready \<or> pcb_state target = Running
                    then enqueue target_pid (pcb_base_priority target) s1 else s1)
          else (t, s))"

definition wake_up :: "scheduler \<Rightarrow> pcb \<Rightarrow> pcb" where
  "wake_up s p = apply_intent_boost s (p\<lparr>pcb_blocked_on := None, pcb_state := Ready, pcb_wake_tick := sc_tick s\<rparr>)"

definition unblock :: "process_id \<Rightarrow> kernel \<Rightarrow> (process_error + unit) \<times> kernel" where
  "unblock pid k =
     (case pt_get (k_table k) pid of
        None \<Rightarrow> (Inl ProcNotFound, k)
      | Some p \<Rightarrow>
          if pcb_state p \<noteq> Blocked then (Inl ProcInvalidState, k)
          else
            let t1 = pt_modify pid (wake_up (k_sched k)) (k_table k);
                s1 = enqueue pid (pcb_effective_priority (wake_up (k_sched k) p)) (k_sched k);
                (t2, s2) = (case pcb_blocked_on p of
                    None \<Rightarrow> (t1, s1)
                  | Some target_pid \<Rightarrow> revert_priority_inheritance target_pid t1 s1)
            in (Inr (), k\<lparr>k_table := t2, k_sched := s2\<rparr>))"

definition crash :: "process_id \<Rightarrow> kernel \<Rightarrow> ((process_error + unit) \<times> kernel) run" where
  "crash pid k =
     (case pt_get (k_table k) pid of
        None \<Rightarrow> Some (Inl ProcNotFound, k)
      | Some p \<Rightarrow> do {
          let t1 = pt_modify pid (\<lambda>p. p\<lparr>pcb_state := Terminated, pcb_exit_reason := Some ExitCrash\<rparr>) (k_table k);
          let s1 = dequeue pid (k_sched k);
          (_, t2, s2) \<leftarrow> handle_child_crash (pcb_supervisor p) pid (sc_tick s1) t1 s1;
          Some (Inr (), k\<lparr>k_table := t2, k_sched := s2\<rparr>)
        })"

section \<open>Clock and dispatch\<close>

definition kernel_tick :: "kernel \<Rightarrow> kernel" where
  "kernel_tick k = k\<lparr>k_sched := sched_tick (k_sched k), k_caps := store_tick (k_caps k), k_bus := router_tick (k_bus k)\<rparr>"

definition schedule_next :: "kernel \<Rightarrow> process_id option \<times> kernel" where
  "schedule_next k =
     (let (r, s, t) = sched_next (k_sched k) (k_table k) in (r, k\<lparr>k_table := t, k_sched := s\<rparr>))"

definition get_state :: "kernel \<Rightarrow> process_id \<Rightarrow> process_state option" where
  "get_state k pid = map_option pcb_state (pt_get (k_table k) pid)"

definition process_count :: "kernel \<Rightarrow> nat" where
  "process_count k = pt_count (k_table k)"

end
