(* ===== verification/Sched_Inv.thy ===== *)
theory Sched_Inv
  imports Process_Ops
begin

text \<open>
  The invariant between the process table and the run queues: a process is runnable exactly if it is
  current or waits in one queue, once, at the level of its effective priority. The operations take
  a process out of the queues, change it, and put it back; \<open>sched_ok X\<close> is the invariant while the
  processes of \<open>X\<close> are taken out.
\<close>

definition runnable :: "pcb \<Rightarrow> bool" where
  "runnable p \<longleftrightarrow> pcb_state p = Ready \<or> pcb_state p = Running"

definition queued :: "scheduler \<Rightarrow> process_id set" where
  "queued s = \<Union> (set ` set (sc_queues s))"

definition out :: "scheduler \<Rightarrow> process_id \<Rightarrow> bool" where
  "out s pid \<longleftrightarrow> pid \<notin> queued s \<and> sc_current s \<noteq> Some pid"

definition sched_ok :: "process_id set \<Rightarrow> process_table \<Rightarrow> scheduler \<Rightarrow> bool" where
  "sched_ok X t s \<longleftrightarrow> length (sc_queues s) = NUM_LEVELS \<and> (\<forall>q \<in> set (sc_queues s). distinct q) \<and>
     (\<forall>l < NUM_LEVELS. \<forall>pid \<in> set (sc_queues s ! l). \<exists>p. pt_get t pid = Some p \<and> runnable p \<and> level_of (pcb_effective_priority p) = l) \<and>
     (\<forall>pid. sc_current s = Some pid \<longrightarrow> pid \<notin> queued s \<and> (\<exists>p. pt_get t pid = Some p \<and> pcb_state p = Running)) \<and>
     (\<forall>pid p. pt_get t pid = Some p \<longrightarrow> runnable p \<longrightarrow> pid \<in> X \<or> \<not> out s pid) \<and>
     (\<forall>pid \<in> X. out s pid)"

lemma level_of_less [simp]: "level_of p < NUM_LEVELS"
  by (simp add: level_of_def NUM_LEVELS_def)

lemma queued_iff: "pid \<in> queued s \<longleftrightarrow> (\<exists>l < length (sc_queues s). pid \<in> set (sc_queues s ! l))"
  by (auto simp: queued_def in_set_conv_nth [of _ "sc_queues s"]) (metis nth_mem)

lemma sched_okD:
  assumes "sched_ok X t s"
  shows "length (sc_queues s) = NUM_LEVELS"
    and "l < NUM_LEVELS \<Longrightarrow> distinct (sc_queues s ! l)"
    and "l < NUM_LEVELS \<Longrightarrow> pid \<in> set (sc_queues s ! l) \<Longrightarrow>
      \<exists>p. pt_get t pid = Some p \<and> runnable p \<and> level_of (pcb_effective_priority p) = l"
    and "sc_current s = Some pid \<Longrightarrow> pid \<notin> queued s"
    and "sc_current s = Some pid \<Longrightarrow> \<exists>p. pt_get t pid = Some p \<and> pcb_state p = Running"
    and "pt_get t pid = Some p \<Longrightarrow> runnable p \<Longrightarrow> pid \<in> X \<or> \<not> out s pid"
    and "pid \<in> X \<Longrightarrow> out s pid"
  using assms unfolding sched_ok_def by (blast, metis nth_mem, blast+)

lemma sched_okI:
  assumes "length (sc_queues s) = NUM_LEVELS" "\<And>l. l < NUM_LEVELS \<Longrightarrow> distinct (sc_queues s ! l)"
    and "\<And>l pid. l < NUM_LEVELS \<Longrightarrow> pid \<in> set (sc_queues s ! l) \<Longrightarrow>
      \<exists>p. pt_get t pid = Some p \<and> runnable p \<and> level_of (pcb_effective_priority p) = l"
    and "\<And>pid. sc_current s = Some pid \<Longrightarrow> pid \<notin> queued s \<and> (\<exists>p. pt_get t pid = Some p \<and> pcb_state p = Running)"
    and "\<And>pid p. pt_get t pid = Some p \<Longrightarrow> runnable p \<Longrightarrow> pid \<in> X \<or> \<not> out s pid"
    and "\<And>pid. pid \<in> X \<Longrightarrow> out s pid"
  shows "sched_ok X t s"
proof -
  have "\<forall>q \<in> set (sc_queues s). distinct q" using assms(1,2) by (auto simp: in_set_conv_nth)
  then show ?thesis unfolding sched_ok_def using assms(1,3-6) by blast
qed

lemma out_absent: "sched_ok X t s \<Longrightarrow> pt_get t pid = None \<Longrightarrow> out s pid"
  using sched_okD(1,3,5) [of X t s] unfolding out_def queued_iff by (metis option.distinct(1))

lemma out_halted: "sched_ok X t s \<Longrightarrow> pt_get t pid = Some p \<Longrightarrow> \<not> runnable p \<Longrightarrow> out s pid"
  using sched_okD(1,3,5) [of X t s] unfolding out_def queued_iff runnable_def by (metis option.inject)

section \<open>Taking out, changing, putting back\<close>

lemma queued_dequeue: "queued (dequeue pid s) = queued s - {pid}"
  by (auto simp: queued_def dequeue_def Let_def)

lemma out_dequeue: "out (dequeue pid s) q \<longleftrightarrow> q = pid \<or> out s q"
  unfolding out_def queued_dequeue by (auto simp: dequeue_def Let_def)

lemma dequeue_sel [simp]:
  "length (sc_queues (dequeue pid s)) = length (sc_queues s)" "sc_tick (dequeue pid s) = sc_tick s"
  "sc_current (dequeue pid s) = (if sc_current s = Some pid then None else sc_current s)"
  "l < length (sc_queues s) \<Longrightarrow> sc_queues (dequeue pid s) ! l = filter (\<lambda>p. p \<noteq> pid) (sc_queues s ! l)"
  by (auto simp: dequeue_def Let_def)

lemma enqueue_sel [simp]:
  "length (sc_queues (enqueue pid e s)) = length (sc_queues s)" "sc_tick (enqueue pid e s) = sc_tick s"
  "sc_current (enqueue pid e s) = sc_current s"
  by (auto simp: enqueue_def Let_def)

lemma enqueue_queues:
  "l < length (sc_queues s) \<Longrightarrow> pid \<notin> queued s \<Longrightarrow>
   sc_queues (enqueue pid e s) ! l = (if l = level_of e then sc_queues s ! l @ [pid] else sc_queues s ! l)"
  unfolding enqueue_def Let_def queued_iff by auto

lemma queued_update:
  assumes "l < length (sc_queues s)"
  shows "queued (s\<lparr>sc_queues := (sc_queues s)[l := q]\<rparr>) = set q \<union> {pid. \<exists>k < length (sc_queues s). k \<noteq> l \<and> pid \<in> set (sc_queues s ! k)}"
proof -
  have "pid \<in> queued (s\<lparr>sc_queues := (sc_queues s)[l := q]\<rparr>) \<longleftrightarrow>
      pid \<in> set q \<or> (\<exists>k < length (sc_queues s). k \<noteq> l \<and> pid \<in> set (sc_queues s ! k))" for pid
    using assms unfolding queued_iff by (simp add: nth_list_update) metis
  then show ?thesis by auto
qed

lemma queued_enqueue:
  assumes "length (sc_queues s) = NUM_LEVELS" shows "queued (enqueue pid e s) = insert pid (queued s)"
proof (cases "pid \<in> set (sc_queues s ! level_of e)")
  case True
  then have "pid \<in> queued s" using assms level_of_less [of e] unfolding queued_iff by metis
  then show ?thesis using True by (simp add: enqueue_def insert_absorb)
next
  case False
  then have "enqueue pid e s = s\<lparr>sc_queues := (sc_queues s)[level_of e := sc_queues s ! level_of e @ [pid]]\<rparr>"
    by (simp add: enqueue_def Let_def)
  then show ?thesis
    using assms level_of_less [of e] by (simp only: queued_update) (auto simp: queued_iff)
qed

lemma out_enqueue: "length (sc_queues s) = NUM_LEVELS \<Longrightarrow> out (enqueue pid e s) q \<longleftrightarrow> q \<noteq> pid \<and> out s q"
  by (auto simp: out_def queued_enqueue)

lemma takeout_ok:
  assumes "sched_ok X t s" shows "sched_ok (insert pid X) t (dequeue pid s)"
proof (rule sched_okI)
  note ok = sched_okD [OF assms]
  show "length (sc_queues (dequeue pid s)) = NUM_LEVELS" by (simp add: ok(1))
  show "distinct (sc_queues (dequeue pid s) ! l)" if "l < NUM_LEVELS" for l using that ok(1,2) by simp
  show "\<exists>p. pt_get t q = Some p \<and> runnable p \<and> level_of (pcb_effective_priority p) = l"
    if "l < NUM_LEVELS" "q \<in> set (sc_queues (dequeue pid s) ! l)" for l q
    using that ok(1) ok(3) [OF that(1), of q] by auto
  show "q \<notin> queued (dequeue pid s) \<and> (\<exists>p. pt_get t q = Some p \<and> pcb_state p = Running)"
    if "sc_current (dequeue pid s) = Some q" for q
    using that ok(4,5) [of q] by (auto simp: queued_dequeue split: if_splits)
  show "q \<in> insert pid X \<or> \<not> out (dequeue pid s) q" if "pt_get t q = Some p" "runnable p" for q p
    using ok(6) [OF that] by (auto simp: out_dequeue)
  show "out (dequeue pid s) q" if "q \<in> insert pid X" for q using that ok(7) by (auto simp: out_dequeue)
qed

text \<open>A process that is out may be changed at will; of the others only what the queues depend on is kept.\<close>

lemma change_ok:
  assumes "sched_ok X t s"
    and same: "\<And>q. q \<notin> X \<Longrightarrow> rel_option (\<lambda>p p'. pcb_state p' = pcb_state p \<and> pcb_effective_priority p' = pcb_effective_priority p)
      (pt_get t q) (pt_get t' q)"
  shows "sched_ok X t' s"
proof (rule sched_okI)
  note ok = sched_okD [OF assms(1)]
  have keep: "\<exists>p'. pt_get t' q = Some p' \<and> pcb_state p' = pcb_state p \<and> pcb_effective_priority p' = pcb_effective_priority p"
    if "q \<notin> X" "pt_get t q = Some p" for q p
    using same [OF that(1)] that(2) by (auto simp: option_rel_Some1)
  show "length (sc_queues s) = NUM_LEVELS" by (rule ok(1))
  show "distinct (sc_queues s ! l)" if "l < NUM_LEVELS" for l using that by (rule ok(2))
  show "\<exists>p. pt_get t' q = Some p \<and> runnable p \<and> level_of (pcb_effective_priority p) = l"
    if l: "l < NUM_LEVELS" "q \<in> set (sc_queues s ! l)" for l q
  proof -
    obtain p where p: "pt_get t q = Some p" "runnable p" "level_of (pcb_effective_priority p) = l" using ok(3) [OF l] by blast
    have "q \<notin> X" using l ok(1) ok(7) [of q] by (auto simp: out_def queued_iff)
    then show ?thesis using keep [OF _ p(1)] p(2,3) by (auto simp: runnable_def)
  qed
  show "q \<notin> queued s \<and> (\<exists>p. pt_get t' q = Some p \<and> pcb_state p = Running)" if c: "sc_current s = Some q" for q
  proof -
    obtain p where p: "pt_get t q = Some p" "pcb_state p = Running" using ok(5) [OF c] by blast
    have "q \<notin> X" using c ok(7) [of q] by (auto simp: out_def)
    then show ?thesis using keep [OF _ p(1)] p(2) ok(4) [OF c] by auto
  qed
  show "q \<in> X \<or> \<not> out s q" if r: "pt_get t' q = Some p'" "runnable p'" for q p'
  proof (cases "q \<in> X")
    case False
    then obtain p where "pt_get t q = Some p" "pcb_state p' = pcb_state p" using same [of q] r(1) by (auto simp: option_rel_Some2)
    then show ?thesis using ok(6) [of q p] r(2) by (simp add: runnable_def)
  qed simp
  show "out s q" if "q \<in> X" for q using that by (rule ok(7))
qed

lemma modify_out_ok: "sched_ok X t s \<Longrightarrow> pid \<in> X \<Longrightarrow> sched_ok X (pt_modify pid f t) s"
  by (rule change_ok) (auto simp: pt_get_modify intro: option.rel_refl)

lemma modify_same_ok:
  assumes "sched_ok X t s" "\<And>p. pcb_state (f p) = pcb_state p" "\<And>p. pcb_effective_priority (f p) = pcb_effective_priority p"
  shows "sched_ok X (pt_modify pid f t) s"
  using assms(1) by (rule change_ok) (auto simp: pt_get_modify option.rel_map assms(2,3) intro: option.rel_refl)

lemma settle_halted:
  assumes "sched_ok (insert pid X) t s" "\<And>p. pt_get t pid = Some p \<Longrightarrow> \<not> runnable p"
  shows "sched_ok X t s"
  using assms unfolding sched_ok_def by blast

lemma settle_enqueue:
  assumes "sched_ok (insert pid X) t s" "pid \<notin> X" "pt_get t pid = Some p" "runnable p" "e = pcb_effective_priority p"
  shows "sched_ok X t (enqueue pid e s)"
proof (rule sched_okI)
  note ok = sched_okD [OF assms(1)]
  have out: "out s pid" using ok(7) by simp
  then have nq: "pid \<notin> queued s" by (simp add: out_def)
  show "length (sc_queues (enqueue pid e s)) = NUM_LEVELS" by (simp add: ok(1))
  show "distinct (sc_queues (enqueue pid e s) ! l)" if "l < NUM_LEVELS" for l
    using that ok(1,2) nq by (auto simp: enqueue_queues queued_iff)
  show "\<exists>p. pt_get t q = Some p \<and> runnable p \<and> level_of (pcb_effective_priority p) = l"
    if "l < NUM_LEVELS" "q \<in> set (sc_queues (enqueue pid e s) ! l)" for l q
    using that ok(1) ok(3) [OF that(1), of q] nq assms(3-5) by (auto simp: enqueue_queues split: if_splits)
  show "q \<notin> queued (enqueue pid e s) \<and> (\<exists>p. pt_get t q = Some p \<and> pcb_state p = Running)"
    if "sc_current (enqueue pid e s) = Some q" for q
    using that ok(4,5) [of q] out by (auto simp: queued_enqueue ok(1) out_def)
  show "q \<in> X \<or> \<not> out (enqueue pid e s) q" if "pt_get t q = Some p" "runnable p" for q p
    using ok(6) [OF that] by (auto simp: out_enqueue ok(1))
  show "out (enqueue pid e s) q" if "q \<in> X" for q using that ok(7) [of q] assms(2) by (auto simp: out_enqueue ok(1))
qed

section \<open>Choosing the next process\<close>

lemma sched_ok_cong:
  "sc_queues s' = sc_queues s \<Longrightarrow> sc_current s' = sc_current s \<Longrightarrow> sched_ok X t s' = sched_ok X t s"
  by (simp add: sched_ok_def out_def queued_def)

lemma sched_ok_fields [simp]:
  "sched_ok X t (s\<lparr>sc_tick := n\<rparr>) = sched_ok X t s" "sched_ok X t (s\<lparr>sc_total_decisions := n\<rparr>) = sched_ok X t s"
  by (rule sched_ok_cong; simp)+

lemma filter_queues:
  assumes "sched_ok X t s" "pid \<notin> queued s" shows "map (filter (\<lambda>p. p \<noteq> pid)) (sc_queues s) = sc_queues s"
  using assms(2) by (intro map_idI) (auto simp: queued_def intro: filter_True)

lemma drop_current:
  assumes "sched_ok X t s" "sc_current s = Some pid" shows "dequeue pid s = s\<lparr>sc_current := None\<rparr>"
  using assms filter_queues [OF assms(1) sched_okD(4) [OF assms]] by (simp add: dequeue_def Let_def)

lemma dequeue_level:
  assumes "sched_ok X t s" "l < NUM_LEVELS" "pid \<in> set (sc_queues s ! l)"
  shows "dequeue pid s = s\<lparr>sc_queues := (sc_queues s)[l := filter (\<lambda>p. p \<noteq> pid) (sc_queues s ! l)]\<rparr>"
proof -
  note ok = sched_okD [OF assms(1)]
  have "sc_current s \<noteq> Some pid" using ok(1,4) assms(2,3) by (auto simp: queued_iff)
  moreover have "map (filter (\<lambda>p. p \<noteq> pid)) (sc_queues s) = (sc_queues s)[l := filter (\<lambda>p. p \<noteq> pid) (sc_queues s ! l)]"
  proof (rule nth_equalityI)
    fix k assume k: "k < length (map (filter (\<lambda>p. p \<noteq> pid)) (sc_queues s))"
    show "map (filter (\<lambda>p. p \<noteq> pid)) (sc_queues s) ! k = (sc_queues s)[l := filter (\<lambda>p. p \<noteq> pid) (sc_queues s ! l)] ! k"
    proof (cases "k = l")
      case False
      have "pid \<notin> set (sc_queues s ! k)"
        using ok(3) [OF assms(2,3)] ok(3) [of k pid] k ok(1) False by fastforce
      then show ?thesis using False k by (auto simp: filter_id_conv)
    qed (use k in simp)
  qed simp
  ultimately show ?thesis by (simp add: dequeue_def Let_def)
qed

lemma pop_queue:
  assumes "sched_ok X t s" "l < NUM_LEVELS" "sc_queues s ! l = pid # rest"
  shows "dequeue pid s = s\<lparr>sc_queues := (sc_queues s)[l := rest]\<rparr>"
proof -
  have "pid \<notin> set rest" using sched_okD(2) [OF assms(1,2)] assms(3) by simp
  then have "filter (\<lambda>p. p \<noteq> pid) (sc_queues s ! l) = rest" using assms(3) by (auto simp: filter_id_conv)
  then show ?thesis using dequeue_level [OF assms(1,2), of pid] assms(3) by simp
qed

lemma settle_current:
  assumes "sched_ok (insert pid X) t s" "pid \<notin> X" "sc_current s = None" "pt_get t pid = Some p" "pcb_state p = Running"
  shows "sched_ok X t (s\<lparr>sc_current := Some pid\<rparr>)"
proof -
  have "out (s\<lparr>sc_current := Some pid\<rparr>) q \<longleftrightarrow> q \<noteq> pid \<and> out s q" for q
    using assms(3) sched_okD(7) [OF assms(1)] by (auto simp: out_def queued_def)
  moreover have "pid \<notin> queued s" using sched_okD(7) [OF assms(1), of pid] by (simp add: out_def)
  ultimately show ?thesis
    using assms unfolding sched_ok_def by (simp add: queued_def) blast
qed

lemma put_back_ok:
  assumes "sched_ok X t s" "put_back s t = (s1, t1)"
  shows "sched_ok X t1 s1 \<and> sc_current s1 = None \<and> sc_tick s1 = sc_tick s"
proof (cases "sc_current s")
  case None
  then show ?thesis using assms by (simp add: put_back_def)
next
  case (Some pid)
  obtain p where p: "pt_get t pid = Some p" "pcb_state p = Running" using sched_okD(5) [OF assms(1) Some] by blast
  let ?t = "pt_modify pid (\<lambda>p. p\<lparr>pcb_state := Ready\<rparr>) t"
  have "pid \<notin> X" using sched_okD(7) [OF assms(1), of pid] Some by (auto simp: out_def)
  moreover have "sched_ok (insert pid X) ?t (s\<lparr>sc_current := None\<rparr>)"
    using modify_out_ok [OF takeout_ok [OF assms(1)], of pid pid] drop_current [OF assms(1) Some] by simp
  ultimately have "sched_ok X ?t (enqueue pid (pcb_effective_priority p) (s\<lparr>sc_current := None\<rparr>))"
    using p by (intro settle_enqueue [where p = "p\<lparr>pcb_state := Ready\<rparr>"]) (simp_all add: pt_get_modify runnable_def)
  then show ?thesis using assms(2) Some p by (auto simp: put_back_def Let_def)
qed

lemma take_ok:
  assumes "sched_ok X t s" "sc_current s = None" "l < NUM_LEVELS" "sc_queues s ! l = pid # rest"
  shows "sched_ok X (pt_modify pid (set_running now) t)
    (s\<lparr>sc_queues := (sc_queues s)[l := rest], sc_current := Some pid, sc_total_decisions := n\<rparr>)"
proof -
  obtain p where p: "pt_get t pid = Some p" using sched_okD(3) [OF assms(1,3), of pid] assms(4) by auto
  have "pid \<in> queued s" using sched_okD(1) [OF assms(1)] assms(3,4) unfolding queued_iff by (metis list.set_intros(1))
  then have "pid \<notin> X" using sched_okD(7) [OF assms(1), of pid] by (auto simp: out_def)
  moreover have "sched_ok (insert pid X) (pt_modify pid (set_running now) t) (s\<lparr>sc_queues := (sc_queues s)[l := rest]\<rparr>)"
    using modify_out_ok [OF takeout_ok [OF assms(1)], of pid pid] pop_queue [OF assms(1,3,4)] by simp
  ultimately have "sched_ok X (pt_modify pid (set_running now) t) (s\<lparr>sc_queues := (sc_queues s)[l := rest]\<rparr>\<lparr>sc_current := Some pid\<rparr>)"
    using p assms(2) by (intro settle_current [where p = "set_running now p"]) (simp_all add: pt_get_modify set_running_def)
  then show ?thesis by (subst sched_ok_cong) simp_all
qed

text \<open>What \<open>pick_level\<close> finds: the head of the highest level that is not empty.\<close>

definition top_level :: "nat \<Rightarrow> scheduler \<Rightarrow> nat \<Rightarrow> bool" where
  "top_level n s l \<longleftrightarrow> l < n \<and> sc_queues s ! l \<noteq> [] \<and> (\<forall>k. l < k \<and> k < n \<longrightarrow> sc_queues s ! k = [])"

lemma pick_level_none: "(\<And>l. l < n \<Longrightarrow> sc_queues s ! l = []) \<Longrightarrow> pick_level n s t = (None, s, t)"
  by (induction n) simp_all

lemma pick_level_some:
  assumes "sched_ok X t s" "n \<le> NUM_LEVELS" "top_level n s l"
  shows "pick_level n s t = (Some (hd (sc_queues s ! l)),
    s\<lparr>sc_queues := (sc_queues s)[l := tl (sc_queues s ! l)], sc_current := Some (hd (sc_queues s ! l)),
      sc_total_decisions := sc_total_decisions s + 1\<rparr>,
    pt_modify (hd (sc_queues s ! l)) (set_running (sc_tick s)) t)"
  using assms(2,3)
proof (induction n)
  case (Suc n)
  show ?case
  proof (cases "l = n")
    case True
    then obtain pid rest where q: "sc_queues s ! n = pid # rest" using Suc.prems by (cases "sc_queues s ! n") (auto simp: top_level_def)
    then obtain p where "pt_get t pid = Some p" using sched_okD(3) [OF assms(1), of n pid] Suc.prems(1) by auto
    then show ?thesis using q True by simp
  next
    case False
    then have "top_level n s l" "sc_queues s ! n = []" using Suc.prems by (auto simp: top_level_def)
    then show ?thesis using Suc.IH Suc.prems(1) by simp
  qed
qed (simp add: top_level_def)

lemma top_level_exists:
  assumes "\<exists>l < n. sc_queues s ! l \<noteq> []" obtains l where "top_level n s l"
proof -
  let ?P = "\<lambda>l. l < n \<and> sc_queues s ! l \<noteq> []"
  have P: "?P (Greatest ?P)" using assms by (intro GreatestI_ex_nat [of ?P n]) auto
  have "k \<le> Greatest ?P" if "?P k" for k using that by (intro Greatest_le_nat [of ?P k n]) auto
  then have "top_level n s (Greatest ?P)" using P unfolding top_level_def by (meson not_le)
  then show thesis by (rule that)
qed

text \<open>The two outcomes when the current process does not go on.\<close>

lemma pick_cases:
  assumes "sched_ok X t s" "sc_current s = None"
  obtains (idle) "pick_level NUM_LEVELS s t = (None, s, t)" "queued s = {}"
  | (chosen) l pid rest where "top_level NUM_LEVELS s l" "sc_queues s ! l = pid # rest"
    "pick_level NUM_LEVELS s t = (Some pid,
       s\<lparr>sc_queues := (sc_queues s)[l := rest], sc_current := Some pid, sc_total_decisions := sc_total_decisions s + 1\<rparr>,
       pt_modify pid (set_running (sc_tick s)) t)"
proof (cases "\<exists>l < NUM_LEVELS. sc_queues s ! l \<noteq> []")
  case True
  then obtain l where l: "top_level NUM_LEVELS s l" by (rule top_level_exists)
  then show thesis
    using pick_level_some [OF assms(1) order_refl l] by (intro chosen [OF l]) (auto simp: top_level_def)
next
  case False
  then show thesis using sched_okD(1) [OF assms(1)] by (intro idle pick_level_none) (auto simp: queued_iff)
qed

lemma sched_next_ok:
  assumes "sched_ok X t s" "sched_next s t = (r, s', t')"
  shows "sched_ok X t' s' \<and> sc_current s' = r \<and> sc_tick s' = sc_tick s"
proof (cases "keeps_running s t")
  case (Some pid)
  then show ?thesis using assms by (auto simp: sched_next_def keeps_running_def split: option.splits if_splits)
next
  case None
  obtain s1 t1 where b: "put_back s t = (s1, t1)" by fastforce
  note ok = put_back_ok [OF assms(1) b]
  have pick: "pick_level NUM_LEVELS s1 t1 = (r, s', t')" using assms(2) None b by (simp add: sched_next_def)
  from ok have "sched_ok X t1 s1" "sc_current s1 = None" by simp_all
  then show ?thesis
  proof (cases rule: pick_cases)
    case idle
    then show ?thesis using pick ok by simp
  next
    case (chosen l pid rest)
    then have "l < NUM_LEVELS" by (simp add: top_level_def)
    then show ?thesis using pick chosen(2,3) ok take_ok [of X t1 s1 l pid rest] by auto
  qed
qed

end
