(* ===== verification/Process_Sound.thy ===== *)
theory Process_Sound
  imports Sched_Inv
begin

text \<open>
  The invariant of the process table, that every operation on processes keeps it together with the
  invariant of the run queues, and what follows for every history of operations.
\<close>

section \<open>The process table\<close>

definition pcb_ok :: "process_table \<Rightarrow> process_id \<Rightarrow> pcb \<Rightarrow> bool" where
  "pcb_ok t pid p \<longleftrightarrow> pcb_pid p = pid \<and> pid \<noteq> PID_KERNEL \<and> pid < pt_next_pid t \<and>
     pcb_base_priority p = priority_u8 (in_priority (pcb_intent p)) \<and>
     pcb_base_priority p \<le> pcb_effective_priority p \<and> pcb_effective_priority p \<le> priority_u8 Critical \<and>
     handles_ok (pcb_handle_table p) \<and>
     pcb_supervisor p < pid \<and> (pcb_supervisor p = PID_KERNEL \<or> pt_get t (pcb_supervisor p) \<noteq> None) \<and>
     distinct (pcb_children p) \<and> (\<forall>c \<in> set (pcb_children p). \<exists>pc. pt_get t c = Some pc \<and> pcb_supervisor pc = pid)"

text \<open>The first argument is the next process identifier.\<close>

definition table_ok :: "process_id \<Rightarrow> process_table \<Rightarrow> bool" where
  "table_ok n t \<longleftrightarrow> pt_next_pid t = n \<and> n \<noteq> 0 \<and> pt_count t \<le> TABLE_MAX_PROCESSES \<and> (\<forall>pid p. pt_get t pid = Some p \<longrightarrow> pcb_ok t pid p)"

lemma pt_count_modify [simp]: "pt_count (pt_modify pid f t) = pt_count t"
  by (cases "pt_get t pid") (simp_all add: pt_modify_def pt_count_def fmdomI finsert_absorb)

lemma pcb_ok_modify_other:
  assumes "pcb_ok t pid p" "\<And>q. pcb_supervisor (f q) = pcb_supervisor q"
  shows "pcb_ok (pt_modify q f t) pid p"
  using assms(1) unfolding pcb_ok_def by (auto simp: pt_get_modify assms(2))

text \<open>A change of one process that keeps its place in the tree.\<close>

definition sound_change :: "(pcb \<Rightarrow> pcb) \<Rightarrow> pcb \<Rightarrow> bool" where
  "sound_change f p \<longleftrightarrow> pcb_pid (f p) = pcb_pid p \<and> pcb_base_priority (f p) = pcb_base_priority p \<and> pcb_intent (f p) = pcb_intent p \<and>
     pcb_base_priority p \<le> pcb_effective_priority (f p) \<and> pcb_effective_priority (f p) \<le> priority_u8 Critical \<and>
     handles_ok (pcb_handle_table (f p)) \<and> distinct (pcb_children (f p)) \<and> set (pcb_children (f p)) \<subseteq> set (pcb_children p)"

lemma table_ok_modify:
  assumes "table_ok n t" "\<And>q. pcb_supervisor (f q) = pcb_supervisor q" "\<And>p. pt_get t pid = Some p \<Longrightarrow> sound_change f p"
  shows "table_ok n (pt_modify pid f t)"
  unfolding table_ok_def
proof (intro conjI allI impI)
  fix q p' assume q: "pt_get (pt_modify pid f t) q = Some p'"
  show "pcb_ok (pt_modify pid f t) q p'"
  proof (cases "q = pid")
    case True
    then obtain p where p: "pt_get t pid = Some p" "p' = f p" using q by (auto simp: pt_get_modify)
    have "pcb_ok t pid (f p)"
      using assms(1) assms(2) [of p] assms(3) [OF p(1)] p(1) unfolding table_ok_def pcb_ok_def sound_change_def by force
    then show ?thesis using pcb_ok_modify_other [of t pid "f p" f pid] assms(2) True p(2) by simp
  next
    case False
    then show ?thesis using q assms(1,2) by (intro pcb_ok_modify_other) (auto simp: pt_get_modify table_ok_def)
  qed
qed (use assms(1) in \<open>simp_all add: table_ok_def\<close>)

lemma pcb_okD:
  "table_ok n t \<Longrightarrow> pt_get t pid = Some p \<Longrightarrow> pcb_ok t pid p"
  by (simp add: table_ok_def)

text \<open>Changes that touch neither priorities nor handles nor children.\<close>

lemma table_ok_field:
  assumes "table_ok n t" "\<And>p. pcb_supervisor (f p) = pcb_supervisor p" "\<And>p. pcb_pid (f p) = pcb_pid p"
    "\<And>p. pcb_base_priority (f p) = pcb_base_priority p" "\<And>p. pcb_intent (f p) = pcb_intent p"
    "\<And>p. pcb_effective_priority (f p) = pcb_effective_priority p" "\<And>p. pcb_handle_table (f p) = pcb_handle_table p"
    "\<And>p. pcb_children (f p) = pcb_children p"
  shows "table_ok n (pt_modify pid f t)"
  using assms(1,2)
proof (rule table_ok_modify)
  show "sound_change f p" if "pt_get t pid = Some p" for p
    using pcb_okD [OF assms(1) that] unfolding sound_change_def pcb_ok_def assms by auto
qed

lemma table_ok_priority:
  assumes "table_ok n t" "\<And>p. pt_get t pid = Some p \<Longrightarrow> pcb_base_priority p \<le> e p \<and> e p \<le> priority_u8 Critical"
  shows "table_ok n (pt_modify pid (\<lambda>p. p\<lparr>pcb_effective_priority := e p\<rparr>) t)"
  using assms(1)
proof (rule table_ok_modify)
  show "sound_change (\<lambda>p. p\<lparr>pcb_effective_priority := e p\<rparr>) p" if "pt_get t pid = Some p" for p
    using pcb_okD [OF assms(1) that] assms(2) [OF that] unfolding sound_change_def pcb_ok_def by auto
qed simp

lemma handles_ok_clear: "handles_ok h \<Longrightarrow> handles_ok (handle_clear h)"
  by (simp add: handles_ok_def handle_clear_def handle_entry_empty_def filter_map comp_def)

lemma table_ok_restart:
  assumes "table_ok n t" shows "table_ok n (pt_modify pid (reset_for_restart now) t)"
  using assms
proof (rule table_ok_modify)
  show "sound_change (reset_for_restart now) p" if "pt_get t pid = Some p" for p
    using pcb_okD [OF assms that]
    by (auto simp: sound_change_def reset_for_restart_def pcb_ok_def handles_ok_clear intro: order_trans)
qed (simp add: reset_for_restart_def)

definition procs_ok :: "process_id \<Rightarrow> process_id set \<Rightarrow> process_table \<times> scheduler \<Rightarrow> bool" where
  "procs_ok n X ts \<longleftrightarrow> table_ok n (fst ts) \<and> sched_ok X (fst ts) (snd ts)"

lemma procs_okI: "table_ok n t \<Longrightarrow> sched_ok X t s \<Longrightarrow> procs_ok n X (t, s)"
  by (simp add: procs_ok_def)

lemma procs_okD: "procs_ok n X (t, s) \<Longrightarrow> table_ok n t" "procs_ok n X (t, s) \<Longrightarrow> sched_ok X t s"
  by (simp_all add: procs_ok_def)

section \<open>Stopping and requeueing a process\<close>

lemma dequeue_out: "sched_ok X t s \<Longrightarrow> out s pid \<Longrightarrow> dequeue pid s = s"
  using filter_queues [of X t s pid] by (simp add: dequeue_def Let_def out_def)

lemma halt_ok:
  assumes "procs_ok n X (t, s)" "table_ok n (pt_modify pid f t)" "\<And>p. \<not> runnable (f p)"
  shows "procs_ok n X (pt_modify pid f t, dequeue pid s)"
proof (rule procs_okI [OF assms(2)])
  have "sched_ok (insert pid X) (pt_modify pid f t) (dequeue pid s)"
    by (intro modify_out_ok takeout_ok procs_okD(2) [OF assms(1)]) simp
  then show "sched_ok X (pt_modify pid f t) (dequeue pid s)"
    by (rule settle_halted) (auto simp: pt_get_modify assms(3))
qed

lemma requeue_ok:
  assumes "procs_ok n X (t, s)" "pid \<notin> X" "table_ok n (pt_modify pid f t)" "pt_get t pid = Some p" "runnable (f p)"
    and "e = pcb_effective_priority (f p)"
  shows "procs_ok n X (pt_modify pid f t, enqueue pid e (dequeue pid s))"
proof (rule procs_okI [OF assms(3)])
  have "sched_ok (insert pid X) (pt_modify pid f t) (dequeue pid s)"
    by (intro modify_out_ok takeout_ok procs_okD(2) [OF assms(1)]) simp
  then show "sched_ok X (pt_modify pid f t) (enqueue pid e (dequeue pid s))"
    using assms(2,4-6) by (intro settle_enqueue [where p = "f p"]) (simp_all add: pt_get_modify)
qed

text \<open>Changing the priority of a process and moving it to the queue of its new level.\<close>

lemma move_ok:
  assumes "procs_ok n X (t, s)" "pid \<notin> X" "pt_get t pid = Some p"
    and "\<And>p. pt_get t pid = Some p \<Longrightarrow> pcb_base_priority p \<le> e p \<and> e p \<le> priority_u8 Critical"
  shows "procs_ok n X (pt_modify pid (\<lambda>p. p\<lparr>pcb_effective_priority := e p\<rparr>) t,
    if pcb_state p = Ready \<or> pcb_state p = Running then enqueue pid (e p) (dequeue pid s) else dequeue pid s)"
proof -
  let ?t = "pt_modify pid (\<lambda>p. p\<lparr>pcb_effective_priority := e p\<rparr>) t"
  have t: "table_ok n ?t" using procs_okD(1) [OF assms(1)] assms(4) by (rule table_ok_priority)
  show ?thesis
  proof (cases "pcb_state p = Ready \<or> pcb_state p = Running")
    case True
    then show ?thesis using requeue_ok [OF assms(1,2) t assms(3)] by (simp add: runnable_def)
  next
    case False
    have "sched_ok (insert pid X) ?t (dequeue pid s)"
      by (intro modify_out_ok takeout_ok procs_okD(2) [OF assms(1)]) simp
    then have "sched_ok X ?t (dequeue pid s)"
      by (rule settle_halted) (use False assms(3) in \<open>auto simp: pt_get_modify runnable_def\<close>)
    then show ?thesis using t False by (simp add: procs_ok_def)
  qed
qed

section \<open>Blocking, unblocking and priority inheritance\<close>

lemma inheritance_ok:
  "procs_ok n {} (t, s) \<Longrightarrow> boost \<le> priority_u8 Critical \<Longrightarrow> procs_ok n {} (apply_priority_inheritance d target boost t s)"
proof (induction d arbitrary: target t s)
  case (Suc d)
  show ?case
  proof (cases "pt_get t target")
    case (Some p)
    show ?thesis
    proof (cases "pcb_effective_priority p < boost")
      case True
      have "pcb_base_priority p \<le> boost"
        using pcb_okD [OF procs_okD(1) [OF Suc.prems(1)] Some] True by (auto simp: pcb_ok_def)
      then have "procs_ok n {} (pt_modify target (\<lambda>p. p\<lparr>pcb_effective_priority := boost\<rparr>) t,
          if pcb_state p = Ready \<or> pcb_state p = Running then enqueue target boost (dequeue target s) else dequeue target s)"
        using Suc.prems Some by (intro move_ok) auto
      then show ?thesis
        using Some True Suc.IH Suc.prems(2) by (cases "pcb_blocked_on p") (simp_all add: Let_def split del: if_split)
    qed (use Suc.prems Some in simp)
  qed (use Suc.prems in simp)
qed simp

lemma revert_ok:
  assumes "procs_ok n {} (t, s)" shows "procs_ok n {} (revert_priority_inheritance target t s)"
proof (cases "pt_get t target")
  case (Some p)
  have "pcb_base_priority p \<le> priority_u8 Critical"
    using pcb_okD [OF procs_okD(1) [OF assms] Some] by (auto simp: pcb_ok_def)
  then have "procs_ok n {} (pt_modify target (\<lambda>p. p\<lparr>pcb_effective_priority := pcb_base_priority p\<rparr>) t,
      if pcb_state p = Ready \<or> pcb_state p = Running then enqueue target (pcb_base_priority p) (dequeue target s) else dequeue target s)"
    using assms Some by (intro move_ok) auto
  then show ?thesis using Some assms by (simp add: revert_priority_inheritance_def Let_def)
qed (use assms in \<open>simp add: revert_priority_inheritance_def\<close>)

abbreviation kernel_ok :: "process_id \<Rightarrow> kernel \<Rightarrow> bool" where
  "kernel_ok n k \<equiv> procs_ok n {} (k_table k, k_sched k)"

lemma block_ok:
  assumes "kernel_ok n k" shows "kernel_ok n (snd (block pid w k))"
proof (cases "pt_get (k_table k) pid")
  case (Some p)
  let ?f = "\<lambda>p. p\<lparr>pcb_state := Blocked, pcb_blocked_on := w\<rparr>"
  have "procs_ok n {} (pt_modify pid ?f (k_table k), dequeue pid (k_sched k))"
    using assms by (rule halt_ok) (auto simp: runnable_def intro: table_ok_field procs_okD(1) [OF assms])
  moreover have "pcb_effective_priority p \<le> priority_u8 Critical"
    using pcb_okD [OF procs_okD(1) [OF assms] Some] by (auto simp: pcb_ok_def)
  ultimately have "procs_ok n {} (case w of None \<Rightarrow> (pt_modify pid ?f (k_table k), dequeue pid (k_sched k))
      | Some target \<Rightarrow> apply_priority_inheritance MAX_INHERITANCE_DEPTH target (pcb_effective_priority p)
          (pt_modify pid ?f (k_table k)) (dequeue pid (k_sched k)))"
    using inheritance_ok by (cases w) auto
  then show ?thesis using assms Some by (auto simp: block_def Let_def split: prod.split)
qed (use assms in \<open>simp add: block_def\<close>)

lemma raise_bounds:
  fixes b e :: u8
  assumes "b \<le> e" "e \<le> 4" shows "b \<le> min (e + 1) 4 \<and> min (e + 1) 4 \<le> 4"
  using assms by (auto simp: min_def word_le_nat_alt unat_word_ariths)

definition priorities_ok :: "pcb \<Rightarrow> bool" where
  "priorities_ok p \<longleftrightarrow> pcb_base_priority p = priority_u8 (in_priority (pcb_intent p)) \<and>
     pcb_base_priority p \<le> pcb_effective_priority p \<and> pcb_effective_priority p \<le> 4"

lemma boost_bounds: "priorities_ok p \<Longrightarrow> priorities_ok (apply_intent_boost s p)"
proof -
  have cap: "priorities_ok (background_cap q)" if "priorities_ok q" for q
    using that by (auto simp: priorities_ok_def background_cap_def min_def)
  have raise: "priorities_ok (raise_by_one q)" if "priorities_ok q" for q
    using raise_bounds [of "pcb_base_priority q" "pcb_effective_priority q"] that by (auto simp: priorities_ok_def raise_by_one_def)
  have top: "priorities_ok (q\<lparr>pcb_effective_priority := 4\<rparr>)" if "priorities_ok q" for q
    using that by (auto simp: priorities_ok_def)
  assume "priorities_ok p"
  then show ?thesis
    by (simp add: apply_intent_boost_def deadline_boost_def display_boost_def io_boost_def cap raise top)
qed

lemma boost_fields [simp]:
  "pcb_pid (apply_intent_boost s p) = pcb_pid p" "pcb_state (apply_intent_boost s p) = pcb_state p"
  "pcb_supervisor (apply_intent_boost s p) = pcb_supervisor p" "pcb_children (apply_intent_boost s p) = pcb_children p"
  "pcb_handle_table (apply_intent_boost s p) = pcb_handle_table p" "pcb_intent (apply_intent_boost s p) = pcb_intent p"
  "pcb_base_priority (apply_intent_boost s p) = pcb_base_priority p"
  by (simp_all add: apply_intent_boost_def deadline_boost_def display_boost_def io_boost_def background_cap_def raise_by_one_def)

lemma wake_up_sound: "pcb_ok t pid p \<Longrightarrow> sound_change (wake_up s) p"
  using boost_bounds [of "p\<lparr>pcb_blocked_on := None, pcb_state := Ready, pcb_wake_tick := sc_tick s\<rparr>" s]
  by (auto simp: sound_change_def wake_up_def pcb_ok_def priorities_ok_def)

lemma unblock_ok:
  assumes "kernel_ok n k" shows "kernel_ok n (snd (unblock pid k))"
proof (cases "pt_get (k_table k) pid")
  case (Some p)
  show ?thesis
  proof (cases "pcb_state p = Blocked")
    case True
    let ?f = "wake_up (k_sched k)"
    have "out (k_sched k) pid"
      using out_halted [OF procs_okD(2) [OF assms] Some] True by (simp add: runnable_def)
    then have d: "dequeue pid (k_sched k) = k_sched k" by (rule dequeue_out [OF procs_okD(2) [OF assms]])
    have "table_ok n (pt_modify pid ?f (k_table k))"
      using procs_okD(1) [OF assms] by (rule table_ok_modify)
        (auto simp: wake_up_def [of _ p for p] intro: wake_up_sound [OF pcb_okD [OF procs_okD(1) [OF assms]]])
    then have "procs_ok n {} (pt_modify pid ?f (k_table k), enqueue pid (pcb_effective_priority (?f p)) (k_sched k))"
      using requeue_ok [OF assms _ _ Some, of ?f] d by (simp add: runnable_def wake_up_def)
    then have "procs_ok n {} (case pcb_blocked_on p of
        None \<Rightarrow> (pt_modify pid ?f (k_table k), enqueue pid (pcb_effective_priority (?f p)) (k_sched k))
      | Some target \<Rightarrow> revert_priority_inheritance target (pt_modify pid ?f (k_table k))
          (enqueue pid (pcb_effective_priority (?f p)) (k_sched k)))"
      using revert_ok by (cases "pcb_blocked_on p") auto
    then show ?thesis using Some True by (auto simp: unblock_def Let_def split: prod.split)
  qed (use assms Some in \<open>simp add: unblock_def\<close>)
qed (use assms in \<open>simp add: unblock_def\<close>)

section \<open>Crashes and restarts\<close>

definition halted :: "process_table \<Rightarrow> process_id \<Rightarrow> bool" where
  "halted t pid \<longleftrightarrow> (\<forall>p. pt_get t pid = Some p \<longrightarrow> \<not> runnable p)"

lemma kill_child_ok: "procs_ok n {} ts \<Longrightarrow> procs_ok n {} (kill_child pid ts)"
proof (cases ts)
  case (Pair t s)
  assume ok: "procs_ok n {} ts"
  have "procs_ok n {} (pt_modify pid (\<lambda>p. p\<lparr>pcb_state := Terminated, pcb_exit_reason := Some ExitKilled\<rparr>) t, dequeue pid s)"
    using ok [unfolded Pair] by (rule halt_ok)
      (auto simp: runnable_def intro: table_ok_field procs_okD(1) [OF ok [unfolded Pair]])
  then show ?thesis using ok Pair by (simp add: kill_child_def split: option.split)
qed

lemma kill_child_get:
  "pt_get (fst (kill_child pid ts)) q = (if q = pid
     then map_option (\<lambda>p. if pcb_state p \<noteq> Terminated then p\<lparr>pcb_state := Terminated, pcb_exit_reason := Some ExitKilled\<rparr> else p) (pt_get (fst ts) q)
     else pt_get (fst ts) q)"
  by (auto simp: kill_child_def pt_get_modify split: option.split)

lemma kill_child_halted: "halted (fst (kill_child pid ts)) q \<longleftrightarrow> q = pid \<or> halted (fst ts) q"
proof (cases "q = pid")
  case True
  then show ?thesis by (cases "pt_get (fst ts) pid") (simp_all add: halted_def kill_child_get runnable_def)
qed (simp add: halted_def kill_child_get)

lemma kill_all_ok: "procs_ok n {} ts \<Longrightarrow> procs_ok n {} (fold kill_child pids ts)"
  by (induction pids arbitrary: ts) (simp_all add: kill_child_ok)

lemma kill_all_halted: "halted (fst (fold kill_child pids ts)) q \<longleftrightarrow> q \<in> set pids \<or> halted (fst ts) q"
  by (induction pids arbitrary: ts) (auto simp: kill_child_halted)

lemma restart_ok:
  assumes "procs_ok n {} ts" "halted (fst ts) pid" shows "procs_ok n {} (restart_process now pid ts)"
proof (cases ts)
  case (Pair t s)
  show ?thesis
  proof (cases "pt_get t pid")
    case (Some p)
    note ok = assms(1) [unfolded Pair]
    have "\<not> runnable p" using assms(2) Some Pair by (auto simp: halted_def)
    then have "out s pid" by (rule out_halted [OF procs_okD(2) [OF ok] Some])
    then have d: "dequeue pid s = s" by (rule dequeue_out [OF procs_okD(2) [OF ok]])
    have "runnable (reset_for_restart now p)" by (simp add: runnable_def reset_for_restart_def)
    then show ?thesis
      using requeue_ok [OF ok _ table_ok_restart [OF procs_okD(1) [OF ok]] Some] d Pair Some by (simp add: restart_process_def)
  qed (use assms Pair in \<open>simp add: restart_process_def\<close>)
qed

lemma restart_get:
  "pt_get (fst (restart_process now pid ts)) q = (if q = pid then map_option (reset_for_restart now) (pt_get (fst ts) q) else pt_get (fst ts) q)"
  by (auto simp: restart_process_def pt_get_modify split: option.split)

lemma restarts_ok:
  "procs_ok n {} ts \<Longrightarrow> distinct pids \<Longrightarrow> (\<And>pid. pid \<in> set pids \<Longrightarrow> halted (fst ts) pid) \<Longrightarrow> procs_ok n {} (fold (restart_process now) pids ts)"
proof (induction pids arbitrary: ts)
  case (Cons pid pids)
  have "halted (fst (restart_process now pid ts)) q" if "q \<in> set pids" for q
    using Cons.prems(2,3) that unfolding halted_def restart_get by auto
  then show ?case using Cons by (simp add: restart_ok)
qed simp

lemma restart_all_ok: "procs_ok n {} ts \<Longrightarrow> distinct pids \<Longrightarrow> procs_ok n {} (restart_all now pids ts)"
  unfolding restart_all_def by (intro restarts_ok kill_all_ok) (simp_all add: kill_all_halted)

lemma apply_strategy_ok:
  assumes "procs_ok n {} ts" "halted (fst ts) crashed" "distinct (pcb_children sv)"
  shows "procs_ok n {} (snd (apply_strategy sv crashed now ts))"
  using assms by (auto simp: apply_strategy_def Let_def rest_of_def restart_ok restart_all_ok split: supervision_strategy.split)

lemma crash_handled:
  "procs_ok n {} (t, s) \<Longrightarrow> halted t crashed \<Longrightarrow>
   \<exists>r t' s'. handle_child_crash sv crashed now t s = Some (r, t', s') \<and> procs_ok n {} (t', s')"
proof (induction "unat sv" arbitrary: sv crashed t s rule: less_induct)
  case less
  note ok = less.prems(1) and tok = procs_okD(1) [OF less.prems(1)]
  show ?case
  proof (cases "pt_get t sv")
    case None
    then show ?thesis using ok by (simp add: handle_child_crash.simps)
  next
    case (Some p)
    obtain exceeded tracker where r: "record_restart (pcb_restart_tracker p) now = (exceeded, tracker)" by fastforce
    let ?t1 = "pt_modify sv (\<lambda>p. p\<lparr>pcb_restart_tracker := tracker\<rparr>) t"
    have ok1: "procs_ok n {} (?t1, s)"
      using tok procs_okD(2) [OF ok] by (intro procs_okI table_ok_field modify_same_ok) simp_all
    show ?thesis
    proof (cases exceeded)
      case False
      have "halted ?t1 crashed" using less.prems(2) by (auto simp: halted_def pt_get_modify runnable_def)
      then have "procs_ok n {} (snd (apply_strategy p crashed now (?t1, s)))"
        using ok1 pcb_okD [OF tok Some] by (intro apply_strategy_ok) (auto simp: pcb_ok_def)
      then show ?thesis using Some r False
        by (cases "apply_strategy p crashed now (?t1, s)") (simp add: handle_child_crash.simps [of sv] Let_def)
    next
      case True
      let ?t2 = "pt_modify sv (\<lambda>p. p\<lparr>pcb_state := Terminated, pcb_exit_reason := Some ExitIntensityExceeded\<rparr>) ?t1"
      have ok2: "procs_ok n {} (?t2, dequeue sv s)"
        using ok1 by (rule halt_ok) (auto simp: runnable_def intro: table_ok_field procs_okD(1) [OF ok1])
      have "halted ?t2 sv" by (auto simp: halted_def pt_get_modify runnable_def)
      moreover have "unat (pcb_supervisor p) < unat sv"
        using pcb_okD [OF tok Some] by (auto simp: pcb_ok_def word_less_nat_alt)
      ultimately show ?thesis
        using less.hyps [of "pcb_supervisor p" ?t2 "dequeue sv s" sv] ok2 Some r True
        by (auto simp: handle_child_crash.simps [of sv] Let_def)
    qed
  qed
qed

lemma crash_ok:
  assumes "kernel_ok n k" shows "\<exists>r k'. crash pid k = Some (r, k') \<and> kernel_ok n k'"
proof (cases "pt_get (k_table k) pid")
  case (Some p)
  let ?f = "\<lambda>p. p\<lparr>pcb_state := Terminated, pcb_exit_reason := Some ExitCrash\<rparr>"
  let ?t = "pt_modify pid ?f (k_table k)" and ?s = "dequeue pid (k_sched k)"
  have ok: "procs_ok n {} (?t, ?s)"
    using assms by (rule halt_ok) (auto simp: runnable_def intro: table_ok_field procs_okD(1) [OF assms])
  moreover have "halted ?t pid" by (auto simp: halted_def pt_get_modify runnable_def)
  ultimately obtain r t' s' where "handle_child_crash (pcb_supervisor p) pid (sc_tick ?s) ?t ?s = Some (r, t', s')" "procs_ok n {} (t', s')"
    using crash_handled by blast
  then show ?thesis using Some by (simp add: crash_def Let_def)
qed (use assms in \<open>simp add: crash_def\<close>)

section \<open>Spawning and terminating\<close>

lemma table_ok_insert:
  assumes "table_ok n t" "pt_get t pid = None" "pt_count t < TABLE_MAX_PROCESSES" "pcb_ok t pid p" "pcb_children p = []"
  shows "table_ok n (t\<lparr>pt_processes := fmupd pid p (pt_processes t)\<rparr>)"
  unfolding table_ok_def
proof (intro conjI allI impI)
  let ?t = "t\<lparr>pt_processes := fmupd pid p (pt_processes t)\<rparr>"
  show "pt_next_pid ?t = n" "n \<noteq> 0" using assms(1) by (simp_all add: table_ok_def)
  show "pt_count ?t \<le> TABLE_MAX_PROCESSES"
    using assms(2,3) by (simp add: pt_count_def fcard_finsert_disjoint fmdom_notI)
  fix q p' assume q: "pt_get ?t q = Some p'"
  have "pcb_ok t q p'" using q assms(1,2,4) by (auto simp: table_ok_def split: if_splits)
  then show "pcb_ok ?t q p'" using assms(2) unfolding pcb_ok_def by auto
qed

lemma insert_ok:
  assumes "procs_ok n {} (t, s)" "pt_get t pid = None" "pt_count t < TABLE_MAX_PROCESSES" "pcb_ok t pid p" "pcb_children p = []"
    "runnable p" "e = pcb_effective_priority p"
  shows "procs_ok n {} (t\<lparr>pt_processes := fmupd pid p (pt_processes t)\<rparr>, enqueue pid e s)"
proof (rule procs_okI)
  let ?t = "t\<lparr>pt_processes := fmupd pid p (pt_processes t)\<rparr>"
  show "table_ok n ?t" using procs_okD(1) [OF assms(1)] assms(2-5) by (rule table_ok_insert)
  have s: "sched_ok {} t s" by (rule procs_okD(2) [OF assms(1)])
  have "sched_ok {pid} t s"
    using takeout_ok [OF s, of pid] dequeue_out [OF s out_absent [OF s assms(2)]] by simp
  then have "sched_ok {pid} ?t s" by (rule change_ok) (auto intro: option.rel_refl)
  then show "sched_ok {} ?t (enqueue pid e s)" using assms(6,7) by (intro settle_enqueue [where p = p]) simp_all
qed

lemma add_child_ok:
  assumes "table_ok n t" "pt_get t c = Some pc" "pcb_supervisor pc = sv" "\<And>p. pt_get t sv = Some p \<Longrightarrow> c \<notin> set (pcb_children p)"
  shows "table_ok n (pt_modify sv (\<lambda>p. p\<lparr>pcb_children := pcb_children p @ [c]\<rparr>) t)"
  unfolding table_ok_def
proof (intro conjI allI impI)
  let ?f = "\<lambda>p. p\<lparr>pcb_children := pcb_children p @ [c]\<rparr>"
  fix q p' assume q: "pt_get (pt_modify sv ?f t) q = Some p'"
  have "pcb_ok t q p'"
  proof (cases "q = sv")
    case True
    then obtain p where p: "pt_get t sv = Some p" "p' = ?f p" using q by (auto simp: pt_get_modify)
    then show ?thesis using pcb_okD [OF assms(1) p(1)] assms(2,3) assms(4) [OF p(1)] True by (auto simp: pcb_ok_def)
  qed (use q assms(1) in \<open>auto simp: pt_get_modify table_ok_def\<close>)
  then show "pcb_ok (pt_modify sv ?f t) q p'" by (rule pcb_ok_modify_other) simp
qed (use assms(1) in \<open>simp_all add: table_ok_def\<close>)

lemma fresh_pid: "table_ok n t \<Longrightarrow> pt_get t n = None"
  by (cases "pt_get t n") (auto dest!: pcb_okD simp: pcb_ok_def table_ok_def)

lemma less_next_pid: "n + 1 \<noteq> 0 \<Longrightarrow> n < n + (1 :: u32)"
  using unatSuc [of n] by (simp add: add.commute word_less_nat_alt)

lemma bump_ok:
  assumes "procs_ok n X (t, s)" "n + 1 \<noteq> 0" shows "procs_ok (n + 1) X (t\<lparr>pt_next_pid := n + 1\<rparr>, s)"
proof -
  have less: "pid < n + 1" if "pid < n" for pid using that assms(2) by (metis less_trans less_next_pid)
  have "pcb_ok (t\<lparr>pt_next_pid := n + 1\<rparr>) pid p" if "pt_get t pid = Some p" for pid p
    using pcb_okD [OF procs_okD(1) [OF assms(1)] that] procs_okD(1) [OF assms(1)] less by (auto simp: pcb_ok_def table_ok_def)
  moreover have "sched_ok X (t\<lparr>pt_next_pid := n + 1\<rparr>) s"
    using procs_okD(2) [OF assms(1)] by (rule change_ok) (auto intro: option.rel_refl)
  ultimately show ?thesis
    using assms by (auto simp: procs_ok_def table_ok_def pt_count_def)
qed

lemma pcb_new_ok:
  assumes "table_ok (n + 1) t" "n \<noteq> 0" "n < n + 1" "pt_get t sv \<noteq> None" "sv < n"
  shows "pcb_ok t n (pcb_new n intent descr sv strat ord now)"
  using assms by (auto simp: pcb_ok_def pcb_new_def table_ok_def PID_KERNEL_def handles_ok_new priority_u8_le)

lemma spawn_ok:
  assumes "kernel_ok n k" "n + 1 \<noteq> 0"
  shows "\<exists>n'. kernel_ok n' (snd (spawn sv intent descr strat k)) \<and> unat n' \<le> unat n + 1"
proof (cases "pt_contains (k_table k) sv")
  case False
  then show ?thesis using assms(1) by (auto simp: spawn_def)
next
  case True
  note tok = procs_okD(1) [OF assms(1)]
  let ?t1 = "(k_table k)\<lparr>pt_next_pid := n + 1\<rparr>"
  have n: "pt_next_pid (k_table k) = n" "n \<noteq> 0" using tok by (simp_all add: table_ok_def)
  have a: "alloc_pid (k_table k) = (n, ?t1)" by (simp add: alloc_pid_def n(1))
  have ok1: "procs_ok (n + 1) {} (?t1, k_sched k)" by (rule bump_ok [OF assms])
  have le: "unat (n + 1) \<le> unat n + 1" by (simp add: unat_word_ariths)
  obtain svp where svp: "pt_get (k_table k) sv = Some svp" using True by (auto simp: pt_contains_def)
  have "sv < n" using pcb_okD [OF tok svp] n(1) by (auto simp: pcb_ok_def)
  define p where "p = pcb_new n intent descr sv (case strat of None \<Rightarrow> OneForOne | Some st \<Rightarrow> st) (of_nat (length (pcb_children svp))) (sc_tick (k_sched k))"
  have p: "pcb_pid p = n" "pcb_children p = []" "pcb_supervisor p = sv" "runnable p" by (simp_all add: p_def pcb_new_def runnable_def)
  have fresh: "pt_get ?t1 n = None" using fresh_pid [OF tok] by simp
  show ?thesis
  proof (cases "pt_count ?t1 \<ge> TABLE_MAX_PROCESSES")
    case True
    then have "snd (spawn sv intent descr strat k) = k\<lparr>k_table := ?t1\<rparr>"
      using a svp by (simp add: spawn_def pt_contains_def pt_insert_def Let_def)
    then show ?thesis using ok1 le by auto
  next
    case False
    let ?t2 = "?t1\<lparr>pt_processes := fmupd n p (pt_processes ?t1)\<rparr>"
    let ?t3 = "pt_modify sv (\<lambda>sv. sv\<lparr>pcb_children := pcb_children sv @ [n]\<rparr>) ?t2"
    let ?s = "enqueue n (pcb_effective_priority p) (k_sched k)"
    have "pcb_ok ?t1 n p"
      unfolding p_def using procs_okD(1) [OF ok1] n(2) assms(2) svp \<open>sv < n\<close>
      by (intro pcb_new_ok) (simp_all add: less_next_pid)
    then have ok2: "procs_ok (n + 1) {} (?t2, ?s)"
      using False by (intro insert_ok [OF ok1 fresh] p) simp_all
    have "n \<notin> set (pcb_children q)" if q: "pt_get ?t2 sv = Some q" for q
    proof -
      have "q = svp" using q svp \<open>sv < n\<close> by (auto split: if_splits)
      then show ?thesis using pcb_okD [OF tok svp] fresh by (auto simp: pcb_ok_def)
    qed
    then have "table_ok (n + 1) ?t3"
      using procs_okD(1) [OF ok2] p by (intro add_child_ok [where pc = p]) simp_all
    moreover have "sched_ok {} ?t3 ?s" using procs_okD(2) [OF ok2] by (rule modify_same_ok) simp_all
    moreover have "snd (spawn sv intent descr strat k) = k\<lparr>k_table := ?t3, k_sched := ?s, k_bus := snd (register_process (k_bus k) n)\<rparr>"
      using a svp False fresh p(1)
      by (simp add: spawn_def pt_contains_def pt_insert_def Let_def p_def [symmetric] split: prod.split)
    ultimately show ?thesis using le by (auto intro!: procs_okI)
  qed
qed

lemma terminate_ok:
  assumes "kernel_ok n k" shows "kernel_ok n (snd (terminate pid k))"
proof (cases "pt_get (k_table k) pid")
  case (Some p)
  let ?t = "pt_modify pid (\<lambda>p. p\<lparr>pcb_state := Terminated, pcb_exit_reason := Some ExitNormal\<rparr>) (k_table k)"
  let ?g = "\<lambda>sv. sv\<lparr>pcb_children := filter (\<lambda>c. c \<noteq> pid) (pcb_children sv)\<rparr>"
  have ok: "procs_ok n {} (?t, dequeue pid (k_sched k))"
    using assms by (rule halt_ok) (auto simp: runnable_def intro: table_ok_field procs_okD(1) [OF assms])
  have "table_ok n (pt_modify (pcb_supervisor p) ?g ?t)"
    using procs_okD(1) [OF ok]
  proof (rule table_ok_modify)
    show "sound_change ?g q" if "pt_get ?t (pcb_supervisor p) = Some q" for q
      using pcb_okD [OF procs_okD(1) [OF ok] that] by (auto simp: sound_change_def pcb_ok_def)
  qed simp
  moreover have "sched_ok {} (pt_modify (pcb_supervisor p) ?g ?t) (dequeue pid (k_sched k))"
    using procs_okD(2) [OF ok] by (rule modify_same_ok) simp_all
  ultimately show ?thesis using Some by (simp add: terminate_def Let_def procs_ok_def split: prod.split)
qed (use assms in \<open>simp add: terminate_def Let_def\<close>)

section \<open>Dispatching\<close>

lemma set_running_fields [simp]:
  "pcb_pid (set_running now p) = pcb_pid p" "pcb_supervisor (set_running now p) = pcb_supervisor p"
  "pcb_children (set_running now p) = pcb_children p" "pcb_handle_table (set_running now p) = pcb_handle_table p"
  "pcb_intent (set_running now p) = pcb_intent p" "pcb_base_priority (set_running now p) = pcb_base_priority p"
  "pcb_effective_priority (set_running now p) = pcb_effective_priority p" "pcb_state (set_running now p) = Running"
  by (simp_all add: set_running_def)

lemma put_back_table: "table_ok n t \<Longrightarrow> table_ok n (snd (put_back s t))"
  by (simp add: put_back_def Let_def split: option.split) (auto intro: table_ok_field)

lemma pick_level_table: "table_ok n t \<Longrightarrow> table_ok n (snd (snd (pick_level l s t)))"
  by (induction l arbitrary: s) (auto simp: Let_def split: list.split option.split intro: table_ok_field)

lemma next_procs_ok:
  assumes "procs_ok n X (t, s)" "sched_next s t = (r, s', t')"
  shows "procs_ok n X (t', s') \<and> sc_current s' = r \<and> sc_tick s' = sc_tick s"
proof -
  have "table_ok n t'"
    using assms(2) procs_okD(1) [OF assms(1)] put_back_table [of n t s] pick_level_table [of n "snd (put_back s t)"]
    by (auto simp: sched_next_def split: option.splits prod.splits) (metis snd_conv)
  then show ?thesis using sched_next_ok [OF procs_okD(2) [OF assms(1)] assms(2)] by (simp add: procs_ok_def)
qed

text \<open>Processes that are out are not looked at.\<close>

lemma next_frame:
  assumes "sched_ok X t s" "sched_next s t = (r, s', t')" "q \<in> X"
  shows "pt_get t' q = pt_get t q"
proof (cases "keeps_running s t")
  case (Some pid)
  then show ?thesis using assms(2) by (simp add: sched_next_def)
next
  case None
  obtain s1 t1 where b: "put_back s t = (s1, t1)" by fastforce
  have ok: "sched_ok X t1 s1" "sc_current s1 = None" using put_back_ok [OF assms(1) b] by simp_all
  have pick: "pick_level NUM_LEVELS s1 t1 = (r, s', t')" using assms(2) None b by (simp add: sched_next_def)
  have "sc_current s \<noteq> Some q" using sched_okD(7) [OF assms(1,3)] by (simp add: out_def)
  then have 1: "pt_get t1 q = pt_get t q"
    using b by (auto simp: put_back_def Let_def pt_get_modify split: option.splits if_splits)
  from ok show ?thesis
  proof (cases rule: pick_cases)
    case idle
    then show ?thesis using pick 1 by simp
  next
    case (chosen l pid rest)
    then have "pid \<in> queued s1"
      using sched_okD(1) [OF ok(1)] unfolding queued_iff top_level_def by (metis list.set_intros(1))
    then have "q \<noteq> pid" using sched_okD(7) [OF ok(1) assms(3)] by (auto simp: out_def)
    then show ?thesis using pick chosen(3) 1 by (auto simp: pt_get_modify)
  qed
qed

lemma consume_ok: "procs_ok n X (t, s) \<Longrightarrow> procs_ok n X (snd (consume_tick s t), s)"
  unfolding consume_tick_def
  by (auto split: option.split intro!: procs_okI table_ok_field modify_same_ok simp: use_tick_def dest: procs_okD)

end
