(* ===== verification/Process_Switch.thy ===== *)
theory Process_Switch
  imports Process_Sound
begin

text \<open>
  The context switch of the timer interrupt: it keeps the invariants, and the processor resumes
  the process that the scheduler has as current.
\<close>

section \<open>The context switch\<close>

text \<open>The processes set aside by the loop: out of the queues, ready, with their priority noted.\<close>

definition set_aside :: "(process_id \<times> u8) list \<Rightarrow> process_table \<Rightarrow> bool" where
  "set_aside sk t \<longleftrightarrow> distinct (map fst sk) \<and>
     (\<forall>(pid, prio) \<in> set sk. \<exists>p. pt_get t pid = Some p \<and> pcb_state p = Ready \<and> pcb_effective_priority p = prio)"

lemma enqueue_all_ok:
  "procs_ok n (fst ` set sk) (t, s) \<Longrightarrow> set_aside sk t \<Longrightarrow> procs_ok n {} (t, enqueue_all sk s)"
proof (induction sk arbitrary: s)
  case (Cons x sk)
  obtain pid prio where x: "x = (pid, prio)" by fastforce
  obtain p where p: "pt_get t pid = Some p" "pcb_state p = Ready" "pcb_effective_priority p = prio"
    using Cons.prems(2) x by (auto simp: set_aside_def)
  have "pid \<notin> fst ` set sk" using Cons.prems(2) x by (auto simp: set_aside_def)
  then have "sched_ok (fst ` set sk) t (enqueue pid prio s)"
    using procs_okD(2) [OF Cons.prems(1)] x p by (intro settle_enqueue [where p = p]) (simp_all add: runnable_def)
  then have "procs_ok n {} (t, enqueue_all sk (enqueue pid prio s))"
    using Cons.prems procs_okD(1) [OF Cons.prems(1)] by (intro Cons.IH procs_okI) (auto simp: set_aside_def)
  then show ?case by (simp add: enqueue_all_def x)
qed (simp add: enqueue_all_def)

text \<open>The processor is about to resume the current process, on its stack and in its address space.\<close>

definition resumes :: "cpu \<Rightarrow> scheduler \<Rightarrow> process_table \<Rightarrow> bool" where
  "resumes c s t \<longleftrightarrow> (\<exists>pid p. sc_current s = Some pid \<and> pt_get t pid = Some p \<and> pcb_state p = Running \<and>
     cpu_switch_rsp c = pcb_saved_rsp p \<and> pcb_saved_rsp p \<noteq> 0 \<and> pcb_kernel_stack_base p \<noteq> None \<and>
     cpu_rsp0 c = pcb_kernel_stack_top p \<and> cpu_syscall_rsp c = pcb_kernel_stack_top p \<and>
     (\<forall>a. pcb_address_space p = Some a \<longrightarrow> cpu_cr3 c = as_pml4_phys a))"

lemma switch_found:
  assumes "sched_ok X t s" "sc_current s = Some pid" "switch_to_process pid t c = (True, c')"
  shows "resumes c' s t"
  using assms(3) sched_okD(5) [OF assms(1,2)] assms(2)
  by (auto simp: switch_to_process_def resumes_def split: option.splits if_splits)

lemma switch_not_found: "switch_to_process pid t c = (False, c') \<Longrightarrow> c' = c"
  by (auto simp: switch_to_process_def split: option.splits if_splits)

lemma switch_loop_ok:
  "procs_ok n (fst ` set sk) (t, s) \<Longrightarrow> set_aside sk t \<Longrightarrow> length sk + m \<le> 8 \<Longrightarrow> switch_loop m sk c s t = (found, sk', c', s', t') \<Longrightarrow>
   procs_ok n (fst ` set sk') (t', s') \<and> set_aside sk' t' \<and> (found \<longrightarrow> resumes c' s' t') \<and>
   (\<not> found \<longrightarrow> c' = c \<and> (0 < m \<or> sc_current s = None \<longrightarrow> sc_current s' = None))"
proof (induction m arbitrary: sk s t)
  case 0
  then show ?case by auto
next
  case (Suc m)
  obtain r s1 t1 where nx: "sched_next s t = (r, s1, t1)" by (metis prod_cases3)
  note ok1 = next_procs_ok [OF Suc.prems(1) nx]
  have "pt_get t1 q = pt_get t q" if "q \<in> fst ` set sk" for q
    using next_frame [OF procs_okD(2) [OF Suc.prems(1)] nx that] .
  then have sa: "set_aside sk t1" using Suc.prems(2) by (force simp: set_aside_def)
  show ?case
  proof (cases r)
    case None
    then have "found = False" "sk' = sk" "c' = c" "s' = s1" "t' = t1" using Suc.prems(4) nx by simp_all
    then show ?thesis using ok1 sa None by simp
  next
    case (Some pid)
    obtain b c1 where sw: "switch_to_process pid t1 c = (b, c1)" by fastforce
    show ?thesis
    proof (cases b)
      case True
      then have r: "found = True" "sk' = sk" "c' = c1" "s' = s1" "t' = t1" using Suc.prems(4) nx sw Some by simp_all
      have "sched_ok (fst ` set sk) t1 s1" using ok1 procs_okD(2) by blast
      then have "resumes c1 s1 t1" using ok1 sw Some True by (intro switch_found) simp_all
      then show ?thesis unfolding r using ok1 sa by simp
    next
      case False
      obtain p where p: "pt_get t1 pid = Some p" "pcb_state p = Running"
        using sched_okD(5) [OF procs_okD(2), of n "fst ` set sk" t1 s1 pid] ok1 Some by blast
      let ?t = "pt_modify pid (\<lambda>p. p\<lparr>pcb_state := Ready\<rparr>) t1"
      let ?sk = "sk @ [(pid, pcb_effective_priority p)]"
      have "sched_ok (insert pid (fst ` set sk)) ?t (dequeue pid s1)"
        using ok1 by (intro modify_out_ok takeout_ok) (simp_all add: procs_ok_def)
      then have ok2: "procs_ok n (fst ` set ?sk) (?t, dequeue pid s1)"
        using ok1 by (intro procs_okI table_ok_field) (simp_all add: procs_ok_def)
      have new: "pid \<notin> fst ` set sk"
        using sched_okD(7) [OF procs_okD(2), of n "fst ` set sk" t1 s1 pid] ok1 Some by (auto simp: out_def)
      have "set_aside ?sk ?t"
        unfolding set_aside_def
      proof (intro conjI ballI)
        show "distinct (map fst ?sk)" using sa new by (simp add: set_aside_def)
        fix x assume x: "x \<in> set ?sk"
        obtain q prio where q: "x = (q, prio)" by fastforce
        have "\<exists>p. pt_get ?t q = Some p \<and> pcb_state p = Ready \<and> pcb_effective_priority p = prio"
        proof (cases "x \<in> set sk")
          case True
          then have "q \<in> fst ` set sk" by (simp add: q image_iff rev_bexI)
          then have "q \<noteq> pid" using new by blast
          then show ?thesis using sa True q by (auto simp: set_aside_def pt_get_modify)
        next
          case False
          then show ?thesis using x q p by (simp add: pt_get_modify)
        qed
        then show "case x of (q, prio) \<Rightarrow> \<exists>p. pt_get ?t q = Some p \<and> pcb_state p = Ready \<and> pcb_effective_priority p = prio"
          by (simp add: q)
      qed
      moreover have "switch_loop m ?sk c (dequeue pid s1) ?t = (found, sk', c', s', t')"
        using Suc.prems(3,4) nx sw Some False p switch_not_found [of pid t1 c c1] by (simp add: Let_def)
      moreover have "sc_current (dequeue pid s1) = None" using ok1 Some by simp
      moreover have "length ?sk + m \<le> 8" using Suc.prems(3) by simp
      ultimately show ?thesis using Suc.IH [OF ok2] by blast
    qed
  qed
qed

lemma enqueue_all_fields [simp]: "sc_current (enqueue_all sk s) = sc_current s" "sc_tick (enqueue_all sk s) = sc_tick s"
  unfolding enqueue_all_def by (induction sk arbitrary: s) auto

lemma try_switch_ok:
  assumes "procs_ok n {} (t, s)" "try_switch_next c s t = (c', s', t')"
  shows "procs_ok n {} (t', s') \<and>
    (resumes c' s' t' \<or> sc_current s' = None \<and> c' = (if cpu_idle_rsp c \<noteq> 0 then switch_to_idle c else c))"
proof -
  obtain found sk c1 s1 t1 where l: "switch_loop 8 [] c s t = (found, sk, c1, s1, t1)" by (metis prod_cases5)
  note ok = switch_loop_ok [of n "[]", OF _ _ _ l]
  have a: "procs_ok n (fst ` set sk) (t1, s1)" "set_aside sk t1" "found \<Longrightarrow> resumes c1 s1 t1"
    "\<not> found \<Longrightarrow> c1 = c \<and> sc_current s1 = None"
    using ok assms(1) by (simp_all add: set_aside_def)
  have b: "c' = (if found then c1 else if cpu_idle_rsp c1 \<noteq> 0 then switch_to_idle c1 else c1)" "s' = enqueue_all sk s1" "t' = t1"
    using assms(2) l by (simp_all add: try_switch_next_def)
  have "procs_ok n {} (t', s')" unfolding b by (rule enqueue_all_ok [OF a(1,2)])
  then show ?thesis using a(3,4) b by (auto simp: resumes_def)
qed

text \<open>
  C30. A timer interrupt that finds the locks free keeps the invariants of table and queues. The
  interrupted context goes on only while the current process has time left, or when no process can
  run and no idle context is saved. Otherwise the processor resumes the process that is now
  current, from its saved context, on its kernel stack and in its address space, or the idle
  context in the kernel's address space with no current process.
\<close>

theorem timer_switch_sound:
  assumes "procs_ok n {} (t, s)" "cpu_switch_rsp c = 0" "timer_handler True True frame_rsp c s t = (c', s', t')"
  shows "procs_ok n {} (t', s') \<and>
    (if cpu_switch_rsp c' = 0
     then cpu_cr3 c' = cpu_cr3 c \<and>
       ((\<exists>pid p. sc_current s = Some pid \<and> sc_current s' = Some pid \<and> pt_get t' pid = Some p \<and>
           pcb_state p = Running \<and> 0 < pcb_time_slice_remaining p) \<or>
        sc_current s' = None \<and> cpu_idle_rsp c = 0)
     else resumes c' s' t' \<or>
       sc_current s' = None \<and> cpu_cr3 c' = cpu_kernel_cr3 c \<and>
       cpu_switch_rsp c' = (if cpu_idle_rsp c = 0 then frame_rsp else cpu_idle_rsp c))"
proof -
  let ?c = "c\<lparr>cpu_tick_count := cpu_tick_count c + 1\<rparr>" and ?s = "sched_tick s"
  have ok: "procs_ok n {} (t, ?s)" using assms(1) by (simp add: procs_ok_def sched_tick_def)
  have sw: ?thesis
    if "procs_ok n {} (t1, ?s)" "try_switch_next c1 ?s t1 = (c', s', t')"
      "c1 = ?c \<or> cpu_idle_rsp c = 0 \<and> c1 = ?c\<lparr>cpu_idle_rsp := frame_rsp\<rparr>" for c1 t1
    using try_switch_ok [OF that(1,2)] that(3) assms(2) by (auto simp: switch_to_idle_def resumes_def)
  show ?thesis
  proof (cases "sc_current s")
    case None
    then show ?thesis
      using assms(3) by (intro sw [OF ok, of "if cpu_idle_rsp ?c = 0 then ?c\<lparr>cpu_idle_rsp := frame_rsp\<rparr> else ?c"])
        (auto simp: timer_handler_def sched_tick_def Let_def)
  next
    case (Some pid)
    obtain p where p: "pt_get t pid = Some p" "pcb_state p = Running" using sched_okD(5) [OF procs_okD(2) [OF assms(1)] Some] by blast
    obtain b t1 where ct: "consume_tick ?s t = (b, t1)" by fastforce
    have ok1: "procs_ok n {} (t1, ?s)" using consume_ok [OF ok] ct by simp
    have run: "timer_handler True True frame_rsp c s t =
        (if b then (?c, ?s, t1) else try_switch_next ?c ?s (pt_modify pid (save_context frame_rsp) t1))"
      using Some p ct by (simp add: timer_handler_def sched_tick_def Let_def)
    show ?thesis
    proof (cases b)
      case True
      then have "\<exists>q. pt_get t1 pid = Some q \<and> pcb_state q = Running \<and> 0 < pcb_time_slice_remaining q"
        using ct Some p by (auto simp: consume_tick_def sched_tick_def pt_get_modify use_tick_def split: if_splits)
      then show ?thesis using run True assms(2,3) ok1 Some by (auto simp: sched_tick_def)
    next
      case False
      have "procs_ok n {} (pt_modify pid (save_context frame_rsp) t1, ?s)"
        using ok1 by (intro procs_okI table_ok_field modify_same_ok) (auto simp: save_context_def dest: procs_okD)
      then show ?thesis using run False assms(3) by (intro sw [of _ ?c]) simp_all
    qed
  qed
qed

end
