(* ===== verification/Process_History.thy ===== *)
theory Process_History
  imports Process_Switch
begin

text \<open>
  Histories of the process interface: aging, the sequence of operations from the start of the
  kernel, and the properties that hold throughout.
\<close>

section \<open>Aging\<close>

definition waiting_at :: "process_table \<Rightarrow> scheduler \<Rightarrow> process_id \<times> nat \<times> u8 \<Rightarrow> bool" where
  "waiting_at t s x \<longleftrightarrow> (case x of (pid, l, e) \<Rightarrow> l < NUM_LEVELS \<and> pid \<in> set (sc_queues s ! l) \<and>
     (\<exists>p. pt_get t pid = Some p \<and> pcb_base_priority p \<le> e \<and> e \<le> priority_u8 Critical))"

lemma age_one_eq:
  assumes "sched_ok X t s" "l < NUM_LEVELS" "pid \<in> set (sc_queues s ! l)"
  shows "age_one (pid, l, e) (s, t) = (enqueue pid e (dequeue pid s), pt_modify pid (\<lambda>p. p\<lparr>pcb_effective_priority := e\<rparr>) t)"
proof -
  have "pid \<notin> queued (dequeue pid s)" by (simp add: queued_dequeue)
  then have "pid \<notin> set (sc_queues (dequeue pid s) ! level_of e)"
    using sched_okD(1) [OF assms(1)] level_of_less [of e] unfolding queued_iff by (metis dequeue_sel(1))
  then show ?thesis by (simp add: enqueue_def Let_def dequeue_level [OF assms])
qed

lemma age_one_ok:
  assumes "procs_ok n {} (t, s)" "waiting_at t s (pid, l, e)" "age_one (pid, l, e) (s, t) = (s', t')"
  shows "procs_ok n {} (t', s') \<and> (\<forall>x. fst x \<noteq> pid \<longrightarrow> waiting_at t s x \<longrightarrow> waiting_at t' s' x)"
proof -
  note s = procs_okD(2) [OF assms(1)]
  have w: "l < NUM_LEVELS" "pid \<in> set (sc_queues s ! l)" using assms(2) by (simp_all add: waiting_at_def)
  obtain p where p: "pt_get t pid = Some p" "runnable p" using sched_okD(3) [OF s w] by blast
  have eq: "s' = enqueue pid e (dequeue pid s)" "t' = pt_modify pid (\<lambda>p. p\<lparr>pcb_effective_priority := e\<rparr>) t"
    using assms(3) age_one_eq [OF s w] by simp_all
  have "procs_ok n {} (t', if pcb_state p = Ready \<or> pcb_state p = Running then enqueue pid e (dequeue pid s) else dequeue pid s)"
    unfolding eq using assms(2) by (intro move_ok [OF assms(1) _ p(1)]) (auto simp: waiting_at_def)
  then have "procs_ok n {} (t', s')" using p(2) eq by (auto simp: runnable_def)
  moreover have "waiting_at t' s' x" if x: "fst x \<noteq> pid" "waiting_at t s x" for x
  proof -
    obtain q k d where q: "x = (q, k, d)" by (metis prod_cases3)
    have "pid \<notin> queued (dequeue pid s)" by (simp add: queued_dequeue)
    then have "q \<in> set (sc_queues s' ! k)"
      using x q sched_okD(1) [OF s] unfolding eq by (auto simp: waiting_at_def enqueue_queues)
    then show ?thesis using x q by (auto simp: waiting_at_def eq pt_get_modify)
  qed
  ultimately show ?thesis by blast
qed

lemma age_all_ok:
  "procs_ok n {} (t, s) \<Longrightarrow> distinct (map fst xs) \<Longrightarrow> (\<And>x. x \<in> set xs \<Longrightarrow> waiting_at t s x) \<Longrightarrow>
   fold age_one xs (s, t) = (s', t') \<Longrightarrow> procs_ok n {} (t', s')"
proof (induction xs arbitrary: s t)
  case (Cons x xs)
  obtain pid l e where x: "x = (pid, l, e)" by (metis prod_cases3)
  obtain s1 t1 where a: "age_one x (s, t) = (s1, t1)" by fastforce
  have w: "waiting_at t s (pid, l, e)" using Cons.prems(3) [of x] x by simp
  note ok = age_one_ok [OF Cons.prems(1) w a [unfolded x]]
  have "waiting_at t1 s1 y" if "y \<in> set xs" for y
  proof -
    have "fst y \<noteq> pid" using Cons.prems(2) that x by force
    then show ?thesis using ok Cons.prems(3) [of y] that by (meson list.set_intros(2))
  qed
  then show ?case using Cons.IH [of t1 s1] ok Cons.prems(2,4) a by simp
qed simp

lemma aging_at_in:
  assumes "procs_ok n {} (t, s)" "l < NUM_LEVELS - 1" "x \<in> set (aging_at s t l)"
  shows "waiting_at t s x" "fst x \<in> set (sc_queues s ! l)"
proof -
  obtain p where p: "fst x \<in> set (sc_queues s ! l)" "pt_get t (fst x) = Some p" "starved (sc_tick s) p" "x = (fst x, l, pcb_effective_priority p + 1)"
    using assms(3) by (auto simp: aging_at_def List.map_filter_def split: option.splits if_splits)
  show "fst x \<in> set (sc_queues s ! l)" by (rule p(1))
  have "pcb_base_priority p \<le> pcb_effective_priority p" using pcb_okD [OF procs_okD(1) [OF assms(1)] p(2)] by (auto simp: pcb_ok_def)
  then have "pcb_base_priority p \<le> pcb_effective_priority p + 1 \<and> pcb_effective_priority p + 1 \<le> 4"
    using p(3) by (auto simp: starved_def NUM_LEVELS_def word_le_nat_alt unat_word_ariths)
  then show "waiting_at t s x" using p assms(2) by (subst p(4)) (auto simp: waiting_at_def)
qed

lemma distinct_map_filter:
  assumes "distinct xs" "\<And>x y. f x = Some y \<Longrightarrow> g y = x" shows "distinct (map g (List.map_filter f xs))"
  using assms(1)
proof (induction xs)
  case (Cons x xs)
  have "g ` set (List.map_filter f xs) \<subseteq> set xs" using assms(2) by (auto simp: List.map_filter_def)
  then show ?case using Cons assms(2) [of x] by (auto simp: map_filter_simps split: option.split)
qed (simp add: map_filter_simps)

lemma aging_distinct:
  assumes "procs_ok n {} (t, s)" shows "distinct (map fst (aging_candidates s t))"
proof -
  note s = procs_okD(2) [OF assms]
  have "m \<le> NUM_LEVELS - 1 \<Longrightarrow> distinct (map fst (concat (map (aging_at s t) [0..<m])))" for m
  proof (induction m)
    case (Suc m)
    have "distinct (map fst (aging_at s t m))"
      unfolding aging_at_def using sched_okD(2) [OF s, of m] Suc.prems
      by (intro distinct_map_filter) (auto split: option.splits if_splits)
    moreover have False if "x \<in> set (aging_at s t m)" "y \<in> set (aging_at s t k)" "k < m" "fst x = fst y" for x y k
    proof -
      have "fst x \<in> set (sc_queues s ! m)" "fst x \<in> set (sc_queues s ! k)"
        using aging_at_in(2) [OF assms, of m x] aging_at_in(2) [OF assms, of k y] that Suc.prems by simp_all
      then show False using sched_okD(3) [OF s, of m "fst x"] sched_okD(3) [OF s, of k "fst x"] that(3) Suc.prems by force
    qed
    ultimately show ?case using Suc by fastforce
  qed simp
  then show ?thesis by (simp add: aging_candidates_def)
qed

lemma aging_ok:
  assumes "procs_ok n {} (t, s)" "run_aging s t = (s', t')" shows "procs_ok n {} (t', s')"
  using assms(1) aging_distinct [OF assms(1)]
  by (rule age_all_ok) (use assms in \<open>auto simp: aging_candidates_def run_aging_def intro: aging_at_in(1)\<close>)

section \<open>Histories\<close>

datatype process_op =
    SpawnOp process_id intent string "supervision_strategy option"
  | TerminateOp process_id
  | BlockOp process_id "process_id option"
  | UnblockOp process_id
  | CrashOp process_id
  | TickOp
  | ScheduleOp
  | ConsumeOp
  | AgingOp
  | TimerOp bool bool u64
  | ExitOp u64
  | YieldOp
  | OpenOp process_id u64
  | CloseOp process_id handle_id

fun process_step :: "process_op \<Rightarrow> kernel \<Rightarrow> kernel run" where
  "process_step (SpawnOp sv i d st) k = Some (snd (spawn sv i d st k))"
| "process_step (TerminateOp pid) k = Some (snd (terminate pid k))"
| "process_step (BlockOp pid w) k = Some (snd (block pid w k))"
| "process_step (UnblockOp pid) k = Some (snd (unblock pid k))"
| "process_step (CrashOp pid) k = map_option snd (crash pid k)"
| "process_step TickOp k = Some (kernel_tick k)"
| "process_step ScheduleOp k = Some (snd (schedule_next k))"
| "process_step ConsumeOp k = Some (k\<lparr>k_table := snd (consume_tick (k_sched k) (k_table k))\<rparr>)"
| "process_step AgingOp k = (let (s, t) = run_aging (k_sched k) (k_table k) in Some (k\<lparr>k_table := t, k_sched := s\<rparr>))"
| "process_step (TimerOp sf tf rsp) k =
     (let (c, s, t) = timer_handler sf tf rsp (k_cpu k) (k_sched k) (k_table k)
      in Some (k\<lparr>k_table := t, k_sched := s, k_cpu := snd (take_switch c)\<rparr>))"
| "process_step (ExitOp code) k = (let (s, t) = sys_exit code (k_sched k) (k_table k) in Some (k\<lparr>k_table := t, k_sched := s\<rparr>))"
| "process_step YieldOp k = Some (k\<lparr>k_table := sys_yield (k_sched k) (k_table k)\<rparr>)"
| "process_step (OpenOp pid cap) k = Some (k\<lparr>k_table := snd (alloc_handle (k_table k) pid cap)\<rparr>)"
| "process_step (CloseOp pid h) k = Some (k\<lparr>k_table := snd (release_handle (k_table k) pid h)\<rparr>)"

fun process_run :: "process_op list \<Rightarrow> kernel \<Rightarrow> kernel run" where
  "process_run [] k = Some k"
| "process_run (c # cs) k = process_step c k \<bind> process_run cs"

lemma timer_ok:
  assumes "procs_ok n {} (t, s)" "timer_handler sf tf rsp c s t = (c', s', t')" shows "procs_ok n {} (t', s')"
proof -
  have tick: "procs_ok n {} (t1, sched_tick s)" if "procs_ok n {} (t1, s)" for t1
    using that by (simp add: procs_ok_def sched_tick_def)
  have "procs_ok n {} (snd (consume_tick (sched_tick s) t), sched_tick s)" by (intro consume_ok tick assms(1))
  then have save: "procs_ok n {} (pt_modify pid (save_context rsp) (snd (consume_tick (sched_tick s) t)), sched_tick s)" for pid
    by (intro procs_okI table_ok_field modify_same_ok) (auto simp: save_context_def dest: procs_okD)
  have sw: "procs_ok n {} (snd (snd (try_switch_next c1 (sched_tick s) t1)), fst (snd (try_switch_next c1 (sched_tick s) t1)))"
    if "procs_ok n {} (t1, sched_tick s)" for c1 t1
    using try_switch_ok [OF that, of c1] by (cases "try_switch_next c1 (sched_tick s) t1") auto
  show ?thesis
    using assms(2) assms(1) tick [OF assms(1)] consume_ok [OF tick [OF assms(1)]] sw [OF save] sw [OF tick [OF assms(1)]]
    by (auto simp: timer_handler_def Let_def split: if_splits option.splits prod.splits) (metis fst_conv snd_conv)+
qed

lemma handle_change_ok:
  assumes "procs_ok n {} (t, s)" "\<And>p. pt_get t pid = Some p \<Longrightarrow> handles_ok ht"
  shows "procs_ok n {} (pt_modify pid (\<lambda>p. p\<lparr>pcb_handle_table := ht\<rparr>) t, s)"
proof (rule procs_okI)
  show "table_ok n (pt_modify pid (\<lambda>p. p\<lparr>pcb_handle_table := ht\<rparr>) t)"
    using procs_okD(1) [OF assms(1)]
  proof (rule table_ok_modify)
    show "sound_change (\<lambda>p. p\<lparr>pcb_handle_table := ht\<rparr>) p" if "pt_get t pid = Some p" for p
      using pcb_okD [OF procs_okD(1) [OF assms(1)] that] assms(2) [OF that] by (auto simp: sound_change_def pcb_ok_def)
  qed simp
  show "sched_ok {} (pt_modify pid (\<lambda>p. p\<lparr>pcb_handle_table := ht\<rparr>) t) s"
    using procs_okD(2) [OF assms(1)] by (rule modify_same_ok) simp_all
qed

lemma handles_kept:
  assumes "procs_ok n {} (t, s)"
  shows "procs_ok n {} (snd (alloc_handle t pid cap), s)" "procs_ok n {} (snd (release_handle t pid hnd), s)"
proof -
  have h: "handles_ok (pcb_handle_table p)" if "pt_get t pid = Some p" for p
    using pcb_okD [OF procs_okD(1) [OF assms] that] by (auto simp: pcb_ok_def)
  show "procs_ok n {} (snd (alloc_handle t pid cap), s)"
  proof (cases "pt_get t pid")
    case (Some p)
    have "handles_ok (snd (handle_alloc (pcb_handle_table p) cap))"
      using handle_alloc_law [OF h [OF Some], of cap] h [OF Some] by (auto split: prod.splits sum.splits)
    then show ?thesis
      using handle_change_ok [OF assms, of pid "snd (handle_alloc (pcb_handle_table p) cap)"] Some
      by (auto simp: alloc_handle_def split: prod.split)
  qed (use assms in \<open>simp add: alloc_handle_def\<close>)
  show "procs_ok n {} (snd (release_handle t pid hnd), s)"
  proof (cases "pt_get t pid")
    case (Some p)
    have "handles_ok (snd (handle_release (pcb_handle_table p) hnd))"
      using handle_release_law [OF h [OF Some], of hnd] h [OF Some] by (auto split: prod.splits sum.splits)
    then show ?thesis
      using handle_change_ok [OF assms, of pid "snd (handle_release (pcb_handle_table p) hnd)"] Some
      by (auto simp: release_handle_def split: prod.split)
  qed (use assms in \<open>simp add: release_handle_def\<close>)
qed

lemma step_ok:
  assumes "kernel_ok n k" "n + 1 \<noteq> 0"
  shows "\<exists>k' n'. process_step c k = Some k' \<and> kernel_ok n' k' \<and> unat n' \<le> unat n + 1"
proof -
  have keep: ?thesis if "process_step c k = Some k'" "kernel_ok n k'" for k' using that by (intro exI [of _ k'] exI [of _ n]) simp
  show ?thesis
  proof (cases c)
    case (SpawnOp sv i d st)
    then show ?thesis using spawn_ok [OF assms] by simp
  next
    case (CrashOp pid)
    then show ?thesis using crash_ok [OF assms(1), of pid] keep by auto
  next
    case ScheduleOp
    obtain r s' t' where "sched_next (k_sched k) (k_table k) = (r, s', t')" by (metis prod_cases3)
    then show ?thesis using next_procs_ok [OF assms(1)] ScheduleOp by (intro keep) (auto simp: schedule_next_def)
  next
    case AgingOp
    obtain s' t' where "run_aging (k_sched k) (k_table k) = (s', t')" by fastforce
    then show ?thesis using aging_ok [OF assms(1)] AgingOp by (intro keep) auto
  next
    case (TimerOp sf tf rsp)
    obtain c' s' t' where "timer_handler sf tf rsp (k_cpu k) (k_sched k) (k_table k) = (c', s', t')" by (metis prod_cases3)
    then show ?thesis using timer_ok [OF assms(1)] TimerOp by (intro keep) auto
  next
    case (ExitOp code)
    obtain s' t' where e: "sys_exit code (k_sched k) (k_table k) = (s', t')" by fastforce
    have "procs_ok n {} (t', s')"
    proof (cases "sc_current (k_sched k)")
      case (Some pid)
      have "procs_ok n {} (pt_modify pid (\<lambda>p. p\<lparr>pcb_state := Terminated, pcb_exit_reason := Some ExitNormal, pcb_exit_code := code\<rparr>) (k_table k),
          dequeue pid (k_sched k))"
        using assms(1) by (rule halt_ok) (auto simp: runnable_def intro: table_ok_field procs_okD(1) [OF assms(1)])
      then show ?thesis using e Some by (simp add: sys_exit_def)
    qed (use assms(1) e in \<open>simp add: sys_exit_def\<close>)
    then show ?thesis using ExitOp e by (intro keep) auto
  next
    case YieldOp
    have "procs_ok n {} (sys_yield (k_sched k) (k_table k), k_sched k)"
      using assms(1) by (auto simp: sys_yield_def split: option.split intro!: procs_okI table_ok_field modify_same_ok dest: procs_okD)
    then show ?thesis using YieldOp by (intro keep [of "k\<lparr>k_table := sys_yield (k_sched k) (k_table k)\<rparr>"]) simp_all
  next
    case TickOp
    then show ?thesis using assms(1) by (intro keep [of "kernel_tick k"]) (auto simp: kernel_tick_def procs_ok_def sched_tick_def)
  qed (use assms(1) keep in \<open>auto simp: terminate_ok block_ok unblock_ok consume_ok handles_kept\<close>)
qed

lemma process_run_ok: "kernel_ok n k \<Longrightarrow> unat n + length cs < 2 ^ 32 \<Longrightarrow> \<exists>k' n'. process_run cs k = Some k' \<and> kernel_ok n' k'"
proof (induction cs arbitrary: k n)
  case (Cons c cs)
  have "n + 1 \<noteq> 0" using unat_Suc_word [of n "2 ^ 32 - 1"] Cons.prems(2) by auto
  then obtain k1 n1 where k1: "process_step c k = Some k1" "kernel_ok n1 k1" "unat n1 \<le> unat n + 1"
    using step_ok [OF Cons.prems(1)] by blast
  then have "unat n1 + length cs < 2 ^ 32" using Cons.prems(2) by simp
  from Cons.IH [OF k1(2) this] show ?case using k1(1) by simp
qed auto

lemma boot_ok:
  assumes "k_table k = pt_new" "k_sched k = sched_new" shows "\<exists>k0. process_init k = Some k0 \<and> kernel_ok 2 k0"
proof -
  define p where "p = (pcb_new PID_BUTLER \<lparr>in_category = Compute, in_priority = Critical, in_energy_class = Balanced, in_deadline = 0\<rparr>
      ''Butler'' PID_KERNEL OneForOne 0 0)\<lparr>pcb_restart_tracker := tracker_new BUTLER_MAX_RESTARTS BUTLER_INTENSITY_WINDOW\<rparr>"
  let ?t = "pt_new\<lparr>pt_next_pid := 2\<rparr>"
  have new: "procs_ok 2 {} (?t, sched_new)"
    by (auto simp: procs_ok_def table_ok_def pt_new_def pt_count_def fcard_fempty sched_ok_def sched_new_def queued_def NUM_LEVELS_def out_def nth_Cons')
  have p: "pcb_ok ?t 1 p" "pcb_children p = []" "runnable p" "pcb_effective_priority p = 4" "pcb_pid p = 1"
    by (auto simp: pcb_ok_def p_def pcb_new_def PID_BUTLER_def PID_KERNEL_def handles_ok_new pt_new_def runnable_def)
  have "procs_ok 2 {} (?t\<lparr>pt_processes := fmupd 1 p (pt_processes ?t)\<rparr>, enqueue 1 4 sched_new)"
    using new by (rule insert_ok) (use p in \<open>simp_all add: pt_new_def pt_count_def fcard_fempty TABLE_MAX_PROCESSES_def\<close>)
  moreover have "butler_init pt_new sched_new = Some (?t\<lparr>pt_processes := fmupd 1 p (pt_processes ?t)\<rparr>, enqueue 1 4 sched_new)"
    using p(5) unfolding butler_init_def
    by (simp add: alloc_pid_def pt_insert_def pt_new_def pt_count_def fcard_fempty pt_contains_def TABLE_MAX_PROCESSES_def Let_def
        sched_new_def p_def pcb_new_def PID_BUTLER_def)
  ultimately show ?thesis using assms by (auto simp: process_init_def split: prod.split)
qed

lemma history_ok:
  assumes "k_table k = pt_new" "k_sched k = sched_new" "length cs < 2 ^ 32 - 2"
  shows "\<exists>k0 k' n. process_init k = Some k0 \<and> process_run cs k0 = Some k' \<and> kernel_ok n k'"
proof -
  obtain k0 where k0: "process_init k = Some k0" "kernel_ok 2 k0" using boot_ok [OF assms(1,2)] by blast
  then show ?thesis using process_run_ok [OF k0(2), of cs] assms(3) by auto
qed

text \<open>An example: the butler and one process under it, which takes over when its time has come.\<close>

definition demo_kernel :: kernel where
  "demo_kernel = \<lparr>k_table = pt_new, k_sched = sched_new,
     k_cpu = \<lparr>cpu_tick_count = 0, cpu_rsp0 = 0, cpu_syscall_rsp = 0, cpu_cr3 = 0, cpu_kernel_cr3 = 0, cpu_switch_rsp = 0, cpu_idle_rsp = 0\<rparr>,
     k_net = net_new, k_bus = router_new, k_caps = store_new\<rparr>"

definition demo_process_ops :: "process_op list" where
  "demo_process_ops = [SpawnOp PID_BUTLER intent_default ''shell'' None, ScheduleOp, BlockOp 1 (Some 2), ScheduleOp, CrashOp 2]"

text \<open>
  C27. From the start of the kernel every history of operations on processes, shorter than the range
  of process identifiers, runs without a panic or an endless escalation, and every control block
  is then well-formed: it is filed under its own identifier; its priorities are those of the five
  levels, the effective one at least the base one, which is that of its intent; its supervisor is
  older and exists or is the kernel; its children are distinct and have it as their supervisor;
  its handle table is sound. There are at most 1024 of them.
\<close>

theorem processes_typed:
  assumes "k_table k = pt_new" "k_sched k = sched_new" "length cs < 2 ^ 32 - 2"
  shows "\<exists>k0 k'. process_init k = Some k0 \<and> process_run cs k0 = Some k' \<and> pt_count (k_table k') \<le> TABLE_MAX_PROCESSES \<and>
    (\<forall>pid p. pt_get (k_table k') pid = Some p \<longrightarrow> pcb_ok (k_table k') pid p)"
  using history_ok [OF assms] by (auto simp: procs_ok_def table_ok_def)

theorem processes_typed_witness:
  "\<exists>k0 k'. process_init demo_kernel = Some k0 \<and> process_run demo_process_ops k0 = Some k' \<and>
    (\<forall>pid p. pt_get (k_table k') pid = Some p \<longrightarrow> pcb_ok (k_table k') pid p)"
proof -
  have "k_table demo_kernel = pt_new" "k_sched demo_kernel = sched_new" "length demo_process_ops < 2 ^ 32 - 2"
    by (simp_all add: demo_kernel_def demo_process_ops_def)
  from processes_typed [OF this] show ?thesis by blast
qed

lemma distinct_queues:
  assumes "sched_ok X t s" shows "distinct (concat (sc_queues s))"
proof -
  note ok = sched_okD [OF assms]
  have "k = l" if "k < NUM_LEVELS" "l < NUM_LEVELS" "pid \<in> set (sc_queues s ! k)" "pid \<in> set (sc_queues s ! l)" for k l pid
    using ok(3) [OF that(1,3)] ok(3) [OF that(2,4)] by auto
  then have disj: "set (sc_queues s ! k) \<inter> set (sc_queues s ! l) = {}" if "k < NUM_LEVELS" "l < NUM_LEVELS" "k \<noteq> l" for k l
    using that by blast
  have "m \<le> NUM_LEVELS \<Longrightarrow> distinct (concat (take m (sc_queues s)))" for m
  proof (induction m)
    case (Suc m)
    then have m: "m < NUM_LEVELS" by simp
    have "x \<notin> set (sc_queues s ! m)" if x: "x \<in> set (concat (take m (sc_queues s)))" for x
    proof -
      obtain k where "k < m" "x \<in> set (sc_queues s ! k)" using x by (auto simp: in_set_conv_nth [of _ "take m (sc_queues s)"])
      then show ?thesis using disj [of k m] m by auto
    qed
    then have "set (concat (take m (sc_queues s))) \<inter> set (sc_queues s ! m) = {}" by blast
    then show ?case using Suc m ok(1,2) by (simp add: take_Suc_conv_app_nth)
  qed simp
  from this [of NUM_LEVELS] show ?thesis using ok(1) by simp
qed

text \<open>
  C26. In every such history the run queues hold exactly the runnable processes: a process is ready
  or running if and only if it is current or queued; no process is queued twice or queued while it
  is current; each waits at the level of its effective priority; the current one is running.
\<close>

theorem runqueues_sound:
  assumes "k_table k = pt_new" "k_sched k = sched_new" "length cs < 2 ^ 32 - 2"
  shows "\<exists>k0 k'. process_init k = Some k0 \<and> process_run cs k0 = Some k' \<and>
    distinct (concat (sc_queues (k_sched k'))) \<and>
    (\<forall>pid. (\<exists>p. pt_get (k_table k') pid = Some p \<and> runnable p) \<longleftrightarrow> sc_current (k_sched k') = Some pid \<or> pid \<in> queued (k_sched k')) \<and>
    (\<forall>pid. sc_current (k_sched k') = Some pid \<longrightarrow> get_state k' pid = Some Running \<and> pid \<notin> queued (k_sched k')) \<and>
    (\<forall>pid p. pt_get (k_table k') pid = Some p \<longrightarrow> pid \<in> queued (k_sched k') \<longrightarrow>
      pid \<in> set (sc_queues (k_sched k') ! level_of (pcb_effective_priority p)))"
proof -
  obtain k0 k' n where k': "process_init k = Some k0" "process_run cs k0 = Some k'" "kernel_ok n k'"
    using history_ok [OF assms] by blast
  let ?t = "k_table k'" and ?s = "k_sched k'"
  have ok: "sched_ok {} ?t ?s" by (rule procs_okD(2) [OF k'(3)])
  have q: "\<exists>p. pt_get ?t pid = Some p \<and> runnable p \<and> pid \<in> set (sc_queues ?s ! level_of (pcb_effective_priority p))"
    if "pid \<in> queued ?s" for pid
    using that sched_okD(1) [OF ok] sched_okD(3) [OF ok, of _ pid] by (fastforce simp: queued_iff)
  have "(\<exists>p. pt_get ?t pid = Some p \<and> runnable p) \<longleftrightarrow> sc_current ?s = Some pid \<or> pid \<in> queued ?s" for pid
    using sched_okD(5) [OF ok, of pid] sched_okD(6) [OF ok, of pid] q [of pid] by (auto simp: out_def runnable_def)
  moreover have "get_state k' pid = Some Running \<and> pid \<notin> queued ?s" if "sc_current ?s = Some pid" for pid
    using sched_okD(4,5) [OF ok that] by (auto simp: get_state_def)
  moreover have "pid \<in> set (sc_queues ?s ! level_of (pcb_effective_priority p))" if "pt_get ?t pid = Some p" "pid \<in> queued ?s" for pid p
    using q [OF that(2)] that(1) by auto
  ultimately show ?thesis using k' distinct_queues [OF ok] by blast
qed

theorem runqueues_sound_witness:
  "\<exists>k0 k'. process_init demo_kernel = Some k0 \<and> process_run demo_process_ops k0 = Some k' \<and>
    (\<forall>pid. (\<exists>p. pt_get (k_table k') pid = Some p \<and> runnable p) \<longleftrightarrow> sc_current (k_sched k') = Some pid \<or> pid \<in> queued (k_sched k'))"
proof -
  have "k_table demo_kernel = pt_new" "k_sched demo_kernel = sched_new" "length demo_process_ops < 2 ^ 32 - 2"
    by (simp_all add: demo_kernel_def demo_process_ops_def)
  from runqueues_sound [OF this] show ?thesis by blast
qed

end
