(* ===== verification/Process_Props.thy ===== *)
theory Process_Props
  imports Process_History
begin

text \<open>
  What the operations on processes do: which process is chosen, that processes of one level take
  turns, which processes a crash restarts, and what the end of a process leaves behind.
\<close>

section \<open>The choice of the scheduler\<close>

text \<open>The queue of a level with the current process put back.\<close>

definition line_up :: "scheduler \<Rightarrow> process_table \<Rightarrow> nat \<Rightarrow> process_id list" where
  "line_up s t l = sc_queues s ! l @
     (case sc_current s of
        None \<Rightarrow> []
      | Some c \<Rightarrow> (case pt_get t c of None \<Rightarrow> [] | Some p \<Rightarrow> if level_of (pcb_effective_priority p) = l then [c] else []))"

lemma put_back_queues:
  assumes "sched_ok X t s" "put_back s t = (s1, t1)" "l < NUM_LEVELS"
  shows "sc_queues s1 ! l = line_up s t l"
proof (cases "sc_current s")
  case None
  then show ?thesis using assms(2) by (simp add: put_back_def line_up_def)
next
  case (Some c)
  obtain p where p: "pt_get t c = Some p" "pcb_state p = Running" using sched_okD(5) [OF assms(1) Some] by blast
  have "c \<notin> queued (s\<lparr>sc_current := None\<rparr>)" using sched_okD(4) [OF assms(1) Some] by (simp add: queued_def)
  then show ?thesis
    using assms(2,3) Some p sched_okD(1) [OF assms(1)] enqueue_queues [of l "s\<lparr>sc_current := None\<rparr>" c]
    by (auto simp: put_back_def Let_def line_up_def)
qed

lemma put_back_get:
  assumes "sched_ok X t s" "put_back s t = (s1, t1)"
  shows "pt_get t1 q = (if sc_current s = Some q then map_option (\<lambda>p. p\<lparr>pcb_state := Ready\<rparr>) (pt_get t q) else pt_get t q)"
proof (cases "sc_current s")
  case None
  then show ?thesis using assms(2) by (simp add: put_back_def)
next
  case (Some c)
  then show ?thesis
    using assms(2) sched_okD(5) [OF assms(1) Some] by (auto simp: put_back_def Let_def pt_get_modify)
qed

lemma line_up_runnable:
  assumes "sched_ok {} t s" "pt_get t q = Some p" "runnable p"
  shows "q \<in> set (line_up s t (level_of (pcb_effective_priority p)))"
proof (cases "sc_current s = Some q")
  case True
  then show ?thesis using assms(2) by (simp add: line_up_def)
next
  case False
  then have "q \<in> queued s" using sched_okD(6) [OF assms] by (simp add: out_def)
  then obtain l where l: "l < NUM_LEVELS" "q \<in> set (sc_queues s ! l)" using sched_okD(1) [OF assms(1)] by (auto simp: queued_iff)
  then have "level_of (pcb_effective_priority p) = l" using sched_okD(3) [OF assms(1) l] assms(2) by auto
  then show ?thesis using l by (simp add: line_up_def)
qed

lemma line_up_get:
  assumes "sched_ok X t s" "l < NUM_LEVELS" "q \<in> set (line_up s t l)"
  shows "\<exists>p. pt_get t q = Some p \<and> runnable p \<and> level_of (pcb_effective_priority p) = l"
  using assms(3) sched_okD(3) [OF assms(1,2), of q] sched_okD(5) [OF assms(1), of q]
  by (auto simp: line_up_def runnable_def split: option.splits if_splits)

text \<open>The scheduler's decision when the current process does not go on.\<close>

lemma sched_next_cases:
  assumes "sched_ok {} t s" "keeps_running s t = None" "sched_next s t = (r, s', t')"
  obtains (idle) "r = None" "t' = t" "\<And>pid p. pt_get t pid = Some p \<Longrightarrow> \<not> runnable p" "\<And>l. l < NUM_LEVELS \<Longrightarrow> line_up s t l = []"
  | (chosen) l pid rest where "r = Some pid" "l < NUM_LEVELS" "line_up s t l = pid # rest" "sc_queues s' ! l = rest"
    "\<And>k. l < k \<Longrightarrow> k < NUM_LEVELS \<Longrightarrow> line_up s t k = []" "\<And>k. k < NUM_LEVELS \<Longrightarrow> k \<noteq> l \<Longrightarrow> sc_queues s' ! k = line_up s t k"
    "\<And>q. pt_get t' q = map_option (\<lambda>p. if q = pid then set_running (sc_tick s) p else if sc_current s = Some q then p\<lparr>pcb_state := Ready\<rparr> else p) (pt_get t q)"
proof -
  obtain s1 t1 where b: "put_back s t = (s1, t1)" by fastforce
  note ok = put_back_ok [OF assms(1) b]
  note get = put_back_get [OF assms(1) b]
  have pick: "pick_level NUM_LEVELS s1 t1 = (r, s', t')" using assms(2,3) b by (simp add: sched_next_def)
  have q: "sc_queues s1 ! l = line_up s t l" if "l < NUM_LEVELS" for l by (rule put_back_queues [OF assms(1) b that])
  have ok1: "sched_ok {} t1 s1" and cur: "sc_current s1 = None" using ok by simp_all
  have len: "length (sc_queues s1) = NUM_LEVELS" by (rule sched_okD(1) [OF ok1])
  show thesis
    using ok1 cur
  proof (cases rule: pick_cases)
    case i: idle
    then have empty: "line_up s t l = []" if "l < NUM_LEVELS" for l
      using q [OF that] that len by (metis all_not_in_conv queued_iff set_empty)
    have none: "\<not> runnable p" if "pt_get t pid = Some p" for pid p
      using line_up_runnable [OF assms(1) that] empty [OF level_of_less] by auto
    have "sc_current s = None"
      using sched_okD(5) [OF assms(1)] none by (metis not_Some_eq runnable_def)
    then have "t1 = t" using b by (simp add: put_back_def)
    then show thesis using i pick none empty by (intro idle) simp_all
  next
    case c: (chosen l pid rest)
    have l: "l < NUM_LEVELS" using c(1) by (simp add: top_level_def)
    have "t' = pt_modify pid (set_running (sc_tick s1)) t1" "sc_queues s' = (sc_queues s1)[l := rest]" "r = Some pid"
      using pick c(3) by auto
    then have r: "t' = pt_modify pid (set_running (sc_tick s)) t1" "sc_queues s' = (sc_queues s1)[l := rest]" "r = Some pid"
      using ok by simp_all
    have g: "pt_get t' q = map_option (\<lambda>p. if q = pid then set_running (sc_tick s) p
        else if sc_current s = Some q then p\<lparr>pcb_state := Ready\<rparr> else p) (pt_get t q)" for q
      unfolding r(1) by (cases "q = pid"; cases "pt_get t q") (simp_all add: pt_get_modify get set_running_def)
    show thesis
      by (rule chosen [OF r(3) l _ _ _ _ g]) (use c(1,2) l q len r(2) in \<open>simp_all add: top_level_def\<close>)
  qed
qed

text \<open>
  C28. Choosing the next process: the current one goes on, and nothing changes, exactly if it is
  running and has time left. Otherwise the choice falls on the first process in line at the highest
  level at which any process is runnable, the current one having gone to the end of its line; it
  leaves its queue, gets the full slice of its priority and becomes current, and no other process
  changes except that the previous one is ready again. Only if no process is runnable there is none
  to run.
\<close>

theorem schedule_decides:
  assumes "sched_ok {} t s" "sched_next s t = (r, s', t')"
  shows "case r of
      None \<Rightarrow> t' = t \<and> (\<forall>pid p. pt_get t pid = Some p \<longrightarrow> \<not> runnable p)
    | Some pid \<Rightarrow> \<exists>p. pt_get t pid = Some p \<and> runnable p \<and> sc_current s' = Some pid \<and>
        (if \<exists>c pc. sc_current s = Some c \<and> pt_get t c = Some pc \<and> pcb_state pc = Running \<and> 0 < unat (pcb_time_slice_remaining pc)
         then sc_current s = Some pid \<and> s' = s \<and> t' = t
         else (\<forall>l < NUM_LEVELS. sc_queues s' ! l =
             (if l = level_of (pcb_effective_priority p) then tl (line_up s t l) else line_up s t l)) \<and>
           pid = hd (line_up s t (level_of (pcb_effective_priority p))) \<and>
           (\<forall>q pq. pt_get t q = Some pq \<longrightarrow> runnable pq \<longrightarrow> level_of (pcb_effective_priority pq) \<le> level_of (pcb_effective_priority p)) \<and>
           (\<forall>q. pt_get t' q = map_option (\<lambda>pq.
              if q = pid then pq\<lparr>pcb_state := Running, pcb_time_slice_remaining := slice_for_priority (pcb_effective_priority pq),
                pcb_last_scheduled := sc_tick s\<rparr>
              else if sc_current s = Some q then pq\<lparr>pcb_state := Ready\<rparr> else pq) (pt_get t q)))"
proof (cases "keeps_running s t")
  case (Some pid)
  then obtain pc where pc: "sc_current s = Some pid" "pt_get t pid = Some pc" "pcb_state pc = Running" "0 < unat (pcb_time_slice_remaining pc)"
    by (auto simp: keeps_running_def unat_gt_0 word_gt_0 split: option.splits if_splits)
  then have goes: "\<exists>c pc. sc_current s = Some c \<and> pt_get t c = Some pc \<and> pcb_state pc = Running \<and> 0 < unat (pcb_time_slice_remaining pc)"
    by blast
  have "r = Some pid" "s' = s" "t' = t" using assms(2) Some by (simp_all add: sched_next_def)
  then show ?thesis using pc unfolding if_P [OF goes] by (simp add: runnable_def)
next
  case None
  then have stops: "\<not> (\<exists>c pc. sc_current s = Some c \<and> pt_get t c = Some pc \<and> pcb_state pc = Running \<and> 0 < unat (pcb_time_slice_remaining pc))"
    by (auto simp: keeps_running_def unat_gt_0 word_gt_0 split: option.splits if_splits)
  show ?thesis
    using assms(1) None assms(2)
  proof (cases rule: sched_next_cases)
    case idle
    then show ?thesis by simp
  next
    case (chosen l pid rest)
    obtain p where p: "pt_get t pid = Some p" "runnable p" "level_of (pcb_effective_priority p) = l"
      using line_up_get [OF assms(1) chosen(2), of pid] chosen(3) by auto
    have "level_of (pcb_effective_priority pq) \<le> l" if "pt_get t q = Some pq" "runnable pq" for q pq
      using line_up_runnable [OF assms(1) that] chosen(5) [OF _ level_of_less] by (metis empty_iff empty_set not_le)
    moreover have "sc_current s' = Some pid" using sched_next_ok [OF assms] chosen(1) by simp
    moreover have "sc_queues s' ! k = (if k = l then tl (line_up s t k) else line_up s t k)" if "k < NUM_LEVELS" for k
      using chosen(3,4,6) that by simp
    ultimately show ?thesis
      using p chosen(1,3,7) unfolding chosen(1) option.case if_not_P [OF stops] set_running_def
      by (intro exI [of _ p]) auto
  qed
qed

theorem schedule_decides_witness:
  "\<exists>k0 r s' t'. process_init demo_kernel = Some k0 \<and> sched_next (k_sched k0) (k_table k0) = (r, s', t') \<and>
     (case r of None \<Rightarrow> \<forall>pid p. pt_get (k_table k0) pid = Some p \<longrightarrow> \<not> runnable p | Some pid \<Rightarrow> sc_current s' = Some pid)"
proof -
  obtain k0 where k0: "process_init demo_kernel = Some k0" "kernel_ok 2 k0"
    using boot_ok [of demo_kernel] by (auto simp: demo_kernel_def)
  obtain r s' t' where n: "sched_next (k_sched k0) (k_table k0) = (r, s', t')" by (metis prod_cases3)
  show ?thesis using schedule_decides [OF procs_okD(2) [OF k0(2)] n] k0(1) n by (cases r) fastforce+
qed

section \<open>Taking turns\<close>

text \<open>The current process gives up the rest of its time and the next one is chosen, a number of times.\<close>

fun turns :: "nat \<Rightarrow> scheduler \<Rightarrow> process_table \<Rightarrow> scheduler \<times> process_table" where
  "turns 0 s t = (s, t)"
| "turns (Suc n) s t = (case sched_next s (sys_yield s t) of (_, s', t') \<Rightarrow> turns n s' t')"

lemma yield_get: "pt_get (sys_yield s t) q = map_option (\<lambda>p. if sc_current s = Some q then p\<lparr>pcb_time_slice_remaining := 0\<rparr> else p) (pt_get t q)"
  by (cases "pt_get t q") (auto simp: sys_yield_def pt_get_modify split: option.split)

lemma yield_ok: "sched_ok X t s \<Longrightarrow> sched_ok X (sys_yield s t) s"
  by (auto simp: sys_yield_def split: option.split intro: modify_same_ok)

lemma yield_stops: "keeps_running s (sys_yield s t) = None"
  by (auto simp: keeps_running_def yield_get split: option.split)

lemma yield_line_up: "line_up s (sys_yield s t) l = line_up s t l"
  by (auto simp: line_up_def yield_get split: option.split)

text \<open>The level of the current process and that no level above the given one is in use.\<close>

definition served :: "nat \<Rightarrow> scheduler \<Rightarrow> process_table \<Rightarrow> bool" where
  "served l s t \<longleftrightarrow> l < NUM_LEVELS \<and> (\<forall>k. l < k \<longrightarrow> k < NUM_LEVELS \<longrightarrow> line_up s t k = [])"

lemma one_turn:
  assumes "sched_ok {} t s" "served l s t" "i < length (sc_queues s ! l)" "sched_next s (sys_yield s t) = (r, s', t')"
  shows "sched_ok {} t' s' \<and> served l s' t' \<and> sc_current s' = Some (sc_queues s ! l ! 0) \<and>
    (i \<noteq> 0 \<longrightarrow> i - 1 < length (sc_queues s' ! l) \<and> sc_queues s' ! l ! (i - 1) = sc_queues s ! l ! i)"
proof -
  have ok': "sched_ok {} t' s'" "sc_current s' = r" using sched_next_ok [OF yield_ok [OF assms(1)] assms(4)] by simp_all
  have l: "l < NUM_LEVELS" and up: "line_up s t k = []" if "l < k" "k < NUM_LEVELS" for k
    using assms(2) that by (simp_all add: served_def)
  have ne: "line_up s t l \<noteq> []" using assms(3) by (auto simp: line_up_def)
  show ?thesis
    using yield_ok [OF assms(1)] yield_stops assms(4)
  proof (cases rule: sched_next_cases)
    case idle
    then show ?thesis using ne assms(2) by (simp add: yield_line_up served_def)
  next
    case (chosen m pid rest)
    have "m = l"
      using chosen(2,3) chosen(5) [of l] ne assms(2) by (cases m l rule: linorder_cases) (simp_all add: yield_line_up served_def)
    then have c: "line_up s t l = pid # rest" "sc_queues s' ! l = rest" "l < NUM_LEVELS"
      "\<And>k. l < k \<Longrightarrow> k < NUM_LEVELS \<Longrightarrow> sc_queues s' ! k = []"
      using chosen assms(2) by (simp_all add: yield_line_up served_def)
    obtain p where "pt_get (sys_yield s t) pid = Some p" "level_of (pcb_effective_priority p) = l"
      using line_up_get [OF yield_ok [OF assms(1)] c(3), of pid] c(1) by (auto simp: yield_line_up)
    then have "pt_get t' pid = Some (set_running (sc_tick s) p)" "level_of (pcb_effective_priority (set_running (sc_tick s) p)) = l"
      using chosen(7) [of pid] by simp_all
    then have "line_up s' t' k = []" if "l < k" "k < NUM_LEVELS" for k
      using c(4) [OF that] that ok'(2) chosen(1) by (simp add: line_up_def)
    moreover obtain q qs where q: "sc_queues s ! l = q # qs" using assms(3) by (cases "sc_queues s ! l") auto
    moreover have "pid = q" and "\<exists>ys. rest = qs @ ys" using c(1) q by (auto simp: line_up_def)
    ultimately show ?thesis
      using ok' chosen(1) c(2,3) assms(3) by (auto simp: served_def nth_append nth_Cons')
  qed
qed

text \<open>
  C32. Processes of one level take turns: when no process of a higher level is runnable, the process
  at position \<open>i\<close> of a queue runs after \<open>i + 1\<close> expired or yielded time slices.
\<close>

theorem round_robin:
  assumes "sched_ok {} t s" "served l s t" "i < length (sc_queues s ! l)"
  shows "sc_current (fst (turns (i + 1) s t)) = Some (sc_queues s ! l ! i)"
  using assms
proof (induction i arbitrary: s t)
  case 0
  obtain r s' t' where n: "sched_next s (sys_yield s t) = (r, s', t')" by (metis prod_cases3)
  then show ?case using one_turn [OF 0 n] by simp
next
  case (Suc i)
  obtain r s' t' where n: "sched_next s (sys_yield s t) = (r, s', t')" by (metis prod_cases3)
  note o = one_turn [OF Suc.prems n]
  then have "sc_current (fst (turns (i + 1) s' t')) = Some (sc_queues s' ! l ! i)" by (intro Suc.IH) simp_all
  then show ?case using o n by simp
qed

lemma init_sched: "process_init k = Some k0 \<Longrightarrow> k_sched k0 = enqueue PID_BUTLER (priority_u8 Critical) (k_sched k)"
  by (auto simp: process_init_def butler_init_def Let_def split: prod.splits sum.splits bind_splits)

lemma demo_sched: "sc_queues (enqueue PID_BUTLER (priority_u8 Critical) sched_new) = [[], [], [], [], [1]]"
  "sc_current (enqueue PID_BUTLER (priority_u8 Critical) sched_new) = None"
  by (simp_all add: enqueue_def sched_new_def level_of_def NUM_LEVELS_def PID_BUTLER_def)

theorem round_robin_witness:
  "\<exists>k0. process_init demo_kernel = Some k0 \<and> sc_current (fst (turns 1 (k_sched k0) (k_table k0))) = Some 1"
proof -
  obtain k0 where k0: "process_init demo_kernel = Some k0" "kernel_ok 2 k0"
    using boot_ok [of demo_kernel] by (auto simp: demo_kernel_def)
  have q: "sc_queues (k_sched k0) = [[], [], [], [], [1]]" "sc_current (k_sched k0) = None"
    using init_sched [OF k0(1)] demo_sched by (simp_all add: demo_kernel_def)
  have "served 4 (k_sched k0) (k_table k0)" by (auto simp: served_def NUM_LEVELS_def)
  moreover have "0 < length (sc_queues (k_sched k0) ! 4)" by (simp add: q)
  ultimately have "sc_current (fst (turns (0 + 1) (k_sched k0) (k_table k0))) = Some (sc_queues (k_sched k0) ! 4 ! 0)"
    by (rule round_robin [OF procs_okD(2) [OF k0(2)]])
  then show ?thesis using k0(1) q by simp
qed

section \<open>Crashes\<close>

text \<open>The processes that the strategy of a supervisor restarts.\<close>

definition affected :: "process_table \<Rightarrow> pcb \<Rightarrow> process_id \<Rightarrow> process_id set" where
  "affected t sv pid =
     (case pcb_strategy sv of
        OneForOne \<Rightarrow> {pid}
      | OneForAll \<Rightarrow> set (pcb_children sv)
      | RestForOne \<Rightarrow> {c \<in> set (pcb_children sv). \<exists>pc p. pt_get t c = Some pc \<and> pt_get t pid = Some p \<and> pcb_spawn_order p \<le> pcb_spawn_order pc})"

lemma kill_all_get:
  "pt_get (fst (fold kill_child pids ts)) q = (if q \<in> set pids
     then map_option (\<lambda>p. if pcb_state p \<noteq> Terminated then p\<lparr>pcb_state := Terminated, pcb_exit_reason := Some ExitKilled\<rparr> else p) (pt_get (fst ts) q)
     else pt_get (fst ts) q)"
proof (induction pids arbitrary: ts)
  case (Cons pid pids)
  then show ?case by (cases "q = pid"; cases "pt_get (fst ts) q") (simp_all add: kill_child_get)
qed simp

lemma reset_killed: "reset_for_restart now (if b then p\<lparr>pcb_state := Terminated, pcb_exit_reason := r\<rparr> else p) = reset_for_restart now p"
  by (simp add: reset_for_restart_def)

lemma restart_twice: "reset_for_restart now (reset_for_restart now p) = reset_for_restart now p"
  by (simp add: reset_for_restart_def handle_clear_def comp_def)

lemma restarts_get:
  "pt_get (fst (fold (restart_process now) pids ts)) q =
     (if q \<in> set pids then map_option (reset_for_restart now) (pt_get (fst ts) q) else pt_get (fst ts) q)"
proof (induction pids arbitrary: ts)
  case (Cons pid pids)
  then show ?case by (cases "q = pid"; cases "pt_get (fst ts) q") (simp_all add: restart_get restart_twice)
qed simp

lemma restart_all_get:
  "pt_get (fst (restart_all now pids ts)) q =
     (if q \<in> set pids then map_option (reset_for_restart now) (pt_get (fst ts) q) else pt_get (fst ts) q)"
  by (cases "pt_get (fst ts) q") (simp_all add: restart_all_def restarts_get kill_all_get reset_killed)

lemma apply_strategy_get:
  assumes "pt_get (fst ts) pid \<noteq> None"
  shows "pt_get (fst (snd (apply_strategy sv pid now ts))) q =
     (if q \<in> affected (fst ts) sv pid then map_option (reset_for_restart now) (pt_get (fst ts) q) else pt_get (fst ts) q)"
  using assms
  by (auto simp: apply_strategy_def affected_def restart_get restart_all_get rest_of_def Let_def split: supervision_strategy.split option.splits)

text \<open>A process as a restart leaves it: its identity, family, memory and stack are kept, and what it
  had in hand is gone.\<close>

definition restarted :: "u64 \<Rightarrow> pcb \<Rightarrow> pcb" where
  "restarted now p =
     \<lparr>pcb_pid = pcb_pid p, pcb_intent = pcb_intent p, pcb_description = pcb_description p, pcb_state = Ready,
      pcb_effective_priority = pcb_base_priority p, pcb_base_priority = pcb_base_priority p,
      pcb_time_slice_remaining = 0, pcb_total_ticks_run = pcb_total_ticks_run p, pcb_blocked_on = None, pcb_last_scheduled = 0,
      pcb_wake_tick = 0, pcb_capabilities = pcb_capabilities p, pcb_supervisor = pcb_supervisor p, pcb_children = pcb_children p,
      pcb_strategy = pcb_strategy p, pcb_spawn_order = pcb_spawn_order p, pcb_restart_tracker = pcb_restart_tracker p,
      pcb_profile = profile_new, pcb_exit_reason = None, pcb_created_at = now,
      pcb_handle_table = \<lparr>ht_entries = replicate (length (ht_entries (pcb_handle_table p))) handle_entry_empty, ht_count = 0\<rparr>,
      pcb_address_space = pcb_address_space p, pcb_saved_rsp = 0,
      pcb_kernel_stack_base = pcb_kernel_stack_base p, pcb_kernel_stack_top = pcb_kernel_stack_top p,
      pcb_has_run = False, pcb_is_user = pcb_is_user p, pcb_exit_code = pcb_exit_code p\<rparr>"

lemma reset_restarted: "reset_for_restart now p = restarted now p"
  by (simp add: reset_for_restart_def restarted_def handle_clear_def map_replicate_const)

text \<open>The restarts that a tracker has counted and that are not older than its window.\<close>

definition recent_restarts :: "u64 \<Rightarrow> restart_tracker \<Rightarrow> u64 list" where
  "recent_restarts now r = filter (\<lambda>ts. unat now - unat ts < unat (rt_window_ticks r)) (rt_timestamps r)"

lemma record_restart_eq:
  "record_restart r now = (unat (rt_max_restarts r) \<le> length (recent_restarts now r), r\<lparr>rt_timestamps := recent_restarts now r @ [now]\<rparr>)"
  by (auto simp: record_restart_def recent_restarts_def Let_def word_less_nat_alt unat_saturating_sub)

text \<open>What a crash does to the processes when the supervisor has restarts left.\<close>

definition after_crash :: "process_table \<Rightarrow> pcb \<Rightarrow> process_id \<Rightarrow> u64 \<Rightarrow> process_id \<Rightarrow> pcb \<Rightarrow> pcb" where
  "after_crash t sv pid now q p =
     (if q \<in> affected t sv pid then restarted now p
      else if q = pid then p\<lparr>pcb_state := Terminated, pcb_exit_reason := Some ExitCrash\<rparr>
      else if q = pcb_pid sv then p\<lparr>pcb_restart_tracker :=
        (pcb_restart_tracker sv)\<lparr>rt_timestamps := recent_restarts now (pcb_restart_tracker sv) @ [now]\<rparr>\<rparr>
      else p)"

text \<open>A scheduler without some processes: restarting those leaves the others as they are, in their
  places.\<close>

definition sched_without :: "process_id set \<Rightarrow> scheduler \<Rightarrow> scheduler" where
  "sched_without A s = s\<lparr>sc_queues := map (filter (\<lambda>q. q \<notin> A)) (sc_queues s),
     sc_current := (case sc_current s of None \<Rightarrow> None | Some c \<Rightarrow> if c \<in> A then None else Some c)\<rparr>"

lemma without_enqueue:
  assumes "pid \<in> A"
  shows "sched_without A (enqueue pid e s) = sched_without A s"
proof -
  have "map (filter (\<lambda>q. q \<notin> A)) (qs[l := qs ! l @ [pid]]) = map (filter (\<lambda>q. q \<notin> A)) qs" for qs l
  proof (rule nth_equalityI)
    fix i assume "i < length (map (filter (\<lambda>q. q \<notin> A)) (qs[l := qs ! l @ [pid]]))"
    then show "map (filter (\<lambda>q. q \<notin> A)) (qs[l := qs ! l @ [pid]]) ! i = map (filter (\<lambda>q. q \<notin> A)) qs ! i"
      using assms by (cases "i = l") simp_all
  qed simp
  then show ?thesis by (simp add: sched_without_def enqueue_def Let_def)
qed

lemma without_dequeue: "pid \<in> A \<Longrightarrow> sched_without A (dequeue pid s) = sched_without A s"
proof -
  assume "pid \<in> A"
  moreover from this have "(\<lambda>x. x \<noteq> pid \<and> x \<notin> A) = (\<lambda>x. x \<notin> A)" by auto
  ultimately show ?thesis by (auto simp: sched_without_def dequeue_def Let_def comp_def split: option.split)
qed

lemma without_restart: "pid \<in> A \<Longrightarrow> sched_without A (snd (restart_process now pid ts)) = sched_without A (snd ts)"
  by (simp add: restart_process_def without_enqueue split: option.split)

lemma without_kill: "pid \<in> A \<Longrightarrow> sched_without A (snd (kill_child pid ts)) = sched_without A (snd ts)"
  by (simp add: kill_child_def without_dequeue split: option.split)

lemma without_all: "set pids \<subseteq> A \<Longrightarrow> sched_without A (snd (restart_all now pids ts)) = sched_without A (snd ts)"
proof -
  have "set pids \<subseteq> A \<Longrightarrow> sched_without A (snd (fold (restart_process now) pids ts)) = sched_without A (snd ts)"
    "set pids \<subseteq> A \<Longrightarrow> sched_without A (snd (fold kill_child pids ts)) = sched_without A (snd ts)" for ts
    by (induction pids arbitrary: ts) (simp_all add: without_restart without_kill)
  then show "set pids \<subseteq> A \<Longrightarrow> ?thesis" by (simp add: restart_all_def)
qed

lemma without_strategy:
  assumes "pt_get (fst ts) pid \<noteq> None"
  shows "sched_without (insert pid (affected (fst ts) sv pid)) (snd (snd (apply_strategy sv pid now ts))) =
    sched_without (insert pid (affected (fst ts) sv pid)) (snd ts)"
  using assms
  by (auto simp: apply_strategy_def affected_def rest_of_def Let_def split: supervision_strategy.split option.splits
      intro!: without_restart without_all)

lemma map_get_modify: "(\<And>p. h (f p) = h p) \<Longrightarrow> map_option h (pt_get (pt_modify pid f t) c) = map_option h (pt_get t c)"
  by (cases "c = pid"; cases "pt_get t c") (simp_all add: pt_get_modify)

lemma affected_cong:
  assumes "\<And>c. map_option pcb_spawn_order (pt_get t' c) = map_option pcb_spawn_order (pt_get t c)"
  shows "affected t' sv pid = affected t sv pid"
proof -
  have "(\<exists>pc p. pt_get t' c = Some pc \<and> pt_get t' pid = Some p \<and> pcb_spawn_order p \<le> pcb_spawn_order pc) \<longleftrightarrow>
      (\<exists>pc p. pt_get t c = Some pc \<and> pt_get t pid = Some p \<and> pcb_spawn_order p \<le> pcb_spawn_order pc)" for c
    using assms [of c] assms [of pid]
    by (cases "pt_get t c"; cases "pt_get t' c"; cases "pt_get t pid"; cases "pt_get t' pid") simp_all
  then show ?thesis by (simp add: affected_def split: supervision_strategy.split)
qed

text \<open>
  C29. When a process crashes and its supervisor has counted fewer restarts within its window than
  it allows, the crash handler restarts exactly the processes that the supervisor's strategy names:
  the crashed one, all children, or the children spawned no earlier than it. A restarted process is
  ready and queued, at its base priority, with no handles, nothing it is blocked on, no saved stack
  pointer and as one that has not run; its identity, family and memory are kept. The restart is
  counted at the supervisor; a crashed process that is not restarted stays terminated. No other
  process changes, and the others keep their places in the queues and the processor; sockets,
  bus, capabilities and the processor's registers are not touched.
\<close>

theorem crash_restarts:
  assumes "kernel_ok n k" "pt_get (k_table k) pid = Some p" "pt_get (k_table k) (pcb_supervisor p) = Some sv"
    and "length (recent_restarts (sc_tick (k_sched k)) (pcb_restart_tracker sv)) < unat (rt_max_restarts (pcb_restart_tracker sv))"
    and "A = affected (k_table k) sv pid"
  shows "\<exists>k'. crash pid k = Some (Inr (), k') \<and> kernel_ok n k' \<and>
    (\<forall>q. pt_get (k_table k') q = map_option (after_crash (k_table k) sv pid (sc_tick (k_sched k)) q) (pt_get (k_table k) q)) \<and>
    (\<forall>q \<in> A. pt_get (k_table k) q \<noteq> None \<longrightarrow> get_state k' q = Some Ready \<and> q \<in> queued (k_sched k')) \<and>
    sched_without (insert pid A) (k_sched k') = sched_without (insert pid A) (k_sched k) \<and>
    k_net k' = k_net k \<and> k_bus k' = k_bus k \<and> k_caps k' = k_caps k \<and> k_cpu k' = k_cpu k"
proof -
  let ?now = "sc_tick (k_sched k)" and ?spid = "pcb_supervisor p"
  note tok = procs_okD(1) [OF assms(1)]
  obtain k' where k': "crash pid k = Some (Inr (), k')" "kernel_ok n k'"
    using crash_ok [OF assms(1), of pid] assms(2) by (auto simp: crash_def Let_def split: bind_splits prod.splits)
  have spid: "?spid \<noteq> pid" "pcb_pid sv = ?spid"
    using pcb_okD [OF tok assms(2)] pcb_okD [OF tok assms(3)] by (auto simp: pcb_ok_def)
  let ?f = "\<lambda>p. p\<lparr>pcb_state := Terminated, pcb_exit_reason := Some ExitCrash\<rparr>"
  let ?g = "\<lambda>p. p\<lparr>pcb_restart_tracker := (pcb_restart_tracker sv)\<lparr>rt_timestamps := recent_restarts ?now (pcb_restart_tracker sv) @ [?now]\<rparr>\<rparr>"
  let ?t2 = "pt_modify ?spid ?g (pt_modify pid ?f (k_table k))"
  have sv: "pt_get (pt_modify pid ?f (k_table k)) ?spid = Some sv" using assms(3) spid(1) by (simp add: pt_get_modify)
  have k'_eq: "k' = k\<lparr>k_table := fst (snd (apply_strategy sv pid ?now (?t2, dequeue pid (k_sched k)))),
      k_sched := snd (snd (apply_strategy sv pid ?now (?t2, dequeue pid (k_sched k))))\<rparr>"
    using k'(1) assms(2,4) sv by (auto simp: crash_def Let_def handle_child_crash.simps [of ?spid] record_restart_eq split: prod.splits)
  then have tbl: "k_table k' = fst (snd (apply_strategy sv pid ?now (?t2, dequeue pid (k_sched k))))" by simp
  have ord: "map_option pcb_spawn_order (pt_get ?t2 c) = map_option pcb_spawn_order (pt_get (k_table k) c)" for c
    by (simp add: map_get_modify)
  have aff: "affected ?t2 sv pid = affected (k_table k) sv pid" by (rule affected_cong [OF ord])
  have pid: "pt_get ?t2 pid \<noteq> None" using assms(2) spid(1) by (simp add: pt_get_modify)
  have get: "pt_get (k_table k') q = map_option (after_crash (k_table k) sv pid ?now q) (pt_get (k_table k) q)" for q
  proof -
    have "q \<noteq> ?spid" if "q \<in> affected (k_table k) sv pid"
    proof -
      have "pcb_ok (k_table k) ?spid sv" by (rule pcb_okD [OF tok assms(3)])
      then have "?spid \<notin> set (pcb_children sv)" using assms(3) by (auto simp: pcb_ok_def)
      then show ?thesis using that spid(1) by (auto simp: affected_def split: supervision_strategy.splits)
    qed
    moreover have "pt_get (k_table k') q = (if q \<in> affected (k_table k) sv pid then map_option (reset_for_restart ?now) (pt_get ?t2 q) else pt_get ?t2 q)"
      unfolding tbl using apply_strategy_get [of "(?t2, dequeue pid (k_sched k))" pid sv ?now q] pid aff by simp
    moreover have "pt_get ?t2 q = map_option (\<lambda>p. if q = pid then ?f p else if q = ?spid then ?g p else p) (pt_get (k_table k) q)"
      using spid(1) by (cases "q = pid"; cases "q = ?spid"; cases "pt_get (k_table k) q") (simp_all add: pt_get_modify)
    ultimately show ?thesis
      using spid by (cases "pt_get (k_table k) q"; cases "q \<in> affected (k_table k) sv pid")
        (simp_all add: after_crash_def reset_restarted restarted_def)
  qed
  have "get_state k' q = Some Ready \<and> q \<in> queued (k_sched k')"
    if q: "q \<in> affected (k_table k) sv pid" "pt_get (k_table k) q \<noteq> None" for q
  proof -
    obtain p0 where p0: "pt_get (k_table k) q = Some p0" using q(2) by blast
    have r: "pt_get (k_table k') q = Some (restarted ?now p0)" using get [of q] p0 q(1) by (simp add: after_crash_def)
    have ok: "sched_ok {} (k_table k') (k_sched k')" by (rule procs_okD(2) [OF k'(2)])
    have "sc_current (k_sched k') \<noteq> Some q" using sched_okD(5) [OF ok, of q] r by (auto simp: restarted_def)
    then show ?thesis
      using sched_okD(6) [OF ok r] r by (auto simp: out_def runnable_def restarted_def get_state_def)
  qed
  moreover have "sched_without (insert pid A) (k_sched k') = sched_without (insert pid A) (k_sched k)"
    using without_strategy [of "(?t2, dequeue pid (k_sched k))" pid sv ?now] pid aff k'_eq assms(5) by (simp add: without_dequeue)
  ultimately show ?thesis using k' get assms(5) k'_eq by (intro exI [of _ k']) simp
qed

text \<open>The butler with one child, started by hand.\<close>

definition demo_child :: "kernel \<Rightarrow> kernel" where
  "demo_child k0 = snd (spawn PID_BUTLER intent_default ''shell'' None k0)"

lemma init_table:
  assumes "process_init k = Some k0" "k_table k = pt_new"
  shows "\<exists>b. k_table k0 = \<lparr>pt_processes = fmupd 1 b fmempty, pt_next_pid = 2\<rparr> \<and> pcb_children b = [] \<and>
    pcb_strategy b = OneForOne \<and> pcb_restart_tracker b = tracker_new BUTLER_MAX_RESTARTS BUTLER_INTENSITY_WINDOW"
proof -
  have "pt_count (pt_new\<lparr>pt_next_pid := 2\<rparr>) = 0" by (simp add: pt_count_def pt_new_def fcard_fempty)
  then show ?thesis
    using assms by (auto simp: process_init_def butler_init_def alloc_pid_def pt_insert_def pt_contains_def TABLE_MAX_PROCESSES_def
      pt_new_def PID_BUTLER_def pcb_new_def Let_def split: prod.splits)
qed

lemma demo_child_facts:
  assumes "process_init demo_kernel = Some k0"
  shows "\<exists>p sv. pt_get (k_table (demo_child k0)) 2 = Some p \<and> pcb_supervisor p = 1 \<and> pt_get (k_table (demo_child k0)) 1 = Some sv \<and>
    pcb_restart_tracker sv = tracker_new BUTLER_MAX_RESTARTS BUTLER_INTENSITY_WINDOW \<and> pcb_strategy sv = OneForOne"
proof -
  obtain b where b: "k_table k0 = \<lparr>pt_processes = fmupd 1 b fmempty, pt_next_pid = 2\<rparr>" "pcb_strategy b = OneForOne"
    "pcb_restart_tracker b = tracker_new BUTLER_MAX_RESTARTS BUTLER_INTENSITY_WINDOW"
    using init_table [OF assms] by (auto simp: demo_kernel_def)
  have "pt_count ((k_table k0)\<lparr>pt_next_pid := 3\<rparr>) = 1" by (simp add: pt_count_def b fcard_fempty fcard_finsert_disjoint)
  then show ?thesis
    by (simp add: demo_child_def spawn_def b alloc_pid_def pt_insert_def pt_contains_def TABLE_MAX_PROCESSES_def PID_BUTLER_def
        pcb_new_def pt_get_modify Let_def split: prod.split)
qed

theorem crash_restarts_witness:
  "\<exists>k0 k'. process_init demo_kernel = Some k0 \<and> crash 2 (demo_child k0) = Some (Inr (), k') \<and> get_state k' 2 = Some Ready"
proof -
  obtain k0 where k0: "process_init demo_kernel = Some k0" "kernel_ok 2 k0"
    using boot_ok [of demo_kernel] by (auto simp: demo_kernel_def)
  obtain n where n: "kernel_ok n (demo_child k0)" unfolding demo_child_def using spawn_ok [OF k0(2)] by fastforce
  obtain p sv where d: "pt_get (k_table (demo_child k0)) 2 = Some p" "pcb_supervisor p = 1" "pt_get (k_table (demo_child k0)) 1 = Some sv"
    "pcb_restart_tracker sv = tracker_new BUTLER_MAX_RESTARTS BUTLER_INTENSITY_WINDOW" "pcb_strategy sv = OneForOne"
    using demo_child_facts [OF k0(1)] by blast
  have left: "length (recent_restarts (sc_tick (k_sched (demo_child k0))) (pcb_restart_tracker sv)) < unat (rt_max_restarts (pcb_restart_tracker sv))"
    by (simp add: d(4) recent_restarts_def tracker_new_def BUTLER_MAX_RESTARTS_def)
  have sv: "pt_get (k_table (demo_child k0)) (pcb_supervisor p) = Some sv" using d(2,3) by simp
  have "2 \<in> affected (k_table (demo_child k0)) sv 2" using d(5) by (simp add: affected_def)
  then show ?thesis using crash_restarts [OF n d(1) sv left refl] k0(1) d(1) by fastforce
qed

section \<open>The end of a process\<close>

text \<open>
  C31. Terminating a process removes it everywhere: none of its sockets is active any more, it has no
  inbox on the bus, it is terminated, neither current nor queued, and not among the children of its
  supervisor. The sockets and inboxes of others, and the states of
  other processes, stay as they were.
\<close>

theorem terminate_cleans_up:
  assumes "kernel_ok n k" "pt_get (k_table k) pid = Some p"
  shows "\<exists>k'. terminate pid k = (Inr (), k') \<and> kernel_ok n k' \<and>
    (\<forall>s \<in> set (net_sockets (k_net k')). sk_active s \<longrightarrow> sk_owner s \<noteq> pid) \<and>
    (\<forall>i < length (net_sockets (k_net k)). sk_owner (net_sockets (k_net k) ! i) \<noteq> pid \<longrightarrow>
      net_sockets (k_net k') ! i = net_sockets (k_net k) ! i) \<and>
    fmlookup (br_inboxes (k_bus k')) pid = None \<and>
    (\<forall>q. q \<noteq> pid \<longrightarrow> fmlookup (br_inboxes (k_bus k')) q = fmlookup (br_inboxes (k_bus k)) q) \<and>
    get_state k' pid = Some Terminated \<and> pid \<notin> queued (k_sched k') \<and> sc_current (k_sched k') \<noteq> Some pid \<and>
    (\<forall>q. q \<noteq> pid \<longrightarrow> get_state k' q = get_state k q) \<and>
    (\<forall>sv. pt_get (k_table k') (pcb_supervisor p) = Some sv \<longrightarrow> pid \<notin> set (pcb_children sv))"
proof -
  let ?t = "pt_modify pid (\<lambda>p. p\<lparr>pcb_state := Terminated, pcb_exit_reason := Some ExitNormal\<rparr>) (k_table k)"
  let ?g = "\<lambda>sv. sv\<lparr>pcb_children := filter (\<lambda>c. c \<noteq> pid) (pcb_children sv)\<rparr>"
  let ?k = "k\<lparr>k_net := cleanup_process_sockets (k_net k) pid, k_table := pt_modify (pcb_supervisor p) ?g ?t,
     k_sched := dequeue pid (k_sched k), k_bus := snd (unregister_process (k_bus k) pid)\<rparr>"
  have t: "terminate pid k = (Inr (), ?k)" using assms(2) by (simp add: terminate_def Let_def split: prod.split)
  have ok: "kernel_ok n ?k" using terminate_ok [OF assms(1), of pid] t by simp
  have "map_option pcb_state (pt_get (pt_modify (pcb_supervisor p) ?g ?t) q) = map_option pcb_state (pt_get ?t q)" for q
    by (rule map_get_modify) simp
  then have state: "get_state ?k q = (if q = pid then Some Terminated else get_state k q)" for q
    using assms(2) by (cases "q = pid") (simp_all add: get_state_def pt_get_modify)
  have bus: "fmlookup (br_inboxes (k_bus ?k)) q = (if q = pid then None else fmlookup (br_inboxes (k_bus k)) q)" for q
    by (auto simp: unregister_process_def Let_def)
  have out: "pid \<notin> queued (k_sched ?k)" "sc_current (k_sched ?k) \<noteq> Some pid" by (simp_all add: queued_dequeue)
  have socks: "\<forall>s \<in> set (net_sockets (k_net ?k)). sk_active s \<longrightarrow> sk_owner s \<noteq> pid"
    by (simp add: cleanup_process_sockets_def cleanup_by_owner_def ball_Un)
  have others: "\<forall>i < length (net_sockets (k_net k)). sk_owner (net_sockets (k_net k) ! i) \<noteq> pid \<longrightarrow>
      net_sockets (k_net ?k) ! i = net_sockets (k_net k) ! i"
    by (simp add: cleanup_process_sockets_def cleanup_by_owner_def)
  have child: "\<forall>sv. pt_get (k_table ?k) (pcb_supervisor p) = Some sv \<longrightarrow> pid \<notin> set (pcb_children sv)"
    by (auto simp: pt_get_modify)
  have gone: "fmlookup (br_inboxes (k_bus ?k)) pid = None" "get_state ?k pid = Some Terminated" using bus state by simp_all
  have kept: "\<forall>q. q \<noteq> pid \<longrightarrow> fmlookup (br_inboxes (k_bus ?k)) q = fmlookup (br_inboxes (k_bus k)) q"
    "\<forall>q. q \<noteq> pid \<longrightarrow> get_state ?k q = get_state k q"
    using bus state by simp_all
  show ?thesis by (intro exI [of _ ?k] conjI t ok socks others out child gone kept)
qed

theorem terminate_cleans_up_witness:
  "\<exists>k0 k'. process_init demo_kernel = Some k0 \<and> terminate 2 (demo_child k0) = (Inr (), k') \<and> get_state k' 2 = Some Terminated"
proof -
  obtain k0 where k0: "process_init demo_kernel = Some k0" "kernel_ok 2 k0"
    using boot_ok [of demo_kernel] by (auto simp: demo_kernel_def)
  obtain n where n: "kernel_ok n (demo_child k0)" unfolding demo_child_def using spawn_ok [OF k0(2)] by fastforce
  obtain p where "pt_get (k_table (demo_child k0)) 2 = Some p" using demo_child_facts [OF k0(1)] by blast
  from terminate_cleans_up [OF n this] show ?thesis using k0(1) by blast
qed

section \<open>A first timer interrupt\<close>

lemma init_cpu: "process_init k = Some k0 \<Longrightarrow> k_cpu k0 = k_cpu k"
  by (auto simp: process_init_def split: prod.splits bind_splits)

theorem timer_switch_sound_witness:
  "\<exists>k0 c' s' t'. process_init demo_kernel = Some k0 \<and>
     timer_handler True True 4096 (k_cpu k0) (k_sched k0) (k_table k0) = (c', s', t') \<and> sched_ok {} t' s'"
proof -
  obtain k0 where k0: "process_init demo_kernel = Some k0" "kernel_ok 2 k0"
    using boot_ok [of demo_kernel] by (auto simp: demo_kernel_def)
  obtain c' s' t' where h: "timer_handler True True 4096 (k_cpu k0) (k_sched k0) (k_table k0) = (c', s', t')" by (metis prod_cases3)
  have "cpu_switch_rsp (k_cpu k0) = 0" using init_cpu [OF k0(1)] by (simp add: demo_kernel_def)
  from timer_switch_sound [OF k0(2) this h] show ?thesis using k0(1) h procs_okD(2) by blast
qed

end
