(* ===== verification/Vfs_Tables.thy ===== *)
theory Vfs_Tables
  imports Handle_Table Ring_Buffer
begin

text \<open>
  The tables of the virtual file system: inodes (\<^verbatim>\<open>kernel/src/vfs/inode.rs\<close>), open files
  (\<^verbatim>\<open>vfs/open_file.rs\<close>) and mount points (\<^verbatim>\<open>vfs/mount.rs\<close>), each a fixed array of slots. Paths and
  names are byte strings; \<open>SLASH\<close> is the separator.
\<close>

definition SLASH :: u8 where "SLASH = 0x2F"

section \<open>Inodes\<close>

definition MAX_INODES :: nat where "MAX_INODES = 1024"

type_synonym inode_id = u32

definition INODE_INVALID :: inode_id where "INODE_INVALID = 0"

datatype inode_type = File | Directory | CharDevice

fun inode_type_u8 :: "inode_type \<Rightarrow> u8" where
  "inode_type_u8 File = 0"
| "inode_type_u8 Directory = 1"
| "inode_type_u8 CharDevice = 2"

record inode =
  ino_id :: inode_id
  ino_type :: inode_type
  ino_size :: u64
  ino_fs_id :: u16
  ino_fs_data :: u64
  ino_active :: bool
  ino_generation :: u16

definition inode_empty :: inode where
  "inode_empty = \<lparr>ino_id = INODE_INVALID, ino_type = File, ino_size = 0, ino_fs_id = 0, ino_fs_data = 0,
     ino_active = False, ino_generation = 0\<rparr>"

datatype inode_error = InodeTableFull | InodeNotFound | InodeNotActive | InodeStaleGeneration

record inode_table =
  it_entries :: "inode list"
  it_count :: nat
  it_next_id :: u32

definition inode_table_new :: inode_table where
  "inode_table_new = \<lparr>it_entries = replicate MAX_INODES inode_empty, it_count = 0, it_next_id = 1\<rparr>"

definition inode_alloc :: "inode_table \<Rightarrow> inode_type \<Rightarrow> u16 \<Rightarrow> u64 \<Rightarrow> (inode_error + inode_id) \<times> inode_table" where
  "inode_alloc t ty fs_id fs_data =
     (case find_slot (\<lambda>e. \<not> ino_active e) (it_entries t) of
        None \<Rightarrow> (Inl InodeTableFull, t)
      | Some i \<Rightarrow>
          (Inr (it_next_id t),
           t\<lparr>it_next_id := it_next_id t + 1,
             it_entries := (it_entries t)[i := (it_entries t ! i)\<lparr>ino_id := it_next_id t, ino_type := ty, ino_size := 0,
               ino_fs_id := fs_id, ino_fs_data := fs_data, ino_active := True\<rparr>],
             it_count := it_count t + 1\<rparr>))"

definition inode_slot :: "inode_table \<Rightarrow> inode_id \<Rightarrow> nat option" where
  "inode_slot t i = find_slot (\<lambda>e. ino_active e \<and> ino_id e = i) (it_entries t)"

definition inode_get :: "inode_table \<Rightarrow> inode_id \<Rightarrow> inode option" where
  "inode_get t i = map_option (\<lambda>k. it_entries t ! k) (inode_slot t i)"

definition inode_modify :: "inode_table \<Rightarrow> inode_id \<Rightarrow> (inode \<Rightarrow> inode) \<Rightarrow> inode_table" where
  "inode_modify t i f =
     (case inode_slot t i of None \<Rightarrow> t | Some k \<Rightarrow> t\<lparr>it_entries := (it_entries t)[k := f (it_entries t ! k)]\<rparr>)"

definition inode_release :: "inode_table \<Rightarrow> inode_id \<Rightarrow> (inode_error + unit) \<times> inode_table" where
  "inode_release t i =
     (case inode_slot t i of
        None \<Rightarrow> (Inl InodeNotFound, t)
      | Some k \<Rightarrow> (Inr (), t\<lparr>it_entries := (it_entries t)[k := (it_entries t ! k)\<lparr>ino_active := False,
          ino_generation := ino_generation (it_entries t ! k) + 1\<rparr>], it_count := it_count t - 1\<rparr>))"

definition inodes_clear :: "inode_table \<Rightarrow> inode_table" where
  "inodes_clear t = \<lparr>it_entries = map (\<lambda>_. inode_empty) (it_entries t), it_count = 0, it_next_id = 1\<rparr>"

section \<open>Open files\<close>

definition MAX_OPEN_FILES :: nat where "MAX_OPEN_FILES = 4096"

type_synonym open_file_id = u32

type_synonym open_flags = u32

definition OPEN_NONE :: open_flags where "OPEN_NONE = 0"
definition OPEN_READ :: open_flags where "OPEN_READ = 1"
definition OPEN_WRITE :: open_flags where "OPEN_WRITE = 2"
definition OPEN_APPEND :: open_flags where "OPEN_APPEND = 4"
definition OPEN_CREATE :: open_flags where "OPEN_CREATE = 8"

definition flags_contain :: "open_flags \<Rightarrow> open_flags \<Rightarrow> bool" where
  "flags_contain f g \<longleftrightarrow> f AND g \<noteq> 0"

record open_file =
  of_inode_id :: inode_id
  of_offset :: u64
  of_flags :: open_flags
  of_ref_count :: u16
  of_active :: bool

definition open_file_empty :: open_file where
  "open_file_empty = \<lparr>of_inode_id = INODE_INVALID, of_offset = 0, of_flags = OPEN_NONE, of_ref_count = 0, of_active = False\<rparr>"

datatype open_file_error = FileTableFull | FileNotFound | FileNotActive

record open_file_table =
  oft_entries :: "open_file list"
  oft_count :: nat

definition open_files_new :: open_file_table where
  "open_files_new = \<lparr>oft_entries = replicate MAX_OPEN_FILES open_file_empty, oft_count = 0\<rparr>"

text \<open>The scan starts at slot 1.\<close>

definition open_file_alloc :: "open_file_table \<Rightarrow> inode_id \<Rightarrow> open_flags \<Rightarrow> (open_file_error + open_file_id) \<times> open_file_table" where
  "open_file_alloc t i flags =
     (case find_slot (\<lambda>e. \<not> of_active e) (tl (oft_entries t)) of
        None \<Rightarrow> (Inl FileTableFull, t)
      | Some k \<Rightarrow>
          (Inr (of_nat (k + 1)),
           t\<lparr>oft_entries := (oft_entries t)[k + 1 := \<lparr>of_inode_id = i, of_offset = 0, of_flags = flags, of_ref_count = 1, of_active = True\<rparr>],
             oft_count := oft_count t + 1\<rparr>))"

definition open_file_get :: "open_file_table \<Rightarrow> open_file_id \<Rightarrow> open_file option" where
  "open_file_get t f =
     (if unat f < MAX_OPEN_FILES \<and> of_active (oft_entries t ! unat f) then Some (oft_entries t ! unat f) else None)"

definition open_file_modify :: "open_file_table \<Rightarrow> open_file_id \<Rightarrow> (open_file \<Rightarrow> open_file) \<Rightarrow> open_file_table" where
  "open_file_modify t f g =
     (case open_file_get t f of None \<Rightarrow> t | Some e \<Rightarrow> t\<lparr>oft_entries := (oft_entries t)[unat f := g e]\<rparr>)"

definition open_file_release :: "open_file_table \<Rightarrow> open_file_id \<Rightarrow> (open_file_error + unit) \<times> open_file_table" where
  "open_file_release t f =
     (let idx = unat f
      in if idx \<ge> MAX_OPEN_FILES then (Inl FileNotFound, t)
         else if \<not> of_active (oft_entries t ! idx) then (Inl FileNotActive, t)
         else
           let e = (oft_entries t ! idx)\<lparr>of_ref_count := of_ref_count (oft_entries t ! idx) - 1\<rparr>
           in if of_ref_count e = 0
              then (Inr (), t\<lparr>oft_entries := (oft_entries t)[idx := e\<lparr>of_active := False, of_inode_id := INODE_INVALID\<rparr>],
                     oft_count := oft_count t - 1\<rparr>)
              else (Inr (), t\<lparr>oft_entries := (oft_entries t)[idx := e]\<rparr>))"

definition open_files_clear :: "open_file_table \<Rightarrow> open_file_table" where
  "open_files_clear t = \<lparr>oft_entries = map (\<lambda>_. open_file_empty) (oft_entries t), oft_count = 0\<rparr>"

section \<open>Mount points\<close>

definition MAX_MOUNTS :: nat where "MAX_MOUNTS = 64"
definition MAX_MOUNT_PATH :: nat where "MAX_MOUNT_PATH = 64"

datatype fs_type = FsTmpfs | FsDevfs

record mount_entry =
  me_mount_path :: bytes
  me_path_len :: nat
  me_fs_id :: u16
  me_fs_type :: fs_type
  me_root_inode :: inode_id
  me_active :: bool

definition mount_entry_empty :: mount_entry where
  "mount_entry_empty = \<lparr>me_mount_path = replicate MAX_MOUNT_PATH 0, me_path_len = 0, me_fs_id = 0, me_fs_type = FsTmpfs,
     me_root_inode = INODE_INVALID, me_active = False\<rparr>"

definition mount_path :: "mount_entry \<Rightarrow> bytes" where
  "mount_path e = take (me_path_len e) (me_mount_path e)"

datatype mount_error = MountTableFull | MountPathTooLong | MountNotFound

record mount_table =
  mt_entries :: "mount_entry list"
  mt_count :: nat
  mt_next_fs_id :: u16

definition mount_table_new :: mount_table where
  "mount_table_new = \<lparr>mt_entries = replicate MAX_MOUNTS mount_entry_empty, mt_count = 0, mt_next_fs_id = 1\<rparr>"

definition mount :: "mount_table \<Rightarrow> bytes \<Rightarrow> fs_type \<Rightarrow> inode_id \<Rightarrow> (mount_error + u16) \<times> mount_table" where
  "mount t path ty root =
     (if length path > MAX_MOUNT_PATH then (Inl MountPathTooLong, t)
      else (case find_slot (\<lambda>e. \<not> me_active e) (mt_entries t) of
          None \<Rightarrow> (Inl MountTableFull, t)
        | Some i \<Rightarrow>
            let e = mt_entries t ! i
            in (Inr (mt_next_fs_id t),
                t\<lparr>mt_next_fs_id := mt_next_fs_id t + 1,
                  mt_entries := (mt_entries t)[i := \<lparr>me_mount_path = path @ drop (length path) (me_mount_path e),
                    me_path_len = length path, me_fs_id = mt_next_fs_id t, me_fs_type = ty, me_root_inode = root, me_active = True\<rparr>],
                  mt_count := mt_count t + 1\<rparr>)))"

text \<open>Does a mount point lie on a path, at the boundary of a component?\<close>

definition lies_on :: "bytes \<Rightarrow> bytes \<Rightarrow> bool" where
  "lies_on mp path \<longleftrightarrow> length path \<ge> length mp \<and> take (length mp) path = mp \<and>
     (mp = [SLASH] \<or> length path = length mp \<or> path ! length mp = SLASH)"

text \<open>The scan for the longest one: the entries from index \<open>i\<close> on, with the best so far.\<close>

fun best_mount :: "bytes \<Rightarrow> nat \<Rightarrow> mount_entry list \<Rightarrow> nat option \<times> nat \<Rightarrow> nat option \<times> nat" where
  "best_mount path i [] best = best"
| "best_mount path i (e # es) best =
     best_mount path (i + 1) es
       (if me_active e \<and> lies_on (mount_path e) path \<and> length (mount_path e) > snd best
        then (Some i, length (mount_path e)) else best)"

record resolve_result =
  rr_mount_index :: nat
  rr_remaining :: bytes
  rr_remaining_len :: nat

definition mount_resolve :: "mount_table \<Rightarrow> bytes \<Rightarrow> resolve_result option run" where
  "mount_resolve t path =
     (case fst (best_mount path 0 (mt_entries t) (None, 0)) of
        None \<Rightarrow> Some None
      | Some idx \<Rightarrow>
          let mount_path_len = me_path_len (mt_entries t ! idx);
              remaining = replicate MAX_MOUNT_PATH 0
          in if length path \<le> mount_path_len
             then Some (Some \<lparr>rr_mount_index = idx, rr_remaining = remaining, rr_remaining_len = 0\<rparr>)
             else
               let start = (if path ! mount_path_len = SLASH then mount_path_len + 1 else mount_path_len);
                   remaining_len = length path - start
               in if remaining_len > 0
                  then do {
                    rem \<leftarrow> copy_slice remaining 0 remaining_len (drop start path);
                    Some (Some \<lparr>rr_mount_index = idx, rr_remaining = rem, rr_remaining_len = remaining_len\<rparr>)
                  }
                  else Some (Some \<lparr>rr_mount_index = idx, rr_remaining = remaining, rr_remaining_len = 0\<rparr>))"

definition mount_get :: "mount_table \<Rightarrow> nat \<Rightarrow> mount_entry option" where
  "mount_get t idx = (if idx < MAX_MOUNTS \<and> me_active (mt_entries t ! idx) then Some (mt_entries t ! idx) else None)"

definition mount_get_by_fs_id :: "mount_table \<Rightarrow> u16 \<Rightarrow> mount_entry option" where
  "mount_get_by_fs_id t fs = find (\<lambda>e. me_active e \<and> me_fs_id e = fs) (mt_entries t)"

definition mounts_clear :: "mount_table \<Rightarrow> mount_table" where
  "mounts_clear t = \<lparr>mt_entries = map (\<lambda>_. mount_entry_empty) (mt_entries t), mt_count = 0, mt_next_fs_id = 1\<rparr>"

end
