(* ===== verification/Vfs_Files.thy ===== *)
theory Vfs_Files
  imports Vfs_Tables "HOL-Library.Finite_Map"
begin

text \<open>
  The two file systems: \<open>tmpfs\<close> (\<^verbatim>\<open>kernel/src/vfs/tmpfs.rs\<close>), whose files are byte vectors and whose
  directories are lists of names, and \<open>devfs\<close> (\<^verbatim>\<open>vfs/devfs.rs\<close>) with its three devices. Names are
  strings in the source, hence checked to be UTF-8.
\<close>

section \<open>UTF-8\<close>

definition between :: "u8 \<Rightarrow> u8 \<Rightarrow> u8 \<Rightarrow> bool" where
  "between lo hi b \<longleftrightarrow> lo \<le> b \<and> b \<le> hi"

text \<open>How many bytes a sequence has, and the range of its second byte, by its first byte.\<close>

definition utf8_lead :: "u8 \<Rightarrow> (nat \<times> u8 \<times> u8) option" where
  "utf8_lead b =
     (if b < 0x80 then Some (0, 0, 0)
      else if between 0xC2 0xDF b then Some (1, 0x80, 0xBF)
      else if b = 0xE0 then Some (2, 0xA0, 0xBF)
      else if b = 0xED then Some (2, 0x80, 0x9F)
      else if between 0xE1 0xEF b then Some (2, 0x80, 0xBF)
      else if b = 0xF0 then Some (3, 0x90, 0xBF)
      else if between 0xF1 0xF3 b then Some (3, 0x80, 0xBF)
      else if b = 0xF4 then Some (3, 0x80, 0x8F)
      else None)"

function utf8_valid :: "bytes \<Rightarrow> bool" where
  "utf8_valid [] = True"
| "utf8_valid (b # bs) =
     (case utf8_lead b of
        None \<Rightarrow> False
      | Some (n, lo, hi) \<Rightarrow>
          n \<le> length bs \<and> (n = 0 \<or> between lo hi (bs ! 0)) \<and> list_all (between 0x80 0xBF) (take (n - 1) (drop 1 bs)) \<and>
          utf8_valid (drop n bs))"
  by pat_completeness auto

termination by (relation "measure length") auto

section \<open>tmpfs\<close>

record dir_entry =
  de_name :: bytes
  de_inode_id :: inode_id

record tmpfs =
  tf_fs_id :: u16
  tf_root_inode :: inode_id
  tf_dirs :: "(inode_id, dir_entry list) fmap"
  tf_files :: "(inode_id, bytes) fmap"
  tf_initialized :: bool

definition tmpfs_new :: tmpfs where
  "tmpfs_new = \<lparr>tf_fs_id = 0, tf_root_inode = INODE_INVALID, tf_dirs = fmempty, tf_files = fmempty, tf_initialized = False\<rparr>"

definition tmpfs_init :: "tmpfs \<Rightarrow> u16 \<Rightarrow> inode_id \<Rightarrow> tmpfs" where
  "tmpfs_init T fs_id root =
     T\<lparr>tf_fs_id := fs_id, tf_root_inode := root, tf_dirs := fmupd root [] (tf_dirs T), tf_initialized := True\<rparr>"

definition register_dir :: "tmpfs \<Rightarrow> inode_id \<Rightarrow> tmpfs" where
  "register_dir T i = T\<lparr>tf_dirs := fmupd i [] (tf_dirs T)\<rparr>"

definition add_dir_entry :: "tmpfs \<Rightarrow> inode_id \<Rightarrow> bytes \<Rightarrow> inode_id \<Rightarrow> tmpfs" where
  "add_dir_entry T parent name child =
     (case fmlookup (tf_dirs T) parent of
        None \<Rightarrow> T
      | Some entries \<Rightarrow>
          T\<lparr>tf_dirs := fmupd parent (entries @ [\<lparr>de_name = (if utf8_valid name then name else [0x3F]), de_inode_id = child\<rparr>]) (tf_dirs T)\<rparr>)"

definition create_file_with_data :: "tmpfs \<Rightarrow> inode_id \<Rightarrow> bytes \<Rightarrow> tmpfs" where
  "create_file_with_data T i data = T\<lparr>tf_files := fmupd i data (tf_files T)\<rparr>"

definition tmpfs_lookup :: "tmpfs \<Rightarrow> inode_id \<Rightarrow> bytes \<Rightarrow> inode_id option" where
  "tmpfs_lookup T dir name =
     (if \<not> utf8_valid name then None
      else (case fmlookup (tf_dirs T) dir of
          None \<Rightarrow> None
        | Some entries \<Rightarrow> map_option de_inode_id (find (\<lambda>e. de_name e = name) entries)))"

text \<open>Reading: how many bytes, and the buffer afterwards.\<close>

definition tmpfs_read :: "tmpfs \<Rightarrow> inode_id \<Rightarrow> u64 \<Rightarrow> bytes \<Rightarrow> nat \<times> bytes" where
  "tmpfs_read T i offset buf =
     (case fmlookup (tf_files T) i of
        None \<Rightarrow> (0, buf)
      | Some data \<Rightarrow>
          if unat offset \<ge> length data then (0, buf)
          else
            let to_read = min (length buf) (length data - unat offset)
            in (to_read, take to_read (drop (unat offset) data) @ drop to_read buf))"

definition resize :: "bytes \<Rightarrow> nat \<Rightarrow> bytes" where
  "resize xs n = take n xs @ replicate (n - length xs) 0"

text \<open>The end of the write wraps around like the addition of the source; the copy then panics.\<close>

definition tmpfs_write :: "tmpfs \<Rightarrow> inode_id \<Rightarrow> u64 \<Rightarrow> bytes \<Rightarrow> (nat \<times> tmpfs) run" where
  "tmpfs_write T i offset data =
     (let file = (case fmlookup (tf_files T) i of None \<Rightarrow> [] | Some d \<Rightarrow> d);
          hi = unat (offset + of_nat (length data));
          file' = (if hi > length file then resize file hi else file)
      in do {
        file'' \<leftarrow> copy_slice file' (unat offset) hi data;
        Some (length data, T\<lparr>tf_files := fmupd i file'' (tf_files T)\<rparr>)
      })"

definition file_size :: "tmpfs \<Rightarrow> inode_id \<Rightarrow> u64" where
  "file_size T i = (case fmlookup (tf_files T) i of None \<Rightarrow> 0 | Some d \<Rightarrow> of_nat (length d))"

definition tmpfs_readdir :: "tmpfs \<Rightarrow> inode_id \<Rightarrow> dir_entry list option" where
  "tmpfs_readdir T i = fmlookup (tf_dirs T) i"

definition tmpfs_clear :: "tmpfs \<Rightarrow> tmpfs" where
  "tmpfs_clear T = tmpfs_new"

section \<open>devfs\<close>

datatype device_type = DevNull | DevZero | DevRandom

fun device_type_u64 :: "device_type \<Rightarrow> u64" where
  "device_type_u64 DevNull = 0"
| "device_type_u64 DevZero = 1"
| "device_type_u64 DevRandom = 2"

record devfs =
  df_fs_id :: u16
  df_root_inode :: inode_id
  df_null_inode :: inode_id
  df_zero_inode :: inode_id
  df_random_inode :: inode_id
  df_lfsr_state :: u64
  df_initialized :: bool

definition devfs_new :: devfs where
  "devfs_new = \<lparr>df_fs_id = 0, df_root_inode = INODE_INVALID, df_null_inode = INODE_INVALID, df_zero_inode = INODE_INVALID,
     df_random_inode = INODE_INVALID, df_lfsr_state = 0xDEADBEEFCAFE1234, df_initialized = False\<rparr>"

definition alloc_or_panic :: "inode_table \<Rightarrow> inode_type \<Rightarrow> u16 \<Rightarrow> u64 \<Rightarrow> (inode_id \<times> inode_table) run" where
  "alloc_or_panic t ty fs_id fs_data =
     (case inode_alloc t ty fs_id fs_data of (Inl _, _) \<Rightarrow> None | (Inr i, t') \<Rightarrow> Some (i, t'))"

definition devfs_init :: "devfs \<Rightarrow> u16 \<Rightarrow> inode_id \<Rightarrow> inode_table \<Rightarrow> (devfs \<times> inode_table) run" where
  "devfs_init D fs_id root t = do {
     (n, t1) \<leftarrow> alloc_or_panic t CharDevice fs_id (device_type_u64 DevNull);
     (z, t2) \<leftarrow> alloc_or_panic t1 CharDevice fs_id (device_type_u64 DevZero);
     (r, t3) \<leftarrow> alloc_or_panic t2 CharDevice fs_id (device_type_u64 DevRandom);
     Some (D\<lparr>df_fs_id := fs_id, df_root_inode := root, df_null_inode := n, df_zero_inode := z, df_random_inode := r,
       df_initialized := True\<rparr>, t3)
   }"

definition NAME_NULL :: bytes where "NAME_NULL = [0x6E, 0x75, 0x6C, 0x6C]"
definition NAME_ZERO :: bytes where "NAME_ZERO = [0x7A, 0x65, 0x72, 0x6F]"
definition NAME_RANDOM :: bytes where "NAME_RANDOM = [0x72, 0x61, 0x6E, 0x64, 0x6F, 0x6D]"

definition devfs_lookup :: "devfs \<Rightarrow> bytes \<Rightarrow> inode_id option" where
  "devfs_lookup D name =
     (if name = NAME_NULL then Some (df_null_inode D)
      else if name = NAME_ZERO then Some (df_zero_inode D)
      else if name = NAME_RANDOM then Some (df_random_inode D) else None)"

definition device_type_of :: "devfs \<Rightarrow> inode_id \<Rightarrow> device_type option" where
  "device_type_of D i =
     (if i = df_null_inode D then Some DevNull else if i = df_zero_inode D then Some DevZero
      else if i = df_random_inode D then Some DevRandom else None)"

definition next_random_byte :: "devfs \<Rightarrow> u8 \<times> devfs" where
  "next_random_byte D =
     (let st = drop_bit 1 (df_lfsr_state D);
          st' = (if df_lfsr_state D AND 1 \<noteq> 0 then st XOR 0xD800000000000000 else st)
      in (ucast (st' AND 0xFF), D\<lparr>df_lfsr_state := st'\<rparr>))"

fun random_bytes :: "nat \<Rightarrow> devfs \<Rightarrow> bytes \<times> devfs" where
  "random_bytes 0 D = ([], D)"
| "random_bytes (Suc n) D = (let (b, D1) = next_random_byte D; (bs, D2) = random_bytes n D1 in (b # bs, D2))"

definition devfs_read :: "devfs \<Rightarrow> inode_id \<Rightarrow> bytes \<Rightarrow> nat \<times> bytes \<times> devfs" where
  "devfs_read D i buf =
     (case device_type_of D i of
        None \<Rightarrow> (0, buf, D)
      | Some DevNull \<Rightarrow> (0, buf, D)
      | Some DevZero \<Rightarrow> (length buf, replicate (length buf) 0, D)
      | Some DevRandom \<Rightarrow> (let (bs, D') = random_bytes (length buf) D in (length buf, bs, D')))"

definition devfs_write :: "devfs \<Rightarrow> inode_id \<Rightarrow> nat \<Rightarrow> nat" where
  "devfs_write D i len = (case device_type_of D i of None \<Rightarrow> 0 | Some _ \<Rightarrow> len)"

definition devfs_clear :: "devfs \<Rightarrow> devfs" where
  "devfs_clear D = devfs_new"

end
