(* ===== verification/Vfs_Ops.thy ===== *)
theory Vfs_Ops
  imports Vfs_Files Cpio
begin

text \<open>
  The operations of the virtual file system (\<^verbatim>\<open>kernel/src/vfs/ops.rs\<close>) on its five tables, its start
  and the loading of the initial archive (\<^verbatim>\<open>vfs/mod.rs\<close>).
\<close>

datatype vfs_error = VfsNotFound | VfsNotAFile | VfsNotADirectory | VfsPermissionDenied | VfsInvalidPath | VfsNoSpace
  | VfsBadFileDescriptor | VfsIoError

record vfs =
  v_inodes :: inode_table
  v_mounts :: mount_table
  v_open :: open_file_table
  v_tmpfs :: tmpfs
  v_devfs :: devfs

definition vfs_new :: vfs where
  "vfs_new = \<lparr>v_inodes = inode_table_new, v_mounts = mount_table_new, v_open = open_files_new, v_tmpfs = tmpfs_new, v_devfs = devfs_new\<rparr>"

record stat_buf =
  sb_inode_id :: u32
  sb_inode_type :: u8
  sb_size :: u64
  sb_fs_id :: u16

section \<open>Paths\<close>

fun split_slash :: "bytes \<Rightarrow> bytes list" where
  "split_slash [] = [[]]"
| "split_slash (b # bs) =
     (if b = SLASH then [] # split_slash bs
      else (case split_slash bs of [] \<Rightarrow> [[b]] | c # cs \<Rightarrow> (b # c) # cs))"

fun walk :: "tmpfs \<Rightarrow> inode_id \<Rightarrow> bytes list \<Rightarrow> inode_id option" where
  "walk T current [] = Some current"
| "walk T current (c # cs) =
     (if c = [] then walk T current cs
      else (case tmpfs_lookup T current c of None \<Rightarrow> None | Some child \<Rightarrow> walk T child cs))"

definition or_not_found :: "'a option \<Rightarrow> vfs_error + 'a" where
  "or_not_found r = (case r of None \<Rightarrow> Inl VfsNotFound | Some x \<Rightarrow> Inr x)"

definition resolve_path :: "vfs \<Rightarrow> bytes \<Rightarrow> (vfs_error + inode_id) run" where
  "resolve_path V path =
     (if path = [] \<or> path ! 0 \<noteq> SLASH then Some (Inl VfsInvalidPath)
      else do {
        found \<leftarrow> mount_resolve (v_mounts V) path;
        (case found of
           None \<Rightarrow> Some (Inl VfsNotFound)
         | Some r \<Rightarrow>
             (case mount_get (v_mounts V) (rr_mount_index r) of
                None \<Rightarrow> Some (Inl VfsNotFound)
              | Some m \<Rightarrow>
                  if rr_remaining_len r = 0 then Some (Inr (me_root_inode m))
                  else do {
                    remaining \<leftarrow> slice_of (rr_remaining r) 0 (rr_remaining_len r);
                    Some (or_not_found (case me_fs_type m of
                        FsTmpfs \<Rightarrow> walk (v_tmpfs V) (me_root_inode m) (split_slash remaining)
                      | FsDevfs \<Rightarrow> devfs_lookup (v_devfs V) remaining))
                  }))
      })"

section \<open>Files\<close>

definition vfs_open :: "vfs \<Rightarrow> bytes \<Rightarrow> open_flags \<Rightarrow> ((vfs_error + open_file_id) \<times> vfs) run" where
  "vfs_open V path flags = do {
     found \<leftarrow> resolve_path V path;
     (case found of
        Inl err \<Rightarrow> Some (Inl err, V)
      | Inr i \<Rightarrow>
          if inode_get (v_inodes V) i = None then Some (Inl VfsNotFound, V)
          else (case open_file_alloc (v_open V) i flags of
              (Inl _, _) \<Rightarrow> Some (Inl VfsNoSpace, V)
            | (Inr f, t) \<Rightarrow> Some (Inr f, V\<lparr>v_open := t\<rparr>)))
   }"

definition advance :: "vfs \<Rightarrow> open_file_id \<Rightarrow> nat \<Rightarrow> vfs" where
  "advance V f n = V\<lparr>v_open := open_file_modify (v_open V) f (\<lambda>e. e\<lparr>of_offset := of_offset e + of_nat n\<rparr>)\<rparr>"

text \<open>Reading: the result, the buffer afterwards and the new state.\<close>

definition vfs_read :: "vfs \<Rightarrow> open_file_id \<Rightarrow> bytes \<Rightarrow> (vfs_error + nat) \<times> bytes \<times> vfs" where
  "vfs_read V f buf =
     (case open_file_get (v_open V) f of
        None \<Rightarrow> (Inl VfsBadFileDescriptor, buf, V)
      | Some e \<Rightarrow>
          (case inode_get (v_inodes V) (of_inode_id e) of
             None \<Rightarrow> (Inl VfsNotFound, buf, V)
           | Some ino \<Rightarrow>
               let (n, buf', V') =
                 (case ino_type ino of
                    CharDevice \<Rightarrow>
                      if df_fs_id (v_devfs V) = ino_fs_id ino
                      then let (n, b, D) = devfs_read (v_devfs V) (of_inode_id e) buf in (n, b, V\<lparr>v_devfs := D\<rparr>)
                      else (0, buf, V)
                  | _ \<Rightarrow> let (n, b) = tmpfs_read (v_tmpfs V) (of_inode_id e) (of_offset e) buf in (n, b, V))
               in (Inr n, buf', advance V' f n)))"

definition write_file :: "vfs \<Rightarrow> open_file \<Rightarrow> bytes \<Rightarrow> (nat \<times> vfs) run" where
  "write_file V e data = do {
     let i = of_inode_id e;
     let offset = (if flags_contain (of_flags e) OPEN_APPEND then file_size (v_tmpfs V) i else of_offset e);
     (n, T) \<leftarrow> tmpfs_write (v_tmpfs V) i offset data;
     Some (n, V\<lparr>v_tmpfs := T, v_inodes := inode_modify (v_inodes V) i (\<lambda>ino. ino\<lparr>ino_size := file_size T i\<rparr>)\<rparr>)
   }"

definition vfs_write :: "vfs \<Rightarrow> open_file_id \<Rightarrow> bytes \<Rightarrow> ((vfs_error + nat) \<times> vfs) run" where
  "vfs_write V f data =
     (case open_file_get (v_open V) f of
        None \<Rightarrow> Some (Inl VfsBadFileDescriptor, V)
      | Some e \<Rightarrow>
          (case inode_get (v_inodes V) (of_inode_id e) of
             None \<Rightarrow> Some (Inl VfsNotFound, V)
           | Some ino \<Rightarrow>
               (case ino_type ino of
                  File \<Rightarrow> do { (n, V') \<leftarrow> write_file V e data; Some (Inr n, advance V' f n) }
                | CharDevice \<Rightarrow>
                    let n = (if df_fs_id (v_devfs V) = ino_fs_id ino then devfs_write (v_devfs V) (of_inode_id e) (length data) else 0)
                    in Some (Inr n, advance V f n)
                | Directory \<Rightarrow> Some (Inl VfsNotAFile, V))))"

definition vfs_close :: "vfs \<Rightarrow> open_file_id \<Rightarrow> (vfs_error + unit) \<times> vfs" where
  "vfs_close V f =
     (case open_file_release (v_open V) f of
        (Inl _, _) \<Rightarrow> (Inl VfsBadFileDescriptor, V)
      | (Inr _, t) \<Rightarrow> (Inr (), V\<lparr>v_open := t\<rparr>))"

definition vfs_stat_inode :: "vfs \<Rightarrow> inode_id \<Rightarrow> vfs_error + stat_buf" where
  "vfs_stat_inode V i =
     (case inode_get (v_inodes V) i of
        None \<Rightarrow> Inl VfsNotFound
      | Some ino \<Rightarrow> Inr \<lparr>sb_inode_id = ino_id ino, sb_inode_type = inode_type_u8 (ino_type ino), sb_size = ino_size ino, sb_fs_id = ino_fs_id ino\<rparr>)"

definition vfs_stat :: "vfs \<Rightarrow> bytes \<Rightarrow> (vfs_error + stat_buf) run" where
  "vfs_stat V path = do {
     found \<leftarrow> resolve_path V path;
     Some (case found of Inl err \<Rightarrow> Inl err | Inr i \<Rightarrow> vfs_stat_inode V i)
   }"

definition vfs_fstat :: "vfs \<Rightarrow> open_file_id \<Rightarrow> vfs_error + stat_buf" where
  "vfs_fstat V f =
     (case open_file_get (v_open V) f of None \<Rightarrow> Inl VfsBadFileDescriptor | Some e \<Rightarrow> vfs_stat_inode V (of_inode_id e))"

section \<open>Directories\<close>

definition DIRENT_SIZE :: nat where "DIRENT_SIZE = 64"

definition dirent_bytes :: "inode_id \<Rightarrow> bytes \<Rightarrow> u8 \<Rightarrow> bytes" where
  "dirent_bytes i name ty =
     le_bytes 4 i @ le_bytes 2 (of_nat (length name) :: u16) @ [ty, 0] @ take 56 name @ replicate (56 - length name) 0"

text \<open>The loop over the entries: what it writes and the index it stops at.\<close>

fun list_entries :: "(inode_id \<times> bytes \<times> u8) list \<Rightarrow> nat \<Rightarrow> nat \<Rightarrow> nat \<Rightarrow> bytes \<Rightarrow> bytes \<times> nat" where
  "list_entries [] offset len idx written = (written, idx)"
| "list_entries ((i, name, ty) # es) offset len idx written =
     (if idx < offset then list_entries es offset len (idx + 1) written
      else if length written + DIRENT_SIZE > len then (written, idx)
      else list_entries es offset len (idx + 1) (written @ dirent_bytes i name ty))"

definition dir_listing :: "vfs \<Rightarrow> inode_id \<Rightarrow> u16 \<Rightarrow> (inode_id \<times> bytes \<times> u8) list option" where
  "dir_listing V i fs_id =
     (case tmpfs_readdir (v_tmpfs V) i of
        Some es \<Rightarrow> Some (map (\<lambda>e. (de_inode_id e, de_name e,
            case inode_get (v_inodes V) (de_inode_id e) of None \<Rightarrow> 0 | Some ino \<Rightarrow> inode_type_u8 (ino_type ino))) es)
      | None \<Rightarrow>
          if df_fs_id (v_devfs V) = fs_id
          then Some [(df_null_inode (v_devfs V), NAME_NULL, inode_type_u8 CharDevice),
                     (df_zero_inode (v_devfs V), NAME_ZERO, inode_type_u8 CharDevice),
                     (df_random_inode (v_devfs V), NAME_RANDOM, inode_type_u8 CharDevice)]
          else None)"

definition vfs_readdir :: "vfs \<Rightarrow> open_file_id \<Rightarrow> bytes \<Rightarrow> (vfs_error + nat) \<times> bytes \<times> vfs" where
  "vfs_readdir V f buf =
     (case open_file_get (v_open V) f of
        None \<Rightarrow> (Inl VfsBadFileDescriptor, buf, V)
      | Some e \<Rightarrow>
          (case inode_get (v_inodes V) (of_inode_id e) of
             None \<Rightarrow> (Inl VfsNotFound, buf, V)
           | Some ino \<Rightarrow>
               if ino_type ino \<noteq> Directory then (Inl VfsNotADirectory, buf, V)
               else (case dir_listing V (of_inode_id e) (ino_fs_id ino) of
                   None \<Rightarrow> (Inl VfsNotFound, buf, V)
                 | Some es \<Rightarrow>
                     let (written, idx) = list_entries es (unat (of_offset e)) (length buf) 0 []
                     in (Inr (length written), written @ drop (length written) buf,
                         V\<lparr>v_open := open_file_modify (v_open V) f (\<lambda>e. e\<lparr>of_offset := of_nat idx\<rparr>)\<rparr>))))"

section \<open>Start\<close>

definition PATH_ROOT :: bytes where "PATH_ROOT = [SLASH]"
definition NAME_DEV :: bytes where "NAME_DEV = [0x64, 0x65, 0x76]"

definition mount_or_panic :: "mount_table \<Rightarrow> bytes \<Rightarrow> fs_type \<Rightarrow> inode_id \<Rightarrow> (u16 \<times> mount_table) run" where
  "mount_or_panic t path ty root = (case mount t path ty root of (Inl _, _) \<Rightarrow> None | (Inr fs, t') \<Rightarrow> Some (fs, t'))"

definition vfs_init :: "vfs \<Rightarrow> vfs run" where
  "vfs_init V = do {
     (root, inodes) \<leftarrow> alloc_or_panic (v_inodes V) Directory 0 0;
     (fs_id, mounts) \<leftarrow> mount_or_panic (v_mounts V) PATH_ROOT FsTmpfs root;
     let inodes = inode_modify inodes root (\<lambda>ino. ino\<lparr>ino_fs_id := fs_id\<rparr>);
     let T = tmpfs_init (v_tmpfs V) fs_id root;
     (dev, inodes) \<leftarrow> alloc_or_panic inodes Directory 0 0;
     let T = add_dir_entry T root NAME_DEV dev;
     (dev_fs, mounts) \<leftarrow> mount_or_panic mounts (SLASH # NAME_DEV) FsDevfs dev;
     (D, inodes) \<leftarrow> devfs_init (v_devfs V) dev_fs dev inodes;
     Some (V\<lparr>v_inodes := inodes, v_mounts := mounts, v_tmpfs := T, v_devfs := D\<rparr>)
   }"

definition DOT :: u8 where "DOT = 0x2E"

definition clean_path :: "bytes \<Rightarrow> bytes" where
  "clean_path path = (if take 2 path = [DOT, SLASH] then drop 2 path else path)"

definition load_entry :: "cpio_entry \<Rightarrow> vfs \<Rightarrow> vfs" where
  "load_entry e V =
     (let path = ce_name e
      in if path = [] \<or> path = [DOT] \<or> path = [DOT, SLASH] \<or> clean_path path = [] then V
         else if ce_is_directory e
         then (case inode_alloc (v_inodes V) Directory (tf_fs_id (v_tmpfs V)) 0 of
             (Inl _, _) \<Rightarrow> V
           | (Inr i, inodes) \<Rightarrow>
               V\<lparr>v_inodes := inodes,
                 v_tmpfs := add_dir_entry (register_dir (v_tmpfs V) i) (tf_root_inode (v_tmpfs V)) (clean_path path) i\<rparr>)
         else (case inode_alloc (v_inodes V) File (tf_fs_id (v_tmpfs V)) 0 of
             (Inl _, _) \<Rightarrow> V
           | (Inr i, inodes) \<Rightarrow>
               V\<lparr>v_inodes := inode_modify inodes i (\<lambda>ino. ino\<lparr>ino_size := of_nat (length (ce_data e))\<rparr>),
                 v_tmpfs := add_dir_entry (create_file_with_data (v_tmpfs V) i (ce_data e)) (tf_root_inode (v_tmpfs V)) (clean_path path) i\<rparr>))"

definition load_initramfs :: "vfs \<Rightarrow> bytes \<Rightarrow> vfs run" where
  "load_initramfs V archive = do {
     parsed \<leftarrow> parse_cpio archive;
     Some (case parsed of Inl _ \<Rightarrow> V | Inr entries \<Rightarrow> fold load_entry entries V)
   }"

end
