(* ===== verification/Fd_Calls.thy ===== *)
theory Fd_Calls
  imports Vfs_Ops Dispatch
begin

text \<open>
  File descriptors: the standard streams of a process (\<^verbatim>\<open>kernel/src/vfs/stdio.rs\<close>) and the system
  calls on files (\<^verbatim>\<open>x86/syscall.rs\<close>). A descriptor is a slot of the handle table of the current
  process, whose entry holds the identifier of an open file. User memory is a function from
  addresses to bytes; the serial port is the sequence of bytes sent to it.
\<close>

record io_state =
  io_sched :: scheduler
  io_table :: process_table
  io_vfs :: vfs
  io_serial :: bytes

section \<open>Standard streams\<close>

definition SERIAL_INODE_ID :: inode_id where "SERIAL_INODE_ID = 0xFFFFFFFE"

definition is_serial_inode :: "inode_id \<Rightarrow> bool" where
  "is_serial_inode i \<longleftrightarrow> i = SERIAL_INODE_ID"

definition open_or_panic :: "open_file_table \<Rightarrow> inode_id \<Rightarrow> open_flags \<Rightarrow> (open_file_id \<times> open_file_table) run" where
  "open_or_panic t i flags = (case open_file_alloc t i flags of (Inl _, _) \<Rightarrow> None | (Inr f, t') \<Rightarrow> Some (f, t'))"

definition setup_stdio :: "process_id \<Rightarrow> io_state \<Rightarrow> io_state run" where
  "setup_stdio pid st = do {
     let V = io_vfs st;
     (f0, t) \<leftarrow> open_or_panic (v_open V) (df_null_inode (v_devfs V)) OPEN_READ;
     (f1, t) \<leftarrow> open_or_panic t SERIAL_INODE_ID OPEN_WRITE;
     (f2, t) \<leftarrow> open_or_panic t SERIAL_INODE_ID OPEN_WRITE;
     Some (st\<lparr>io_vfs := V\<lparr>v_open := t\<rparr>,
       io_table := pt_modify pid (\<lambda>p. p\<lparr>pcb_handle_table :=
         snd (handle_alloc (snd (handle_alloc (snd (handle_alloc (pcb_handle_table p) (ucast f0))) (ucast f1))) (ucast f2))\<rparr>)
         (io_table st)\<rparr>)
   }"

section \<open>The helpers of the system calls\<close>

definition RAX_ERROR :: u64 where "RAX_ERROR = 0xFFFFFFFFFFFFFFFF"

definition resolve_fd :: "io_state \<Rightarrow> u64 \<Rightarrow> open_file_id option" where
  "resolve_fd st fd =
     (case sc_current (io_sched st) of
        None \<Rightarrow> None
      | Some pid \<Rightarrow>
          (case pt_get (io_table st) pid of
             None \<Rightarrow> None
           | Some p \<Rightarrow>
               (case handle_resolve (pcb_handle_table p) (handle_pack (ucast fd) 0) of
                  Inr cap_id \<Rightarrow> Some (ucast cap_id)
                | Inl _ \<Rightarrow> None)))"

text \<open>Without a current process the open file stays allocated.\<close>

definition syscall_open :: "io_state \<Rightarrow> bytes \<Rightarrow> u32 \<Rightarrow> (u64 \<times> io_state) run" where
  "syscall_open st path flags = do {
     (r, V) \<leftarrow> vfs_open (io_vfs st) path flags;
     let st' = st\<lparr>io_vfs := V\<rparr>;
     Some (case r of
         Inl _ \<Rightarrow> (RAX_ERROR, st')
       | Inr f \<Rightarrow>
           (case sc_current (io_sched st) of
              None \<Rightarrow> (RAX_ERROR, st')
            | Some pid \<Rightarrow>
                (case pt_get (io_table st) pid of
                   None \<Rightarrow> (RAX_ERROR, st')
                 | Some p \<Rightarrow>
                     (case handle_alloc (pcb_handle_table p) (ucast f) of
                        (Inr h, ht) \<Rightarrow>
                          (ucast (handle_slot h), st'\<lparr>io_table := pt_modify pid (\<lambda>p. p\<lparr>pcb_handle_table := ht\<rparr>) (io_table st)\<rparr>)
                      | (Inl _, _) \<Rightarrow> (RAX_ERROR, st\<lparr>io_vfs := snd (vfs_close V f)\<rparr>)))))
   }"

definition rax_of :: "vfs_error + nat \<Rightarrow> u64" where
  "rax_of r = (case r of Inr n \<Rightarrow> of_nat n | Inl _ \<Rightarrow> RAX_ERROR)"

definition syscall_read :: "io_state \<Rightarrow> u64 \<Rightarrow> bytes \<Rightarrow> u64 \<times> bytes \<times> io_state" where
  "syscall_read st fd buf =
     (case resolve_fd st fd of
        None \<Rightarrow> (RAX_ERROR, buf, st)
      | Some f \<Rightarrow> let (r, buf', V) = vfs_read (io_vfs st) f buf in (rax_of r, buf', st\<lparr>io_vfs := V\<rparr>))"

definition syscall_vfs_write :: "io_state \<Rightarrow> u64 \<Rightarrow> bytes \<Rightarrow> (u64 \<times> io_state) run" where
  "syscall_vfs_write st fd data =
     (case resolve_fd st fd of
        None \<Rightarrow> Some (RAX_ERROR, st)
      | Some f \<Rightarrow>
          if (case open_file_get (v_open (io_vfs st)) f of None \<Rightarrow> False | Some e \<Rightarrow> is_serial_inode (of_inode_id e))
          then Some (of_nat (length data), st\<lparr>io_serial := io_serial st @ data\<rparr>)
          else do { (r, V) \<leftarrow> vfs_write (io_vfs st) f data; Some (rax_of r, st\<lparr>io_vfs := V\<rparr>) })"

definition drop_handle :: "u64 \<Rightarrow> pcb \<Rightarrow> pcb" where
  "drop_handle fd p = p\<lparr>pcb_handle_table := snd (handle_release (pcb_handle_table p) (handle_pack (ucast fd) 0))\<rparr>"

definition syscall_close :: "io_state \<Rightarrow> u64 \<Rightarrow> u64 \<times> io_state" where
  "syscall_close st fd =
     (case resolve_fd st fd of
        None \<Rightarrow> (RAX_ERROR, st)
      | Some f \<Rightarrow>
          let t = (case sc_current (io_sched st) of None \<Rightarrow> io_table st | Some pid \<Rightarrow> pt_modify pid (drop_handle fd) (io_table st));
              (r, V) = vfs_close (io_vfs st) f
          in (case r of Inr _ \<Rightarrow> 0 | Inl _ \<Rightarrow> RAX_ERROR, st\<lparr>io_table := t, io_vfs := V\<rparr>))"

text \<open>The status calls: the value for the register, and what they store at the address given.\<close>

definition syscall_stat :: "io_state \<Rightarrow> bytes \<Rightarrow> (u64 \<times> stat_buf option) run" where
  "syscall_stat st path = do {
     r \<leftarrow> vfs_stat (io_vfs st) path;
     Some (case r of Inr sb \<Rightarrow> (0, Some sb) | Inl _ \<Rightarrow> (RAX_ERROR, None))
   }"

definition syscall_fstat :: "io_state \<Rightarrow> u64 \<Rightarrow> u64 \<times> stat_buf option" where
  "syscall_fstat st fd =
     (case resolve_fd st fd of
        None \<Rightarrow> (RAX_ERROR, None)
      | Some f \<Rightarrow> (case vfs_fstat (io_vfs st) f of Inr sb \<Rightarrow> (0, Some sb) | Inl _ \<Rightarrow> (RAX_ERROR, None)))"

definition syscall_getdents :: "io_state \<Rightarrow> u64 \<Rightarrow> bytes \<Rightarrow> u64 \<times> bytes \<times> io_state" where
  "syscall_getdents st fd buf =
     (case resolve_fd st fd of
        None \<Rightarrow> (RAX_ERROR, buf, st)
      | Some f \<Rightarrow> let (r, buf', V) = vfs_readdir (io_vfs st) f buf in (rax_of r, buf', st\<lparr>io_vfs := V\<rparr>))"

section \<open>The arms of the dispatcher\<close>

definition USER_LIMIT :: u64 where "USER_LIMIT = 0x0000800000000000"

type_synonym user_memory = "u64 \<Rightarrow> u8"

definition from_user :: "user_memory \<Rightarrow> u64 \<Rightarrow> u64 \<Rightarrow> bytes" where
  "from_user mem ptr len = map (\<lambda>i. mem (ptr + of_nat i)) [0..<unat len]"

definition to_user :: "user_memory \<Rightarrow> u64 \<Rightarrow> bytes \<Rightarrow> user_memory" where
  "to_user mem ptr bs = (\<lambda>a. if unat (a - ptr) < length bs then bs ! unat (a - ptr) else mem a)"

definition sys_write :: "user_memory \<Rightarrow> io_state \<Rightarrow> u64 \<Rightarrow> u64 \<Rightarrow> u64 \<Rightarrow> (u64 \<times> io_state) run" where
  "sys_write mem st fd buf_ptr len =
     (if buf_ptr \<ge> USER_LIMIT \<or> len \<ge> 4096 then Some (RAX_ERROR, st)
      else if fd = 1 \<or> fd = 2 then Some (len, st\<lparr>io_serial := io_serial st @ from_user mem buf_ptr len\<rparr>)
      else syscall_vfs_write st fd (from_user mem buf_ptr len))"

definition sys_getpid :: "io_state \<Rightarrow> u64" where
  "sys_getpid st = (case sc_current (io_sched st) of Some pid \<Rightarrow> ucast pid | None \<Rightarrow> 0)"

definition sys_open :: "user_memory \<Rightarrow> io_state \<Rightarrow> u64 \<Rightarrow> u64 \<Rightarrow> u64 \<Rightarrow> (u64 \<times> io_state) run" where
  "sys_open mem st path_ptr path_len flags =
     (if path_ptr \<ge> USER_LIMIT \<or> path_len > 256 then Some (RAX_ERROR, st)
      else syscall_open st (from_user mem path_ptr path_len) (ucast flags))"

definition sys_read :: "user_memory \<Rightarrow> io_state \<Rightarrow> u64 \<Rightarrow> u64 \<Rightarrow> u64 \<Rightarrow> u64 \<times> user_memory \<times> io_state" where
  "sys_read mem st fd buf_ptr len =
     (if buf_ptr \<ge> USER_LIMIT \<or> len \<ge> 4096 then (RAX_ERROR, mem, st)
      else let (r, buf, st') = syscall_read st fd (from_user mem buf_ptr len) in (r, to_user mem buf_ptr buf, st'))"

definition sys_stat :: "user_memory \<Rightarrow> io_state \<Rightarrow> u64 \<Rightarrow> u64 \<Rightarrow> u64 \<Rightarrow> (u64 \<times> stat_buf option) run" where
  "sys_stat mem st path_ptr path_len stat_buf =
     (if path_ptr \<ge> USER_LIMIT \<or> path_len > 256 \<or> stat_buf \<ge> USER_LIMIT then Some (RAX_ERROR, None)
      else syscall_stat st (from_user mem path_ptr path_len))"

definition sys_fstat :: "io_state \<Rightarrow> u64 \<Rightarrow> u64 \<Rightarrow> u64 \<times> stat_buf option" where
  "sys_fstat st fd stat_buf = (if stat_buf \<ge> USER_LIMIT then (RAX_ERROR, None) else syscall_fstat st fd)"

definition sys_getdents :: "user_memory \<Rightarrow> io_state \<Rightarrow> u64 \<Rightarrow> u64 \<Rightarrow> u64 \<Rightarrow> u64 \<times> user_memory \<times> io_state" where
  "sys_getdents mem st fd buf_ptr len =
     (if buf_ptr \<ge> USER_LIMIT \<or> len \<ge> 65536 then (RAX_ERROR, mem, st)
      else let (r, buf, st') = syscall_getdents st fd (from_user mem buf_ptr len) in (r, to_user mem buf_ptr buf, st'))"

end
