(* ===== verification/Vfs_Sound.thy ===== *)
theory Vfs_Sound
  imports Vfs_Ops
begin

text \<open>
  Files are byte arrays: what reads and writes through open files do to the contents of files, and
  the laws of the inode and open file tables they rest on.
\<close>

section \<open>Tables\<close>

lemma find_slot_same:
  assumes "p y = p (xs ! k)"
  shows "find_slot p (xs[k := y]) = find_slot p xs"
  using assms
proof (induction xs arbitrary: k)
  case (Cons x xs)
  then show ?case by (cases k) simp_all
qed simp

lemma inode_slotD:
  assumes "inode_slot t i = Some k"
  shows "k < length (it_entries t)" and "ino_active (it_entries t ! k)" and "ino_id (it_entries t ! k) = i"
  using find_slot_SomeD [OF assms [unfolded inode_slot_def]] by simp_all

lemma inode_get_modify:
  assumes "\<And>e. ino_active (g e) = ino_active e \<and> ino_id (g e) = ino_id e"
  shows "inode_get (inode_modify t i g) j = (if j = i then map_option g (inode_get t j) else inode_get t j)"
proof (cases "inode_slot t i")
  case None
  then show ?thesis by (simp add: inode_modify_def inode_get_def)
next
  case (Some k)
  note k = inode_slotD [OF Some]
  have same: "inode_slot (inode_modify t i g) h = inode_slot t h" for h
    using Some assms by (simp add: inode_slot_def inode_modify_def find_slot_same)
  show ?thesis
  proof (cases "inode_slot t j")
    case None
    then show ?thesis using same by (auto simp: inode_get_def)
  next
    case (Some k')
    note k' = inode_slotD [OF Some]
    show ?thesis
    proof (cases "j = i")
      case True
      then show ?thesis using Some same \<open>inode_slot t i = Some k\<close> k(1) by (simp add: inode_get_def inode_modify_def)
    next
      case False
      then have "k \<noteq> k'" using k(3) k'(3) by auto
      then show ?thesis using False Some same \<open>inode_slot t i = Some k\<close> by (simp add: inode_get_def inode_modify_def)
    qed
  qed
qed

definition files_ok :: "open_file_table \<Rightarrow> bool" where
  "files_ok t \<longleftrightarrow> length (oft_entries t) = MAX_OPEN_FILES"

lemma files_ok_new [simp]: "files_ok open_files_new"
  by (simp add: files_ok_def open_files_new_def)

lemma files_ok_modify [simp]: "files_ok (open_file_modify t f g) = files_ok t"
  by (simp add: files_ok_def open_file_modify_def split: option.split)

lemma open_file_get_modify:
  assumes "files_ok t" and "\<And>e. of_active (g e) = of_active e"
  shows "open_file_get (open_file_modify t f g) h = (if h = f then map_option g (open_file_get t h) else open_file_get t h)"
  using assms by (auto simp: open_file_get_def open_file_modify_def files_ok_def nth_list_update word_unat_eq_iff)

lemma open_file_alloc_law:
  assumes "files_ok t" and "open_file_alloc t i flags = (Inr f, t')"
  shows "files_ok t'" and "open_file_get t f = None"
    and "open_file_get t' f = Some \<lparr>of_inode_id = i, of_offset = 0, of_flags = flags, of_ref_count = 1, of_active = True\<rparr>"
    and "\<And>h. h \<noteq> f \<Longrightarrow> open_file_get t' h = open_file_get t h"
proof -
  obtain k where k: "find_slot (\<lambda>e. \<not> of_active e) (tl (oft_entries t)) = Some k"
    and f: "f = of_nat (k + 1)"
    and t': "t' = t\<lparr>oft_entries := (oft_entries t)[k + 1 := \<lparr>of_inode_id = i, of_offset = 0, of_flags = flags, of_ref_count = 1, of_active = True\<rparr>],
             oft_count := oft_count t + 1\<rparr>"
    using assms(2) by (auto simp: open_file_alloc_def split: option.splits)
  have len: "k + 1 < MAX_OPEN_FILES" "\<not> of_active (oft_entries t ! (k + 1))"
    using find_slot_SomeD [OF k] assms(1) by (auto simp: files_ok_def nth_tl)
  then have unat_f: "unat f = k + 1" unfolding f by (simp only: unsigned_of_nat) (simp add: MAX_OPEN_FILES_def take_bit_nat_eq_self)
  show "files_ok t'" using assms(1) by (simp add: t' files_ok_def)
  show "open_file_get t f = None" using len by (simp add: open_file_get_def unat_f)
  show "open_file_get t' f = Some \<lparr>of_inode_id = i, of_offset = 0, of_flags = flags, of_ref_count = 1, of_active = True\<rparr>"
    using len assms(1) unat_f by (simp add: open_file_get_def t' files_ok_def)
  show "open_file_get t' h = open_file_get t h" if h: "h \<noteq> f" for h
  proof -
    have "unat h \<noteq> k + 1" using h unat_f by (metis word_unat_eq_iff)
    then show ?thesis by (simp add: open_file_get_def t')
  qed
qed

section \<open>Contents\<close>

definition contents :: "vfs \<Rightarrow> inode_id \<Rightarrow> bytes" where
  "contents V i = (case fmlookup (tf_files (v_tmpfs V)) i of None \<Rightarrow> [] | Some d \<Rightarrow> d)"

text \<open>Writing into an array that grows as needed, with zeros in a gap.\<close>

definition overwrite :: "bytes \<Rightarrow> nat \<Rightarrow> bytes \<Rightarrow> bytes" where
  "overwrite xs at ys = take at (xs @ replicate (at - length xs) 0) @ ys @ drop (at + length ys) xs"

lemma nth_overwrite:
  "k < length (overwrite xs at ys) \<Longrightarrow> overwrite xs at ys ! k =
     (if at \<le> k \<and> k < at + length ys then ys ! (k - at) else if k < length xs then xs ! k else 0)"
  by (cases "at \<le> length xs") (auto simp: overwrite_def nth_append)

lemma length_overwrite: "length (overwrite xs at ys) = max (length xs) (at + length ys)"
  by (simp add: overwrite_def)

lemma tmpfs_write_overwrites:
  assumes "unat offset + length data < 2 ^ 64"
  shows "tmpfs_write T i offset data =
     Some (length data, T\<lparr>tf_files := fmupd i (overwrite (case fmlookup (tf_files T) i of None \<Rightarrow> [] | Some d \<Rightarrow> d) (unat offset) data) (tf_files T)\<rparr>)"
proof -
  define old where "old = (case fmlookup (tf_files T) i of None \<Rightarrow> [] | Some d \<Rightarrow> d)"
  have "unat (of_nat (length data) :: u64) = length data"
    using assms by (simp add: unsigned_of_nat take_bit_nat_eq_self)
  then have hi: "unat (offset + of_nat (length data)) = unat offset + length data"
    using assms unat_add_lem [of offset "of_nat (length data)"] by simp
  show ?thesis
    unfolding tmpfs_write_def Let_def hi old_def [symmetric]
    by (auto simp: copy_slice_def resize_def overwrite_def)
qed

section \<open>Open files as positions in byte arrays\<close>

text \<open>What a state is to its users: the contents of the files, the inodes, and the open files with their positions.\<close>

record file_view =
  fv_contents :: "inode_id \<Rightarrow> bytes"
  fv_inodes :: "inode_id \<rightharpoonup> inode"
  fv_open :: "open_file_id \<rightharpoonup> open_file"

definition view :: "vfs \<Rightarrow> file_view" where
  "view V = \<lparr>fv_contents = contents V, fv_inodes = inode_get (v_inodes V), fv_open = open_file_get (v_open V)\<rparr>"

definition moved :: "open_file \<Rightarrow> nat \<Rightarrow> open_file" where
  "moved e n = e\<lparr>of_offset := of_offset e + of_nat n\<rparr>"

text \<open>The abstract write at the position of an open file, or at the end when it appends.\<close>

definition write_position :: "file_view \<Rightarrow> open_file \<Rightarrow> nat" where
  "write_position A e =
     (if flags_contain (of_flags e) OPEN_APPEND then length (fv_contents A (of_inode_id e)) else unat (of_offset e))"

definition spec_write :: "file_view \<Rightarrow> open_file_id \<Rightarrow> open_file \<Rightarrow> inode \<Rightarrow> bytes \<Rightarrow> file_view" where
  "spec_write A f e ino data =
     (let new = overwrite (fv_contents A (of_inode_id e)) (write_position A e) data
      in A\<lparr>fv_contents := (fv_contents A)(of_inode_id e := new),
           fv_inodes := (fv_inodes A)(of_inode_id e \<mapsto> ino\<lparr>ino_size := of_nat (length new)\<rparr>),
           fv_open := (fv_open A)(f \<mapsto> moved e (length data))\<rparr>)"

definition spec_read :: "file_view \<Rightarrow> open_file_id \<Rightarrow> open_file \<Rightarrow> nat \<Rightarrow> bytes \<times> file_view" where
  "spec_read A f e n =
     (let got = take n (drop (unat (of_offset e)) (fv_contents A (of_inode_id e)))
      in (got, A\<lparr>fv_open := (fv_open A)(f \<mapsto> moved e (length got))\<rparr>))"

lemma view_advance:
  assumes "files_ok (v_open V)" and "open_file_get (v_open V) f = Some e"
  shows "view (advance V f n) = (view V)\<lparr>fv_open := (open_file_get (v_open V))(f \<mapsto> moved e n)\<rparr>"
  using assms by (auto simp: view_def advance_def contents_def fun_eq_iff open_file_get_modify moved_def)

lemma view_write_file:
  assumes "open_file_get (v_open V) f = Some e" and "inode_get (v_inodes V) (of_inode_id e) = Some ino"
    and "write_position (view V) e + length data < 2 ^ 64"
  obtains V' where "write_file V e data = Some (length data, V')" and "v_open V' = v_open V"
    and "contents V' = (contents V)(of_inode_id e := overwrite (contents V (of_inode_id e)) (write_position (view V) e) data)"
    and "inode_get (v_inodes V') = (inode_get (v_inodes V))(of_inode_id e \<mapsto>
      ino\<lparr>ino_size := of_nat (length (overwrite (contents V (of_inode_id e)) (write_position (view V) e) data))\<rparr>)"
proof -
  define i where "i = of_inode_id e"
  define at where "at = (if flags_contain (of_flags e) OPEN_APPEND then file_size (v_tmpfs V) i else of_offset e)"
  define new where "new = overwrite (contents V i) (write_position (view V) e) data"
  define T where "T = (v_tmpfs V)\<lparr>tf_files := fmupd i new (tf_files (v_tmpfs V))\<rparr>"
  define V' where "V' = V\<lparr>v_tmpfs := T, v_inodes := inode_modify (v_inodes V) i (\<lambda>ino. ino\<lparr>ino_size := file_size T i\<rparr>)\<rparr>"
  have "unat at = write_position (view V) e"
    using assms(3)
    by (auto simp: at_def i_def write_position_def view_def file_size_def contents_def unsigned_of_nat take_bit_nat_eq_self split: option.splits if_splits)
  then have "tmpfs_write (v_tmpfs V) i at data = Some (length data, T)"
    using assms(3) tmpfs_write_overwrites [of at data "v_tmpfs V" i] by (simp add: T_def new_def contents_def)
  then have "write_file V e data = Some (length data, V')"
    by (simp add: write_file_def Let_def i_def [symmetric] at_def [symmetric] V'_def)
  moreover have "v_open V' = v_open V" by (simp add: V'_def)
  moreover have "contents V' = (contents V)(i := new)" by (auto simp: V'_def T_def contents_def)
  moreover have "inode_get (v_inodes V') = (inode_get (v_inodes V))(i \<mapsto> ino\<lparr>ino_size := of_nat (length new)\<rparr>)"
    using assms(2) by (auto simp: V'_def fun_eq_iff inode_get_modify i_def [symmetric]) (simp_all add: T_def file_size_def)
  ultimately show thesis using that by (simp add: i_def new_def)
qed

text \<open>C34. A write through an open file refines the abstract write: the file is a byte array that grows as needed,
  zeros fill a gap, the size in the inode is the length of the array, the position moves by what was
  written, and no other file and no other open file changes.\<close>

theorem vfs_write_refines:
  assumes "files_ok (v_open V)" and "open_file_get (v_open V) f = Some e"
    and "inode_get (v_inodes V) (of_inode_id e) = Some ino" and "ino_type ino = File"
    and "write_position (view V) e + length data < 2 ^ 64"
  shows "\<exists>V'. vfs_write V f data = Some (Inr (length data), V') \<and> files_ok (v_open V') \<and>
     view V' = spec_write (view V) f e ino data"
proof -
  obtain V' where V': "write_file V e data = Some (length data, V')" "v_open V' = v_open V"
    "contents V' = (contents V)(of_inode_id e := overwrite (contents V (of_inode_id e)) (write_position (view V) e) data)"
    "inode_get (v_inodes V') = (inode_get (v_inodes V))(of_inode_id e \<mapsto>
      ino\<lparr>ino_size := of_nat (length (overwrite (contents V (of_inode_id e)) (write_position (view V) e) data))\<rparr>)"
    using view_write_file [OF assms(2,3,5)] by blast
  have "vfs_write V f data = Some (Inr (length data), advance V' f (length data))"
    using assms(2-4) V'(1) by (simp add: vfs_write_def)
  moreover have "view (advance V' f (length data)) = spec_write (view V) f e ino data"
    using view_advance [of V' f e "length data"] assms(1,2) V'(2-4) by (simp add: spec_write_def Let_def view_def)
  moreover have "files_ok (v_open (advance V' f (length data)))" using assms(1) V'(2) by (simp add: advance_def)
  ultimately show ?thesis by blast
qed

text \<open>C35. A read through an open file refines the abstract read: it returns the bytes of the file from the position on,
  as many as the buffer holds and the file has, leaves the rest of the buffer, moves the position by what
  it returned and changes nothing else.\<close>

theorem vfs_read_refines:
  assumes "files_ok (v_open V)" and "open_file_get (v_open V) f = Some e"
    and "inode_get (v_inodes V) (of_inode_id e) = Some ino" and "ino_type ino = File"
  shows "\<exists>V' got. vfs_read V f buf = (Inr (length got), got @ drop (length got) buf, V') \<and> files_ok (v_open V') \<and>
     (got, view V') = spec_read (view V) f e (length buf)"
proof -
  define got where "got = take (length buf) (drop (unat (of_offset e)) (contents V (of_inode_id e)))"
  have "tmpfs_read (v_tmpfs V) (of_inode_id e) (of_offset e) buf = (length got, got @ drop (length got) buf)"
    by (simp add: tmpfs_read_def got_def contents_def Let_def min_def split: option.split)
  then have "vfs_read V f buf = (Inr (length got), got @ drop (length got) buf, advance V f (length got))"
    using assms(2-4) by (simp add: vfs_read_def)
  moreover have "(got, view (advance V f (length got))) = spec_read (view V) f e (length buf)"
    using view_advance [OF assms(1,2)] by (simp add: spec_read_def got_def view_def Let_def)
  moreover have "files_ok (v_open (advance V f (length got)))" using assms(1) by (simp add: advance_def)
  ultimately show ?thesis by blast
qed

text \<open>A file with three bytes, open at position 2.\<close>

definition demo_open_file :: open_file where
  "demo_open_file = \<lparr>of_inode_id = 7, of_offset = 2, of_flags = OPEN_WRITE, of_ref_count = 1, of_active = True\<rparr>"

definition demo_inode :: inode where
  "demo_inode = inode_empty\<lparr>ino_id := 7, ino_size := 3, ino_active := True\<rparr>"

definition demo_vfs :: vfs where
  "demo_vfs = vfs_new\<lparr>v_inodes := inode_table_new\<lparr>it_entries := [demo_inode]\<rparr>,
     v_open := open_files_new\<lparr>oft_entries := (replicate MAX_OPEN_FILES open_file_empty)[1 := demo_open_file]\<rparr>,
     v_tmpfs := tmpfs_new\<lparr>tf_files := fmupd 7 [10, 20, 30] fmempty\<rparr>\<rparr>"

lemma demo_vfs_facts:
  "files_ok (v_open demo_vfs)" "open_file_get (v_open demo_vfs) 1 = Some demo_open_file"
  "inode_get (v_inodes demo_vfs) (of_inode_id demo_open_file) = Some demo_inode" "ino_type demo_inode = File"
  "contents demo_vfs 7 = [10, 20, 30]" "write_position (view demo_vfs) demo_open_file = 2"
  by (simp_all add: demo_vfs_def demo_open_file_def demo_inode_def files_ok_def open_file_get_def inode_get_def inode_slot_def
      inode_empty_def contents_def write_position_def view_def flags_contain_def OPEN_WRITE_def OPEN_APPEND_def MAX_OPEN_FILES_def)

theorem vfs_write_refines_witness:
  "\<exists>V'. vfs_write demo_vfs 1 [1, 2, 3] = Some (Inr 3, V') \<and> contents V' 7 = [10, 20, 1, 2, 3]"
proof -
  obtain V' where "vfs_write demo_vfs 1 [1, 2, 3] = Some (Inr (length [1, 2, 3 :: u8]), V')"
    and V': "view V' = spec_write (view demo_vfs) 1 demo_open_file demo_inode [1, 2, 3]"
    using vfs_write_refines [OF demo_vfs_facts(1-4), of "[1, 2, 3]"] demo_vfs_facts(6) by auto
  moreover have "contents V' 7 = fv_contents (view V') 7" by (simp add: view_def)
  then have "contents V' 7 = [10, 20, 1, 2, 3]"
    unfolding V' using demo_vfs_facts(5,6) by (simp add: spec_write_def Let_def overwrite_def demo_open_file_def) (simp add: view_def overwrite_def)
  ultimately show ?thesis by auto
qed

theorem vfs_read_refines_witness:
  "\<exists>V'. vfs_read demo_vfs 1 [0, 0, 0] = (Inr 1, [30, 0, 0], V')"
proof -
  obtain V' got where r: "vfs_read demo_vfs 1 [0, 0, 0] = (Inr (length got), got @ drop (length got) [0, 0, 0], V')"
    and got: "(got, view V') = spec_read (view demo_vfs) 1 demo_open_file (length [0, 0, 0 :: u8])"
    using vfs_read_refines [OF demo_vfs_facts(1-4), of "[0, 0, 0]"] by blast
  have "contents demo_vfs (of_inode_id demo_open_file) = [10, 20, 30]" "unat (of_offset demo_open_file) = 2"
    using demo_vfs_facts(5) by (simp_all add: demo_open_file_def)
  then have "got = [30]" using got by (simp add: spec_read_def Let_def view_def)
  then show ?thesis using r by simp
qed

end
