(* ===== verification/Cpio_Sound.thy ===== *)
theory Cpio_Sound
  imports Cpio
begin

text \<open>
  The archive parser never panics and always ends; what \<open>build_test_cpio\<close> writes it reads back.
\<close>

section \<open>No archive makes the parser panic\<close>

lemma header_field_total: "lo + 8 \<le> hi \<Longrightarrow> hi \<le> length archive \<Longrightarrow> \<exists>r. header_field archive lo hi = Some r"
  by (auto simp: header_field_def parse_hex8_def)

lemma entry_name_total:
  assumes "s \<le> e" and "e \<le> length archive"
  shows "\<exists>name. entry_name archive s e = Some name"
proof (cases "s < e")
  case True
  then have "e - 1 < length archive" and "s \<le> e - 1" using assms(2) by simp_all
  then show ?thesis using assms by (simp add: entry_name_def)
next
  case False
  then show ?thesis using assms by (simp add: entry_name_def)
qed

lemma entry_body_total: "\<exists>r. entry_body archive pos mode filesize namesize = Some r"
proof (cases "pos + 110 + namesize \<le> length archive")
  case True
  then obtain name where "entry_name archive (pos + 110) (pos + 110 + namesize) = Some name"
    using entry_name_total [of "pos + 110" "pos + 110 + namesize" archive] by auto
  then show ?thesis using True by (simp add: entry_body_def Let_def)
next
  case False
  then show ?thesis by (simp add: entry_body_def)
qed

lemma cpio_pass_total:
  assumes "pos + 110 \<le> length archive"
  shows "\<exists>r. cpio_pass_at archive pos = Some r"
proof -
  obtain m f n where "header_field archive (pos + 14) (pos + 22) = Some m"
    and "header_field archive (pos + 54) (pos + 62) = Some f"
    and "header_field archive (pos + 94) (pos + 102) = Some n"
    using header_field_total [of "pos + 14" "pos + 22" archive] header_field_total [of "pos + 54" "pos + 62" archive]
      header_field_total [of "pos + 94" "pos + 102" archive] assms by auto
  then show ?thesis using assms by (simp add: cpio_pass_at_def entry_body_total split: sum.split)
qed

lemma cpio_loop_total: "\<exists>r. cpio_loop archive pos entries = Some r"
proof (induction archive pos entries rule: cpio_loop.induct)
  case (1 archive pos entries)
  show ?case
  proof (cases "pos + 110 > length archive")
    case False
    then obtain r where r: "cpio_pass_at archive pos = Some r" using cpio_pass_total [of pos archive] by auto
    show ?thesis
      using False r 1 [OF False r] by (subst cpio_loop.simps) (cases r; simp)
  qed (simp add: cpio_loop.simps)
qed

section \<open>Numbers in hexadecimal\<close>

lemma hex_digit_char: "d < 16 \<Longrightarrow> hex_digit (hex_char d) = Some (of_nat d)"
proof -
  have "list_all (\<lambda>d. hex_digit (hex_char d) = Some (of_nat d)) [0..<16]" by code_simp
  then show "d < 16 \<Longrightarrow> hex_digit (hex_char d) = Some (of_nat d)" by (simp add: list_all_iff)
qed

lemma nibble_bits: "d < 16 \<Longrightarrow> bit (d :: nat) k \<Longrightarrow> k < 4"
proof (rule ccontr)
  assume d: "d < 16" "bit d k" "\<not> k < 4"
  have "(2 :: nat) ^ 4 \<le> 2 ^ k" by (rule power_increasing) (use d(3) in simp_all)
  then have "d div 2 ^ k = 0" using d(1) by simp
  then show False using d(2) by (simp add: bit_iff_odd)
qed

lemma shift_or_nibble:
  assumes "d < 16"
  shows "push_bit 4 (of_nat n :: u32) OR ucast (of_nat d :: u8) = of_nat (16 * n + d)"
proof -
  have d: "ucast (of_nat d :: u8) = (of_nat d :: u32)"
    using assms by (simp add: unsigned_of_nat take_bit_nat_eq_self)
  have "push_bit 4 (of_nat n :: u32) AND of_nat d = 0"
    by (rule bit_eqI) (auto simp: bit_and_iff bit_push_bit_iff bit_of_nat_iff dest: nibble_bits [OF assms])
  then have "push_bit 4 (of_nat n :: u32) OR of_nat d = push_bit 4 (of_nat n) + of_nat d"
    by (rule disjunctive_add_eq_or [symmetric])
  then show ?thesis by (simp add: d push_bit_eq_mult)
qed

lemma hex_value_append: "hex_value v (xs @ ys) = (case hex_value v xs of Inl err \<Rightarrow> Inl err | Inr w \<Rightarrow> hex_value w ys)"
  by (induction xs arbitrary: v) (auto split: option.split)

lemma hex_value_digits: "n < 2 ^ 32 \<Longrightarrow> hex_value 0 (hex_digits n) = Inr (of_nat n)"
proof (induction n rule: hex_digits.induct)
  case (1 n)
  show ?case
  proof (cases "n < 16")
    case True
    then show ?thesis using shift_or_nibble [of n 0] by (simp add: hex_digits.simps hex_digit_char)
  next
    case False
    have "16 * (n div 16) + n mod 16 = n" by simp
    then have "push_bit 4 (of_nat (n div 16) :: u32) OR ucast (of_nat (n mod 16) :: u8) = of_nat n"
      using shift_or_nibble [of "n mod 16" "n div 16"] 1(2) by simp
    moreover have "n div 16 < 2 ^ 32" using 1(2) by linarith
    ultimately show ?thesis using False 1(1) by (simp add: hex_digits.simps [of n] hex_value_append hex_digit_char)
  qed
qed

lemma length_hex_digits: "n < 16 ^ Suc k \<Longrightarrow> length (hex_digits n) \<le> Suc k"
proof (induction k arbitrary: n)
  case 0
  then show ?case by (simp add: hex_digits.simps)
next
  case (Suc k)
  have "n div 16 < 16 ^ Suc k" using Suc(2) by (simp add: less_mult_imp_div_less mult.commute)
  then show ?case using Suc(1) [of "n div 16"] by (subst hex_digits.simps) simp
qed

lemma length_format_hex8: "n < 2 ^ 32 \<Longrightarrow> length (format_hex8 n) = 8"
  using length_hex_digits [of n 7] by (simp add: format_hex8_def)

lemma hex_value_zeros: "hex_value 0 (replicate k 0x30 @ xs) = hex_value 0 xs"
  by (induction k) (simp_all add: hex_digit_def)

lemma parse_format_hex8: "n < 2 ^ 32 \<Longrightarrow> parse_hex8 (format_hex8 n) = Some (Inr (of_nat n))"
  using length_format_hex8 [of n] by (simp add: parse_hex8_def) (simp add: format_hex8_def hex_value_zeros hex_value_digits)

section \<open>What is built is read back\<close>

lemma slice_of_append:
  "lo \<le> hi \<Longrightarrow> hi \<le> length h \<Longrightarrow> slice_of (pre @ h @ rest) (length pre + lo) (length pre + hi) = slice_of h lo hi"
  by (simp add: take_append)

lemma take_drop_concat:
  assumes "\<forall>n \<in> set ns. length (f n) = k" and "i < length ns"
  shows "take k (drop (k * i) (concat (map f ns))) = f (ns ! i)"
  using assms
proof (induction ns arbitrary: i)
  case (Cons n ns)
  then show ?case by (cases i) simp_all
qed simp

lemma length_concat_fixed: "\<forall>n \<in> set ns. length (f n) = k \<Longrightarrow> length (concat (map f ns)) = k * length ns"
  by (induction ns) simp_all

lemma header_parts:
  assumes "nlink < 2 ^ 32" and "filesize < 2 ^ 32" and "namesize < 2 ^ 32"
  shows "\<forall>n \<in> set [unat (ino :: u32), unat (mode :: u32), 0, 0, nlink, 0, filesize, 0, 0, 0, 0, namesize, 0]. length (format_hex8 n) = 8"
proof -
  have "unat ino < 2 ^ 32" and "unat mode < 2 ^ 32" using unsigned_less [of ino] unsigned_less [of mode] by simp_all
  then show ?thesis using assms by (simp add: length_format_hex8)
qed

lemma length_cpio_header:
  assumes "nlink < 2 ^ 32" and "filesize < 2 ^ 32" and "namesize < 2 ^ 32"
  shows "length (cpio_header ino mode nlink filesize namesize) = 110"
  using length_concat_fixed [OF header_parts [OF assms, of ino mode]] by (simp add: cpio_header_def CPIO_MAGIC_def)

text \<open>The \<open>i\<close>-th field of a header, wherever the header stands.\<close>

lemma header_field_at:
  assumes sizes: "nlink < 2 ^ 32" "filesize < 2 ^ 32" "namesize < 2 ^ 32"
    and archive: "archive = pre @ cpio_header ino mode nlink filesize namesize @ rest"
    and i: "i < 13" "n = [unat ino, unat mode, 0, 0, nlink, 0, filesize, 0, 0, 0, 0, namesize, 0] ! i" "n < 2 ^ 32"
  shows "header_field archive (length pre + (6 + 8 * i)) (length pre + (6 + 8 * i + 8)) = Some (Inr (of_nat n))"
proof -
  have len: "length (cpio_header ino mode nlink filesize namesize) = 110" by (rule length_cpio_header [OF sizes])
  have magic_len: "length CPIO_MAGIC = 6" by (simp add: CPIO_MAGIC_def)
  define ns where "ns = [unat ino, unat mode, 0, 0, nlink, 0, filesize, 0, 0, 0, 0, namesize, 0]"
  have "\<forall>n \<in> set ns. length (format_hex8 n) = 8" unfolding ns_def by (rule header_parts [OF sizes])
  moreover have "i < length ns" using i(1) by (simp add: ns_def)
  ultimately have "take 8 (drop (8 * i) (concat (map format_hex8 ns))) = format_hex8 n"
    using take_drop_concat [of ns format_hex8 8 i] i(2) by (simp only: ns_def)
  moreover have "cpio_header ino mode nlink filesize namesize = CPIO_MAGIC @ concat (map format_hex8 ns)"
    by (simp only: cpio_header_def ns_def)
  ultimately have "take 8 (drop (6 + 8 * i) (cpio_header ino mode nlink filesize namesize)) = format_hex8 n"
    by (simp add: magic_len)
  then have "slice_of archive (length pre + (6 + 8 * i)) (length pre + (6 + 8 * i + 8)) = Some (format_hex8 n)"
    unfolding archive using i(1) len by (subst slice_of_append) simp_all
  then show ?thesis using i(3) by (simp add: header_field_def parse_format_hex8)
qed

lemma magic_at:
  assumes "archive = pre @ cpio_header ino mode nlink filesize namesize @ rest"
  shows "slice_of archive (length pre) (length pre + 6) = Some CPIO_MAGIC"
  using slice_of_append [of 0 6 "cpio_header ino mode nlink filesize namesize" pre rest] assms
  by (simp add: cpio_header_def CPIO_MAGIC_def)

lemma pass_at_header:
  assumes "nlink < 2 ^ 32" and "filesize < 2 ^ 32" and "namesize < 2 ^ 32"
    and "archive = pre @ cpio_header ino mode nlink filesize namesize @ rest"
  shows "cpio_pass_at archive (length pre) = entry_body archive (length pre) mode filesize namesize"
proof -
  have "unat mode < 2 ^ 32" using unsigned_less [of mode] by simp
  then have "header_field archive (length pre + 14) (length pre + 22) = Some (Inr mode)"
    using header_field_at [OF assms, of 1 "unat mode"] by simp
  moreover have "header_field archive (length pre + 54) (length pre + 62) = Some (Inr (of_nat filesize))"
    using header_field_at [OF assms, of 6 filesize] assms(2) by simp
  moreover have "header_field archive (length pre + 94) (length pre + 102) = Some (Inr (of_nat namesize))"
    using header_field_at [OF assms, of 11 namesize] assms(3) by simp
  ultimately show ?thesis
    using magic_at [OF assms(4)] assms(2,3) by (simp add: cpio_pass_at_def unsigned_of_nat take_bit_nat_eq_self)
qed

lemma align4_add: "4 dvd a \<Longrightarrow> align4 (a + n) = a + align4 n"
proof -
  assume "4 dvd a"
  then obtain k where "a = k * 4" by (metis dvdE mult.commute)
  then have "a + n + 3 = n + 3 + k * 4" by simp
  then show ?thesis by (simp only: align4_def div_mult_self1) (simp add: \<open>a = k * 4\<close>)
qed

lemma align4_dvd [simp]: "4 dvd align4 n"
  by (simp add: align4_def)

lemma align4_align4 [simp]: "align4 (align4 n) = align4 n"
  unfolding align4_def by simp

lemma length_pad4 [simp]: "length (pad4 xs) = align4 (length xs)"
  using align4_ge [of "length xs"] by (simp add: pad4_def)

lemma pad4_append: "4 dvd length xs \<Longrightarrow> pad4 (xs @ ys) = xs @ pad4 ys"
  by (simp add: pad4_def align4_add)

lemma take_pad4 [simp]: "take (length xs) (pad4 xs) = xs"
  by (simp add: pad4_def)

definition entry_of :: "bytes \<times> bytes \<times> bool \<Rightarrow> cpio_entry" where
  "entry_of e = (case e of (name, data, is_dir) \<Rightarrow>
     \<lparr>ce_name = name, ce_data = (if is_dir then [] else data), ce_is_directory = is_dir,
      ce_mode = (if is_dir then 0x41ED else 0x81A4)\<rparr>)"

definition entry_fits :: "bytes \<times> bytes \<times> bool \<Rightarrow> bool" where
  "entry_fits e \<longleftrightarrow> length (fst e) + 1 < 2 ^ 32 \<and> length (fst (snd e)) < 2 ^ 32"

lemma add_entry_append: "4 dvd length pre \<Longrightarrow> add_entry pre ino e = pre @ add_entry [] ino e"
  by (cases e) (simp add: add_entry_def pad4_append)

lemma add_entry_aligned [simp]: "4 dvd length (add_entry pre ino e)"
  by (cases e) (simp add: add_entry_def)

lemma add_entries_append: "4 dvd length pre \<Longrightarrow> add_entries pre ino es = pre @ add_entries [] ino es"
proof (induction es arbitrary: pre ino)
  case (Cons e es)
  have "add_entries pre ino (e # es) = (pre @ add_entry [] ino e) @ add_entries [] (ino + 1) es"
    using Cons.IH [of "pre @ add_entry [] ino e"] Cons.prems by (simp add: add_entry_append [of pre])
  also have "\<dots> = pre @ add_entries [] ino (e # es)" using Cons.IH [of "add_entry [] ino e"] by simp
  finally show ?case .
qed simp

text \<open>The name of an entry that starts at \<open>pre\<close>, and the whole entry.\<close>

lemma entry_name_at:
  assumes "archive = pre @ h @ name @ [0] @ rest" and "length h = 110"
  shows "entry_name archive (length pre + 110) (length pre + 110 + (length name + 1)) = Some name"
proof -
  have "archive ! (length pre + 110 + length name) = 0"
    using assms by (simp add: nth_append)
  moreover have "slice_of archive (length pre + 110) (length pre + 110 + length name) = Some name"
    using slice_of_append [of 0 "length name" name "pre @ h" "[0] @ rest"] assms by (simp add: add.assoc)
  ultimately show ?thesis using assms(2) by (simp add: entry_name_def assms(1)) (simp add: nth_append)
qed

lemma pass_reads_entry:
  assumes "4 dvd length pre" and "entry_fits (name, data, d)" and "name \<noteq> TRAILER"
  shows "cpio_pass_at (pre @ add_entry [] ino (name, data, d) @ rest) (length pre) =
     Some (CpioNext (entry_of (name, data, d)) (length (pre @ add_entry [] ino (name, data, d))))"
proof -
  define body where "body = (if d then [] else data)"
  define mode :: u32 where "mode = (if d then 0x41ED else 0x81A4)"
  define h where "h = cpio_header ino mode 1 (length body) (length name + 1)"
  define head where "head = h @ name @ [0]"
  have fits: "(1 :: nat) < 2 ^ 32" "length body < 2 ^ 32" "length name + 1 < 2 ^ 32"
    using assms(2) by (simp_all add: entry_fits_def body_def)
  have len: "length h = 110" unfolding h_def by (rule length_cpio_header [OF fits])
  have bytes: "add_entry [] ino (name, data, d) = pad4 head @ pad4 body"
    by (simp add: add_entry_def head_def h_def mode_def body_def pad4_append) (simp add: pad4_def align4_def)
  define archive where "archive = pre @ (pad4 head @ pad4 body) @ rest"
  obtain gap where gap: "pad4 head = head @ gap" by (simp add: pad4_def)
  obtain gap' where gap': "pad4 body = body @ gap'" by (simp add: pad4_def)
  have parts: "archive = pre @ h @ name @ [0] @ gap @ pad4 body @ rest"
    unfolding archive_def gap by (simp add: head_def)
  have pass: "cpio_pass_at archive (length pre) = entry_body archive (length pre) mode (length body) (length name + 1)"
    by (rule pass_at_header [OF fits parts [unfolded h_def]])
  have name: "entry_name archive (length pre + 110) (length pre + 110 + (length name + 1)) = Some name"
    by (rule entry_name_at [OF parts len])
  have ends: "align4 (length pre + 110 + (length name + 1)) = length (pre @ pad4 head)"
    using align4_add [OF assms(1), of "111 + length name"] len by (simp add: head_def add.commute add.left_commute)
  have data: "slice_of archive (length (pre @ pad4 head)) (length (pre @ pad4 head) + length body) = Some body"
    using slice_of_append [of 0 "length body" body "pre @ pad4 head" "gap' @ rest"] by (simp add: archive_def gap')
  have next_at: "align4 (length (pre @ pad4 head) + length body) = length (pre @ pad4 head @ pad4 body)"
    using assms(1) by (simp add: align4_add)
  have "length (pre @ pad4 head) + length body \<le> length archive" by (simp add: archive_def gap')
  moreover have "length pre + 110 + (length name + 1) \<le> length archive" unfolding parts using len by simp
  ultimately have inside: "length pre + 110 + (length name + 1) \<le> length archive" "length (pre @ pad4 head) + length body \<le> length archive"
    by simp_all
  have "entry_body archive (length pre) mode (length body) (length name + 1) =
     Some (CpioNext (entry_of (name, data, d)) (length (pre @ pad4 head @ pad4 body)))"
    unfolding entry_body_def Let_def ends name data next_at using inside assms(3)
    by (simp add: name ends [unfolded length_append] data [unfolded length_append] next_at [unfolded length_append] entry_of_def body_def mode_def)
  then show ?thesis using pass by (simp add: archive_def bytes)
qed

definition trailer_bytes :: bytes where
  "trailer_bytes = pad4 (cpio_header 0 0 0 0 (length TRAILER + 1) @ TRAILER @ [0])"

lemma pass_reads_trailer: "cpio_pass_at (pre @ trailer_bytes) (length pre) = Some CpioStop"
proof -
  define h where "h = cpio_header 0 0 0 0 (length TRAILER + 1)"
  have fits: "(0 :: nat) < 2 ^ 32" "(0 :: nat) < 2 ^ 32" "length TRAILER + 1 < 2 ^ 32" by (simp_all add: TRAILER_def)
  have len: "length h = 110" unfolding h_def by (rule length_cpio_header [OF fits])
  obtain gap where "trailer_bytes = (h @ TRAILER @ [0]) @ gap" by (simp add: trailer_bytes_def h_def pad4_def)
  then have parts: "pre @ trailer_bytes = pre @ h @ TRAILER @ [0] @ gap" by simp
  have "cpio_pass_at (pre @ trailer_bytes) (length pre) = entry_body (pre @ trailer_bytes) (length pre) 0 0 (length TRAILER + 1)"
    by (rule pass_at_header [OF fits parts [unfolded h_def]])
  moreover have "length pre + 110 + (length TRAILER + 1) \<le> length (pre @ trailer_bytes)" unfolding parts using len by simp
  ultimately show ?thesis using entry_name_at [OF parts len] by (simp add: entry_body_def)
qed

lemma trailer_long: "110 \<le> length trailer_bytes"
  using length_cpio_header [of 0 0 "length TRAILER + 1" 0 0] align4_ge [of "110 + length TRAILER + 1"]
  by (simp add: trailer_bytes_def TRAILER_def)

lemma add_entry_long: "entry_fits e \<Longrightarrow> 110 \<le> length (add_entry [] ino e)"
proof (cases e)
  case (fields name data d)
  assume "entry_fits e"
  then have "length (cpio_header ino m 1 (if d then 0 else length data) (length name + 1)) = 110" for m
    by (intro length_cpio_header) (simp_all add: entry_fits_def fields)
  then show ?thesis
    using align4_ge [of "111 + length name"] align4_ge [of "align4 (111 + length name) + length data"]
    unfolding fields by (cases d) (simp_all add: add_entry_def)
qed

lemma loop_reads_entries:
  assumes "4 dvd length pre" and "\<forall>e \<in> set es. entry_fits e \<and> fst e \<noteq> TRAILER"
  shows "cpio_loop (pre @ add_entries [] ino es @ trailer_bytes) (length pre) acc =
     Some (Inr (acc @ map entry_of (filter (\<lambda>e. fst e \<noteq> DOT_NAME) es)))"
  using assms
proof (induction es arbitrary: pre ino acc)
  case Nil
  then show ?case
    using pass_reads_trailer [of pre] trailer_long by (subst cpio_loop.simps) simp
next
  case (Cons e es)
  obtain name data d where e: "e = (name, data, d)" by (cases e)
  define pre' where "pre' = pre @ add_entry [] ino e"
  have archive: "pre @ add_entries [] ino (e # es) @ trailer_bytes = pre' @ add_entries [] (ino + 1) es @ trailer_bytes"
    using add_entries_append [of "add_entry [] ino e" "ino + 1" es] by (simp add: pre'_def)
  have pass: "cpio_pass_at (pre' @ add_entries [] (ino + 1) es @ trailer_bytes) (length pre) = Some (CpioNext (entry_of e) (length pre'))"
    using pass_reads_entry [OF Cons.prems(1), of name data d ino "add_entries [] (ino + 1) es @ trailer_bytes"] Cons.prems(2)
    by (simp add: pre'_def e)
  have "length pre + 110 \<le> length (pre' @ add_entries [] (ino + 1) es @ trailer_bytes)"
    using add_entry_long [of e ino] Cons.prems(2) by (simp add: pre'_def)
  moreover have "ce_name (entry_of e) = fst e" by (simp add: entry_of_def e)
  moreover have "4 dvd length pre'" using Cons.prems(1) by (simp add: pre'_def)
  ultimately show ?case
    unfolding archive using pass Cons.prems(2)
    by (subst cpio_loop.simps) (simp add: Cons.IH)
qed

lemma parse_build:
  assumes "\<forall>e \<in> set es. entry_fits e \<and> fst e \<noteq> TRAILER"
  shows "parse_cpio (build_test_cpio es) = Some (Inr (map entry_of (filter (\<lambda>e. fst e \<noteq> DOT_NAME) es)))"
proof -
  have aligned: "4 dvd length (add_entries [] ino es)" for ino
  proof (induction es arbitrary: ino)
    case (Cons e es)
    then show ?case by (simp add: add_entries_append [of "add_entry [] ino e"])
  qed simp
  have "build_test_cpio es = [] @ add_entries [] 1 es @ trailer_bytes"
    by (simp add: build_test_cpio_def trailer_bytes_def pad4_append [OF aligned])
  then show ?thesis using loop_reads_entries [of "[]" es 1 "[]"] assms by (simp add: parse_cpio_def)
qed

text \<open>C37. No archive makes the parser panic or loop: it returns a list of entries or an error for every sequence of bytes.\<close>

theorem parse_cpio_total: "\<exists>r. parse_cpio archive = Some r"
  unfolding parse_cpio_def by (rule cpio_loop_total)

text \<open>C36. What the builder writes the parser reads back: every entry but one named \<open>.\<close>, in order, with its
  name, data and kind, as long as the sizes fit their fields and no entry is named like the trailer.\<close>

theorem cpio_roundtrip:
  assumes "\<forall>e \<in> set es. length (fst e) + 1 < 2 ^ 32 \<and> length (fst (snd e)) < 2 ^ 32 \<and> fst e \<noteq> TRAILER"
  shows "\<exists>entries. parse_cpio (build_test_cpio es) = Some (Inr entries) \<and>
     map (\<lambda>e. (ce_name e, ce_data e, ce_is_directory e)) entries =
     map (\<lambda>(name, data, d). (name, if d then [] else data, d)) (filter (\<lambda>e. fst e \<noteq> DOT_NAME) es)"
proof -
  have "parse_cpio (build_test_cpio es) = Some (Inr (map entry_of (filter (\<lambda>e. fst e \<noteq> DOT_NAME) es)))"
    using assms by (intro parse_build) (simp add: entry_fits_def)
  then show ?thesis by (auto simp: entry_of_def)
qed

theorem cpio_roundtrip_witness:
  "\<exists>entries. parse_cpio (build_test_cpio [([0x62, 0x69, 0x6E], [], True), ([0x61], [1, 2, 3], False)]) = Some (Inr entries) \<and>
     map (\<lambda>e. (ce_name e, ce_data e, ce_is_directory e)) entries = [([0x62, 0x69, 0x6E], [], True), ([0x61], [1, 2, 3], False)]"
  using cpio_roundtrip [of "[([0x62, 0x69, 0x6E], [], True), ([0x61], [1, 2, 3], False)]"]
  by (simp add: TRAILER_def DOT_NAME_def)

end
