(* ===== verification/Vfs_Boot.thy ===== *)
theory Vfs_Boot
  imports Vfs_Sound Cpio_Sound
begin

text \<open>
  From the start of the file system to a file of the initial archive: the mounts, the lookup of a
  path, the loading of the archive. A file whose name has no slash can be opened and read; a path
  that is long enough makes the kernel panic.
\<close>

section \<open>Inode tables that were only allocated from\<close>

definition dense :: "nat \<Rightarrow> inode_table \<Rightarrow> bool" where
  "dense n t \<longleftrightarrow> n \<le> MAX_INODES \<and> length (it_entries t) = MAX_INODES \<and> unat (it_next_id t) = n + 1 \<and>
     (\<forall>k < n. ino_active (it_entries t ! k) \<and> unat (ino_id (it_entries t ! k)) = k + 1) \<and>
     (\<forall>k < MAX_INODES. n \<le> k \<longrightarrow> \<not> ino_active (it_entries t ! k))"

lemma dense_new: "dense 0 inode_table_new"
  by (simp add: dense_def inode_table_new_def inode_empty_def)

lemma dense_get:
  assumes "dense n t"
  shows "inode_get t i = (if 0 < unat i \<and> unat i \<le> n then Some (it_entries t ! (unat i - 1)) else None)"
proof (cases "0 < unat i \<and> unat i \<le> n")
  case True
  then have "ino_active (it_entries t ! (unat i - 1))" "ino_id (it_entries t ! (unat i - 1)) = i" "unat i - 1 < length (it_entries t)"
    using assms by (auto simp: dense_def word_unat_eq_iff)
  moreover have "ino_id (it_entries t ! j) \<noteq> i" if "j < unat i - 1" for j
    using assms True that by (auto simp: dense_def word_unat_eq_iff)
  ultimately have "inode_slot t i = Some (unat i - 1)" by (simp add: inode_slot_def find_slot_Some)
  then show ?thesis using True by (simp add: inode_get_def)
next
  case False
  have "\<not> (ino_active (it_entries t ! k) \<and> ino_id (it_entries t ! k) = i)" if "k < length (it_entries t)" for k
    using assms False that by (cases "k < n") (auto simp: dense_def word_unat_eq_iff)
  then have "inode_slot t i = None"
    unfolding inode_slot_def find_slot_None by (metis in_set_conv_nth)
  then show ?thesis using False by (auto simp: inode_get_def)
qed

lemma dense_alloc:
  assumes "dense n t" and "n < MAX_INODES"
  obtains i t' where "inode_alloc t ty fs d = (Inr i, t')" and "unat i = n + 1" and "dense (n + 1) t'"
    and "\<exists>ino. inode_get t' i = Some ino \<and> ino_type ino = ty"
    and "\<And>j. j \<noteq> i \<Longrightarrow> inode_get t' j = inode_get t j"
proof -
  define i where "i = it_next_id t"
  define new where "new = (it_entries t ! n)\<lparr>ino_id := i, ino_type := ty, ino_size := 0, ino_fs_id := fs,
    ino_fs_data := d, ino_active := True\<rparr>"
  define t' where "t' = t\<lparr>it_next_id := i + 1, it_entries := (it_entries t)[n := new], it_count := it_count t + 1\<rparr>"
  have i: "unat i = n + 1" using assms(1) by (simp add: dense_def i_def)
  have "unat (i + 1) = n + 2"
    using i assms(2) unat_Suc_word [of i 2000] by (simp add: MAX_INODES_def)
  then have dense': "dense (n + 1) t'"
    using assms i by (auto simp: dense_def t'_def new_def nth_list_update less_Suc_eq)
  have "find_slot (\<lambda>e. \<not> ino_active e) (it_entries t) = Some n"
    using assms by (auto simp: find_slot_Some dense_def)
  then have alloc: "inode_alloc t ty fs d = (Inr i, t')"
    by (simp add: inode_alloc_def t'_def new_def i_def)
  have "inode_get t' i = Some new"
    using assms dense_get [OF dense'] by (simp add: t'_def dense_def i)
  moreover have "inode_get t' j = inode_get t j" if "j \<noteq> i" for j
  proof -
    have "unat j \<noteq> n + 1" using that i by (auto simp: word_unat_eq_iff)
    then show ?thesis unfolding dense_get [OF dense'] dense_get [OF assms(1)] by (auto simp: t'_def)
  qed
  ultimately show thesis using that [OF alloc i dense'] by (simp add: new_def)
qed

lemma dense_alloc_some:
  "dense n t \<Longrightarrow> n < MAX_INODES \<Longrightarrow> \<exists>i t'. inode_alloc t ty fs d = (Inr i, t') \<and> unat i = Suc n \<and> dense (Suc n) t'"
  by (rule dense_alloc [of n t ty fs d]) auto

lemma dense_modify:
  assumes "dense n t" and "\<And>e. ino_active (g e) = ino_active e \<and> ino_id (g e) = ino_id e"
  shows "dense n (inode_modify t i g)"
proof (cases "inode_slot t i")
  case (Some k)
  have "ino_active ((it_entries t)[k := g (it_entries t ! k)] ! j) = ino_active (it_entries t ! j)"
    and "ino_id ((it_entries t)[k := g (it_entries t ! k)] ! j) = ino_id (it_entries t ! j)" for j
    using assms(2) inode_slotD(1) [OF Some] by (cases "j = k"; simp)+
  then show ?thesis using Some assms(1) by (simp add: dense_def inode_modify_def)
qed (simp add: assms(1) inode_modify_def)

section \<open>The mounts after the start\<close>

definition root_mount :: mount_entry where
  "root_mount = \<lparr>me_mount_path = [SLASH] @ replicate 63 0, me_path_len = 1, me_fs_id = 1, me_fs_type = FsTmpfs,
     me_root_inode = 1, me_active = True\<rparr>"

definition dev_mount :: mount_entry where
  "dev_mount = \<lparr>me_mount_path = (SLASH # NAME_DEV) @ replicate 60 0, me_path_len = 4, me_fs_id = 2, me_fs_type = FsDevfs,
     me_root_inode = 2, me_active = True\<rparr>"

definition boot_mounts :: "mount_table \<Rightarrow> bool" where
  "boot_mounts t \<longleftrightarrow> mt_entries t = root_mount # dev_mount # replicate 62 mount_entry_empty"

lemma best_mount_inactive: "\<forall>e \<in> set es. \<not> me_active e \<Longrightarrow> best_mount path i es best = best"
  by (induction es arbitrary: i) simp_all

lemma mount_path_boot [simp]: "mount_path root_mount = [SLASH]" "mount_path dev_mount = SLASH # NAME_DEV"
  by (simp_all add: mount_path_def root_mount_def dev_mount_def NAME_DEV_def)

lemma best_boot_mount:
  assumes "boot_mounts t" and "path = SLASH # rest"
  shows "fst (best_mount path 0 (mt_entries t) (None, 0)) = Some (if lies_on (SLASH # NAME_DEV) path then 1 else 0)"
proof -
  have "\<forall>e \<in> set (replicate 62 mount_entry_empty). \<not> me_active e" by (simp add: mount_entry_empty_def)
  moreover have "lies_on [SLASH] path" using assms(2) by (simp add: lies_on_def)
  moreover have "me_active root_mount" "me_active dev_mount" by (simp_all add: root_mount_def dev_mount_def)
  ultimately show ?thesis using assms(1) by (simp add: boot_mounts_def best_mount_inactive NAME_DEV_def)
qed

lemma resolve_root:
  assumes "boot_mounts t" and "name \<noteq> []" and "SLASH \<notin> set name" and "name \<noteq> NAME_DEV" and "length name \<le> 64"
  shows "mount_resolve t (SLASH # name) =
     Some (Some \<lparr>rr_mount_index = 0, rr_remaining = name @ replicate (64 - length name) 0, rr_remaining_len = length name\<rparr>)"
proof -
  have "\<not> lies_on (SLASH # NAME_DEV) (SLASH # name)"
  proof
    assume l: "lies_on (SLASH # NAME_DEV) (SLASH # name)"
    then have "take 3 name = NAME_DEV" and "length name = 3 \<or> 3 < length name \<and> name ! 3 = SLASH"
      by (auto simp: lies_on_def NAME_DEV_def numeral_3_eq_3)
    then show False using assms(3,4) by (metis nth_mem order_refl take_all)
  qed
  then have "fst (best_mount (SLASH # name) 0 (mt_entries t) (None, 0)) = Some 0"
    using best_boot_mount [OF assms(1)] by simp
  moreover have "name ! 0 \<noteq> SLASH" using assms(2,3) by (cases name) auto
  ultimately show ?thesis
    using assms(1,2,5) by (simp add: mount_resolve_def boot_mounts_def root_mount_def Let_def copy_slice_def MAX_MOUNT_PATH_def)
qed

lemma split_slash_free: "SLASH \<notin> set name \<Longrightarrow> split_slash name = [name]"
  by (induction name) auto

lemma resolve_path_root:
  assumes "boot_mounts (v_mounts V)" and "name \<noteq> []" and "SLASH \<notin> set name" and "name \<noteq> NAME_DEV" and "length name \<le> 64"
  shows "resolve_path V (SLASH # name) = Some (or_not_found (tmpfs_lookup (v_tmpfs V) 1 name))"
proof -
  have "mount_get (v_mounts V) 0 = Some root_mount"
    using assms(1) by (simp add: mount_get_def boot_mounts_def root_mount_def MAX_MOUNTS_def)
  then show ?thesis
    using resolve_root [OF assms] assms(2,3)
    by (simp add: resolve_path_def slice_of_def split_slash_free root_mount_def split: option.split)
qed

section \<open>The state after the start, and what loading keeps of it\<close>

definition booted :: "nat \<Rightarrow> vfs \<Rightarrow> bool" where
  "booted n V \<longleftrightarrow> 0 < n \<and> dense n (v_inodes V) \<and> boot_mounts (v_mounts V) \<and> v_open V = open_files_new \<and>
     tf_root_inode (v_tmpfs V) = 1 \<and> fmlookup (tf_dirs (v_tmpfs V)) 1 \<noteq> None"

lemma mount_boot:
  "mount mount_table_new PATH_ROOT FsTmpfs 1 =
     (Inr 1, \<lparr>mt_entries = root_mount # replicate 63 mount_entry_empty, mt_count = Suc 0, mt_next_fs_id = 2\<rparr>)"
  "mount \<lparr>mt_entries = root_mount # replicate 63 mount_entry_empty, mt_count = Suc 0, mt_next_fs_id = 2\<rparr> (SLASH # NAME_DEV) FsDevfs 2 =
     (Inr 2, \<lparr>mt_entries = root_mount # dev_mount # replicate 62 mount_entry_empty, mt_count = 2, mt_next_fs_id = 3\<rparr>)"
  by (simp_all add: mount_def mount_table_new_def MAX_MOUNTS_def MAX_MOUNT_PATH_def PATH_ROOT_def NAME_DEV_def Let_def
      numeral_eq_Suc mount_entry_empty_def root_mount_def dev_mount_def)

lemma vfs_init_booted:
  "\<exists>V. vfs_init vfs_new = Some V \<and> booted 5 V \<and>
     (\<forall>name. tmpfs_lookup (v_tmpfs V) 1 name = (if name = NAME_DEV then Some 2 else None))"
proof -
  define fs :: "inode \<Rightarrow> inode" where "fs = (\<lambda>ino. ino\<lparr>ino_fs_id := 1\<rparr>)"
  have room: "n < MAX_INODES" if "n < 5" for n using that by (simp add: MAX_INODES_def)
  obtain i1 t1 where t1: "inode_alloc inode_table_new Directory 0 0 = (Inr i1, t1)" "unat i1 = 1" "dense 1 t1"
    using dense_alloc_some [OF dense_new room [of 0], of Directory 0 0] by (auto simp: numeral_eq_Suc)
  have i1: "i1 = 1" using t1(2) by (simp add: word_unat_eq_iff)
  have t1': "dense 1 (inode_modify t1 1 fs)" using t1(3) by (rule dense_modify) (simp add: fs_def)
  obtain i2 t2 where t2: "inode_alloc (inode_modify t1 1 fs) Directory 0 0 = (Inr i2, t2)" "unat i2 = 2" "dense 2 t2"
    using dense_alloc_some [OF t1' room, of Directory 0 0] by (auto simp: numeral_eq_Suc)
  have i2: "i2 = 2" using t2(2) by (simp add: word_unat_eq_iff)
  obtain i3 t3 where t3: "inode_alloc t2 CharDevice 2 0 = (Inr i3, t3)" "dense 3 t3"
    using dense_alloc_some [OF t2(3) room, of CharDevice 2 0] by (auto simp: numeral_eq_Suc)
  obtain i4 t4 where t4: "inode_alloc t3 CharDevice 2 1 = (Inr i4, t4)" "dense 4 t4"
    using dense_alloc_some [OF t3(2) room, of CharDevice 2 1] by (auto simp: numeral_eq_Suc)
  obtain i5 t5 where t5: "inode_alloc t4 CharDevice 2 2 = (Inr i5, t5)" "dense 5 t5"
    using dense_alloc_some [OF t4(2) room, of CharDevice 2 2] by (auto simp: numeral_eq_Suc)
  have valid: "utf8_valid NAME_DEV" by (simp add: NAME_DEV_def utf8_lead_def)
  show ?thesis
    using t5(2) t1(1) t2(1) t3(1) t4(1) t5(1) valid
    by (simp add: vfs_init_def vfs_new_def alloc_or_panic_def mount_or_panic_def i1 i2 mount_boot fs_def [symmetric]
        devfs_init_def booted_def boot_mounts_def tmpfs_init_def tmpfs_new_def add_dir_entry_def tmpfs_lookup_def)
qed

text \<open>A file that can be found under a name of the root directory.\<close>

definition stored :: "vfs \<Rightarrow> bytes \<Rightarrow> bytes \<Rightarrow> bool" where
  "stored V name data \<longleftrightarrow> (\<exists>i ino. tmpfs_lookup (v_tmpfs V) 1 name = Some i \<and> fmlookup (tf_files (v_tmpfs V)) i = Some data \<and>
     inode_get (v_inodes V) i = Some ino \<and> ino_type ino = File)"

lemma find_snoc: "find p (xs @ [x]) = (case find p xs of Some y \<Rightarrow> Some y | None \<Rightarrow> if p x then Some x else None)"
  by (induction xs) simp_all

text \<open>The name under which a directory keeps an entry: its bytes, or a question mark if they are not UTF-8.\<close>

definition kept_name :: "bytes \<Rightarrow> bytes" where
  "kept_name name = (if utf8_valid name then name else [0x3F])"

lemma lookup_add_entry:
  assumes "fmlookup (tf_dirs T) dir \<noteq> None"
  shows "tmpfs_lookup (add_dir_entry T dir added i) dir name =
     (case tmpfs_lookup T dir name of Some j \<Rightarrow> Some j | None \<Rightarrow> if utf8_valid name \<and> name = kept_name added then Some i else None)"
  unfolding kept_name_def using assms by (auto simp: tmpfs_lookup_def add_dir_entry_def find_snoc split: option.splits)

lemma add_dir_entry_fields [simp]:
  "tf_files (add_dir_entry T dir name i) = tf_files T" "tf_root_inode (add_dir_entry T dir name i) = tf_root_inode T"
  "(fmlookup (tf_dirs (add_dir_entry T dir name i)) d = None) = (fmlookup (tf_dirs T) d = None)"
  by (auto simp: add_dir_entry_def split: option.splits)

lemma lookup_register: "i \<noteq> dir \<Longrightarrow> tmpfs_lookup (register_dir T i) dir name = tmpfs_lookup T dir name"
  by (simp add: tmpfs_lookup_def register_dir_def)

lemma lookup_create [simp]: "tmpfs_lookup (create_file_with_data T i data) dir name = tmpfs_lookup T dir name"
  by (simp add: tmpfs_lookup_def create_file_with_data_def)

definition skipped :: "cpio_entry \<Rightarrow> bool" where
  "skipped e \<longleftrightarrow> ce_name e = [] \<or> ce_name e = [DOT] \<or> ce_name e = [DOT, SLASH] \<or> clean_path (ce_name e) = []"

lemma load_skipped: "skipped e \<Longrightarrow> load_entry e V = V"
  by (auto simp: load_entry_def skipped_def)

text \<open>Loading one entry that is not skipped: a fresh inode, bound to the name of the entry unless the name is taken.\<close>

definition binds :: "cpio_entry \<Rightarrow> vfs \<Rightarrow> vfs \<Rightarrow> inode_id \<Rightarrow> bool" where
  "binds e V V' i \<longleftrightarrow>
     (\<forall>name. tmpfs_lookup (v_tmpfs V') 1 name =
       (case tmpfs_lookup (v_tmpfs V) 1 name of Some j \<Rightarrow> Some j
        | None \<Rightarrow> if utf8_valid name \<and> name = kept_name (clean_path (ce_name e)) then Some i else None)) \<and>
     (\<not> ce_is_directory e \<longrightarrow> fmlookup (tf_files (v_tmpfs V')) i = Some (ce_data e) \<and>
       (\<exists>ino. inode_get (v_inodes V') i = Some ino \<and> ino_type ino = File)) \<and>
     (\<forall>j. j \<noteq> i \<longrightarrow> fmlookup (tf_files (v_tmpfs V')) j = fmlookup (tf_files (v_tmpfs V)) j \<and>
       inode_get (v_inodes V') j = inode_get (v_inodes V) j)"

lemma load_entry_binds:
  assumes "booted n V" and "n < MAX_INODES" and "\<not> skipped e"
  shows "\<exists>i. unat i = n + 1 \<and> booted (n + 1) (load_entry e V) \<and> binds e V (load_entry e V) i"
proof -
  define ty where "ty = (if ce_is_directory e then Directory else File)"
  have b: "dense n (v_inodes V)" "tf_root_inode (v_tmpfs V) = 1" "fmlookup (tf_dirs (v_tmpfs V)) 1 \<noteq> None" "0 < n"
    using assms(1) by (simp_all add: booted_def)
  obtain i t where alloc: "inode_alloc (v_inodes V) ty (tf_fs_id (v_tmpfs V)) 0 = (Inr i, t)" and i: "unat i = n + 1"
    and dense: "dense (n + 1) t" and ino: "\<exists>ino. inode_get t i = Some ino \<and> ino_type ino = ty"
    and other: "\<And>j. j \<noteq> i \<Longrightarrow> inode_get t j = inode_get (v_inodes V) j"
    using dense_alloc [OF b(1) assms(2)] by metis
  have i1: "i \<noteq> 1" using i b(4) by auto
  show ?thesis
  proof (cases "ce_is_directory e")
    case True
    define V' where "V' = V\<lparr>v_inodes := t, v_tmpfs := add_dir_entry (register_dir (v_tmpfs V) i) 1 (clean_path (ce_name e)) i\<rparr>"
    have V': "load_entry e V = V'"
      using True assms(3) alloc b(2) by (simp add: V'_def load_entry_def skipped_def ty_def)
    have dir: "fmlookup (tf_dirs (register_dir (v_tmpfs V) i)) 1 \<noteq> None" using b(3) i1 by (simp add: register_dir_def)
    have "booted (n + 1) V'" using assms(1) dense i1 by (simp add: V'_def booted_def register_dir_def)
    moreover have "binds e V V' i"
      unfolding binds_def using lookup_add_entry [OF dir, of _ i] True other
      by (simp add: V'_def lookup_register i1) (simp add: register_dir_def)
    ultimately show ?thesis using i V' by auto
  next
    case False
    define size where "size = (\<lambda>ino :: inode. ino\<lparr>ino_size := of_nat (length (ce_data e))\<rparr>)"
    define V' where "V' = V\<lparr>v_inodes := inode_modify t i size,
        v_tmpfs := add_dir_entry (create_file_with_data (v_tmpfs V) i (ce_data e)) 1 (clean_path (ce_name e)) i\<rparr>"
    have V': "load_entry e V = V'"
      using False assms(3) alloc b(2) by (simp add: V'_def load_entry_def skipped_def ty_def size_def)
    have keeps: "ino_active (size z) = ino_active z \<and> ino_id (size z) = ino_id z" for z by (simp add: size_def)
    have dir: "fmlookup (tf_dirs (create_file_with_data (v_tmpfs V) i (ce_data e))) 1 \<noteq> None"
      using b(3) by (simp add: create_file_with_data_def)
    have "booted (n + 1) V'"
      using assms(1) dense_modify [OF dense keeps] by (simp add: V'_def booted_def create_file_with_data_def)
    moreover have "\<exists>ino. inode_get (v_inodes V') i = Some ino \<and> ino_type ino = File"
      using ino False by (auto simp: V'_def inode_get_modify keeps ty_def) (simp add: size_def)
    then have "binds e V V' i"
      unfolding binds_def using lookup_add_entry [OF dir, of _ i] other
      by (simp add: V'_def inode_get_modify keeps) (simp add: create_file_with_data_def)
    ultimately show ?thesis using i V' by auto
  qed
qed

text \<open>One more entry: it keeps what is stored, and binds no name but its own.\<close>

lemma load_entry_keeps:
  assumes "booted n V" and "n < MAX_INODES"
  shows "\<exists>m \<le> n + 1. booted m (load_entry e V) \<and> (\<forall>name data. stored V name data \<longrightarrow> stored (load_entry e V) name data) \<and>
     (\<forall>name. tmpfs_lookup (v_tmpfs V) 1 name = None \<longrightarrow> name \<noteq> kept_name (clean_path (ce_name e)) \<longrightarrow>
        tmpfs_lookup (v_tmpfs (load_entry e V)) 1 name = None)"
proof (cases "skipped e")
  case True
  then show ?thesis using assms(1) by (auto simp: load_skipped intro!: exI [of _ n])
next
  case False
  obtain i where i: "unat i = n + 1" and b: "booted (n + 1) (load_entry e V)" and bs: "binds e V (load_entry e V) i"
    using load_entry_binds [OF assms(1,2) False] by blast
  have "stored (load_entry e V) name data" if st: "stored V name data" for name data
  proof -
    obtain j ino where j: "tmpfs_lookup (v_tmpfs V) 1 name = Some j" "fmlookup (tf_files (v_tmpfs V)) j = Some data"
      "inode_get (v_inodes V) j = Some ino" "ino_type ino = File"
      using st by (auto simp: stored_def)
    have "unat j \<le> n" using j(3) assms(1) by (auto simp: booted_def dense_get split: if_splits)
    then have "j \<noteq> i" using i by auto
    then show ?thesis using j bs by (simp add: stored_def binds_def)
  qed
  then show ?thesis using b bs by (intro exI [of _ "n + 1"]) (simp add: binds_def)
qed

lemma load_entries_keep:
  assumes "booted n V" and "n + length entries \<le> MAX_INODES"
  shows "\<exists>m \<le> n + length entries. booted m (fold load_entry entries V) \<and>
     (\<forall>name data. stored V name data \<longrightarrow> stored (fold load_entry entries V) name data) \<and>
     (\<forall>name. tmpfs_lookup (v_tmpfs V) 1 name = None \<longrightarrow> name \<notin> (kept_name \<circ> clean_path \<circ> ce_name) ` set entries \<longrightarrow>
        tmpfs_lookup (v_tmpfs (fold load_entry entries V)) 1 name = None)"
  using assms
proof (induction entries arbitrary: n V)
  case Nil
  then show ?case by auto
next
  case (Cons e entries)
  obtain m where m: "m \<le> n + 1" "booted m (load_entry e V)"
    "\<forall>name data. stored V name data \<longrightarrow> stored (load_entry e V) name data"
    "\<forall>name. tmpfs_lookup (v_tmpfs V) 1 name = None \<longrightarrow> name \<noteq> kept_name (clean_path (ce_name e)) \<longrightarrow>
        tmpfs_lookup (v_tmpfs (load_entry e V)) 1 name = None"
    using load_entry_keeps [OF Cons.prems(1), of e] Cons.prems(2) by auto
  obtain m' where "m' \<le> m + length entries" "booted m' (fold load_entry entries (load_entry e V))"
     "\<forall>name data. stored (load_entry e V) name data \<longrightarrow> stored (fold load_entry entries (load_entry e V)) name data"
     "\<forall>name. tmpfs_lookup (v_tmpfs (load_entry e V)) 1 name = None \<longrightarrow> name \<notin> (kept_name \<circ> clean_path \<circ> ce_name) ` set entries \<longrightarrow>
        tmpfs_lookup (v_tmpfs (fold load_entry entries (load_entry e V))) 1 name = None"
    using Cons.IH [OF m(2)] Cons.prems(2) m(1) by auto
  then show ?case using m by (intro exI [of _ m']) auto
qed

lemma stored_readable:
  assumes "booted n V" and "stored V name data"
    and "name \<noteq> []" and "SLASH \<notin> set name" and "name \<noteq> NAME_DEV" and "length name \<le> 64"
  shows "\<exists>f V1 V2. vfs_open V (SLASH # name) flags = Some (Inr f, V1) \<and>
     vfs_read V1 f buf = (Inr (length (take (length buf) data)), take (length buf) data @ drop (length data) buf, V2)"
proof -
  obtain i ino where i: "tmpfs_lookup (v_tmpfs V) 1 name = Some i" "fmlookup (tf_files (v_tmpfs V)) i = Some data"
    "inode_get (v_inodes V) i = Some ino" "ino_type ino = File"
    using assms(2) by (auto simp: stored_def)
  have new: "v_open V = open_files_new" "boot_mounts (v_mounts V)" using assms(1) by (simp_all add: booted_def)
  have "find_slot (\<lambda>e. \<not> of_active e) (tl (oft_entries open_files_new)) = Some 0"
    by (simp add: find_slot_Some open_files_new_def MAX_OPEN_FILES_def open_file_empty_def)
  then obtain f t where alloc: "open_file_alloc (v_open V) i flags = (Inr f, t)" by (simp add: new open_file_alloc_def)
  have opened: "vfs_open V (SLASH # name) flags = Some (Inr f, V\<lparr>v_open := t\<rparr>)"
    using resolve_path_root [OF new(2) assms(3-6)] i(1,3) alloc by (simp add: vfs_open_def or_not_found_def)
  have ok: "files_ok (v_open V)" by (simp add: new)
  have "open_file_get t f = Some \<lparr>of_inode_id = i, of_offset = 0, of_flags = flags, of_ref_count = 1, of_active = True\<rparr>"
    by (rule open_file_alloc_law(3) [OF ok alloc])
  moreover have "tmpfs_read (v_tmpfs V) i 0 buf = (length (take (length buf) data), take (length buf) data @ drop (length data) buf)"
    using i(2) by (auto simp: tmpfs_read_def Let_def min_def)
  ultimately have "vfs_read (V\<lparr>v_open := t\<rparr>) f buf = (Inr (length (take (length buf) data)),
      take (length buf) data @ drop (length data) buf, advance (V\<lparr>v_open := t\<rparr>) f (length (take (length buf) data)))"
    using i(3,4) by (simp add: vfs_read_def)
  then show ?thesis using opened by blast
qed

lemma load_entry_stores:
  assumes "booted n V" and "n < MAX_INODES" and "\<not> skipped e" and "utf8_valid (clean_path (ce_name e))"
    and "\<not> ce_is_directory e" and "tmpfs_lookup (v_tmpfs V) 1 (clean_path (ce_name e)) = None"
  shows "stored (load_entry e V) (clean_path (ce_name e)) (ce_data e)"
  using load_entry_binds [OF assms(1-3)] assms(4-6) by (auto simp: binds_def stored_def kept_name_def)

lemma load_entries_store:
  assumes "booted n V" and "n + length (es1 @ e # es2) \<le> MAX_INODES"
    and valid: "utf8_valid name"
    and "\<not> skipped e" and "\<not> ce_is_directory e" and name: "name = clean_path (ce_name e)"
    and "tmpfs_lookup (v_tmpfs V) 1 name = None" and "name \<notin> (kept_name \<circ> clean_path \<circ> ce_name) ` set es1"
  shows "\<exists>m. booted m (fold load_entry (es1 @ e # es2) V) \<and> stored (fold load_entry (es1 @ e # es2) V) name (ce_data e)"
proof -
  define V1 where "V1 = fold load_entry es1 V"
  obtain m where m: "m \<le> n + length es1" "booted m V1" "tmpfs_lookup (v_tmpfs V1) 1 name = None"
    using load_entries_keep [OF assms(1), of es1] assms(2,7,8) unfolding V1_def by auto
  have st: "stored (load_entry e V1) name (ce_data e)"
    using load_entry_stores [OF m(2), of e] m(1,3) assms(2-5) by (simp add: name)
  obtain m' where m': "m' \<le> m + 1" "booted m' (load_entry e V1)"
    using load_entry_keeps [OF m(2), of e] m(1) assms(2) by auto
  then show ?thesis
    using load_entries_keep [OF m'(2), of es2] st m(1) assms(2) unfolding V1_def by auto
qed

section \<open>Properties\<close>

text \<open>C33. From the start of the system to a file: after the file system is initialised and an archive that the parser
  accepts, with at most 1019 entries, is loaded, a file of the archive can be opened under its name
  and read, and the bytes read are its data. That holds for a file whose name, without a leading
  dot and slash, is not empty, is UTF-8 of at most 64 bytes without a slash, and is not \<open>dev\<close> or the
  name of an earlier entry (an entry whose name is not UTF-8 counts as one named by a question mark).\<close>

theorem initramfs_readable:
  assumes "parse_cpio archive = Some (Inr entries)" and "length entries \<le> 1019"
    and "entries = before @ e # after" and "\<not> ce_is_directory e" and "ce_name e \<noteq> [DOT]"
    and "name = clean_path (ce_name e)" and "name \<noteq> []" and "SLASH \<notin> set name" and "name \<noteq> NAME_DEV"
    and "utf8_valid name" and "length name \<le> 64"
    and "\<forall>x \<in> set before. clean_path (ce_name x) \<noteq> name \<and> (utf8_valid (clean_path (ce_name x)) \<or> name \<noteq> [0x3F])"
  shows "\<exists>V0 V1 f V2 V3. vfs_init vfs_new = Some V0 \<and> load_initramfs V0 archive = Some V1 \<and>
     vfs_open V1 (SLASH # name) flags = Some (Inr f, V2) \<and>
     vfs_read V2 f buf = (Inr (min (length buf) (length (ce_data e))), take (length buf) (ce_data e) @ drop (length (ce_data e)) buf, V3)"
proof -
  obtain V0 where V0: "vfs_init vfs_new = Some V0" "booted 5 V0"
    "\<And>name. tmpfs_lookup (v_tmpfs V0) 1 name = (if name = NAME_DEV then Some 2 else None)"
    using vfs_init_booted by blast
  have room: "5 + length (before @ e # after) \<le> MAX_INODES" using assms(2,3) by (simp add: MAX_INODES_def)
  have skip: "\<not> skipped e" using assms(5-7) by (auto simp: skipped_def clean_path_def)
  have new: "name \<notin> (kept_name \<circ> clean_path \<circ> ce_name) ` set before" using assms(12) by (auto simp: kept_name_def)
  have free: "tmpfs_lookup (v_tmpfs V0) 1 name = None" using V0(3) assms(9) by simp
  obtain m where "booted m (fold load_entry entries V0)" "stored (fold load_entry entries V0) name (ce_data e)"
    using load_entries_store [OF V0(2) room assms(10) skip assms(4,6) free new] assms(3) by blast
  then have read: "\<exists>f V2 V3. vfs_open (fold load_entry entries V0) (SLASH # name) flags = Some (Inr f, V2) \<and>
     vfs_read V2 f buf = (Inr (length (take (length buf) (ce_data e))), take (length buf) (ce_data e) @ drop (length (ce_data e)) buf, V3)"
    by (rule stored_readable) (use assms in simp_all)
  have "load_initramfs V0 archive = Some (fold load_entry entries V0)" using assms(1) by (simp add: load_initramfs_def)
  then show ?thesis using V0(1) read by (simp add: min.commute)
qed

theorem initramfs_readable_witness:
  "\<exists>V0 V1 f V2 V3. vfs_init vfs_new = Some V0 \<and>
     load_initramfs V0 (build_test_cpio [([0x61], [], True), ([DOT, SLASH, 0x69], [1, 2, 3], False)]) = Some V1 \<and>
     vfs_open V1 [SLASH, 0x69] 1 = Some (Inr f, V2) \<and> vfs_read V2 f [0, 0] = (Inr 2, [1, 2], V3)"
proof -
  define es :: "(bytes \<times> bytes \<times> bool) list" where "es = [([0x61], [], True), ([DOT, SLASH, 0x69], [1, 2, 3], False)]"
  define a e where "a = entry_of ([0x61], [], True)" and "e = entry_of ([DOT, SLASH, 0x69], [1, 2, 3], False)"
  have e: "ce_name e = [DOT, SLASH, 0x69]" "ce_data e = [1, 2, 3]" "\<not> ce_is_directory e" and a: "ce_name a = [0x61]"
    by (simp_all add: e_def a_def entry_of_def)
  have p: "parse_cpio (build_test_cpio es) = Some (Inr ([a] @ e # []))"
    using parse_build [of es] by (simp add: es_def a_def e_def entry_fits_def TRAILER_def DOT_NAME_def DOT_def SLASH_def)
  have "\<exists>V0 V1 f V2 V3. vfs_init vfs_new = Some V0 \<and> load_initramfs V0 (build_test_cpio es) = Some V1 \<and>
     vfs_open V1 (SLASH # [0x69]) 1 = Some (Inr f, V2) \<and>
     vfs_read V2 f [0, 0] = (Inr (min (length [0, 0 :: u8]) (length (ce_data e))), take (length [0, 0 :: u8]) (ce_data e) @ drop (length (ce_data e)) [0, 0], V3)"
    by (rule initramfs_readable [OF p _ refl])
      (use e(1,3) a in \<open>simp_all add: DOT_def SLASH_def NAME_DEV_def clean_path_def utf8_lead_def\<close>)
  then show ?thesis unfolding es_def by (simp add: e(2) numeral_2_eq_2)
qed

text \<open>C40. A path of 70 bytes or more panics: the rest of a path after its mount point is copied into an array of 64 bytes
  without a check, although the system call accepts paths of up to 256 bytes.\<close>

theorem long_path_panics:
  assumes "vfs_init vfs_new = Some V" and "path = SLASH # rest" and "70 \<le> length path"
  shows "vfs_open V path flags = None \<and> vfs_stat V path = None"
proof -
  have "boot_mounts (v_mounts V)"
    using vfs_init_booted assms(1) by (metis booted_def option.inject)
  then have "mount_resolve (v_mounts V) path = None"
    using best_boot_mount [of "v_mounts V" path rest] assms(2,3)
    by (cases "lies_on (SLASH # NAME_DEV) path")
      (auto simp: mount_resolve_def boot_mounts_def root_mount_def dev_mount_def Let_def copy_slice_def MAX_MOUNT_PATH_def)
  then show ?thesis using assms(2) by (simp add: vfs_open_def vfs_stat_def resolve_path_def)
qed

theorem long_path_panics_witness: "\<exists>V. vfs_init vfs_new = Some V \<and> vfs_open V (SLASH # replicate 80 0x61) 1 = None"
proof -
  obtain V where V: "vfs_init vfs_new = Some V" using vfs_init_booted by blast
  have "vfs_open V (SLASH # replicate 80 0x61) 1 = None"
    by (rule long_path_panics [OF V refl, THEN conjunct1]) simp
  then show ?thesis using V by blast
qed

end
