(* ===== verification/Fd_Props.thy ===== *)
theory Fd_Props
  imports Fd_Calls Vfs_Boot
begin

text \<open>
  File descriptors that were closed: the slot is handed out again by the next open, but no call that
  looks it up in the handle table accepts it any more.
\<close>

text \<open>What a descriptor resolves to, in terms of the slot of the handle table.\<close>

lemma resolve_fd_slot:
  assumes "sc_current (io_sched st) = Some pid" and "pt_get (io_table st) pid = Some p" and "unat fd < 256"
  shows "resolve_fd st fd = (let e = ht_entries (pcb_handle_table p) ! unat fd
     in if he_active e \<and> he_generation e = 0 then Some (ucast (he_cap_id e)) else None)"
proof -
  have "unat (ucast fd :: u8) = unat fd"
    using assms(3) by (simp add: unsigned_ucast_eq take_bit_nat_eq_self)
  then show ?thesis using assms by (simp add: resolve_fd_def handle_resolve_def handle_check_def Let_def MAX_HANDLES_def)
qed

text \<open>Opening a file takes the first free slot and keeps its generation.\<close>

lemma open_takes_slot:
  assumes "sc_current (io_sched st) = Some pid" and "pt_get (io_table st) pid = Some p"
    and "length (ht_entries (pcb_handle_table p)) = MAX_HANDLES" and "unat (fd :: u64) < 256"
    and "\<not> he_active (ht_entries (pcb_handle_table p) ! unat fd)"
    and "\<forall>k < unat fd. he_active (ht_entries (pcb_handle_table p) ! k)"
    and "vfs_open (io_vfs st) path flags = Some (Inr g, V)"
  shows "\<exists>st'. syscall_open st path flags = Some (fd, st') \<and>
     resolve_fd st' fd = (if he_generation (ht_entries (pcb_handle_table p) ! unat fd) = 0 then Some g else None)"
proof -
  define e where "e = ht_entries (pcb_handle_table p) ! unat fd"
  define ht where "ht = (pcb_handle_table p)\<lparr>ht_entries := (ht_entries (pcb_handle_table p))[unat fd := e\<lparr>he_cap_id := ucast g, he_active := True\<rparr>],
     ht_count := ht_count (pcb_handle_table p) + 1\<rparr>"
  define st' where "st' = st\<lparr>io_vfs := V, io_table := pt_modify pid (\<lambda>p. p\<lparr>pcb_handle_table := ht\<rparr>) (io_table st)\<rparr>"
  have "find_slot (\<lambda>e. \<not> he_active e) (ht_entries (pcb_handle_table p)) = Some (unat fd)"
    using assms(3-6) by (simp add: find_slot_Some MAX_HANDLES_def)
  then have "handle_alloc (pcb_handle_table p) (ucast g) = (Inr (handle_pack (of_nat (unat fd)) (he_generation e)), ht)"
    by (simp add: handle_alloc_def e_def ht_def Let_def)
  moreover have "ucast (ucast fd :: u8) = fd"
    using assms(4) by (simp add: word_unat_eq_iff unsigned_ucast_eq unsigned_take_bit_eq take_bit_nat_eq_self)
  ultimately have "syscall_open st path flags = Some (fd, st')"
    using assms(1,2,7) by (simp add: syscall_open_def st'_def)
  moreover have same: "ucast (ucast g :: u64) = g" by (rule bit_word_eqI) (simp add: bit_simps)
  then have "resolve_fd st' fd = (if he_generation e = 0 then Some g else None)"
    using resolve_fd_slot [of st' pid "p\<lparr>pcb_handle_table := ht\<rparr>" fd] assms(1-4)
    by (simp add: st'_def pt_get_modify ht_def MAX_HANDLES_def same)
  ultimately show ?thesis by (simp add: e_def)
qed

text \<open>Whatever an open returns, it changes no generation.\<close>

lemma open_keeps_generation:
  assumes "sc_current (io_sched st) = Some pid" and "pt_get (io_table st) pid = Some p" and "syscall_open st path flags = Some (r, st')"
  shows "\<exists>p'. io_sched st' = io_sched st \<and> pt_get (io_table st') pid = Some p' \<and>
     (\<forall>k. he_generation (ht_entries (pcb_handle_table p') ! k) = he_generation (ht_entries (pcb_handle_table p) ! k))"
proof -
  have gen: "he_generation (es[k := (es ! k)\<lparr>he_cap_id := c, he_active := True\<rparr>] ! j) = he_generation (es ! j)" for es k j c
    by (cases "k < length es"; cases "j = k") (simp_all add: list_update_beyond)
  obtain o' V where o': "vfs_open (io_vfs st) path flags = Some (o', V)" using assms(3) by (auto simp: syscall_open_def split: bind_splits)
  show ?thesis
  proof (cases o')
    case (Inl x)
    then show ?thesis using assms o' by (auto simp: syscall_open_def)
  next
    case (Inr g)
    then show ?thesis
      using assms o' gen
      by (cases "find_slot (\<lambda>e. \<not> he_active e) (ht_entries (pcb_handle_table p))")
        (auto simp: syscall_open_def handle_alloc_def Let_def pt_get_modify)
  qed
qed

text \<open>C39. A descriptor that was closed is lost to its process: after the close and the next open, whatever that returns,
  reading, closing, asking for the status and listing fail on this number, and so does writing, except that writes to
  1 and 2 go to the serial port without looking at the handle table. The open returns this very number
  if it succeeds and every lower number is in use. Descriptors are always resolved with generation
  zero, and closing has raised the generation of the slot.\<close>

theorem closed_fd_is_lost:
  assumes "sc_current (io_sched st) = Some pid" and "pt_get (io_table st) pid = Some p"
    and "length (ht_entries (pcb_handle_table p)) = MAX_HANDLES" and "unat fd < 256"
    and "resolve_fd st fd = Some f" and "syscall_close st fd = (r, st1)" and "syscall_open st1 path flags = Some (fd', st2)"
  shows "(\<forall>buf. fst (syscall_read st2 fd buf) = RAX_ERROR) \<and> fst (syscall_close st2 fd) = RAX_ERROR \<and>
     fst (syscall_fstat st2 fd) = RAX_ERROR \<and> (\<forall>buf. fst (syscall_getdents st2 fd buf) = RAX_ERROR) \<and>
     (\<forall>data. syscall_vfs_write st2 fd data = Some (RAX_ERROR, st2)) \<and>
     (\<forall>mem ptr len. fd \<noteq> 1 \<and> fd \<noteq> 2 \<longrightarrow> sys_write mem st2 fd ptr len = Some (RAX_ERROR, st2)) \<and>
     ((\<forall>k < unat fd. he_active (ht_entries (pcb_handle_table p) ! k)) \<and>
      (\<exists>g V. vfs_open (io_vfs st1) path flags = Some (Inr g, V)) \<longrightarrow> fd' = fd)"
proof -
  define e where "e = ht_entries (pcb_handle_table p) ! unat fd"
  have e: "he_active e" "he_generation e = 0"
    using resolve_fd_slot [OF assms(1,2,4)] assms(5) by (auto simp: e_def Let_def split: if_splits)
  have slot: "unat (ucast fd :: u8) = unat fd" using assms(4) by (simp add: unsigned_ucast_eq take_bit_nat_eq_self)
  define p1 where "p1 = drop_handle fd p"
  have p1: "ht_entries (pcb_handle_table p1) = (ht_entries (pcb_handle_table p))[unat fd := e\<lparr>he_active := False, he_cap_id := 0, he_generation := 1\<rparr>]"
    using e assms(4) slot by (simp add: p1_def drop_handle_def handle_release_def handle_check_def Let_def MAX_HANDLES_def e_def [symmetric])
  have st1: "io_sched st1 = io_sched st" "pt_get (io_table st1) pid = Some p1"
    using assms(1,2,5,6) by (auto simp: syscall_close_def Let_def pt_get_modify p1_def split: prod.splits)
  have len: "unat fd < length (ht_entries (pcb_handle_table p))" using assms(3,4) by (simp add: MAX_HANDLES_def)
  have cur: "sc_current (io_sched st1) = Some pid" using assms(1) st1(1) by simp
  obtain p2 where p2: "io_sched st2 = io_sched st1" "pt_get (io_table st2) pid = Some p2"
    "he_generation (ht_entries (pcb_handle_table p2) ! unat fd) = he_generation (ht_entries (pcb_handle_table p1) ! unat fd)"
    using open_keeps_generation [OF cur st1(2) assms(7)] by blast
  have "resolve_fd st2 fd = None"
    using resolve_fd_slot [of st2 pid p2 fd] p2 cur p1 len assms(4) by simp
  moreover have "fd' = fd" if "\<forall>k < unat fd. he_active (ht_entries (pcb_handle_table p) ! k)" "vfs_open (io_vfs st1) path flags = Some (Inr g, V)" for g V
    using open_takes_slot [of st1 pid p1 fd path flags g V] cur st1(2) len assms(3,4,7) that by (simp add: p1)
  ultimately show ?thesis
    by (auto simp: syscall_read_def syscall_close_def syscall_fstat_def syscall_getdents_def syscall_vfs_write_def sys_write_def)
qed

text \<open>The first process, with one file open at descriptor 0.\<close>

definition demo_io :: io_state where
  "demo_io = \<lparr>io_sched = sched_new\<lparr>sc_current := Some 1\<rparr>,
     io_table = pt_new\<lparr>pt_processes := fmupd 1 ((pcb_new 1 intent_default [] 0 OneForOne 0 0)\<lparr>pcb_handle_table :=
       handle_table_new\<lparr>ht_entries := (replicate MAX_HANDLES handle_entry_empty)[0 := \<lparr>he_cap_id = 1, he_active = True, he_generation = 0\<rparr>]\<rparr>\<rparr>) fmempty\<rparr>,
     io_vfs = demo_vfs\<lparr>v_mounts := mount_table_new\<lparr>mt_entries := [root_mount\<lparr>me_root_inode := 7\<rparr>]\<rparr>\<rparr>, io_serial = []\<rparr>"

lemma demo_open_root:
  assumes "find_slot (\<lambda>e. \<not> of_active e) (tl (oft_entries (v_open V))) \<noteq> None"
    and "v_mounts V = mount_table_new\<lparr>mt_entries := [root_mount\<lparr>me_root_inode := 7\<rparr>]\<rparr>" and "inode_get (v_inodes V) 7 \<noteq> None"
  shows "\<exists>g V'. vfs_open V [SLASH] 1 = Some (Inr g, V')"
proof -
  have "resolve_path V [SLASH] = Some (Inr 7)"
    using assms(2) by (simp add: resolve_path_def mount_resolve_def root_mount_def mount_path_def lies_on_def mount_get_def MAX_MOUNTS_def Let_def)
  then show ?thesis using assms(1,3) by (auto simp: vfs_open_def open_file_alloc_def)
qed

theorem closed_fd_is_lost_witness:
  "\<exists>st2. syscall_open (snd (syscall_close demo_io 0)) [SLASH] 1 = Some (0, st2) \<and> fst (syscall_read st2 0 [0, 0, 0]) = RAX_ERROR \<and>
     fst (syscall_close st2 0) = RAX_ERROR"
proof -
  define p where "p = (pcb_new 1 intent_default [] 0 OneForOne 0 0)\<lparr>pcb_handle_table :=
    handle_table_new\<lparr>ht_entries := (replicate MAX_HANDLES handle_entry_empty)[0 := \<lparr>he_cap_id = 1, he_active = True, he_generation = 0\<rparr>]\<rparr>\<rparr>"
  have st: "sc_current (io_sched demo_io) = Some 1" "pt_get (io_table demo_io) 1 = Some p"
    by (simp_all add: demo_io_def p_def)
  have ht: "length (ht_entries (pcb_handle_table p)) = MAX_HANDLES" by (simp add: p_def)
  have f: "resolve_fd demo_io 0 = Some 1" using resolve_fd_slot [OF st, of 0] by (simp add: p_def MAX_HANDLES_def)
  define V1 where "V1 = io_vfs (snd (syscall_close demo_io 0))"
  have V1: "V1 = snd (vfs_close (io_vfs demo_io) 1)" using f by (simp add: V1_def syscall_close_def Let_def split: prod.split)
  have "inode_get (v_inodes (io_vfs demo_io)) 7 \<noteq> None" using demo_vfs_facts(3) by (simp add: demo_io_def demo_open_file_def)
  then have keep: "inode_get (v_inodes V1) 7 \<noteq> None" "v_mounts V1 = mount_table_new\<lparr>mt_entries := [root_mount\<lparr>me_root_inode := 7\<rparr>]\<rparr>"
    unfolding V1 by (simp_all add: vfs_close_def demo_io_def split: prod.split sum.split)
  have "oft_entries (v_open V1) = (replicate MAX_OPEN_FILES open_file_empty)[1 := demo_open_file\<lparr>of_ref_count := 0, of_active := False, of_inode_id := 0\<rparr>]"
    unfolding V1 by (simp add: vfs_close_def demo_io_def demo_vfs_def open_file_release_def MAX_OPEN_FILES_def demo_open_file_def Let_def INODE_INVALID_def)
  then have "\<not> of_active (tl (oft_entries (v_open V1)) ! 0)" "0 < length (tl (oft_entries (v_open V1)))"
    by (simp_all add: nth_tl MAX_OPEN_FILES_def)
  then have "find_slot (\<lambda>e. \<not> of_active e) (tl (oft_entries (v_open V1))) \<noteq> None"
    by (metis find_slot_None nth_mem)
  then obtain g V' where "vfs_open V1 [SLASH] 1 = Some (Inr g, V')" using demo_open_root [OF _ keep(2,1)] by blast
  then have open1: "vfs_open (io_vfs (snd (syscall_close demo_io 0))) [SLASH] 1 = Some (Inr g, V')" by (simp add: V1_def)
  then have "syscall_open (snd (syscall_close demo_io 0)) [SLASH] 1 \<noteq> None" by (simp add: syscall_open_def Let_def)
  then obtain fd st2 where o2: "syscall_open (snd (syscall_close demo_io 0)) [SLASH] 1 = Some (fd, st2)" by auto
  have close: "syscall_close demo_io 0 = (fst (syscall_close demo_io 0), snd (syscall_close demo_io 0))" by simp
  have "unat (0 :: u64) < 256" by simp
  from closed_fd_is_lost [OF st ht this f close o2] open1 o2 show ?thesis by auto
qed

end
