(* ===== verification/Spec2Isabelle.thy ===== *)
theory Spec2Isabelle
  imports Capability_History Bus_Order Net_Tcp Frame_History Process_Props Fd_Props
begin

text \<open>
  Fabric OS is a kernel in Rust (\<^verbatim>\<open>src/kernel\<close>, with shared types in \<^verbatim>\<open>src/fabric_types\<close>). Processes are
  supervised in a tree and scheduled by priority; they hold capabilities, which they may delegate;
  they talk over a message bus that checks and logs every message; they open files and sockets
  through handles. This development translates that core into executable definitions, one theory or
  group of theories per component, and proves what each component promises.

  \<^bold>\<open>Conventions.\<close> The model is of the release build: unsigned arithmetic wraps around (words of the
  width of the source) and debug assertions do not exist. A computation that can panic or run
  forever has type \<open>'a run\<close>, an option whose \<open>None\<close> is the panic or the endless loop; indexing
  and slicing of arrays go through \<open>index\<close>, \<open>store_at\<close>, \<open>slice_of\<close> and \<open>copy_slice\<close>, which panic where
  Rust does. Errors are values of a sum type. Kernel state is passed explicitly; a static behind a
  lock is a field of a record, and a function that locks it is one step. Hashes and message
  authentication codes are parameters, with collisions named as such where a claim excludes them.

  \<^bold>\<open>Shared vocabulary.\<close> \<open>Prelude\<close> (words, runs, byte encodings, slots), \<open>Fabric_Types\<close> (identifiers,
  permissions, messages and their bytes), \<open>Ring_Buffer\<close> (rings as lists, and the contracts \<open>fifo\<close>,
  \<open>guarded_fifo\<close>, \<open>bounded_fifo\<close>, \<open>lossy_fifo\<close> with what they give for histories), \<open>Fixed_Map\<close>
  (\<^verbatim>\<open>capability/slab.rs\<close>: open addressing with backward-shift deletion, shown to be a finite map and
  to satisfy the contract \<open>u64_map\<close> that the capability engine is proved against).

  \<^bold>\<open>Capabilities\<close> (\<^verbatim>\<open>kernel/src/capability\<close>). \<open>Capability\<close> has the nonce and budget trackers and the store
  with create, delegate, validate, revoke and tick. \<open>Capability_Tree\<close> reads the child lists as a
  forest, \<open>Capability_Store\<close> has the invariant, the effect of each operation, and that authority never
  widens along delegation; \<open>Capability_History\<close> has replays and budgets over whole histories.

  \<^bold>\<open>Message bus\<close> (\<^verbatim>\<open>kernel/src/bus\<close>). \<open>Bus_Queues\<close> (inboxes and monitor taps, interpretations of the queue
  contracts), \<open>Bus_Arena\<close> (payload ring and sequence numbers), \<open>Bus_Audit\<close> (hash-chained log),
  \<open>Bus_Router\<close> (register, send, receive, tick), \<open>Bus_Delivery\<close> (what one send does), \<open>Bus_Order\<close>
  (histories: order, no duplicates, an intact log).

  \<^bold>\<open>Network\<close> (\<^verbatim>\<open>kernel/src/network\<close>). \<open>Net_Addr\<close>, \<open>Net_Checksum\<close>, \<open>Net_Packets\<close> (wire formats and their
  round trips), \<open>Net_Buffers\<close> (byte streams and the loopback queue), \<open>Net_Timer\<close> (retransmission),
  \<open>Net_Socket\<close> (the table), \<open>Net_Stack\<close> and \<open>Net_Ops\<close> (routing, ARP, delivery, the socket operations
  and the poll loop), \<open>Net_Sound\<close> (no panic from any input, the TCP state diagram, polls that
  end), \<open>Net_Udp\<close> and \<open>Net_Tcp\<close> (datagrams from send to receive, and connections from handshake to
  repeated transfers, over a loopback device that is idle at the start).

  \<^bold>\<open>Physical memory\<close> (\<^verbatim>\<open>kernel/src/memory/frame.rs\<close>). \<open>Frame_Alloc\<close> is the buddy allocator with its
  bitmap and its lists that run through the free frames themselves, over an explicit memory.
  \<open>Frame_Blocks\<close>, \<open>Frame_Lists\<close>, \<open>Frame_Sound\<close> and \<open>Frame_History\<close> show that blocks held are disjoint
  and that a request is refused only if no aligned block is free.

  \<^bold>\<open>Processes\<close> (\<^verbatim>\<open>kernel/src/process\<close>, \<^verbatim>\<open>handle\<close>, \<^verbatim>\<open>x86/idt.rs\<close>). \<open>Handle_Table\<close> (with the contract
  \<open>key_store\<close>), \<open>Process_Table\<close>, \<open>Scheduler\<close>, \<open>Supervisor\<close>, \<open>Dispatch\<close> (the timer interrupt and its context
  switch) and \<open>Process_Ops\<close> (spawn, terminate, block, unblock, crash, tick on the state of all
  components they touch: table, scheduler, processor, sockets, bus, capabilities). \<open>Sched_Inv\<close>,
  \<open>Process_Sound\<close>, \<open>Process_Switch\<close>, \<open>Process_History\<close> and \<open>Process_Props\<close> have the invariants over all
  histories, the choice of the next process, restarts, turns, and what termination cleans up.

  \<^bold>\<open>Files\<close> (\<^verbatim>\<open>kernel/src/vfs\<close>, \<^verbatim>\<open>x86/syscall.rs\<close>). \<open>Vfs_Tables\<close> (inodes, open files, mounts), \<open>Vfs_Files\<close>
  (tmpfs and devfs), \<open>Cpio\<close> and \<open>Cpio_Sound\<close> (the archive format: the parser is total, and inverts
  the builder), \<open>Vfs_Ops\<close> (paths, open, read, write, close, status, directories, the start and the
  loading of the archive), \<open>Vfs_Sound\<close> (reads and writes refine a growing byte array), \<open>Vfs_Boot\<close>
  (from the start to the bytes of a file of an archive that the parser accepts; long paths panic),
  \<open>Fd_Calls\<close> (descriptors and the system calls on files) and \<open>Fd_Props\<close> (a closed descriptor is not
  resolved again even when open returns its number).

  \<^bold>\<open>How the parts meet.\<close> The capability engine and the bus keep their tables in \<open>Fixed_Map\<close> or arrays and
  are reached from processes through \<open>Process_Ops\<close>, which also releases the sockets and the inbox of a
  process that is terminated. Descriptors go through the handle table in the control block of
  the current process to the open file table. The bus validates and orders messages; the check of the
  governance rules before the router is not part of the model.

  \<^bold>\<open>Bounds and loops.\<close> Loops over data are structural recursion or have a measure (the archive parser
  moves by at least 110 bytes per entry). Loops that follow links without a bound in the source
  (probing, revocation, crash escalation) are partial functions, and the properties that rest on
  them state that they return. The poll loop takes the readings of the clock as a sequence and ends
  at once for a timeout of zero and else once the clock has advanced by the timeout. The bounds in properties are those of the source:
  identifiers that do not wrap around in a history, 65536 generations of a socket slot (a bound on the
  sockets that a history can create in between), 1024 inodes, of
  which five are taken at the start. Lengths of byte vectors are natural numbers: that the heap
  can run out is not modelled.

  \<^bold>\<open>Not modelled.\<close> Governance rules (\<^verbatim>\<open>governance\<close>), page tables, address spaces and program loading
  (\<^verbatim>\<open>memory/mapper.rs\<close>, \<^verbatim>\<open>address_space\<close>, \<^verbatim>\<open>elf\<close>: raw pointers into physical memory), the lock-order check
  (debug builds only), TLS, DNS, HTTP and the cryptographic functions, device drivers (\<^verbatim>\<open>drivers\<close>,
  \<^verbatim>\<open>virtio\<close>, \<^verbatim>\<open>hal\<close>, \<^verbatim>\<open>pci\<close>), the descriptor tables and interrupt controllers of \<^verbatim>\<open>x86\<close>, virtual machines
  (\<^verbatim>\<open>vmx\<close>), display, windows and keyboard, the council, game streaming, the script engine (foreign
  code), the boot sequence of \<^verbatim>\<open>main.rs\<close>, and the in-kernel tests (\<^verbatim>\<open>stress\<close>). Of the system calls, those on
  sockets, display and windows are left out. Contention is not modelled: a \<^verbatim>\<open>try_lock\<close> succeeds, as on
  one processor outside interrupts it does.
\<close>

end
